(* ===== verification/BMesh_Prelude.thy ===== *)
theory BMesh_Prelude
  imports Main "HOL-Library.Word" "HOL-Library.Monad_Syntax" "HOL-Library.List_Lexorder"
begin

text \<open>
  Shared vocabulary of the development: the machine types of the firmware, C
  character buffers, the string functions of the C library the sources call,
  little-endian words, and the generic list lemmas the components share.

  A C array \<open>char buf[N]\<close> or \<open>uint8_t buf[N]\<close> is a list of \<open>N\<close> bytes; a
  function that writes through a pointer returns the buffer it leaves behind, of
  the same length. A \<open>const char *\<close> argument is the buffer it points into; the C
  string it denotes is \<open>cstr\<close> of that buffer. \<open>size_t\<close> offsets are
  \<open>nat\<close>: every offset of the sources is bounded by a buffer size.
\<close>

unbundle bit_operations_syntax

type_synonym u8 = "8 word"
type_synonym u16 = "16 word"
type_synonym u32 = "32 word"
type_synonym bytes = "u8 list"

named_theorems buf_simps \<open>rewriting of C buffers and C strings\<close>
named_theorems wf_intros \<open>every operation keeps the size of the buffers it writes\<close>

subsection \<open>C strings\<close>

text \<open>A string literal of the source, without its terminator.\<close>

definition lit :: "string \<Rightarrow> bytes" where
  "lit s = map of_char s"

text \<open>The C string held by a buffer: the bytes before the first NUL.\<close>

definition cstr :: "bytes \<Rightarrow> bytes" where
  "cstr b = takeWhile (\<lambda>c. c \<noteq> 0) b"

definition strlen :: "bytes \<Rightarrow> nat" where
  "strlen b = length (cstr b)"

text \<open>\<open>strcmp(a, b) == 0\<close>, \<open>strcmp(a, b) < 0\<close> and \<open>strncmp(a, b, n) == 0\<close>.\<close>

definition streq :: "bytes \<Rightarrow> bytes \<Rightarrow> bool" where
  "streq a b \<longleftrightarrow> cstr a = cstr b"

definition strless :: "bytes \<Rightarrow> bytes \<Rightarrow> bool" where
  "strless a b \<longleftrightarrow> cstr a < cstr b"

definition strneq :: "bytes \<Rightarrow> bytes \<Rightarrow> nat \<Rightarrow> bool" where
  "strneq a b n \<longleftrightarrow> take n (cstr a) = take n (cstr b)"

text \<open>\<open>buf[0] == 0\<close>: the buffer holds the empty string.\<close>

definition str_empty :: "bytes \<Rightarrow> bool" where
  "str_empty b \<longleftrightarrow> cstr b = []"

definition zeros :: "nat \<Rightarrow> bytes" where
  "zeros n = replicate n 0"

text \<open>\<open>memcpy(&buf[off], data, len)\<close>.\<close>

definition blit :: "bytes \<Rightarrow> nat \<Rightarrow> bytes \<Rightarrow> bytes" where
  "blit buf off d = take off buf @ d @ drop (off + length d) buf"

text \<open>A byte of a buffer; the sources never read past the terminator.\<close>

definition at :: "bytes \<Rightarrow> nat \<Rightarrow> u8" where
  "at b i = (if i < length b then b ! i else 0)"

text \<open>A printable ASCII byte, the only ones \<open>copy_field\<close> keeps.\<close>

definition printable :: "u8 \<Rightarrow> bool" where
  "printable c \<longleftrightarrow> 32 \<le> c \<and> c \<le> 126"

text \<open>A string that \<open>copy_field\<close> stores unchanged in a buffer of \<open>n\<close> bytes.\<close>

definition clean_str :: "nat \<Rightarrow> bytes \<Rightarrow> bool" where
  "clean_str n s \<longleftrightarrow> length s < n \<and> list_all printable s"

lemma printable_nonzero [simp]: "printable c \<Longrightarrow> c \<noteq> 0"
  by (auto simp: printable_def)

lemma cstr_Nil [simp]: "cstr [] = []"
  by (simp add: cstr_def)

lemma cstr_Cons: "cstr (c # b) = (if c = 0 then [] else c # cstr b)"
  by (simp add: cstr_def)

lemma cstr_Cons0 [simp]: "cstr (0 # b) = []"
  by (simp add: cstr_def)

lemma cstr_nonzero [simp]: "0 \<notin> set (cstr b)"
  by (auto simp: cstr_def dest: set_takeWhileD)

lemma cstr_id [simp]: "0 \<notin> set b \<Longrightarrow> cstr b = b"
  by (auto simp: cstr_def takeWhile_eq_all_conv)

lemma cstr_cstr [simp]: "cstr (cstr b) = cstr b"
  by simp

lemma cstr_append0 [simp]: "0 \<notin> set w \<Longrightarrow> cstr (w @ 0 # r) = w"
  unfolding cstr_def by (subst takeWhile_append2) auto

lemma cstr_append: "cstr (w @ r) = (if 0 \<in> set w then cstr w else w @ cstr r)"
  by (induction w) (auto simp: cstr_Cons)

lemma length_cstr_le [simp]: "length (cstr b) \<le> length b"
  by (simp add: cstr_def length_takeWhile_le)

lemma cstr_zeros [simp]: "cstr (zeros n) = []"
  by (cases n) (simp_all add: zeros_def)

lemma cstr_append_zeros: "cstr (w @ zeros n) = cstr w"
  by (auto simp: cstr_append)

lemma length_zeros [simp]: "length (zeros n) = n"
  by (simp add: zeros_def)

lemma zeros_Nil [simp]: "zeros n = [] \<longleftrightarrow> n = 0"
  by (simp add: zeros_def)

lemma length_lit [simp]: "length (lit s) = length s"
  by (simp add: lit_def)

lemma at_cstr: "i < length (cstr b) \<Longrightarrow> at b i = cstr b ! i \<and> at b i \<noteq> 0"
proof -
  assume i: "i < length (cstr b)"
  then have "i < length b" using length_cstr_le le_less_trans less_le_trans by blast
  moreover have "cstr b ! i = b ! i" using i by (simp add: cstr_def takeWhile_nth)
  moreover have "cstr b ! i \<noteq> 0" using i nth_mem [of i "cstr b"] by (metis cstr_nonzero)
  ultimately show ?thesis by (simp add: at_def)
qed

lemma at_strlen: "at b (length (cstr b)) = 0"
proof (cases "length (cstr b) < length b")
  case True
  then show ?thesis
    using nth_length_takeWhile [of "\<lambda>c. c \<noteq> 0" b] by (simp add: at_def cstr_def)
qed (simp add: at_def)

lemma length_blit [simp]: "off + length d \<le> length buf \<Longrightarrow> length (blit buf off d) = length buf"
  by (simp add: blit_def)

lemma cstr_blit0: "0 \<notin> set d \<Longrightarrow> cstr (blit (zeros n) 0 d) = d"
  by (simp add: blit_def zeros_def cstr_append) (simp flip: zeros_def)

lemma str_empty_conv: "str_empty b \<longleftrightarrow> at b 0 = 0"
  by (cases b) (auto simp: str_empty_def at_def cstr_Cons)

lemma streq_sym: "streq a b \<longleftrightarrow> streq b a"
  by (auto simp: streq_def)

lemma clean_str_nonzero: "clean_str n s \<Longrightarrow> 0 \<notin> set s"
  by (auto simp: clean_str_def list_all_iff dest: printable_nonzero)

lemma clean_str_cstr [simp]: "clean_str n s \<Longrightarrow> cstr s = s"
  by (simp add: clean_str_nonzero)

lemma filter_printable_clean [simp]: "clean_str n s \<Longrightarrow> filter printable s = s"
  by (simp add: clean_str_def list_all_iff filter_True)

lemmas cstr_simps = cstr_Cons cstr_append

declare strlen_def [buf_simps] streq_def [buf_simps] str_empty_def [buf_simps]

lemma cstr_take: "take (length (cstr b)) b = cstr b"
  by (induction b) (auto simp: cstr_Cons)

lemma take_cstr_take: "n = length (cstr b) \<Longrightarrow> take n b = cstr b"
  by (simp add: cstr_take)

text \<open>A string in a zeroed buffer of \<open>n\<close> bytes.\<close>

definition pad :: "nat \<Rightarrow> bytes \<Rightarrow> bytes" where
  "pad n s = s @ zeros (n - length s)"

lemma pad_Nil [simp]: "pad n [] = zeros n"
  by (simp add: pad_def)

lemma length_pad [simp]: "length s \<le> n \<Longrightarrow> length (pad n s) = n"
  by (simp add: pad_def)

lemma blit_zeros_pad: "length s < n \<Longrightarrow> (blit (zeros n) 0 s)[length s := 0] = pad n s"
  by (cases "n - length s") (simp_all add: blit_def pad_def zeros_def list_update_append)

lemma cstr_pad: "0 \<notin> set s \<Longrightarrow> cstr (pad n s) = s"
  by (simp add: pad_def cstr_append_zeros)

lemma take_blit0: "length d \<le> length b \<Longrightarrow> k \<le> length d \<Longrightarrow> take k (blit b 0 d) = take k d"
  by (simp add: blit_def)

lemma drop_add: "drop (a + b) p = drop b (drop a p)"
  by (simp add: add.commute)

subsection \<open>Little-endian words\<close>

definition le32 :: "u32 \<Rightarrow> bytes" where
  "le32 v = [ucast v, ucast (drop_bit 8 v), ucast (drop_bit 16 v), ucast (drop_bit 24 v)]"

text \<open>\<open>b0 | b1 << 8 | b2 << 16 | b3 << 24\<close>.\<close>

definition of_le32 :: "u8 \<Rightarrow> u8 \<Rightarrow> u8 \<Rightarrow> u8 \<Rightarrow> u32" where
  "of_le32 b0 b1 b2 b3 = ucast b0 OR push_bit 8 (ucast b1) OR push_bit 16 (ucast b2) OR push_bit 24 (ucast b3)"

lemma length_le32 [simp]: "length (le32 v) = 4"
  by (simp add: le32_def)

lemma of_le32_le32: "of_le32 (le32 v ! 0) (le32 v ! 1) (le32 v ! 2) (le32 v ! 3) = v"
proof (rule bit_word_eqI)
  fix n assume n: "n < LENGTH(32)"
  have "n < 8 \<or> (8 \<le> n \<and> n < 16) \<or> (16 \<le> n \<and> n < 24) \<or> 24 \<le> n" by arith
  then show "bit (of_le32 (le32 v ! 0) (le32 v ! 1) (le32 v ! 2) (le32 v ! 3)) n = bit v n"
    using n by (auto simp: of_le32_def le32_def bit_simps dest: bit_imp_le_length)
qed

lemma unat_of_nat_u8 [simp]: "n < 256 \<Longrightarrow> unat (of_nat n :: u8) = n"
  by (simp add: unat_of_nat)

lemma of_nat_u8_0: "n < 256 \<Longrightarrow> (of_nat n :: u8) = 0 \<longleftrightarrow> n = 0"
  by (simp flip: unat_eq_zero)

lemma unat_u8_less: "unat (x :: u8) < 256"
  using unsigned_less [of x] by simp

lemma uint_u8_bounds: "0 \<le> uint (x :: u8)" "uint (x :: u8) \<le> 255"
  using uint_lt2p [of x] by simp_all

subsection \<open>Option-valued computations\<close>

text \<open>What an option-valued computation returns, if it returns: the rules follow its text.\<close>

lemma pred_option_bindI:
  "(\<And>x y. m = Some (x, y) \<Longrightarrow> pred_option Q (f x y)) \<Longrightarrow> pred_option Q (Option.bind m (\<lambda>(x, y). f x y))"
  by (cases m) auto

lemma pred_option_ifI:
  "(b \<Longrightarrow> pred_option Q m) \<Longrightarrow> (\<not> b \<Longrightarrow> pred_option Q n) \<Longrightarrow> pred_option Q (if b then m else n)"
  by simp

lemma pred_option_SomeI: "Q x \<Longrightarrow> pred_option Q (Some x)"
  by simp

lemma pred_option_NoneI: "pred_option Q None"
  by simp

lemmas pred_option_intros = pred_option_bindI pred_option_ifI pred_option_NoneI pred_option_SomeI

lemma pred_optionD: "pred_option Q m \<Longrightarrow> m = Some x \<Longrightarrow> Q x"
  by simp

subsection \<open>Searching an array\<close>

text \<open>
  The loop \<open>for (i = 0; i < n; i++) if (P(a[i])) return i;\<close>: the first index, or
  None where the source returns \<open>SIZE_MAX\<close>, -1 or NULL.
\<close>

fun find_index :: "('a \<Rightarrow> bool) \<Rightarrow> 'a list \<Rightarrow> nat option" where
  "find_index P [] = None"
| "find_index P (x # xs) = (if P x then Some 0 else map_option Suc (find_index P xs))"

lemma find_index_None [simp]: "find_index P xs = None \<longleftrightarrow> (\<forall>x\<in>set xs. \<not> P x)"
  by (induction xs) auto

lemma find_index_SomeD:
  "find_index P xs = Some i \<Longrightarrow> i < length xs \<and> P (xs ! i) \<and> (\<forall>j<i. \<not> P (xs ! j))"
proof (induction xs arbitrary: i)
  case (Cons x xs)
  show ?case
  proof (cases "P x")
    case False
    with Cons.prems obtain k where k: "find_index P xs = Some k" "i = Suc k" by auto
    with Cons.IH [OF k(1)] False show ?thesis by (auto simp: less_Suc_eq_0_disj)
  qed (use Cons.prems in auto)
qed simp

lemma find_index_Some_iff:
  "find_index P xs = Some i \<longleftrightarrow> i < length xs \<and> P (xs ! i) \<and> (\<forall>j<i. \<not> P (xs ! j))"
proof
  assume R: "i < length xs \<and> P (xs ! i) \<and> (\<forall>j<i. \<not> P (xs ! j))"
  then have "xs ! i \<in> set xs" "P (xs ! i)" by simp_all
  then have "find_index P xs \<noteq> None" by (subst find_index_None) blast
  then obtain k where k: "find_index P xs = Some k" by blast
  have "\<not> i < k" "\<not> k < i" using find_index_SomeD [OF k] R by auto
  then have "i = k" by simp
  then show "find_index P xs = Some i" using k by simp
qed (rule find_index_SomeD)

lemma find_index_map: "find_index P (map f xs) = find_index (\<lambda>x. P (f x)) xs"
  by (induction xs) auto

lemma find_index_unique:
  assumes "i < length xs" "P (xs ! i)" "\<And>j. j < length xs \<Longrightarrow> P (xs ! j) \<Longrightarrow> j = i"
  shows "find_index P xs = Some i"
proof -
  have "\<not> P (xs ! j)" if "j < i" for j
    using assms(1) assms(3) [of j] that by auto
  with assms(1,2) show ?thesis by (simp add: find_index_Some_iff)
qed

text \<open>Counting the array elements that satisfy a test.\<close>

definition count_if :: "('a \<Rightarrow> bool) \<Rightarrow> 'a list \<Rightarrow> nat" where
  "count_if P xs = length (filter P xs)"

lemma count_if_le [simp]: "count_if P xs \<le> length xs"
  by (simp add: count_if_def)

lemma count_if_update:
  "i < length xs \<Longrightarrow> \<not> P (xs ! i) \<Longrightarrow> P v \<Longrightarrow> count_if P (xs[i := v]) = Suc (count_if P xs)"
proof -
  assume i: "i < length xs" "\<not> P (xs ! i)" "P v"
  have "xs = take i xs @ xs ! i # drop (Suc i) xs" using i(1) by (rule id_take_nth_drop)
  then have "count_if P xs = count_if P (take i xs) + count_if P (drop (Suc i) xs)"
    using i(2) unfolding count_if_def by (metis (no_types, lifting) filter.simps(2) filter_append length_append)
  moreover have "xs[i := v] = take i xs @ v # drop (Suc i) xs" using i(1) by (rule upd_conv_take_nth_drop)
  ultimately show ?thesis using i(3) by (simp add: count_if_def)
qed

lemma set_list_update_cases: "y \<in> set (xs[i := v]) \<Longrightarrow> y = v \<or> y \<in> set xs"
  using set_update_subset_insert [of xs i v] by blast

end
