(* ===== verification/String_Utils.thy ===== *)
theory String_Utils
  imports BMesh_Prelude
begin

text \<open>
  The string helpers of \<open>src/utils/string_utils.c\<close>: the bounded, filtering field
  copies every component uses, the thread key, and the form decoder of the portal.
  (\<open>mesh_protocol.c\<close>, \<open>route_table.c\<close>, \<open>roster.c\<close>,
  \<open>replay_protection.c\<close> and \<open>node_config.c\<close> hold static copies of
  \<open>copy_field\<close> with the same body; they are all modelled by the one here.)
\<close>

subsection \<open>Bounded copies\<close>

text \<open>
  The shared loop: \<open>f\<close> says which byte, if any, is written for the byte read. The
  loop ends at the NUL of the source or when only the terminator's place is left.
\<close>

fun copy_loop :: "(u8 \<Rightarrow> u8 option) \<Rightarrow> bytes \<Rightarrow> bytes \<Rightarrow> nat \<Rightarrow> bytes" where
  "copy_loop f dst [] w = dst[w := 0]"
| "copy_loop f dst (c # src) w =
    (if c \<noteq> 0 \<and> w < length dst - 1
     then (case f c of
             Some c' \<Rightarrow> copy_loop f (dst[w := c']) src (Suc w)
           | None \<Rightarrow> copy_loop f dst src w)
     else dst[w := 0])"

definition copy_field :: "bytes \<Rightarrow> bytes \<Rightarrow> bytes" where
  "copy_field destination source =
    (if length destination = 0 then destination
     else copy_loop (\<lambda>c. if 32 \<le> c \<and> c \<le> 126 then Some c else None) destination source 0)"

definition copy_field_no_delims :: "bytes \<Rightarrow> bytes \<Rightarrow> bytes" where
  "copy_field_no_delims destination source =
    (if length destination = 0 then destination
     else copy_loop (\<lambda>c. if 32 \<le> c \<and> c \<le> 126 \<and> c \<noteq> 124 \<and> c \<noteq> 126 then Some c else None)
            destination source 0)"

definition compute_thread_key :: "bytes \<Rightarrow> bytes \<Rightarrow> bytes \<Rightarrow> bytes" where
  "compute_thread_key out source destination =
    (if length out = 0 then out
     else if streq destination (lit ''ALL'') then copy_field out (lit ''ANNOUNCEMENTS'')
     else copy_field out source)"

subsection \<open>Form decoding\<close>

definition isxdigit :: "u8 \<Rightarrow> bool" where
  "isxdigit c \<longleftrightarrow> (48 \<le> c \<and> c \<le> 57) \<or> (97 \<le> c \<and> c \<le> 102) \<or> (65 \<le> c \<and> c \<le> 70)"

definition hex_value :: "u8 \<Rightarrow> int" where
  "hex_value c =
    (if 48 \<le> c \<and> c \<le> 57 then uint c - 48
     else if 97 \<le> c \<and> c \<le> 102 then uint c - 97 + 10
     else if 65 \<le> c \<and> c \<le> 70 then uint c - 65 + 10
     else -1)"

definition hex_byte :: "u8 \<Rightarrow> u8 \<Rightarrow> u8" where
  "hex_byte a b = word_of_int (push_bit 4 (hex_value a) OR hex_value b)"

text \<open>In place: \<open>r\<close> is the read pointer, \<open>w\<close> the write pointer.\<close>

function url_decode_loop :: "bytes \<Rightarrow> nat \<Rightarrow> nat \<Rightarrow> bytes" where
  "url_decode_loop v r w =
    (if at v r = 0 then v[w := 0]
     else if at v r = 43 then url_decode_loop (v[w := 32]) (r + 1) (w + 1)
     else if at v r = 37 \<and> isxdigit (at v (r + 1)) \<and> isxdigit (at v (r + 2))
       then url_decode_loop (v[w := hex_byte (at v (r + 1)) (at v (r + 2))]) (r + 3) (w + 1)
     else url_decode_loop (v[w := at v r]) (r + 1) (w + 1))"
  by pat_completeness auto
termination
  by (relation "measure (\<lambda>(v, r, w). length v - r)") (auto simp: at_def split: if_splits)

declare url_decode_loop.simps [simp del]

definition url_decode :: "bytes \<Rightarrow> bytes" where
  "url_decode v = url_decode_loop v 0 0"

text \<open>\<open>strchr\<close>: the suffix from the first occurrence on.\<close>

definition strchr :: "bytes \<Rightarrow> u8 \<Rightarrow> bytes option" where
  "strchr s c = (case dropWhile (\<lambda>x. x \<noteq> c) (cstr s) of [] \<Rightarrow> None | r \<Rightarrow> Some r)"

text \<open>\<open>cursor\<close> is the rest of the body's C string.\<close>

function form_value_loop :: "bytes \<Rightarrow> bytes \<Rightarrow> bytes \<Rightarrow> bool \<times> bytes" where
  "form_value_loop cursor key output =
    (if cursor = [] then (False, output)
     else if strneq cursor key (strlen key) \<and> at cursor (strlen key) = 61 then
       (let value_start = drop (strlen key + 1) cursor;
            value_len = length (takeWhile (\<lambda>c. c \<noteq> 38) value_start);
            copy_len = min value_len (length output - 1);
            output = (blit output 0 (take copy_len value_start))[copy_len := 0]
        in (True, url_decode output))
     else (case dropWhile (\<lambda>c. c \<noteq> 38) cursor of
             [] \<Rightarrow> (False, output)
           | _ # rest \<Rightarrow> form_value_loop rest key output))"
  by pat_completeness auto
termination
proof (relation "measure (\<lambda>(c, k, out). length c)", goal_cases)
  case (2 cursor key buf x rest)
  then have "length (x # rest) \<le> length cursor"
    by (metis length_dropWhile_le)
  then show ?case by simp
qed simp

declare form_value_loop.simps [simp del]

definition form_value :: "bytes \<Rightarrow> bytes \<Rightarrow> bytes \<Rightarrow> bool \<times> bytes" where
  "form_value body key output = form_value_loop (cstr body) key output"

subsection \<open>What the copies store\<close>

text \<open>The string a bounded, filtering copy into \<open>n\<close> bytes keeps.\<close>

definition copied :: "nat \<Rightarrow> bytes \<Rightarrow> bytes" where
  "copied n s = take (n - 1) (filter printable (cstr s))"

lemma length_copy_loop [simp]: "length (copy_loop f dst src w) = length dst"
  by (induction f dst src w rule: copy_loop.induct) (auto split: option.splits)

lemma copy_loop_spec:
  "w < length dst \<Longrightarrow>
   copy_loop f dst src w =
     take w dst @ take (length dst - 1 - w) (List.map_filter f (cstr src)) @
     0 # drop (Suc (w + length (take (length dst - 1 - w) (List.map_filter f (cstr src))))) dst"
proof (induction f dst src w rule: copy_loop.induct)
  case (1 f dst w)
  then show ?case by (simp add: upd_conv_take_nth_drop List.map_filter_def)
next
  case (2 f dst c src w)
  show ?case
  proof (cases "c \<noteq> 0 \<and> w < length dst - 1")
    case True
    show ?thesis
    proof (cases "f c")
      case None
      with True 2 show ?thesis by (simp add: cstr_Cons List.map_filter_simps)
    next
      case (Some c')
      let ?rest = "List.map_filter f (cstr src)"
      from True obtain k where k: "length dst - 1 - w = Suc k" "length dst - 1 - Suc w = k"
        by (cases "length dst - 1 - w") auto
      have "copy_loop f dst (c # src) w = copy_loop f (dst[w := c']) src (Suc w)"
        using True Some by simp
      also have "\<dots> = take (Suc w) (dst[w := c']) @ take k ?rest @
          0 # drop (Suc (Suc w + length (take k ?rest))) (dst[w := c'])"
        using "2.IH"(2) [OF True Some] True k by simp
      also have "take (Suc w) (dst[w := c']) = take w dst @ [c']"
        using "2.prems" by (simp add: take_Suc_conv_app_nth)
      finally show ?thesis
        using True Some k by (simp add: cstr_Cons List.map_filter_simps)
    qed
  next
    case False
    with "2.prems" have "c = 0 \<or> w = length dst - 1" by linarith
    with "2.prems" False show ?thesis
      by (auto simp: upd_conv_take_nth_drop List.map_filter_simps)
  qed
qed

lemma map_filter_if [simp]: "List.map_filter (\<lambda>c. if P c then Some c else None) xs = filter P xs"
  by (induction xs) (auto simp: List.map_filter_simps)

lemma copy_field_eq:
  "0 < length dst \<Longrightarrow>
   copy_field dst src = copied (length dst) src @ 0 # drop (Suc (length (copied (length dst) src))) dst"
  by (simp add: copy_field_def copy_loop_spec copied_def printable_def [abs_def])

lemma length_copy_field [simp]: "length (copy_field dst src) = length dst"
  by (simp add: copy_field_def)

lemma length_copied: "0 < n \<Longrightarrow> length (copied n s) < n"
  by (auto simp: copied_def min_def)

lemma copied_printable: "list_all printable (copied n s)"
  by (auto simp: copied_def list_all_iff dest: in_set_takeD)

lemma copied_clean: "0 < n \<Longrightarrow> clean_str n (copied n s)"
  by (simp add: clean_str_def length_copied copied_printable)

lemma copied_nonzero [simp]: "0 \<notin> set (copied n s)"
  using copied_printable [of n s] by (auto simp: list_all_iff dest: printable_nonzero)

lemma cstr_copy_field [simp]:
  "cstr (copy_field dst src) = (if dst = [] then [] else copied (length dst) src)"
proof (cases "dst = []")
  case False
  then have "copy_field dst src = copied (length dst) src @ 0 # drop (Suc (length (copied (length dst) src))) dst"
    by (intro copy_field_eq) simp
  with False show ?thesis by simp
qed (simp add: copy_field_def)

lemma copied_id: "clean_str n (cstr s) \<Longrightarrow> copied n s = cstr s"
  by (auto simp: copied_def clean_str_def list_all_iff)

lemma copied_cstr [simp]: "copied n (cstr s) = copied n s"
  by (simp add: copied_def)

lemma copy_field_cstr [simp]: "copy_field dst (cstr s) = copy_field dst s"
  by (cases "dst = []") (simp_all add: copy_field_eq, simp add: copy_field_def)

lemma copied_empty [simp]: "copied n [] = []"
  by (simp add: copied_def)

lemma copied_idem [simp]: "0 < n \<Longrightarrow> copied n (copied n s) = copied n s"
  by (subst copied_id) (simp_all add: copied_clean)

lemma copy_field_zeros:
  "0 < n \<Longrightarrow> copy_field (zeros n) src = copied n src @ zeros (n - length (copied n src))"
  using length_copied [of n src]
  by (simp add: copy_field_eq zeros_def flip: replicate_Suc)

lemma length_copy_field_no_delims [simp]: "length (copy_field_no_delims dst src) = length dst"
  by (simp add: copy_field_no_delims_def)

lemma length_compute_thread_key [simp]: "length (compute_thread_key out s d) = length out"
  by (simp add: compute_thread_key_def)

declare length_copy_field [wf_intros] length_copy_field_no_delims [wf_intros]
  length_compute_thread_key [wf_intros]

subsection \<open>What the form decoder computes\<close>

text \<open>Reference definitions: percent-decoding of a string, and the split of a body at \<open>&\<close>.\<close>

fun url_decoded :: "bytes \<Rightarrow> bytes" where
  "url_decoded (c # a # b # s) =
    (if c = 43 then 32 # url_decoded (a # b # s)
     else if c = 37 \<and> isxdigit a \<and> isxdigit b then hex_byte a b # url_decoded s
     else c # url_decoded (a # b # s))"
| "url_decoded (c # s) = (if c = 43 then 32 else c) # url_decoded s"
| "url_decoded [] = []"

fun split_amp :: "bytes \<Rightarrow> bytes list" where
  "split_amp [] = [[]]"
| "split_amp (c # s) =
    (if c = 38 then [] # split_amp s
     else (case split_amp s of [] \<Rightarrow> [[c]] | x # xs \<Rightarrow> (c # x) # xs))"

lemma isxdigit_0 [simp]: "\<not> isxdigit 0"
  by (simp add: isxdigit_def)

lemma url_decoded_cstr:
  assumes "at s 0 \<noteq> 0"
  shows "url_decoded (cstr s) =
    (if at s 0 = 43 then 32 # url_decoded (cstr (drop 1 s))
     else if at s 0 = 37 \<and> isxdigit (at s 1) \<and> isxdigit (at s 2)
       then hex_byte (at s 1) (at s 2) # url_decoded (cstr (drop 3 s))
     else at s 0 # url_decoded (cstr (drop 1 s)))"
proof -
  from assms obtain c t where s: "s = c # t" "c \<noteq> 0" by (cases s) (auto simp: at_def)
  have isx: "isxdigit x \<Longrightarrow> x \<noteq> 0" for x by auto
  show ?thesis
  proof (cases t)
    case Nil
    with s show ?thesis by (simp add: at_def cstr_Cons)
  next
    case (Cons a u)
    with s isx show ?thesis
      by (cases u) (auto simp: at_def cstr_Cons numeral_3_eq_3)
  qed
qed

lemma length_cstr_drop:
  assumes "at s 0 \<noteq> 0"
  shows "length (cstr s) = Suc (length (cstr (drop 1 s)))"
  using assms by (cases s) (auto simp: at_def cstr_Cons)

lemma length_cstr_drop3:
  assumes "at s 0 \<noteq> 0" "isxdigit (at s 1)" "isxdigit (at s 2)"
  shows "length (cstr s) = 3 + length (cstr (drop 3 s))"
proof -
  have isx: "isxdigit x \<Longrightarrow> x \<noteq> 0" for x by auto
  from assms(1) obtain c t where t: "s = c # t" "c \<noteq> 0" by (cases s) (auto simp: at_def)
  with assms(2) obtain a u where u: "t = a # u" "a \<noteq> 0" by (cases t) (auto simp: at_def dest: isx)
  with assms(3) t obtain b w where w: "u = b # w" "b \<noteq> 0" by (cases u) (auto simp: at_def dest: isx)
  from t u w show ?thesis by (simp add: cstr_Cons numeral_3_eq_3)
qed

lemma length_url_decoded: "length (url_decoded s) \<le> length s"
  by (induction s rule: url_decoded.induct) auto

lemma at_drop: "at (drop r v) i = at v (r + i)"
  by (auto simp: at_def)

lemma take_update_snoc: "w < length v \<Longrightarrow> take (Suc w) (v[w := x]) = take w v @ [x]"
  by (simp add: take_Suc_conv_app_nth)

definition decoded_from :: "bytes \<Rightarrow> nat \<Rightarrow> nat \<Rightarrow> bytes" where
  "decoded_from v r w =
    (let d = url_decoded (cstr (drop r v)) in take w v @ d @ 0 # drop (Suc (w + length d)) v)"

text \<open>One round of the loop writes one decoded byte and moves on by \<open>n\<close> bytes.\<close>

lemma decoded_from_step:
  assumes "w < length v" "w \<le> r" "0 < n"
    and "url_decoded (cstr (drop r v)) = x # url_decoded (cstr (drop n (drop r v)))"
  shows "decoded_from (v[w := x]) (r + n) (w + 1) = decoded_from v r w"
  using assms by (simp add: decoded_from_def Let_def take_update_snoc drop_update_cancel add.commute)

lemma url_decode_loop_spec:
  "w \<le> r \<Longrightarrow> r + length (cstr (drop r v)) < length v \<Longrightarrow> url_decode_loop v r w = decoded_from v r w"
proof (induction v r w rule: url_decode_loop.induct)
  case (1 v r w)
  let ?s = "drop r v"
  let ?pct = "at v r = 37 \<and> isxdigit (at v (r + 1)) \<and> isxdigit (at v (r + 2))"
  have w: "w < length v" using "1.prems" by simp
  have at: "at v r = at ?s 0" "at v (r + 1) = at ?s 1" "at v (r + 2) = at ?s 2"
    by (simp_all add: at_drop)
  have drop: "n > 0 \<Longrightarrow> drop (r + n) (v[w := x]) = drop n ?s" for n x
    using "1.prems"(1) by (simp add: drop_update_cancel add.commute)
  show ?case
  proof (cases "at v r = 0")
    case True
    then have "cstr ?s = []" by (simp add: at flip: str_empty_conv str_empty_def)
    with True w show ?thesis
      by (subst url_decode_loop.simps) (simp add: decoded_from_def upd_conv_take_nth_drop)
  next
    case False
    then have nz: "at ?s 0 \<noteq> 0" by (simp add: at)
    note dec = url_decoded_cstr [OF nz] and len = length_cstr_drop [OF nz]
    consider (plus) "at v r = 43" | (pct) "at v r \<noteq> 43" ?pct | (other) "at v r \<noteq> 43" "\<not> ?pct"
      by blast
    then show ?thesis
    proof cases
      case plus
      have "url_decode_loop v r w = url_decode_loop (v[w := 32]) (r + 1) (w + 1)"
        using False plus by (subst url_decode_loop.simps) simp
      then show ?thesis
        using "1.IH"(1) [OF False plus] "1.prems" len drop [of 1] w dec plus at
          decoded_from_step [of w v r 1 32] by simp
    next
      case pct
      have "url_decode_loop v r w =
          url_decode_loop (v[w := hex_byte (at v (r + 1)) (at v (r + 2))]) (r + 3) (w + 1)"
        using False pct by (subst url_decode_loop.simps) simp
      then show ?thesis
        using "1.IH"(2) [OF False pct] "1.prems" length_cstr_drop3 [OF nz] drop [of 3] w dec pct at
          decoded_from_step [of w v r 3] by simp
    next
      case other
      have "url_decode_loop v r w = url_decode_loop (v[w := at v r]) (r + 1) (w + 1)"
        using False other by (subst url_decode_loop.simps) auto
      then show ?thesis
        using "1.IH"(3) [OF False other] "1.prems" len drop [of 1] w dec other at
          decoded_from_step [of w v r 1] by auto
    qed
  qed
qed

lemma url_decode_spec:
  assumes "length (cstr v) < length v"
  shows "url_decode v = url_decoded (cstr v) @ 0 # drop (Suc (length (url_decoded (cstr v)))) v"
  using url_decode_loop_spec [of 0 0 v] assms by (simp add: url_decode_def decoded_from_def Let_def)

lemma length_url_decode [simp]: "length (cstr v) < length v \<Longrightarrow> length (url_decode v) = length v"
  using length_url_decoded [of "cstr v"] by (simp add: url_decode_spec)

text \<open>The value of a key: the text after \<open>key=\<close> in the first segment that starts so.\<close>

definition form_lookup :: "bytes \<Rightarrow> bytes \<Rightarrow> bytes option" where
  "form_lookup body key =
    map_option (drop (Suc (length key)))
      (find (\<lambda>seg. take (Suc (length key)) seg = key @ [61]) (split_amp body))"

text \<open>The output buffer once a value has been copied and decoded.\<close>

definition form_store :: "bytes \<Rightarrow> bytes \<Rightarrow> bytes" where
  "form_store buf v =
    (let raw = take (length buf - 1) v; d = url_decoded raw
     in d @ 0 # drop (Suc (length d)) (raw @ 0 # drop (Suc (length raw)) buf))"

lemma split_amp_not_Nil [simp]: "split_amp s \<noteq> []"
  by (induction s) (auto split: list.splits)

lemma split_amp_unfold:
  "split_amp s = takeWhile (\<lambda>c. c \<noteq> 38) s #
     (case dropWhile (\<lambda>c. c \<noteq> 38) s of [] \<Rightarrow> [] | _ # r \<Rightarrow> split_amp r)"
  by (induction s) simp_all

lemma take_takeWhile_key:
  fixes key :: bytes
  assumes "38 \<notin> set key"
  shows "take (Suc (length key)) (takeWhile (\<lambda>c. c \<noteq> 38) s) = key @ [61] \<longleftrightarrow>
         take (Suc (length key)) s = key @ [61]"
  using assms
proof (induction key arbitrary: s)
  case Nil
  then show ?case by (cases s) auto
next
  case (Cons k key)
  then show ?case by (cases s) auto
qed

lemma key_match_conv:
  assumes "0 \<notin> set s" "0 \<notin> set key"
  shows "strneq s key (strlen key) \<and> at s (strlen key) = 61 \<longleftrightarrow> take (Suc (length key)) s = key @ [61]"
proof (cases "length key < length s")
  case True
  with assms show ?thesis by (auto simp: strneq_def strlen_def at_def take_Suc_conv_app_nth)
next
  case False
  then have "length (take (Suc (length key)) s) \<noteq> length (key @ [61])" by simp
  then have "take (Suc (length key)) s \<noteq> key @ [61]" by metis
  with False assms show ?thesis by (auto simp: strneq_def strlen_def at_def)
qed

lemma form_store_conv:
  assumes "0 \<notin> set v" "0 < length buf"
  shows "url_decode ((blit buf 0 (take (min (length v) (length buf - 1)) v))[min (length v) (length buf - 1) := 0])
         = form_store buf v"
proof -
  let ?n = "min (length v) (length buf - 1)" and ?raw = "take (length buf - 1) v"
  have raw: "take ?n v = ?raw" "length ?raw = ?n" by (auto simp: min_def)
  have n: "?n < length buf" using assms(2) by (cases buf) auto
  have z: "0 \<notin> set ?raw" using assms(1) by (meson in_set_takeD)
  have "(blit buf 0 ?raw)[?n := 0] = ?raw @ (drop ?n buf)[0 := 0]"
    using n raw(2) by (simp add: blit_def list_update_append)
  also have "drop ?n buf = buf ! ?n # drop (Suc ?n) buf"
    using n by (simp add: Cons_nth_drop_Suc)
  finally have eq: "(blit buf 0 ?raw)[?n := 0] = ?raw @ 0 # drop (Suc ?n) buf" by simp
  have "cstr (?raw @ 0 # drop (Suc ?n) buf) = ?raw" using z by simp
  then show ?thesis
    using url_decode_spec [of "?raw @ 0 # drop (Suc ?n) buf"] n unfolding raw(1) eq
    by (simp add: form_store_def Let_def)
qed

lemma form_lookup_match:
  assumes "take (Suc (length key)) s = key @ [61]" "38 \<notin> set key"
  shows "form_lookup s key = Some (takeWhile (\<lambda>c. c \<noteq> 38) (drop (Suc (length key)) s))"
proof -
  let ?vs = "drop (Suc (length key)) s"
  have s: "s = (key @ [61]) @ ?vs" using assms(1) by (metis append_take_drop_id)
  have "takeWhile (\<lambda>c. c \<noteq> 38) ((key @ [61]) @ ?vs) = (key @ [61]) @ takeWhile (\<lambda>c. c \<noteq> 38) ?vs"
    using assms(2) by (intro takeWhile_append2) auto
  then have "takeWhile (\<lambda>c. c \<noteq> 38) s = (key @ [61]) @ takeWhile (\<lambda>c. c \<noteq> 38) ?vs"
    using s by simp
  then show ?thesis unfolding form_lookup_def by (subst split_amp_unfold) simp
qed

lemma form_lookup_skip:
  assumes "take (Suc (length key)) s \<noteq> key @ [61]" "38 \<notin> set key"
  shows "form_lookup s key =
    (case dropWhile (\<lambda>c. c \<noteq> 38) s of [] \<Rightarrow> None | _ # r \<Rightarrow> form_lookup r key)"
  using assms take_takeWhile_key [OF assms(2), of s] unfolding form_lookup_def
  by (subst split_amp_unfold) (simp split: list.split del: dropWhile_eq_Nil_conv)

lemma form_value_loop_spec:
  assumes "0 \<notin> set s" "0 \<notin> set key" "38 \<notin> set key" "0 < length buf"
  shows "form_value_loop s key buf =
    (case form_lookup s key of None \<Rightarrow> (False, buf) | Some v \<Rightarrow> (True, form_store buf v))"
  using assms
proof (induction s key buf rule: form_value_loop.induct)
  case (1 s key buf)
  let ?m = "take (Suc (length key)) s = key @ [61]"
  have m: "strneq s key (strlen key) \<and> at s (strlen key) = 61 \<longleftrightarrow> ?m"
    using "1.prems" by (intro key_match_conv)
  show ?case
  proof (cases ?m)
    case True
    let ?vs = "drop (Suc (length key)) s"
    let ?v = "takeWhile (\<lambda>c. c \<noteq> 38) ?vs"
    have nz: "0 \<notin> set ?v" using "1.prems"(1) by (meson in_set_dropD set_takeWhileD)
    have "form_value_loop s key buf = (True, url_decode ((blit buf 0
        (take (min (length ?v) (length buf - 1)) ?vs))[min (length ?v) (length buf - 1) := 0]))"
      using m True "1.prems"(2) by (subst form_value_loop.simps) (auto simp: strlen_def Let_def)
    also have "take (min (length ?v) (length buf - 1)) ?vs = take (min (length ?v) (length buf - 1)) ?v"
      by (subst (2) takeWhile_eq_take) (simp add: min.commute)
    finally show ?thesis
      using form_lookup_match [OF True "1.prems"(3)] form_store_conv [OF nz "1.prems"(4)] by simp
  next
    case False
    note skip = form_lookup_skip [OF False "1.prems"(3)]
    have "form_value_loop s key buf = (case dropWhile (\<lambda>c. c \<noteq> 38) s of
        [] \<Rightarrow> (False, buf) | _ # rest \<Rightarrow> form_value_loop rest key buf)"
      using m False by (subst form_value_loop.simps) auto
    moreover have "form_value_loop rest key buf =
        (case form_lookup rest key of None \<Rightarrow> (False, buf) | Some v \<Rightarrow> (True, form_store buf v))"
      if dw: "dropWhile (\<lambda>c. c \<noteq> 38) s = x # rest" for x rest
    proof -
      have "0 \<notin> set rest" using dw "1.prems"(1) set_dropWhileD [of 0 "\<lambda>c. c \<noteq> 38" s] by auto
      moreover have "s \<noteq> []" using dw by auto
      ultimately show ?thesis using "1.IH" m False dw "1.prems" by blast
    qed
    ultimately show ?thesis using skip by (simp split: list.split del: dropWhile_eq_Nil_conv)
  qed
qed

subsection \<open>Node ids\<close>

text \<open>A node id: a non-empty printable string that fits a field of 32 bytes.\<close>

definition node_id :: "bytes \<Rightarrow> bool" where
  "node_id k \<longleftrightarrow> clean_str 32 k \<and> k \<noteq> []"

lemma node_id_cstr [simp]: "node_id k \<Longrightarrow> cstr k = k"
  unfolding node_id_def using clean_str_cstr by blast

lemma node_id_nonempty [simp]: "node_id k \<Longrightarrow> \<not> str_empty k"
  by (simp add: str_empty_def) (simp add: node_id_def)

lemma node_id_copied [simp]: "node_id k \<Longrightarrow> copied 32 k = k"
  using copied_id [of 32 k] node_id_cstr [of k] by (simp add: node_id_def)

subsection \<open>Property\<close>

text \<open>
  C31. \<open>form_value\<close> against the definition of a form: the first \<open>&\<close>-separated
  segment \<open>key=value\<close> decides; its value, cut to the buffer and URL-decoded, is
  stored with a terminator, and without such a segment the buffer is untouched.
\<close>

theorem form_value_spec:
  assumes "0 \<notin> set key" "38 \<notin> set key" "0 < length buf"
  shows "form_value body key buf =
    (case form_lookup (cstr body) key of None \<Rightarrow> (False, buf) | Some v \<Rightarrow> (True, form_store buf v))"
  unfolding form_value_def using assms by (intro form_value_loop_spec) simp_all

theorem form_value_spec_witness:
  "form_value (lit ''to=B%2D2&message=hi+there&x=1'') (lit ''message'') (zeros 6) = (True, lit ''hi th'' @ [0])"
  by (subst form_value_spec) code_simp+

end
