(* ===== verification/C_Stdlib.thy ===== *)
theory C_Stdlib
  imports BMesh_Prelude
begin

text \<open>
  The parts of the C library the sources call on numbers in text: \<open>strtoul\<close> and
  \<open>atoi\<close> for base 10 on the target (32-bit \<open>long\<close>), decimal printing, and
  \<open>snprintf\<close> into a bounded buffer.
\<close>

definition isspace :: "u8 \<Rightarrow> bool" where
  "isspace c \<longleftrightarrow> c = 32 \<or> (9 \<le> c \<and> c \<le> 13)"

definition isdigit :: "u8 \<Rightarrow> bool" where
  "isdigit c \<longleftrightarrow> 48 \<le> c \<and> c \<le> 57"

definition isalnum :: "u8 \<Rightarrow> bool" where
  "isalnum c \<longleftrightarrow> isdigit c \<or> (65 \<le> c \<and> c \<le> 90) \<or> (97 \<le> c \<and> c \<le> 122)"

fun dec_value :: "nat \<Rightarrow> bytes \<Rightarrow> nat" where
  "dec_value acc [] = acc"
| "dec_value acc (c # s) = dec_value (10 * acc + (unat c - 48)) s"

text \<open>Skips white space and one sign: whether the sign is minus, and the rest.\<close>

definition strip_sign :: "bytes \<Rightarrow> bool \<times> bytes" where
  "strip_sign s =
    (case dropWhile isspace s of
       [] \<Rightarrow> (False, [])
     | c # r \<Rightarrow> if c = 45 then (True, r) else if c = 43 then (False, r) else (False, c # r))"

text \<open>
  \<open>strtoul(s, &end, 10)\<close>: the value, the text from \<open>end\<close> on, and whether
  \<open>errno\<close> is \<open>ERANGE\<close>. Without digits the value is 0 and \<open>end\<close> is \<open>s\<close>.
\<close>

definition strtoul :: "bytes \<Rightarrow> u32 \<times> bytes \<times> bool" where
  "strtoul s =
    (let (neg, u) = strip_sign (cstr s); ds = takeWhile isdigit u; v = dec_value 0 ds in
     if ds = [] then (0, cstr s, False)
     else if 2 ^ 32 \<le> v then (- 1, dropWhile isdigit u, True)
     else ((if neg then - of_nat v else of_nat v), dropWhile isdigit u, False))"

text \<open>\<open>atoi\<close> is \<open>(int)strtol(s, NULL, 10)\<close>, which saturates.\<close>

definition atoi :: "bytes \<Rightarrow> int" where
  "atoi s =
    (let (neg, u) = strip_sign (cstr s); v = int (dec_value 0 (takeWhile isdigit u)) in
     if neg then max (- (2 ^ 31)) (- v) else min (2 ^ 31 - 1) v)"

text \<open>\<open>%lu\<close> and \<open>%u\<close>.\<close>

fun print_dec :: "nat \<Rightarrow> bytes" where
  "print_dec n = (if n < 10 then [of_nat (48 + n)] else print_dec (n div 10) @ [of_nat (48 + n mod 10)])"

declare print_dec.simps [simp del]

text \<open>\<open>snprintf(out, sizeof(out), ...)\<close> of a formatted text.\<close>

definition snprintf :: "bytes \<Rightarrow> bytes \<Rightarrow> bytes" where
  "snprintf out text =
    (if length out = 0 then out else blit out 0 (take (length out - 1) text @ [0]))"

lemma length_snprintf [simp]: "length (snprintf out t) = length out"
  by (cases out) (auto simp: snprintf_def)

lemma cstr_snprintf:
  "0 \<notin> set t \<Longrightarrow> cstr (snprintf out t) = take (length out - 1) t"
proof -
  assume "0 \<notin> set t"
  then have "0 \<notin> set (take (length out - 1) t)" by (meson in_set_takeD)
  then show ?thesis by (cases "length out = 0") (auto simp: snprintf_def blit_def)
qed

lemma isdigit_digit: "n < 10 \<Longrightarrow> isdigit (of_nat (48 + n))"
proof -
  assume "n < 10"
  then have "unat (of_nat (48 + n) :: u8) = 48 + n" by (intro unat_of_nat_u8) simp
  with \<open>n < 10\<close> show ?thesis unfolding isdigit_def word_le_nat_alt by simp
qed

lemma isdigit_nonzero: "isdigit c \<Longrightarrow> c \<noteq> 0"
  by (auto simp: isdigit_def)

lemma print_dec_digits: "\<forall>c\<in>set (print_dec n). isdigit c"
proof (induction n rule: print_dec.induct)
  case (1 n)
  show ?case
  proof (cases "n < 10")
    case True
    then show ?thesis using isdigit_digit [of n] by (simp add: print_dec.simps [of n])
  next
    case False
    then show ?thesis
      using 1 isdigit_digit [of "n mod 10"] by (auto simp: print_dec.simps [of n])
  qed
qed

lemma print_dec_nonzero [simp]: "0 \<notin> set (print_dec n)"
  using print_dec_digits isdigit_nonzero by blast

lemma print_dec_not_Nil [simp]: "print_dec n \<noteq> []"
  by (subst print_dec.simps) simp

lemma dec_value_append: "dec_value a (s @ t) = dec_value (dec_value a s) t"
  by (induction s arbitrary: a) auto

lemma dec_value_print_dec: "dec_value 0 (print_dec n) = n"
proof (induction n rule: print_dec.induct)
  case (1 n)
  have digit: "unat (of_nat (48 + k) :: u8) - 48 = k" if "k < 10" for k
    using that unat_of_nat_u8 [of "48 + k"] by simp
  show ?case
  proof (cases "n < 10")
    case True
    then show ?thesis using digit [of n] by (simp add: print_dec.simps [of n])
  next
    case False
    then show ?thesis
      using 1 digit [of "n mod 10"] by (simp add: print_dec.simps [of n] dec_value_append)
  qed
qed

lemma length_print_dec: "n < 10 ^ k \<Longrightarrow> 0 < k \<Longrightarrow> length (print_dec n) \<le> k"
proof (induction n arbitrary: k rule: print_dec.induct)
  case (1 n)
  show ?case
  proof (cases "n < 10")
    case True
    with "1.prems" show ?thesis by (simp add: print_dec.simps [of n])
  next
    case False
    with "1.prems" obtain j where j: "k = Suc j" by (cases k) auto
    with False "1.prems" have "0 < j" by (cases j) auto
    moreover have "n div 10 < 10 ^ j" using "1.prems"(1) j by (simp add: less_mult_imp_div_less mult.commute)
    ultimately show ?thesis
      using "1.IH" False j by (simp add: print_dec.simps [of n])
  qed
qed

lemma takeWhile_digits:
  "\<forall>c\<in>set ds. isdigit c \<Longrightarrow> r = [] \<or> \<not> isdigit (hd r) \<Longrightarrow>
   takeWhile isdigit (ds @ r) = ds \<and> dropWhile isdigit (ds @ r) = r"
  by (cases r) (auto simp: takeWhile_append2 dropWhile_append2)

lemma strip_sign_digit:
  assumes "isdigit (hd s)" "s \<noteq> []"
  shows "strip_sign s = (False, s)"
proof -
  obtain c r where s: "s = c # r" using assms(2) by (cases s) auto
  with assms(1) have "isdigit c" by simp
  then have "\<not> isspace c" "c \<noteq> 45" "c \<noteq> 43"
    unfolding isdigit_def isspace_def word_le_nat_alt word_less_nat_alt by auto
  then show ?thesis by (simp add: strip_sign_def s)
qed

text \<open>A printed number reads back, whatever non-digit follows it.\<close>

lemma strtoul_print_dec:
  assumes "n < 2 ^ 32" "r = [] \<or> \<not> isdigit (hd r)" "0 \<notin> set r"
  shows "strtoul (print_dec n @ r) = (of_nat n, r, False)"
proof -
  have c: "cstr (print_dec n @ r) = print_dec n @ r"
    using assms(3) by (intro cstr_id) auto
  have d: "takeWhile isdigit (print_dec n @ r) = print_dec n"
    "dropWhile isdigit (print_dec n @ r) = r"
    using takeWhile_digits [OF print_dec_digits assms(2)] by auto
  have "strip_sign (print_dec n @ r) = (False, print_dec n @ r)"
    using print_dec_digits [of n] by (intro strip_sign_digit) (auto simp: hd_append)
  then show ?thesis
    using assms(1) by (simp add: strtoul_def c d dec_value_print_dec)
qed

end
