(* ===== verification/Wire_Codec.thy ===== *)
theory Wire_Codec
  imports BMesh_Prelude
begin

text \<open>
  The bounds-checked cursor primitives of \<open>src/mesh_protocol.c\<close>
  (\<open>write_u8\<close>, \<open>write_u32\<close>, \<open>write_bytes\<close>, \<open>read_u8\<close>,
  \<open>read_u32\<close>, \<open>read_bytes\<close>); \<open>sync_response_write_u8\<close>,
  \<open>sync_response_write_u32\<close> and \<open>sync_response_write_bytes\<close> of
  \<open>src/mesh_control.c\<close> have the same bodies. A cursor is the buffer and the offset;
  the buffer's length is its size. A \<open>false\<close> return is None.
\<close>

type_synonym cursor = "bytes \<times> nat"

fun write_u8 :: "u8 \<Rightarrow> cursor \<Rightarrow> cursor option" where
  "write_u8 v (packet, offset) =
    (if length packet \<le> offset then None else Some (packet[offset := v], offset + 1))"

fun write_u32 :: "u32 \<Rightarrow> cursor \<Rightarrow> cursor option" where
  "write_u32 v (packet, offset) =
    (if length packet < offset + 4 then None
     else Some (packet[offset := ucast (v AND 0xFF),
                       offset + 1 := ucast (drop_bit 8 v AND 0xFF),
                       offset + 2 := ucast (drop_bit 16 v AND 0xFF),
                       offset + 3 := ucast (drop_bit 24 v AND 0xFF)], offset + 4))"

fun write_bytes :: "bytes \<Rightarrow> nat \<Rightarrow> cursor \<Rightarrow> cursor option" where
  "write_bytes d len (packet, offset) =
    (if length packet < offset + len then None
     else if 0 < len then Some (blit packet offset (take len d), offset + len)
     else Some (packet, offset))"

definition read_u8 :: "bytes \<Rightarrow> nat \<Rightarrow> (u8 \<times> nat) option" where
  "read_u8 packet offset =
    (if length packet \<le> offset then None else Some (packet ! offset, offset + 1))"

definition read_u32 :: "bytes \<Rightarrow> nat \<Rightarrow> (u32 \<times> nat) option" where
  "read_u32 packet offset =
    (if length packet < offset + 4 then None
     else Some (of_le32 (packet ! offset) (packet ! (offset + 1)) (packet ! (offset + 2)) (packet ! (offset + 3)),
                offset + 4))"

text \<open>The bytes are stored at the start of \<open>out\<close> and terminated.\<close>

definition read_bytes :: "bytes \<Rightarrow> nat \<Rightarrow> bytes \<Rightarrow> nat \<Rightarrow> (bytes \<times> nat) option" where
  "read_bytes packet offset out len =
    (if length packet < offset + len \<or> length out \<le> len then None
     else if 0 < len
       then Some ((blit out 0 (take len (drop offset packet)))[len := 0], offset + len)
     else Some (out[0 := 0], offset))"

subsection \<open>Writing\<close>

text \<open>What every writer does: append its bytes at the offset if they fit.\<close>

definition put :: "bytes \<Rightarrow> cursor \<Rightarrow> cursor option" where
  "put d c = (case c of (packet, offset) \<Rightarrow>
    if offset + length d \<le> length packet then Some (blit packet offset d, offset + length d) else None)"

lemma blit_single: "off < length p \<Longrightarrow> p[off := v] = blit p off [v]"
  by (simp add: blit_def upd_conv_take_nth_drop)

lemma blit_append:
  "off + length a + length b \<le> length p \<Longrightarrow> blit (blit p off a) (off + length a) b = blit p off (a @ b)"
  by (simp add: blit_def ac_simps)

lemma ucast_and_FF: "(ucast (v AND 0xFF) :: u8) = ucast (v :: u32)"
proof (rule bit_word_eqI)
  fix n assume "n < LENGTH(8)"
  then have "n < 8" by simp
  have "bit (0xFF :: u32) n" if "n < 8" for n
  proof -
    have "(0xFF :: u32) = mask 8" by (simp add: mask_eq_exp_minus_1)
    then show ?thesis using that by (simp only: bit_mask_iff) simp
  qed
  with \<open>n < 8\<close> show "bit (ucast (v AND 0xFF) :: u8) n = bit (ucast v :: u8) n"
    by (simp add: bit_simps)
qed

lemma write_u8_put: "write_u8 v c = put [v] c"
  by (cases c) (auto simp: put_def blit_single)

lemma write_u32_put: "write_u32 v c = put (le32 v) c"
proof (cases c)
  case (Pair p off)
  show ?thesis
  proof (cases "off + 4 \<le> length p")
    case True
    have "p[off := w, off + 1 := x, off + 2 := y, off + 3 := z] = blit p off [w, x, y, z]" for w x y z
    proof -
      have "p[off := w, off + 1 := x] = blit p off [w, x]"
        using True blit_append [of off "[w]" "[x]" p] by (simp add: blit_single)
      then have "p[off := w, off + 1 := x, off + 2 := y] = blit p off [w, x, y]"
        using True blit_append [of off "[w, x]" "[y]" p] by (simp add: blit_single)
      then show ?thesis
        using True blit_append [of off "[w, x, y]" "[z]" p] by (simp add: blit_single numeral_3_eq_3)
    qed
    with True Pair show ?thesis by (simp add: put_def ucast_and_FF le32_def)
  next
    case False
    with Pair show ?thesis by (simp add: put_def)
  qed
qed

lemma write_bytes_put: "len \<le> length d \<Longrightarrow> write_bytes d len c = put (take len d) c"
  by (cases c) (auto simp: put_def blit_def)

lemma put_put: "Option.bind (put a c) (put b) = put (a @ b) c"
proof (cases c)
  case (Pair p off)
  then show ?thesis
    by (cases "off + length a + length b \<le> length p") (auto simp: put_def blit_append add.assoc)
qed

lemma put_bind: "Option.bind (put a c) (\<lambda>c'. Option.bind (put b c') f) = Option.bind (put (a @ b) c) f"
  by (simp flip: put_put bind_assoc)

lemmas write_put = write_u8_put write_u32_put write_bytes_put

subsection \<open>Reading\<close>

text \<open>
  The contract of a reader: what it returns depends only on the bytes it consumes, so
  more input does not change a result, and it never consumes past the end.
\<close>

locale stream_reader =
  fixes rd :: "bytes \<Rightarrow> nat \<Rightarrow> ('a \<times> nat) option"
  assumes rd_extend: "rd p off = Some (x, off') \<Longrightarrow> rd (p @ e) off = Some (x, off')"
    and rd_bound: "rd p off = Some (x, off') \<Longrightarrow> off \<le> length p \<Longrightarrow> off \<le> off' \<and> off' \<le> length p"
begin

lemma rd_prefix:
  assumes "rd (take k w) off = Some (x, off')" "off \<le> length (take k w)"
  shows "rd w off = Some (x, off') \<and> off' \<le> k"
proof -
  have "rd (take k w @ drop k w) off = Some (x, off')" using assms(1) by (rule rd_extend)
  moreover have "off' \<le> length (take k w)" using rd_bound [OF assms] by simp
  ultimately show ?thesis by simp
qed

end

text \<open>Readers compose: this is how the packet parsers inherit the contract.\<close>

lemma stream_reader_return: "stream_reader (\<lambda>p off. Some (x, off))"
  by unfold_locales auto

lemma stream_reader_None: "stream_reader (\<lambda>p off. None)"
  by unfold_locales auto

lemma stream_reader_bind:
  assumes "stream_reader f" "\<And>x. stream_reader (g x)"
  shows "stream_reader (\<lambda>p off. Option.bind (f p off) (\<lambda>(x, off). g x p off))"
proof
  fix p off y off' e
  assume "Option.bind (f p off) (\<lambda>(x, off). g x p off) = Some (y, off')"
  then obtain x o1 where 1: "f p off = Some (x, o1)" "g x p o1 = Some (y, off')"
    by (auto simp: Option.bind_eq_Some_conv)
  show "Option.bind (f (p @ e) off) (\<lambda>(x, off). g x (p @ e) off) = Some (y, off')"
    using stream_reader.rd_extend [OF assms(1) 1(1)] stream_reader.rd_extend [OF assms(2) 1(2)] by simp
  show "off \<le> off' \<and> off' \<le> length p" if "off \<le> length p"
    using stream_reader.rd_bound [OF assms(1) 1(1) that] stream_reader.rd_bound [OF assms(2) 1(2)] by simp
qed

lemma stream_reader_if:
  "stream_reader f \<Longrightarrow> stream_reader g \<Longrightarrow> stream_reader (\<lambda>p off. if b then f p off else g p off)"
  by (cases b) simp_all

text \<open>
  A codec adds a writer: reading what was written gives the value back and leaves the
  cursor after it.
\<close>

locale stream_codec = stream_reader rd for rd :: "bytes \<Rightarrow> nat \<Rightarrow> ('a \<times> nat) option" +
  fixes enc :: "'a \<Rightarrow> bytes" and ok :: "'a \<Rightarrow> bool"
  assumes rd_enc: "ok x \<Longrightarrow> rd (enc x) 0 = Some (x, length (enc x))"
    and rd_shift: "rd (drop k p) 0 = Some (x, n) \<Longrightarrow> k \<le> length p \<Longrightarrow> rd p k = Some (x, k + n)"
begin

lemma rd_at:
  assumes "ok x" "drop off p = enc x @ r" "off \<le> length p"
  shows "rd p off = Some (x, off + length (enc x)) \<and> drop (off + length (enc x)) p = r"
proof -
  have "rd (enc x @ r) 0 = Some (x, length (enc x))" using rd_enc [OF assms(1)] by (rule rd_extend)
  then have "rd p off = Some (x, off + length (enc x))" using assms(2,3) by (intro rd_shift) simp_all
  moreover have "drop (off + length (enc x)) p = drop (length (enc x)) (drop off p)" by (simp add: add.commute)
  ultimately show ?thesis using assms(2) by simp
qed

end

interpretation u8_codec: stream_codec read_u8 "\<lambda>v. [v]" "\<lambda>_. True"
  by unfold_locales (auto simp: read_u8_def nth_append split: if_splits)

interpretation u32_codec: stream_codec read_u32 le32 "\<lambda>_. True"
  by unfold_locales
    (auto simp: read_u32_def nth_append of_le32_le32 [unfolded One_nat_def numeral_2_eq_2] add.assoc split: if_splits)

text \<open>Reading a field of known length into a buffer of size \<open>n\<close>.\<close>

interpretation field_reader: stream_reader "\<lambda>p off. read_bytes p off out len"
  by unfold_locales (auto simp: read_bytes_def split: if_splits)

lemmas stream_readers =
  u8_codec.stream_reader_axioms u32_codec.stream_reader_axioms field_reader.stream_reader_axioms
  stream_reader_None stream_reader_return stream_reader_if stream_reader_bind

lemma read_bytes_at:
  assumes "drop off p = s @ r" "off \<le> length p" "length s < n"
  shows "read_bytes p off (zeros n) (length s) = Some (s @ zeros (n - length s), off + length s)
    \<and> drop (off + length s) p = r"
proof -
  have l: "off + length s \<le> length p"
    using assms(1,2) by (metis add.commute append_eq_conv_conj drop_drop le_add_diff_inverse length_append length_drop le_add1 add_le_cancel_left)
  have z: "drop k (zeros n) = zeros (n - k)" for k by (simp add: zeros_def)
  have "(s @ zeros (n - length s))[length s := 0] = s @ zeros (n - length s)"
    using assms(3) by (cases "n - length s") (auto simp: zeros_def)
  moreover have "(zeros n)[0 := 0] = zeros n" by (cases n) (auto simp: zeros_def)
  ultimately have "read_bytes p off (zeros n) (length s) = Some (s @ zeros (n - length s), off + length s)"
    using l assms by (auto simp: read_bytes_def blit_def z)
  moreover have "drop (off + length s) p = drop (length s) (drop off p)" by (simp add: add.commute)
  ultimately show ?thesis using assms(1) by simp
qed

lemma length_read_bytes: "read_bytes p off out len = Some (b, off') \<Longrightarrow> length b = length out"
  by (auto simp: read_bytes_def blit_def split: if_splits)

text \<open>The buffer a field reader leaves is terminated.\<close>

lemma read_bytes_terminated:
  "read_bytes p off out len = Some (b, off') \<Longrightarrow> length (cstr b) \<le> len \<and> len < length b"
proof -
  assume r: "read_bytes p off out len = Some (b, off')"
  then have len: "len < length b" by (auto simp: read_bytes_def blit_def split: if_splits)
  have "b ! len = 0" using r by (auto simp: read_bytes_def blit_def split: if_splits)
  then have "length (cstr b) \<le> len"
    using len at_cstr [of len b] by (fastforce simp: at_def not_le)
  with len show ?thesis by simp
qed

end
