(* ===== verification/Mesh_Packet.thy ===== *)
theory Mesh_Packet
  imports String_Utils C_Stdlib Wire_Codec
begin

text \<open>
  The packet half of \<open>src/mesh_protocol.c\<close> and \<open>include/mesh_protocol.h\<close>: the
  parsed packet, the location field, the text format V1 (receive only) and the
  length-driven binary format V2. A parser that returns \<open>false\<close> is None; a builder
  returns the packet buffer and \<open>*packet_len\<close>.
\<close>

abbreviation FIELD_LEN :: nat where "FIELD_LEN \<equiv> 32"
abbreviation SITIO_LEN :: nat where "SITIO_LEN \<equiv> 24"
abbreviation BARANGAY_LEN :: nat where "BARANGAY_LEN \<equiv> 24"
abbreviation MUNICIPALITY_LEN :: nat where "MUNICIPALITY_LEN \<equiv> 24"
abbreviation PAYLOAD_LEN :: nat where "PAYLOAD_LEN \<equiv> 140"
abbreviation PACKET_LEN :: nat where "PACKET_LEN \<equiv> 320"

text \<open>\<open>255 - BEMS_FRAME_HEADER_LEN - BEMS_HMAC_TAG_LEN\<close>.\<close>

definition BEMS_MAX_PLAINTEXT :: nat where
  "BEMS_MAX_PLAINTEXT = 255 - 12 - 16"

definition V2_MAGIC :: u8 where "V2_MAGIC = 0xB2"
definition V2_FLAG_NEXT_HOP :: u8 where "V2_FLAG_NEXT_HOP = 0x01"
definition V2_FLAG_LOCATION :: u8 where "V2_FLAG_LOCATION = 0x02"
definition V2_FLAG_PATH_HOPS :: u8 where "V2_FLAG_PATH_HOPS = 0x04"
definition V2_BROADCAST_ID :: u8 where "V2_BROADCAST_ID = 0xFF"

record location_info_t =
  sitio :: bytes
  barangay :: bytes
  municipality :: bytes

record mesh_packet_t =
  mp_valid :: bool
  mp_id :: u32
  mp_hops :: int
  mp_path_hops :: int
  mp_broadcast_destination :: bool
  mp_source :: bytes
  mp_destination :: bytes
  mp_type :: bytes
  mp_priority :: bytes
  mp_relay :: bytes
  mp_next_hop :: bytes
  mp_location_raw :: bytes
  mp_location :: location_info_t
  mp_thread_key :: bytes
  mp_payload :: bytes
  mp_payload_len :: nat

text \<open>\<open>memset(p, 0, sizeof(*p))\<close>.\<close>

definition location_zero :: location_info_t where
  "location_zero = \<lparr>sitio = zeros SITIO_LEN, barangay = zeros BARANGAY_LEN, municipality = zeros MUNICIPALITY_LEN\<rparr>"

definition mesh_packet_zero :: mesh_packet_t where
  "mesh_packet_zero =
    \<lparr>mp_valid = False, mp_id = 0, mp_hops = 0, mp_path_hops = 0, mp_broadcast_destination = False,
     mp_source = zeros FIELD_LEN, mp_destination = zeros FIELD_LEN, mp_type = zeros FIELD_LEN,
     mp_priority = zeros FIELD_LEN, mp_relay = zeros FIELD_LEN, mp_next_hop = zeros FIELD_LEN,
     mp_location_raw = zeros PACKET_LEN, mp_location = location_zero, mp_thread_key = zeros FIELD_LEN,
     mp_payload = zeros PAYLOAD_LEN, mp_payload_len = 0\<rparr>"

subsection \<open>Types, priorities, thread key\<close>

datatype bems_packet_type_t =
    BEMS_PACKET_TYPE_FLOOD | BEMS_PACKET_TYPE_ACK | BEMS_PACKET_TYPE_TIME_SYNC
  | BEMS_PACKET_TYPE_SYNC_REQ | BEMS_PACKET_TYPE_SYNC_RESP | BEMS_PACKET_TYPE_EMERGENCY

fun packet_type_code :: "bems_packet_type_t \<Rightarrow> u8" where
  "packet_type_code BEMS_PACKET_TYPE_FLOOD = 1"
| "packet_type_code BEMS_PACKET_TYPE_ACK = 2"
| "packet_type_code BEMS_PACKET_TYPE_TIME_SYNC = 3"
| "packet_type_code BEMS_PACKET_TYPE_SYNC_REQ = 4"
| "packet_type_code BEMS_PACKET_TYPE_SYNC_RESP = 5"
| "packet_type_code BEMS_PACKET_TYPE_EMERGENCY = 6"

datatype bems_priority_t = BEMS_PRIORITY_LOW | BEMS_PRIORITY_NORMAL | BEMS_PRIORITY_HIGH

fun priority_code :: "bems_priority_t \<Rightarrow> u8" where
  "priority_code BEMS_PRIORITY_LOW = 0"
| "priority_code BEMS_PRIORITY_NORMAL = 1"
| "priority_code BEMS_PRIORITY_HIGH = 2"

definition type_to_u8 :: "bytes \<Rightarrow> u8" where
  "type_to_u8 t =
    (if streq t (lit ''ACK'') then packet_type_code BEMS_PACKET_TYPE_ACK
     else if streq t (lit ''TIME_SYNC'') then packet_type_code BEMS_PACKET_TYPE_TIME_SYNC
     else if streq t (lit ''SYNC_REQ'') then packet_type_code BEMS_PACKET_TYPE_SYNC_REQ
     else if streq t (lit ''SYNC_RESP'') then packet_type_code BEMS_PACKET_TYPE_SYNC_RESP
     else if streq t (lit ''EMERGENCY'') then packet_type_code BEMS_PACKET_TYPE_EMERGENCY
     else packet_type_code BEMS_PACKET_TYPE_FLOOD)"

definition type_from_u8 :: "u8 \<Rightarrow> bytes" where
  "type_from_u8 t =
    (if t = packet_type_code BEMS_PACKET_TYPE_ACK then lit ''ACK''
     else if t = packet_type_code BEMS_PACKET_TYPE_TIME_SYNC then lit ''TIME_SYNC''
     else if t = packet_type_code BEMS_PACKET_TYPE_SYNC_REQ then lit ''SYNC_REQ''
     else if t = packet_type_code BEMS_PACKET_TYPE_SYNC_RESP then lit ''SYNC_RESP''
     else if t = packet_type_code BEMS_PACKET_TYPE_EMERGENCY then lit ''EMERGENCY''
     else lit ''FLOOD'')"

definition priority_to_u8 :: "bytes \<Rightarrow> u8" where
  "priority_to_u8 p =
    (if streq p (lit ''HIGH'') then priority_code BEMS_PRIORITY_HIGH
     else if streq p (lit ''LOW'') then priority_code BEMS_PRIORITY_LOW
     else priority_code BEMS_PRIORITY_NORMAL)"

definition priority_from_u8 :: "u8 \<Rightarrow> bytes" where
  "priority_from_u8 p =
    (if p = priority_code BEMS_PRIORITY_LOW then lit ''LOW''
     else if p = priority_code BEMS_PRIORITY_HIGH then lit ''HIGH''
     else lit ''NORMAL'')"

definition update_thread_key :: "mesh_packet_t \<Rightarrow> mesh_packet_t" where
  "update_thread_key p =
    (if mp_broadcast_destination p \<or> str_empty (mp_destination p) \<or> streq (mp_destination p) (lit ''ALL'')
     then p\<lparr>mp_thread_key := copy_field (mp_thread_key p) (lit ''ANNOUNCEMENTS'')\<rparr>
     else p\<lparr>mp_thread_key := copy_field (mp_thread_key p) (mp_source p)\<rparr>)"

subsection \<open>Location\<close>

definition location_encode :: "location_info_t \<Rightarrow> bytes \<Rightarrow> bytes" where
  "location_encode loc out =
    (if length out = 0 then out
     else snprintf out (take (SITIO_LEN - 1) (cstr (sitio loc)) @ [126] @
            take (BARANGAY_LEN - 1) (cstr (barangay loc)) @ [126] @
            take (MUNICIPALITY_LEN - 1) (cstr (municipality loc))))"

text \<open>The scratch buffer of \<open>location_decode\<close> and of the V2 builder.\<close>

abbreviation LOCATION_BUF_LEN :: nat where
  "LOCATION_BUF_LEN \<equiv> SITIO_LEN + BARANGAY_LEN + MUNICIPALITY_LEN + 2"

definition location_decode :: "bytes option \<Rightarrow> location_info_t" where
  "location_decode encoded =
    (case encoded of
       None \<Rightarrow> location_zero
     | Some e \<Rightarrow>
        (let buffer = copy_field (zeros LOCATION_BUF_LEN) e in
         case strchr buffer 126 of
           None \<Rightarrow> location_zero\<lparr>barangay := copy_field (barangay location_zero) buffer\<rparr>
         | Some first_sep \<Rightarrow>
            (let first = takeWhile (\<lambda>c. c \<noteq> 126) (cstr buffer);
                 loc = location_zero\<lparr>sitio := copy_field (sitio location_zero) first\<rparr> in
             case strchr (tl first_sep) 126 of
               None \<Rightarrow> loc\<lparr>barangay := copy_field (barangay loc) (tl first_sep)\<rparr>
             | Some second_sep \<Rightarrow>
                (let second = takeWhile (\<lambda>c. c \<noteq> 126) (tl first_sep) in
                 loc\<lparr>barangay := copy_field (barangay loc) second,
                     municipality := copy_field (municipality loc) (tl second_sep)\<rparr>))))"

subsection \<open>V1: the text format\<close>

text \<open>At most \<open>n\<close> fields, cut at the bars; the last field keeps the bars it holds.\<close>

fun split_fields :: "nat \<Rightarrow> bytes \<Rightarrow> bytes list" where
  "split_fields 0 s = []"
| "split_fields (Suc 0) s = [s]"
| "split_fields (Suc (Suc n)) s =
    (case strchr s 124 of
       None \<Rightarrow> [s]
     | Some r \<Rightarrow> takeWhile (\<lambda>c. c \<noteq> 124) s # split_fields (Suc n) (tl r))"

definition parse_mesh_packet :: "bytes \<Rightarrow> mesh_packet_t option" where
  "parse_mesh_packet packet =
    (let parsed = mesh_packet_zero;
         packet_copy = cstr (copy_field (zeros PACKET_LEN) packet);
         fields = split_fields 11 packet_copy;
         field_count = length fields in
     if (field_count < 10 \<or> field_count > 11) \<or> \<not> streq (fields ! 0) (lit ''BEMS'') then None
     else
       (let parsed = parsed\<lparr>mp_valid := True,
              mp_id := fst (strtoul (fields ! 1)),
              mp_hops := (if strneq (fields ! 6) (lit ''HOPS='') 5 then atoi (drop 5 (fields ! 6)) else 0),
              mp_source := copy_field (mp_source parsed) (fields ! 2),
              mp_destination := copy_field (mp_destination parsed) (fields ! 3),
              mp_type := copy_field (mp_type parsed) (fields ! 4),
              mp_priority := copy_field (mp_priority parsed) (fields ! 5),
              mp_relay := copy_field (mp_relay parsed) (fields ! 7)\<rparr>;
            parsed = (if field_count = 11
              then parsed\<lparr>mp_next_hop := copy_field (mp_next_hop parsed) (fields ! 8),
                     mp_location_raw := copy_field (mp_location_raw parsed) (fields ! 9),
                     mp_location := location_decode (Some (fields ! 9)),
                     mp_payload := copy_field (mp_payload parsed) (fields ! 10)\<rparr>
              else parsed\<lparr>mp_next_hop := (mp_next_hop parsed)[0 := 0],
                     mp_location_raw := copy_field (mp_location_raw parsed) (fields ! 8),
                     mp_location := location_decode (Some (fields ! 8)),
                     mp_payload := copy_field (mp_payload parsed) (fields ! 9)\<rparr>);
            parsed = parsed\<lparr>mp_broadcast_destination := streq (mp_destination parsed) (lit ''ALL''),
              mp_payload_len := length (cstr (mp_payload parsed))\<rparr>
        in Some (update_thread_key parsed)))"

subsection \<open>V2: the binary format\<close>

definition mesh_packet_is_v2 :: "bytes \<Rightarrow> bool" where
  "mesh_packet_is_v2 packet \<longleftrightarrow> 2 \<le> length packet \<and> packet ! 0 = V2_MAGIC \<and> packet ! 1 = 2"

definition mesh_packet_v2_max_plaintext :: nat where
  "mesh_packet_v2_max_plaintext = BEMS_MAX_PLAINTEXT"

definition require :: "bool \<Rightarrow> unit option" where
  "require b = (if b then Some () else None)"

text \<open>The header: flags, type, priority, source and destination.\<close>

definition parse_v2_head :: "bytes \<Rightarrow> nat \<Rightarrow> ((u8 \<times> u8 \<times> u8 \<times> mesh_packet_t) \<times> nat) option" where
  "parse_v2_head packet offset = do {
     let parsed = mesh_packet_zero;
     (flags, offset) \<leftarrow> read_u8 packet offset;
     (typ, offset) \<leftarrow> read_u8 packet offset;
     (priority, offset) \<leftarrow> read_u8 packet offset;
     (source_len, offset) \<leftarrow> read_u8 packet offset;
     _ \<leftarrow> require (source_len \<noteq> 0);
     (source, offset) \<leftarrow> read_bytes packet offset (mp_source parsed) (unat source_len);
     (destination_len, offset) \<leftarrow> read_u8 packet offset;
     let parsed = parsed\<lparr>mp_source := source\<rparr>;
     if destination_len = V2_BROADCAST_ID
     then Some ((flags, typ, priority, parsed\<lparr>mp_broadcast_destination := True,
                   mp_destination := copy_field (mp_destination parsed) (lit ''ALL'')\<rparr>), offset)
     else do {
       _ \<leftarrow> require (destination_len \<noteq> 0);
       (destination, offset) \<leftarrow> read_bytes packet offset (mp_destination parsed) (unat destination_len);
       Some ((flags, typ, priority, parsed\<lparr>mp_destination := destination\<rparr>), offset)
     }
   }"

text \<open>The route: id, relay, hop budget, path length and next hop.\<close>

definition parse_v2_route :: "u8 \<Rightarrow> mesh_packet_t \<Rightarrow> bytes \<Rightarrow> nat \<Rightarrow> (mesh_packet_t \<times> nat) option" where
  "parse_v2_route flags parsed packet offset = do {
     (ident, offset) \<leftarrow> read_u32 packet offset;
     (relay_len, offset) \<leftarrow> read_u8 packet offset;
     _ \<leftarrow> require (relay_len \<noteq> 0);
     (relay, offset) \<leftarrow> read_bytes packet offset (mp_relay parsed) (unat relay_len);
     (hops, offset) \<leftarrow> read_u8 packet offset;
     (path_hops, offset) \<leftarrow> (if flags AND V2_FLAG_PATH_HOPS \<noteq> 0 then read_u8 packet offset else Some (0, offset));
     let parsed = parsed\<lparr>mp_id := ident, mp_relay := relay, mp_hops := uint hops,
       mp_path_hops := (if flags AND V2_FLAG_PATH_HOPS \<noteq> 0 then uint path_hops else 1)\<rparr>;
     if flags AND V2_FLAG_NEXT_HOP \<noteq> 0
     then do {
       (next_hop_len, offset) \<leftarrow> read_u8 packet offset;
       _ \<leftarrow> require (next_hop_len \<noteq> 0);
       (next_hop, offset) \<leftarrow> read_bytes packet offset (mp_next_hop parsed) (unat next_hop_len);
       Some (parsed\<lparr>mp_next_hop := next_hop\<rparr>, offset)
     }
     else Some (parsed, offset)
   }"

text \<open>The body: the optional location and the payload.\<close>

definition parse_v2_location :: "u8 \<Rightarrow> mesh_packet_t \<Rightarrow> bytes \<Rightarrow> nat \<Rightarrow> (mesh_packet_t \<times> nat) option" where
  "parse_v2_location flags parsed packet offset =
    (if flags AND V2_FLAG_LOCATION \<noteq> 0
     then do {
       (location_len, offset) \<leftarrow> read_u8 packet offset;
       _ \<leftarrow> require (\<not> (location_len > 0 \<and> offset + unat location_len > length packet));
       if location_len > 0
       then (let raw = (blit (mp_location_raw parsed) 0 (take (unat location_len) (drop offset packet)))
                         [unat location_len := 0]
             in Some (parsed\<lparr>mp_location_raw := raw, mp_location := location_decode (Some raw)\<rparr>,
                      offset + unat location_len))
       else Some (parsed, offset)
     }
     else Some (parsed, offset))"

definition parse_v2_payload :: "mesh_packet_t \<Rightarrow> bytes \<Rightarrow> nat \<Rightarrow> ((u8 \<times> mesh_packet_t) \<times> nat) option" where
  "parse_v2_payload parsed packet offset = do {
     (payload_len, offset) \<leftarrow> read_u8 packet offset;
     _ \<leftarrow> require (\<not> (offset + unat payload_len > length packet \<or> unat payload_len \<ge> PAYLOAD_LEN));
     if payload_len > 0
     then Some ((payload_len, parsed\<lparr>mp_payload :=
            (blit (mp_payload parsed) 0 (take (unat payload_len) (drop offset packet)))[unat payload_len := 0]\<rparr>),
            offset + unat payload_len)
     else Some ((payload_len, parsed), offset)
   }"

text \<open>The fields the parser fills in last.\<close>

definition parse_v2_finish :: "u8 \<Rightarrow> u8 \<Rightarrow> u8 \<Rightarrow> mesh_packet_t \<Rightarrow> mesh_packet_t" where
  "parse_v2_finish typ priority payload_len parsed =
    (let parsed = parsed\<lparr>mp_valid := True,
           mp_type := copy_field ((mp_type parsed)[0 := 0]) (type_from_u8 typ),
           mp_priority := copy_field (mp_priority parsed) (priority_from_u8 priority),
           mp_payload_len := unat payload_len\<rparr>;
         parsed = (if str_empty (mp_destination parsed)
           then parsed\<lparr>mp_destination := copy_field (mp_destination parsed) (lit ''ALL''),
                       mp_broadcast_destination := True\<rparr>
           else parsed)
     in update_thread_key parsed)"

text \<open>The parser, with the offset it stops at.\<close>

definition parse_v2_at :: "bytes \<Rightarrow> nat \<Rightarrow> (mesh_packet_t \<times> nat) option" where
  "parse_v2_at packet offset = do {
     ((flags, typ, priority, parsed), offset) \<leftarrow> parse_v2_head packet offset;
     (parsed, offset) \<leftarrow> parse_v2_route flags parsed packet offset;
     (parsed, offset) \<leftarrow> parse_v2_location flags parsed packet offset;
     ((payload_len, parsed), offset) \<leftarrow> parse_v2_payload parsed packet offset;
     Some (parse_v2_finish typ priority payload_len parsed, offset)
   }"

definition parse_mesh_packet_v2 :: "bytes \<Rightarrow> mesh_packet_t option" where
  "parse_mesh_packet_v2 packet =
    (if \<not> mesh_packet_is_v2 packet then None else map_option fst (parse_v2_at packet 2))"

text \<open>The lengths, flags and location text of a packet to send.\<close>

record v2_layout =
  lay_flags :: u8
  lay_source_len :: u8
  lay_destination_len :: u8
  lay_relay_len :: u8
  lay_next_hop_len :: u8
  lay_location :: bytes
  lay_location_len :: u8
  lay_payload_len :: u8

definition v2_plan :: "mesh_packet_t \<Rightarrow> v2_layout option" where
  "v2_plan parsed =
    (let encoded_location = location_encode (mp_location parsed) (zeros LOCATION_BUF_LEN);
         source_len = of_nat (length (cstr (mp_source parsed))) :: u8;
         destination_len = (if mp_broadcast_destination parsed \<or> streq (mp_destination parsed) (lit ''ALL'')
           then V2_BROADCAST_ID else of_nat (length (cstr (mp_destination parsed))));
         relay_len = of_nat (length (cstr (mp_relay parsed))) :: u8;
         payload_len = of_nat (length (cstr (mp_payload parsed))) :: u8 in do {
     _ \<leftarrow> require (\<not> (mp_payload_len parsed > 0 \<and>
            (mp_payload_len parsed > length (mp_payload parsed) \<or> mp_payload_len parsed \<ge> 255)));
     let payload_len = (if mp_payload_len parsed > 0 then of_nat (mp_payload_len parsed) else payload_len);
     _ \<leftarrow> require (\<not> (source_len = 0 \<or> relay_len = 0 \<or> unat payload_len \<ge> length (mp_payload parsed)));
     let next_hop_len = (if \<not> str_empty (mp_next_hop parsed)
           then of_nat (length (cstr (mp_next_hop parsed))) else 0 :: u8);
     _ \<leftarrow> require (\<not> (\<not> str_empty (mp_next_hop parsed) \<and> next_hop_len = 0));
     let flags = (if \<not> str_empty (mp_next_hop parsed) then V2_FLAG_NEXT_HOP else 0);
     let flags = flags OR V2_FLAG_PATH_HOPS;
     let has_location = ((\<not> str_empty (mp_location_raw parsed) \<or> \<not> str_empty (sitio (mp_location parsed)) \<or>
           \<not> str_empty (barangay (mp_location parsed)) \<or> \<not> str_empty (municipality (mp_location parsed)))
           \<and> 0 < length (cstr encoded_location) \<and> length (cstr encoded_location) < 255);
     let location_len = (if has_location then of_nat (length (cstr encoded_location)) else 0 :: u8);
     let flags = (if has_location then flags OR V2_FLAG_LOCATION else flags);
     Some \<lparr>lay_flags = flags, lay_source_len = source_len, lay_destination_len = destination_len,
           lay_relay_len = relay_len, lay_next_hop_len = next_hop_len, lay_location = encoded_location,
           lay_location_len = location_len, lay_payload_len = payload_len\<rparr>
   })"

definition v2_required :: "v2_layout \<Rightarrow> nat" where
  "v2_required l =
    2 + 1 + 1 + 1 + 1 + unat (lay_source_len l) + 1 +
    (if lay_destination_len l = V2_BROADCAST_ID then 0 else unat (lay_destination_len l)) +
    4 + 1 + unat (lay_relay_len l) + 1 + (if lay_flags l AND V2_FLAG_PATH_HOPS \<noteq> 0 then 1 else 0) +
    (if lay_flags l AND V2_FLAG_NEXT_HOP \<noteq> 0 then 1 + unat (lay_next_hop_len l) else 0) +
    (if lay_flags l AND V2_FLAG_LOCATION \<noteq> 0 then 1 + unat (lay_location_len l) else 0) +
    1 + unat (lay_payload_len l)"

text \<open>\<open>parsed->hops < 0 ? 0 : (uint8_t)parsed->hops\<close>.\<close>

definition hop_byte :: "int \<Rightarrow> u8" where
  "hop_byte h = (if h < 0 then 0 else word_of_int h)"

definition v2_write :: "mesh_packet_t \<Rightarrow> v2_layout \<Rightarrow> cursor \<Rightarrow> cursor option" where
  "v2_write parsed l c = do {
     c \<leftarrow> write_u8 V2_MAGIC c;
     c \<leftarrow> write_u8 2 c;
     c \<leftarrow> write_u8 (lay_flags l) c;
     c \<leftarrow> write_u8 (type_to_u8 (mp_type parsed)) c;
     c \<leftarrow> write_u8 (priority_to_u8 (mp_priority parsed)) c;
     c \<leftarrow> write_u8 (lay_source_len l) c;
     c \<leftarrow> write_bytes (mp_source parsed) (unat (lay_source_len l)) c;
     c \<leftarrow> write_u8 (lay_destination_len l) c;
     c \<leftarrow> (if lay_destination_len l \<noteq> V2_BROADCAST_ID
            then write_bytes (mp_destination parsed) (unat (lay_destination_len l)) c else Some c);
     c \<leftarrow> write_u32 (mp_id parsed) c;
     c \<leftarrow> write_u8 (lay_relay_len l) c;
     c \<leftarrow> write_bytes (mp_relay parsed) (unat (lay_relay_len l)) c;
     c \<leftarrow> write_u8 (hop_byte (mp_hops parsed)) c;
     c \<leftarrow> write_u8 (hop_byte (mp_path_hops parsed)) c;
     c \<leftarrow> (if lay_flags l AND V2_FLAG_NEXT_HOP \<noteq> 0
            then do { c \<leftarrow> write_u8 (lay_next_hop_len l) c;
                      write_bytes (mp_next_hop parsed) (unat (lay_next_hop_len l)) c }
            else Some c);
     c \<leftarrow> (if lay_flags l AND V2_FLAG_LOCATION \<noteq> 0
            then do { c \<leftarrow> write_u8 (lay_location_len l) c;
                      write_bytes (lay_location l) (unat (lay_location_len l)) c }
            else Some c);
     c \<leftarrow> write_u8 (lay_payload_len l) c;
     write_bytes (mp_payload parsed) (unat (lay_payload_len l)) c
   }"

definition build_forward_packet_v2 :: "mesh_packet_t \<Rightarrow> bytes \<Rightarrow> (bytes \<times> nat) option" where
  "build_forward_packet_v2 parsed packet = do {
     l \<leftarrow> v2_plan parsed;
     _ \<leftarrow> require (\<not> (v2_required l > BEMS_MAX_PLAINTEXT \<or> length packet < v2_required l));
     (packet, offset) \<leftarrow> v2_write parsed l (packet, 0);
     if offset \<le> BEMS_MAX_PLAINTEXT then Some (packet, offset) else None
   }"

definition mesh_packet_consume_hop :: "mesh_packet_t \<Rightarrow> bool \<times> mesh_packet_t" where
  "mesh_packet_consume_hop packet =
    (if mp_hops packet \<le> 0 then (False, packet)
     else (True, packet\<lparr>mp_hops := mp_hops packet - 1\<rparr>))"

subsection \<open>Well-formed packets\<close>

text \<open>A field buffer has its declared size and holds a terminated string.\<close>

definition field :: "nat \<Rightarrow> bytes \<Rightarrow> bool" where
  "field n b \<longleftrightarrow> length b = n \<and> length (cstr b) < n"

definition wf_location :: "location_info_t \<Rightarrow> bool" where
  "wf_location loc \<longleftrightarrow>
    field SITIO_LEN (sitio loc) \<and> field BARANGAY_LEN (barangay loc) \<and> field MUNICIPALITY_LEN (municipality loc)"

definition wf_packet :: "mesh_packet_t \<Rightarrow> bool" where
  "wf_packet p \<longleftrightarrow>
    field FIELD_LEN (mp_source p) \<and> field FIELD_LEN (mp_destination p) \<and> field FIELD_LEN (mp_type p) \<and>
    field FIELD_LEN (mp_priority p) \<and> field FIELD_LEN (mp_relay p) \<and> field FIELD_LEN (mp_next_hop p) \<and>
    field PACKET_LEN (mp_location_raw p) \<and> wf_location (mp_location p) \<and>
    field FIELD_LEN (mp_thread_key p) \<and> field PAYLOAD_LEN (mp_payload p) \<and> mp_payload_len p < PAYLOAD_LEN"

lemma field_length: "field n b \<Longrightarrow> length b = n"
  by (simp add: field_def)

lemma field_cstr: "field n b \<Longrightarrow> length (cstr b) < n"
  by (simp add: field_def)

lemma field_zeros [simp, wf_intros]: "0 < n \<Longrightarrow> field n (zeros n)"
  by (simp add: field_def)

lemma field_copy_field [simp, wf_intros]: "length b = n \<Longrightarrow> 0 < n \<Longrightarrow> field n (copy_field b s)"
  using length_copied [of n s] by (auto simp: field_def)

lemma field_pad: "length s < n \<Longrightarrow> field n (s @ zeros (n - length s))"
  using le_less_trans [OF length_cstr_le, of s n] by (simp add: field_def cstr_append_zeros)

lemma field_terminated: "k < n \<Longrightarrow> length b = n \<Longrightarrow> field n (b[k := 0])"
proof -
  assume k: "k < n" "length b = n"
  then have "\<not> k < length (cstr (b[k := 0]))"
    using at_cstr [of k "b[k := 0]"] by (auto simp: at_def)
  with k show ?thesis by (simp add: field_def)
qed

lemma field_read_bytes: "read_bytes p off out len = Some (b, off') \<Longrightarrow> length out = n \<Longrightarrow> field n b"
  using read_bytes_terminated [of p off out len b off'] length_read_bytes [of p off out len b off']
  by (simp add: field_def)

lemma wf_location_zero [simp]: "wf_location location_zero"
  by (simp add: wf_location_def location_zero_def)

lemma wf_location_decode [simp]: "wf_location (location_decode e)"
  by (auto simp: location_decode_def wf_location_def location_zero_def Let_def split: option.split)

lemma wf_packet_zero [simp]: "wf_packet mesh_packet_zero"
  by (simp add: wf_packet_def mesh_packet_zero_def)

lemma wf_update_thread_key [simp]: "wf_packet p \<Longrightarrow> wf_packet (update_thread_key p)"
  by (auto simp: wf_packet_def update_thread_key_def dest: field_length)

lemma require_Some [simp]: "require b = Some u \<longleftrightarrow> b"
  by (simp add: require_def)

lemma require_bind [simp]: "Option.bind (require b) f = (if b then f () else None)"
  by (simp add: require_def)

end
