(* ===== verification/Message_Store.thy ===== *)
theory Message_Store
  imports Mesh_Packet
begin

text \<open>
  \<open>src/messages/message_store.c\<close>: sixteen message slots in RAM, each mirrored to a
  checksummed record in flash. The flash service is a parameter (\<open>nvs_api\<close>); the
  mutex, created by \<open>message_store_init\<close> before anything else runs, makes each
  operation one atomic step. Guards against NULL out-pointers have no counterpart.
\<close>

text \<open>ESP-IDF error codes the sources distinguish; any other code is kept by number.\<close>

datatype esp_err_t =
    ESP_OK | ESP_FAIL | ESP_ERR_INVALID_ARG | ESP_ERR_INVALID_STATE | ESP_ERR_INVALID_SIZE
  | ESP_ERR_NO_MEM | ESP_ERR_NVS_NOT_FOUND | ESP_ERR_OTHER nat

abbreviation MAX_MESSAGES :: nat where "MAX_MESSAGES \<equiv> 16"

definition MESSAGE_STORE_MAGIC :: u32 where "MESSAGE_STORE_MAGIC = 0x424D5347"
definition MESSAGE_STORE_VERSION :: u16 where "MESSAGE_STORE_VERSION = 1"

datatype message_slot_state_t =
    MESSAGE_SLOT_EMPTY | MESSAGE_SLOT_QUEUED | MESSAGE_SLOT_SENT | MESSAGE_SLOT_ACKED
  | MESSAGE_SLOT_FAILED | MESSAGE_SLOT_RECEIVED

fun slot_state_code :: "message_slot_state_t \<Rightarrow> u16" where
  "slot_state_code MESSAGE_SLOT_EMPTY = 0"
| "slot_state_code MESSAGE_SLOT_QUEUED = 1"
| "slot_state_code MESSAGE_SLOT_SENT = 2"
| "slot_state_code MESSAGE_SLOT_ACKED = 3"
| "slot_state_code MESSAGE_SLOT_FAILED = 4"
| "slot_state_code MESSAGE_SLOT_RECEIVED = 5"

record emergency_message_t =
  em_id :: u32
  em_direction :: bytes
  em_source :: bytes
  em_destination :: bytes
  em_type :: bytes
  em_priority :: bytes
  em_payload :: bytes
  em_packet :: bytes
  em_origin_location :: location_info_t
  em_thread_key :: bytes
  em_status :: bytes
  em_stored_epoch :: u32
  em_rssi :: int
  em_snr :: int
  em_hops :: int

record persisted_message_t =
  pm_magic :: u32
  pm_version :: u16
  pm_length :: u16
  pm_crc32 :: u32
  pm_state :: u16
  pm_message :: emergency_message_t

definition emergency_message_zero :: emergency_message_t where
  "emergency_message_zero =
    \<lparr>em_id = 0, em_direction = zeros 8, em_source = zeros FIELD_LEN, em_destination = zeros FIELD_LEN,
     em_type = zeros FIELD_LEN, em_priority = zeros FIELD_LEN, em_payload = zeros PAYLOAD_LEN,
     em_packet = zeros PACKET_LEN, em_origin_location = location_zero, em_thread_key = zeros FIELD_LEN,
     em_status = zeros FIELD_LEN, em_stored_epoch = 0, em_rssi = 0, em_snr = 0, em_hops = 0\<rparr>"

definition persisted_message_zero :: persisted_message_t where
  "persisted_message_zero = \<lparr>pm_magic = 0, pm_version = 0, pm_length = 0, pm_crc32 = 0, pm_state = 0,
     pm_message = emergency_message_zero\<rparr>"

subsection \<open>Memory images\<close>

text \<open>
  The bytes of the two structs as the target lays them out: little endian, the message's
  fields are already aligned (752 bytes, no padding), the record has two bytes of padding
  after its state (768 bytes).
\<close>

definition le16 :: "u16 \<Rightarrow> bytes" where
  "le16 v = [ucast v, ucast (drop_bit 8 v)]"

definition of_le16 :: "bytes \<Rightarrow> u16" where
  "of_le16 b = ucast (b ! 0) OR push_bit 8 (ucast (b ! 1))"

definition of_le32_bytes :: "bytes \<Rightarrow> u32" where
  "of_le32_bytes b = of_le32 (b ! 0) (b ! 1) (b ! 2) (b ! 3)"

definition message_image :: "emergency_message_t \<Rightarrow> bytes" where
  "message_image m =
    le32 (em_id m) @ em_direction m @ em_source m @ em_destination m @ em_type m @ em_priority m @
    em_payload m @ em_packet m @ sitio (em_origin_location m) @ barangay (em_origin_location m) @
    municipality (em_origin_location m) @ em_thread_key m @ em_status m @ le32 (em_stored_epoch m) @
    le32 (word_of_int (em_rssi m)) @ le32 (word_of_int (em_snr m)) @ le32 (word_of_int (em_hops m))"

abbreviation MESSAGE_SIZE :: nat where "MESSAGE_SIZE \<equiv> 752"
abbreviation RECORD_SIZE :: nat where "RECORD_SIZE \<equiv> 768"

definition slice :: "nat \<Rightarrow> nat \<Rightarrow> bytes \<Rightarrow> bytes" where
  "slice off len b = take len (drop off b)"

definition message_of_image :: "bytes \<Rightarrow> emergency_message_t" where
  "message_of_image b =
    \<lparr>em_id = of_le32_bytes b, em_direction = slice 4 8 b, em_source = slice 12 32 b,
     em_destination = slice 44 32 b, em_type = slice 76 32 b, em_priority = slice 108 32 b,
     em_payload = slice 140 140 b, em_packet = slice 280 320 b,
     em_origin_location = \<lparr>sitio = slice 600 24 b, barangay = slice 624 24 b, municipality = slice 648 24 b\<rparr>,
     em_thread_key = slice 672 32 b, em_status = slice 704 32 b,
     em_stored_epoch = of_le32_bytes (drop 736 b), em_rssi = sint (of_le32_bytes (drop 740 b)),
     em_snr = sint (of_le32_bytes (drop 744 b)), em_hops = sint (of_le32_bytes (drop 748 b))\<rparr>"

definition record_image :: "persisted_message_t \<Rightarrow> bytes" where
  "record_image r = le32 (pm_magic r) @ le16 (pm_version r) @ le16 (pm_length r) @ le32 (pm_crc32 r) @
     le16 (pm_state r) @ [0, 0] @ message_image (pm_message r)"

definition record_of_image :: "bytes \<Rightarrow> persisted_message_t" where
  "record_of_image b =
    \<lparr>pm_magic = of_le32_bytes b, pm_version = of_le16 (drop 4 b), pm_length = of_le16 (drop 6 b),
     pm_crc32 = of_le32_bytes (drop 8 b), pm_state = of_le16 (drop 12 b), pm_message = message_of_image (drop 16 b)\<rparr>"

subsection \<open>The checksum\<close>

definition crc32_bit :: "u32 \<Rightarrow> u32" where
  "crc32_bit crc = drop_bit 1 crc XOR (0xEDB88320 AND (- (crc AND 1)))"

definition crc32_byte :: "u32 \<Rightarrow> u8 \<Rightarrow> u32" where
  "crc32_byte crc d = (crc32_bit ^^ 8) (crc XOR ucast d)"

definition crc32_bytes :: "bytes \<Rightarrow> u32" where
  "crc32_bytes d = NOT (foldl crc32_byte 0xFFFFFFFF d)"

text \<open>
  One step of the shift register can be undone: the bit shifted out is the top bit of the
  result, since the polynomial has its top bit set.
\<close>

lemma crc32_bit_cases:
  "crc32_bit c = (if bit c 0 then drop_bit 1 c XOR 0xEDB88320 else drop_bit 1 c)"
  by (cases "bit c 0") (simp_all add: crc32_bit_def and_one_eq bit_0 odd_iff_mod_2_eq_one)

lemma crc32_bit_top: "bit (crc32_bit c) 31 = bit c 0"
  using bit_imp_le_length [of c 32] by (auto simp: crc32_bit_cases bit_simps)

lemma crc32_bit_inj: "crc32_bit a = crc32_bit b \<Longrightarrow> a = b"
proof -
  assume eq: "crc32_bit a = crc32_bit b"
  then have 0: "bit a 0 = bit b 0" using crc32_bit_top [of a] crc32_bit_top [of b] by simp
  have "drop_bit 1 a = drop_bit 1 b"
  proof (cases "bit a 0")
    case True
    then have "(drop_bit 1 a XOR 0xEDB88320) XOR 0xEDB88320 = (drop_bit 1 b XOR 0xEDB88320) XOR 0xEDB88320"
      using eq 0 by (simp add: crc32_bit_cases)
    then show ?thesis by (simp only: xor.assoc xor_self_eq xor.right_neutral)
  qed (use eq 0 in \<open>simp add: crc32_bit_cases\<close>)
  then have "bit a (Suc n) = bit b (Suc n)" for n by (metis bit_drop_bit_eq comp_apply plus_1_eq_Suc)
  with 0 show "a = b" by (metis bit_eqI not0_implies_Suc)
qed

lemma crc32_bits_inj: "(crc32_bit ^^ n) a = (crc32_bit ^^ n) b \<Longrightarrow> a = b"
  by (induction n) (auto dest: crc32_bit_inj)

lemma crc32_byte_inj: "crc32_byte a d = crc32_byte b d \<Longrightarrow> a = b"
proof -
  assume "crc32_byte a d = crc32_byte b d"
  then have "a XOR ucast d = b XOR ucast d" unfolding crc32_byte_def by (rule crc32_bits_inj)
  then have "(a XOR ucast d) XOR ucast d = (b XOR ucast d) XOR ucast d" by simp
  then show "a = b" by (simp only: xor.assoc xor_self_eq xor.right_neutral)
qed

lemma ucast_u8_u32: "(ucast (ucast (a :: u8) :: u32) :: u8) = a"
  by (rule bit_word_eqI) (simp add: bit_simps)

lemma ucast_u8_inj: "(ucast (a :: u8) :: u32) = ucast b \<Longrightarrow> a = b"
  by (metis ucast_u8_u32)

lemma crc32_byte_differs: "d \<noteq> d' \<Longrightarrow> crc32_byte c d \<noteq> crc32_byte c d'"
proof
  assume "d \<noteq> d'" "crc32_byte c d = crc32_byte c d'"
  then have "c XOR ucast d = c XOR ucast d'" unfolding crc32_byte_def by (auto dest: crc32_bits_inj)
  then have "c XOR (c XOR ucast d) = c XOR (c XOR ucast d')" by simp
  then have "(ucast d :: u32) = ucast d'" by (simp only: xor.assoc [symmetric] xor_self_eq xor.left_neutral)
  with \<open>d \<noteq> d'\<close> show False by (auto dest: ucast_u8_inj)
qed

lemma foldl_crc_inj: "foldl crc32_byte a d = foldl crc32_byte b d \<Longrightarrow> a = b"
  by (induction d arbitrary: a b) (auto dest: crc32_byte_inj)

lemma crc32_differs: "x \<noteq> y \<Longrightarrow> crc32_bytes (a @ x # b) \<noteq> crc32_bytes (a @ y # b)"
  using crc32_byte_differs foldl_crc_inj by (fastforce simp: crc32_bytes_def)

subsection \<open>Images read back\<close>

definition wf_message :: "emergency_message_t \<Rightarrow> bool" where
  "wf_message m \<longleftrightarrow> length (em_direction m) = 8 \<and> length (em_source m) = 32 \<and> length (em_destination m) = 32 \<and>
    length (em_type m) = 32 \<and> length (em_priority m) = 32 \<and> length (em_payload m) = 140 \<and> length (em_packet m) = 320 \<and>
    length (sitio (em_origin_location m)) = 24 \<and> length (barangay (em_origin_location m)) = 24 \<and>
    length (municipality (em_origin_location m)) = 24 \<and> length (em_thread_key m) = 32 \<and> length (em_status m) = 32 \<and>
    - (2 ^ 31) \<le> em_rssi m \<and> em_rssi m < 2 ^ 31 \<and> - (2 ^ 31) \<le> em_snr m \<and> em_snr m < 2 ^ 31 \<and>
    - (2 ^ 31) \<le> em_hops m \<and> em_hops m < 2 ^ 31"

lemma of_le32_bytes_le32 [simp]: "of_le32_bytes (le32 v @ r) = v"
  using of_le32_le32 [of v] by (simp add: of_le32_bytes_def nth_append)

lemma of_le32_bytes_le32' [simp]: "of_le32_bytes (le32 v) = v"
  using of_le32_bytes_le32 [of v "[]"] by simp

lemma of_le16_le16 [simp]: "of_le16 (le16 v @ r) = v"
  by (rule bit_word_eqI) (auto simp: of_le16_def le16_def bit_simps)

lemma length_le16 [simp]: "length (le16 v) = 2"
  by (simp add: le16_def)

lemma sint_of_int32: "- (2 ^ 31) \<le> i \<Longrightarrow> i < 2 ^ 31 \<Longrightarrow> sint (word_of_int i :: u32) = i"
  by (simp add: signed_of_int signed_take_bit_int_eq_self)

lemma length_message_image: "wf_message m \<Longrightarrow> length (message_image m) = MESSAGE_SIZE"
  by (simp add: message_image_def wf_message_def)

lemma message_of_image: "wf_message m \<Longrightarrow> message_of_image (message_image m) = m"
  by (cases m; cases "em_origin_location m")
   (simp add: message_of_image_def message_image_def wf_message_def slice_def sint_of_int32)

lemma record_of_image: "wf_message (pm_message r) \<Longrightarrow> record_of_image (record_image r) = r"
  by (cases r) (simp add: record_of_image_def record_image_def message_of_image)

lemma length_record_image: "wf_message (pm_message r) \<Longrightarrow> length (record_image r) = RECORD_SIZE"
  by (simp add: record_image_def length_message_image)

lemma wf_message_zero [simp]: "wf_message emergency_message_zero"
  by (simp add: wf_message_def emergency_message_zero_def location_zero_def)

lemma sint_u32_bounds: "- (2 ^ 31) \<le> sint (w :: u32)" "sint (w :: u32) < 2 ^ 31"
  using sint_ge [of w] sint_lt [of w] by simp_all

lemma wf_message_of_image: "length b = MESSAGE_SIZE \<Longrightarrow> wf_message (message_of_image b)"
  using sint_u32_bounds by (simp add: wf_message_def message_of_image_def slice_def)
subsection \<open>The store\<close>

text \<open>
  The flash key-value service the store calls, for one namespace: \<open>nvs_open\<close> (for
  writing or not), \<open>nvs_get_blob\<close> with the size of the caller's buffer,
  \<open>nvs_set_blob\<close>, \<open>nvs_erase_key\<close> and \<open>nvs_commit\<close>, over the keys the
  store uses. The configuration and the packet counter keep other keys of the same namespace;
  \<open>nvs_erase_all\<close>, which \<open>node_config_erase\<close> calls, erases the messages with them.
\<close>

record 'n nvs_api =
  nvs_open :: "'n \<Rightarrow> bool \<Rightarrow> esp_err_t"
  nvs_get_blob :: "'n \<Rightarrow> bytes \<Rightarrow> nat \<Rightarrow> esp_err_t + bytes"
  nvs_set_blob :: "bytes \<Rightarrow> bytes \<Rightarrow> 'n \<Rightarrow> esp_err_t \<times> 'n"
  nvs_erase_key :: "bytes \<Rightarrow> 'n \<Rightarrow> esp_err_t \<times> 'n"
  nvs_erase_all :: "'n \<Rightarrow> esp_err_t \<times> 'n"
  nvs_commit :: "'n \<Rightarrow> esp_err_t \<times> 'n"

record 'n store_state =
  persisted_slots :: "persisted_message_t list"
  reserved_slots :: "bool list"
  active_count :: nat
  flash :: 'n

text \<open>The store's keys after \<open>node_config_erase\<close>.\<close>

definition erase_message_keys :: "'n nvs_api \<Rightarrow> 'n \<Rightarrow> 'n" where
  "erase_message_keys api n = snd (nvs_commit api (snd (nvs_erase_all api n)))"

definition state_for_message :: "emergency_message_t \<Rightarrow> message_slot_state_t" where
  "state_for_message m =
    (if streq (em_direction m) (lit ''RX'') then MESSAGE_SLOT_RECEIVED
     else if streq (em_status m) (lit ''ACKED'') then MESSAGE_SLOT_ACKED
     else if streq (em_status m) (lit ''FAILED'') \<or> strneq (em_status m) (lit ''FAILED_'') 7 then MESSAGE_SLOT_FAILED
     else if streq (em_status m) (lit ''SENT'') then MESSAGE_SLOT_SENT
     else MESSAGE_SLOT_QUEUED)"

definition persisted_record_valid :: "persisted_message_t \<Rightarrow> bool" where
  "persisted_record_valid r \<longleftrightarrow>
    pm_magic r = MESSAGE_STORE_MAGIC \<and> pm_version r = MESSAGE_STORE_VERSION \<and>
    \<not> pm_state r > slot_state_code MESSAGE_SLOT_RECEIVED \<and> pm_length r = of_nat MESSAGE_SIZE \<and>
    pm_crc32 r = crc32_bytes (message_image (pm_message r))"

definition slot_key :: "int \<Rightarrow> bytes option" where
  "slot_key slot = (if slot < 0 \<or> slot \<ge> int MAX_MESSAGES then None else Some (lit ''msg_'' @ print_dec (nat slot)))"

definition clear_slot :: "nat \<Rightarrow> persisted_message_t list \<Rightarrow> persisted_message_t list" where
  "clear_slot slot slots = (if slot < MAX_MESSAGES then slots[slot := persisted_message_zero] else slots)"

text \<open>What \<open>load_persisted_slot\<close> leaves in the slot.\<close>

definition load_persisted_slot :: "'n nvs_api \<Rightarrow> 'n \<Rightarrow> int \<Rightarrow> persisted_message_t list \<Rightarrow> persisted_message_t list" where
  "load_persisted_slot api handle slot slots =
    (case slot_key slot of
       None \<Rightarrow> slots
     | Some key \<Rightarrow>
        (case nvs_get_blob api handle key RECORD_SIZE of
           Inl result \<Rightarrow> clear_slot (nat slot) slots
         | Inr blob \<Rightarrow>
             if length blob \<noteq> RECORD_SIZE \<or> \<not> persisted_record_valid (record_of_image blob)
             then clear_slot (nat slot) slots
             else slots[nat slot := record_of_image blob]))"

definition recalculate_active_count :: "'n store_state \<Rightarrow> 'n store_state" where
  "recalculate_active_count st =
    st\<lparr>active_count := count_if (\<lambda>r. pm_state r \<noteq> slot_state_code MESSAGE_SLOT_EMPTY) (persisted_slots st)\<rparr>"

definition delete_record_nvs :: "'n nvs_api \<Rightarrow> int \<Rightarrow> 'n \<Rightarrow> esp_err_t \<times> 'n" where
  "delete_record_nvs api slot n =
    (case slot_key slot of
       None \<Rightarrow> (ESP_ERR_INVALID_ARG, n)
     | Some key \<Rightarrow>
        if nvs_open api n True \<noteq> ESP_OK then (nvs_open api n True, n)
        else (case nvs_erase_key api key n of (result, n) \<Rightarrow>
          if result = ESP_OK \<or> result = ESP_ERR_NVS_NOT_FOUND then nvs_commit api n else (result, n)))"

definition delete_record_locked :: "'n nvs_api \<Rightarrow> int \<Rightarrow> 'n store_state \<Rightarrow> esp_err_t \<times> 'n store_state" where
  "delete_record_locked api slot st =
    (case delete_record_nvs api slot (flash st) of (result, n) \<Rightarrow>
       let st = st\<lparr>flash := n\<rparr> in
       if result = ESP_OK \<or> result = ESP_ERR_NVS_NOT_FOUND
       then (ESP_OK, recalculate_active_count (st\<lparr>persisted_slots := clear_slot (nat slot) (persisted_slots st)\<rparr>))
       else (result, st))"

definition message_matches :: "emergency_message_t \<Rightarrow> u32 \<Rightarrow> bytes \<Rightarrow> bool" where
  "message_matches m ident source \<longleftrightarrow> \<not> str_empty source \<and> em_id m = ident \<and> streq (em_source m) source"

definition find_message_slot :: "'n store_state \<Rightarrow> u32 \<Rightarrow> bytes \<Rightarrow> nat option" where
  "find_message_slot st ident source =
    find_index (\<lambda>r. pm_state r \<noteq> slot_state_code MESSAGE_SLOT_EMPTY \<and> message_matches (pm_message r) ident source)
      (persisted_slots st)"

text \<open>The filter applied to the loaded records; a NULL \<open>node_id\<close> is None.\<close>

definition foreign_record :: "bytes option \<Rightarrow> persisted_message_t \<Rightarrow> bool" where
  "foreign_record local r =
    (case local of None \<Rightarrow> False | Some ident \<Rightarrow>
       \<not> str_empty ident \<and> \<not> streq (em_source (pm_message r)) ident \<and> \<not> streq (em_destination (pm_message r)) ident)"

definition message_store_load_messages_from_nvs :: "'n nvs_api \<Rightarrow> bytes option \<Rightarrow> 'n store_state \<Rightarrow> 'n store_state" where
  "message_store_load_messages_from_nvs api local st =
    (let st = st\<lparr>persisted_slots := replicate MAX_MESSAGES persisted_message_zero,
                 reserved_slots := replicate MAX_MESSAGES False, active_count := 0\<rparr> in
     if nvs_open api (flash st) False \<noteq> ESP_OK then st
     else (let slots = fold (\<lambda>slot. load_persisted_slot api (flash st) (int slot)) [0..<MAX_MESSAGES] (persisted_slots st);
               slots = map (\<lambda>r. if pm_state r = slot_state_code MESSAGE_SLOT_EMPTY then r
                                else if foreign_record local r then persisted_message_zero else r) slots
           in recalculate_active_count (st\<lparr>persisted_slots := slots\<rparr>)))"

text \<open>The second loop of \<open>message_store_allocate\<close>: the slot to give up and its epoch.\<close>

definition evictable :: "persisted_message_t \<Rightarrow> bool \<Rightarrow> bool" where
  "evictable r reserved \<longleftrightarrow> \<not> reserved \<and>
    state_for_message (pm_message r) \<in> {MESSAGE_SLOT_ACKED, MESSAGE_SLOT_FAILED, MESSAGE_SLOT_RECEIVED}"

fun evict_loop :: "persisted_message_t list \<Rightarrow> bool list \<Rightarrow> nat \<Rightarrow> (nat \<times> u32) option \<Rightarrow> nat option" where
  "evict_loop (r # rs) (v # vs) i oldest =
    (if \<not> evictable r v then evict_loop rs vs (Suc i) oldest
     else (let epoch = em_stored_epoch (pm_message r) in
       evict_loop rs vs (Suc i)
         (case oldest of
            None \<Rightarrow> Some (i, epoch)
          | Some (j, oldest_epoch) \<Rightarrow>
              if epoch \<noteq> 0 \<and> (oldest_epoch = 0 \<or> epoch < oldest_epoch) then Some (i, epoch) else oldest)))"
| "evict_loop _ _ i oldest = map_option fst oldest"

definition message_store_allocate :: "'n nvs_api \<Rightarrow> 'n store_state \<Rightarrow> nat option \<times> 'n store_state" where
  "message_store_allocate api st =
    (case find_index (\<lambda>i. pm_state (persisted_slots st ! i) = slot_state_code MESSAGE_SLOT_EMPTY \<and> \<not> reserved_slots st ! i)
       [0..<MAX_MESSAGES] of
       Some i \<Rightarrow> (Some i, st\<lparr>reserved_slots := (reserved_slots st)[i := True]\<rparr>)
     | None \<Rightarrow>
        (case evict_loop (persisted_slots st) (reserved_slots st) 0 None of
           None \<Rightarrow> (None, st)
         | Some oldest_slot \<Rightarrow>
            (case delete_record_locked api (int oldest_slot) st of (result, st) \<Rightarrow>
               if result = ESP_OK
               then (Some oldest_slot, st\<lparr>reserved_slots := (reserved_slots st)[oldest_slot := True]\<rparr>)
               else (None, st))))"

definition make_record :: "emergency_message_t \<Rightarrow> message_slot_state_t \<Rightarrow> persisted_message_t" where
  "make_record m state = \<lparr>pm_magic = MESSAGE_STORE_MAGIC, pm_version = MESSAGE_STORE_VERSION,
     pm_length = of_nat MESSAGE_SIZE, pm_crc32 = crc32_bytes (message_image m),
     pm_state = slot_state_code state, pm_message = m\<rparr>"

definition write_record_locked ::
  "'n nvs_api \<Rightarrow> int \<Rightarrow> emergency_message_t \<Rightarrow> message_slot_state_t \<Rightarrow> 'n store_state \<Rightarrow> esp_err_t \<times> 'n store_state" where
  "write_record_locked api slot m state st =
    (case slot_key slot of
       None \<Rightarrow> (ESP_ERR_INVALID_ARG, st)
     | Some key \<Rightarrow>
        if nvs_open api (flash st) True \<noteq> ESP_OK then (nvs_open api (flash st) True, st)
        else (let record = make_record m state;
                  (result, n) = nvs_set_blob api key (record_image record) (flash st);
                  (result, n) = (if result = ESP_OK then nvs_commit api n else (result, n));
                  st = st\<lparr>flash := n\<rparr>
              in (result, if result = ESP_OK
                          then recalculate_active_count (st\<lparr>persisted_slots := (persisted_slots st)[nat slot := record]\<rparr>)
                          else st)))"

definition slot_in_range :: "int \<Rightarrow> bool" where
  "slot_in_range slot \<longleftrightarrow> \<not> (slot < 0 \<or> slot \<ge> int MAX_MESSAGES)"

definition message_store_write ::
  "'n nvs_api \<Rightarrow> int \<Rightarrow> emergency_message_t \<Rightarrow> 'n store_state \<Rightarrow> esp_err_t \<times> 'n store_state" where
  "message_store_write api slot m st =
    (if \<not> slot_in_range slot then (ESP_ERR_INVALID_ARG, st)
     else if \<not> reserved_slots st ! nat slot then (ESP_ERR_INVALID_STATE, st)
     else (case write_record_locked api slot m (state_for_message m) st of (result, st) \<Rightarrow>
       (result, st\<lparr>reserved_slots := (reserved_slots st)[nat slot := False]\<rparr>)))"

definition message_store_update ::
  "'n nvs_api \<Rightarrow> int \<Rightarrow> emergency_message_t \<Rightarrow> 'n store_state \<Rightarrow> esp_err_t \<times> 'n store_state" where
  "message_store_update api slot m st =
    (if \<not> slot_in_range slot then (ESP_ERR_INVALID_ARG, st)
     else if reserved_slots st ! nat slot \<and> pm_state (persisted_slots st ! nat slot) = slot_state_code MESSAGE_SLOT_EMPTY
       then (case write_record_locked api slot m (state_for_message m) st of (result, st) \<Rightarrow>
         (result, st\<lparr>reserved_slots := (reserved_slots st)[nat slot := False]\<rparr>))
     else if pm_state (persisted_slots st ! nat slot) \<noteq> slot_state_code MESSAGE_SLOT_EMPTY
       then write_record_locked api slot m (state_for_message m) st
     else (ESP_ERR_INVALID_STATE, st))"

definition message_store_delete :: "'n nvs_api \<Rightarrow> int \<Rightarrow> 'n store_state \<Rightarrow> esp_err_t \<times> 'n store_state" where
  "message_store_delete api slot st =
    (if \<not> slot_in_range slot then (ESP_ERR_INVALID_ARG, st)
     else if reserved_slots st ! nat slot \<and> pm_state (persisted_slots st ! nat slot) = slot_state_code MESSAGE_SLOT_EMPTY
       then (ESP_OK, st\<lparr>reserved_slots := (reserved_slots st)[nat slot := False]\<rparr>)
     else delete_record_locked api slot st)"

definition message_store_read :: "int \<Rightarrow> 'n store_state \<Rightarrow> emergency_message_t option" where
  "message_store_read slot st =
    (if \<not> slot_in_range slot then None
     else if pm_state (persisted_slots st ! nat slot) \<noteq> slot_state_code MESSAGE_SLOT_EMPTY \<and>
             persisted_record_valid (persisted_slots st ! nat slot)
     then Some (pm_message (persisted_slots st ! nat slot)) else None)"

text \<open>The messages of the used slots, in slot order.\<close>

definition used_messages :: "'n store_state \<Rightarrow> emergency_message_t list" where
  "used_messages st = map pm_message (filter (\<lambda>r. pm_state r \<noteq> slot_state_code MESSAGE_SLOT_EMPTY) (persisted_slots st))"

fun get_loop :: "persisted_message_t list \<Rightarrow> nat \<Rightarrow> nat \<Rightarrow> emergency_message_t option" where
  "get_loop [] index count = None"
| "get_loop (r # rs) index count =
    (if pm_state r = slot_state_code MESSAGE_SLOT_EMPTY then get_loop rs index count
     else if count = index then Some (pm_message r)
     else get_loop rs index (count + 1))"

definition message_store_get :: "nat \<Rightarrow> 'n store_state \<Rightarrow> emergency_message_t option" where
  "message_store_get index st = get_loop (persisted_slots st) index 0"

definition message_store_find :: "u32 \<Rightarrow> bytes option \<Rightarrow> 'n store_state \<Rightarrow> emergency_message_t option" where
  "message_store_find ident source st =
    (case source of None \<Rightarrow> None | Some source \<Rightarrow>
       if str_empty source then None
       else map_option (\<lambda>slot. pm_message (persisted_slots st ! slot)) (find_message_slot st ident source))"

definition message_store_remove :: "'n nvs_api \<Rightarrow> u32 \<Rightarrow> bytes option \<Rightarrow> 'n store_state \<Rightarrow> bool \<times> 'n store_state" where
  "message_store_remove api ident source st =
    (case source of None \<Rightarrow> (False, st) | Some source \<Rightarrow>
       if str_empty source then (False, st)
       else (case find_message_slot st ident source of
         None \<Rightarrow> (False, st)
       | Some slot \<Rightarrow> (case delete_record_locked api (int slot) st of (result, st) \<Rightarrow> (result = ESP_OK, st))))"

definition message_store_update_status ::
  "'n nvs_api \<Rightarrow> u32 \<Rightarrow> bytes option \<Rightarrow> bytes \<Rightarrow> 'n store_state \<Rightarrow> 'n store_state" where
  "message_store_update_status api ident source status st =
    (case source of None \<Rightarrow> st | Some source \<Rightarrow>
       if str_empty source then st
       else (case find_message_slot st ident source of
         None \<Rightarrow> st
       | Some slot \<Rightarrow>
          (let m = pm_message (persisted_slots st ! slot);
               m = m\<lparr>em_status := copy_field (em_status m) status\<rparr>
           in snd (write_record_locked api (int slot) m (state_for_message m) st))))"

fun copy_all_loop :: "persisted_message_t list \<Rightarrow> nat \<Rightarrow> emergency_message_t list" where
  "copy_all_loop [] room = []"
| "copy_all_loop (r # rs) room =
    (if room = 0 then []
     else if pm_state r = slot_state_code MESSAGE_SLOT_EMPTY then copy_all_loop rs room
     else pm_message r # copy_all_loop rs (room - 1))"

definition message_store_copy_all :: "nat \<Rightarrow> 'n store_state \<Rightarrow> emergency_message_t list" where
  "message_store_copy_all max_messages st = copy_all_loop (persisted_slots st) max_messages"

definition message_store_count :: "'n store_state \<Rightarrow> nat" where
  "message_store_count st = active_count st"

definition pending_tx :: "emergency_message_t \<Rightarrow> bool" where
  "pending_tx m \<longleftrightarrow>
    state_for_message m \<in> {MESSAGE_SLOT_QUEUED, MESSAGE_SLOT_SENT} \<and> streq (em_direction m) (lit ''TX'') \<and>
    \<not> streq (em_status m) (lit ''ACKED'') \<and> \<not> strneq (em_status m) (lit ''FAILED'') 6"

fun pending_loop :: "persisted_message_t list \<Rightarrow> nat \<Rightarrow> nat \<Rightarrow> (emergency_message_t \<times> nat) list" where
  "pending_loop [] slot room = []"
| "pending_loop (r # rs) slot room =
    (if room = 0 then []
     else if pending_tx (pm_message r) then (pm_message r, slot) # pending_loop rs (slot + 1) (room - 1)
     else pending_loop rs (slot + 1) room)"

definition message_store_copy_pending_tx :: "nat \<Rightarrow> 'n store_state \<Rightarrow> (emergency_message_t \<times> nat) list" where
  "message_store_copy_pending_tx capacity st = pending_loop (persisted_slots st) 0 capacity"

end
