(* ===== verification/Slot_Table.thy ===== *)
theory Slot_Table
  imports BMesh_Prelude
begin

text \<open>
  Fixed-size tables with eviction. The route table, the roster and the replay table are
  arrays searched by key; a new key takes a free slot and, when there is none, the slot
  whose time stamp is oldest. This theory has the shared eviction loop, the array seen as a
  list of slots with the map it denotes, and the interface the three tables promise.
\<close>

subsection \<open>The eviction loop\<close>

text \<open>
  \<open>oldest = 0; for (i = 1; i < n; i++) if (age(i) > age(oldest)) oldest = i;\<close>
\<close>

fun oldest_loop :: "(nat \<Rightarrow> u32) \<Rightarrow> nat \<Rightarrow> nat \<Rightarrow> nat \<Rightarrow> nat" where
  "oldest_loop age 0 i oldest = oldest"
| "oldest_loop age (Suc n) i oldest =
    oldest_loop age n (Suc i) (if age i > age oldest then i else oldest)"

definition oldest_index :: "(nat \<Rightarrow> u32) \<Rightarrow> nat \<Rightarrow> nat" where
  "oldest_index age n = oldest_loop age (n - 1) 1 0"

lemma oldest_loop_spec:
  assumes "best < i" "\<forall>j<i. age j \<le> age best"
  shows "oldest_loop age n i best < i + n \<and> (\<forall>j<i + n. age j \<le> age (oldest_loop age n i best))"
  using assms
proof (induction n arbitrary: i best)
  case (Suc n)
  let ?b = "if age i > age best then i else best"
  have "\<forall>j<Suc i. age j \<le> age ?b" using Suc.prems(2) by (auto simp: less_Suc_eq)
  moreover have "?b < Suc i" using Suc.prems(1) by auto
  ultimately show ?case using Suc.IH [of ?b "Suc i"] by simp
qed auto

lemma oldest_index_spec:
  assumes "0 < n"
  shows "oldest_index age n < n" "j < n \<Longrightarrow> age j \<le> age (oldest_index age n)"
  using oldest_loop_spec [of 0 1 age "n - 1"] assms by (auto simp: oldest_index_def)

subsection \<open>An array as a list of slots\<close>

text \<open>A slot is None while its array element is unused.\<close>

definition holds :: "('e \<Rightarrow> 'k) \<Rightarrow> 'k \<Rightarrow> 'e option \<Rightarrow> bool" where
  "holds key k s = (case s of None \<Rightarrow> False | Some e \<Rightarrow> key e = k)"

definition slot_lookup :: "('e \<Rightarrow> 'k) \<Rightarrow> 'e option list \<Rightarrow> 'k \<Rightarrow> 'e option" where
  "slot_lookup key slots k = Option.bind (find_index (holds key k) slots) (\<lambda>i. slots ! i)"

definition unique_keys :: "('e \<Rightarrow> 'k) \<Rightarrow> 'e option list \<Rightarrow> bool" where
  "unique_keys key slots \<longleftrightarrow>
    (\<forall>i<length slots. \<forall>j<length slots. \<forall>k. holds key k (slots ! i) \<and> holds key k (slots ! j) \<longrightarrow> i = j)"

lemma holds_simps [simp]: "\<not> holds key k None" "holds key k (Some e) \<longleftrightarrow> key e = k"
  by (simp_all add: holds_def)

lemma unique_keysD:
  "unique_keys key slots \<Longrightarrow> i < length slots \<Longrightarrow> j < length slots \<Longrightarrow>
   holds key k (slots ! i) \<Longrightarrow> holds key k (slots ! j) \<Longrightarrow> i = j"
  by (auto simp: unique_keys_def)

lemma slot_lookup_None: "slot_lookup key slots k = None \<longleftrightarrow> (\<forall>i<length slots. \<not> holds key k (slots ! i))"
proof (cases "find_index (holds key k) slots")
  case None
  then have "\<forall>x\<in>set slots. \<not> holds key k x" by simp
  with None show ?thesis by (simp only: slot_lookup_def) (simp add: nth_mem)
next
  case (Some i)
  from find_index_SomeD [OF this] have "i < length slots" "holds key k (slots ! i)" by auto
  with Some show ?thesis by (auto simp: slot_lookup_def holds_def split: option.splits)
qed

lemma slot_lookup_Some:
  assumes "unique_keys key slots"
  shows "slot_lookup key slots k = Some e \<longleftrightarrow> (\<exists>i<length slots. slots ! i = Some e \<and> key e = k)"
proof
  assume "slot_lookup key slots k = Some e"
  then obtain i where "find_index (holds key k) slots = Some i" "slots ! i = Some e"
    by (auto simp: slot_lookup_def Option.bind_eq_Some_conv)
  with find_index_SomeD [OF this(1)] show "\<exists>i<length slots. slots ! i = Some e \<and> key e = k" by auto
next
  assume "\<exists>i<length slots. slots ! i = Some e \<and> key e = k"
  then obtain i where i: "i < length slots" "slots ! i = Some e" "key e = k" by blast
  have "find_index (holds key k) slots = Some i"
  proof (rule find_index_unique)
    show "j = i" if "j < length slots" "holds key k (slots ! j)" for j
      using unique_keysD [OF assms that(1) i(1) that(2)] i by simp
  qed (use i in simp_all)
  with i show "slot_lookup key slots k = Some e" by (simp add: slot_lookup_def)
qed

lemma unique_keys_update:
  assumes "unique_keys key slots" "\<forall>j<length slots. j \<noteq> i \<longrightarrow> \<not> holds key (key e) (slots ! j)"
  shows "unique_keys key (slots[i := Some e])"
proof -
  have "a = b" if "a < length slots" "b < length slots" "holds key k (slots[i := Some e] ! a)"
    "holds key k (slots[i := Some e] ! b)" for a b k
  proof (cases "a = i"; cases "b = i")
    assume "a = i" "b \<noteq> i"
    then show ?thesis using that assms(2) by auto
  next
    assume "a \<noteq> i" "b = i"
    then show ?thesis using that assms(2) by auto
  next
    assume "a \<noteq> i" "b \<noteq> i"
    then show ?thesis using that unique_keysD [OF assms(1)] by auto
  qed simp
  then show ?thesis unfolding unique_keys_def by (metis length_list_update)
qed

text \<open>Writing an entry: its key is bound, the key the slot held before is lost.\<close>

lemma slot_lookup_update:
  assumes "unique_keys key slots" "i < length slots"
    "\<forall>j<length slots. j \<noteq> i \<longrightarrow> \<not> holds key (key e) (slots ! j)"
  shows "slot_lookup key (slots[i := Some e]) k =
    (if k = key e then Some e else if holds key k (slots ! i) then None else slot_lookup key slots k)"
proof -
  note u = unique_keys_update [OF assms(1,3)]
  consider (same) "k = key e" | (lost) "k \<noteq> key e" "holds key k (slots ! i)"
    | (other) "k \<noteq> key e" "\<not> holds key k (slots ! i)" by blast
  then show ?thesis
  proof cases
    case same
    then show ?thesis using slot_lookup_Some [OF u, of k e] assms(2) by auto
  next
    case lost
    have "\<not> holds key k (slots[i := Some e] ! j)" if "j < length slots" for j
    proof (cases "j = i")
      case False
      then show ?thesis using unique_keysD [OF assms(1) that assms(2) _ lost(2)] by auto
    qed (use lost assms(2) in simp)
    then have "slot_lookup key (slots[i := Some e]) k = None" by (simp add: slot_lookup_None)
    with lost show ?thesis by simp
  next
    case other
    have "slot_lookup key (slots[i := Some e]) k = Some x \<longleftrightarrow> slot_lookup key slots k = Some x" for x
      unfolding slot_lookup_Some [OF u] slot_lookup_Some [OF assms(1)]
    proof (simp, intro iffI; elim exE conjE)
      fix j assume j: "j < length slots" "slots[i := Some e] ! j = Some x" "key x = k"
      with other assms(2) have "slots ! j = Some x" by (cases "j = i") auto
      with j show "\<exists>j<length slots. slots ! j = Some x \<and> key x = k" by blast
    next
      fix j assume j: "j < length slots" "slots ! j = Some x" "key x = k"
      then have "j \<noteq> i" using other(2) by auto
      with j show "\<exists>j<length slots. slots[i := Some e] ! j = Some x \<and> key x = k" by (intro exI [of _ j]) simp
    qed
    then have "slot_lookup key (slots[i := Some e]) k = slot_lookup key slots k"
      by (cases "slot_lookup key slots k"; cases "slot_lookup key (slots[i := Some e]) k") auto
    with other show ?thesis by simp
  qed
qed

text \<open>The number of keys is the number of used slots.\<close>

lemma dom_slot_lookup_Suc:
  "dom (slot_lookup key (s # slots)) = (case s of None \<Rightarrow> {} | Some e \<Rightarrow> {key e}) \<union> dom (slot_lookup key slots)"
proof -
  have "slot_lookup key (s # slots) k \<noteq> None \<longleftrightarrow> holds key k s \<or> slot_lookup key slots k \<noteq> None" for k
    unfolding slot_lookup_None by (auto simp: less_Suc_eq_0_disj)
  then show ?thesis by (auto simp: dom_def split: option.splits)
qed

lemma unique_keys_Cons:
  assumes "unique_keys key (s # slots)"
  shows "unique_keys key slots" "s = Some e \<Longrightarrow> key e \<notin> dom (slot_lookup key slots)"
proof -
  show "unique_keys key slots"
    unfolding unique_keys_def
  proof (intro allI impI)
    fix i j k assume "i < length slots" "j < length slots" "holds key k (slots ! i) \<and> holds key k (slots ! j)"
    with unique_keysD [OF assms, of "Suc i" "Suc j" k] show "i = j" by simp
  qed
  show "key e \<notin> dom (slot_lookup key slots)" if "s = Some e"
  proof -
    have "\<not> holds key (key e) (slots ! i)" if "i < length slots" for i
      using unique_keysD [OF assms, of 0 "Suc i" "key e"] that \<open>s = Some e\<close> by auto
    then have "slot_lookup key slots (key e) = None" by (simp add: slot_lookup_None)
    then show ?thesis by (simp add: dom_def)
  qed
qed

lemma card_dom_slot_lookup:
  "unique_keys key slots \<Longrightarrow>
   finite (dom (slot_lookup key slots)) \<and> card (dom (slot_lookup key slots)) = count_if (\<lambda>s. s \<noteq> None) slots"
proof (induction slots)
  case Nil
  have "slot_lookup key [] k = None" for k by (simp add: slot_lookup_def)
  then have "dom (slot_lookup key []) = {}" by (auto simp: dom_def)
  then show ?case by (simp add: count_if_def)
next
  case (Cons s slots)
  note u = unique_keys_Cons [OF Cons.prems]
  show ?case
    using Cons.IH [OF u(1)] u(2) by (cases s) (auto simp: dom_slot_lookup_Suc count_if_def)
qed

text \<open>
  The slot a table chooses for a key: the one that holds it, else a free one, else any slot
  of a full array.
\<close>

definition placed :: "('e \<Rightarrow> 'k) \<Rightarrow> 'e option list \<Rightarrow> nat \<Rightarrow> 'k \<Rightarrow> bool" where
  "placed key slots i k \<longleftrightarrow> i < length slots \<and>
    (if slot_lookup key slots k \<noteq> None then holds key k (slots ! i)
     else slots ! i = None \<or> None \<notin> set slots)"

lemma placed_others:
  assumes "unique_keys key slots" "placed key slots i k" "j < length slots" "j \<noteq> i"
  shows "\<not> holds key k (slots ! j)"
proof (cases "slot_lookup key slots k")
  case None
  then show ?thesis using assms(3) by (simp add: slot_lookup_None)
next
  case Some
  then have "holds key k (slots ! i)" "i < length slots" using assms(2) by (auto simp: placed_def)
  with unique_keysD [OF assms(1), of j i k] assms(3,4) show ?thesis by blast
qed

lemma placed_unique:
  "unique_keys key slots \<Longrightarrow> placed key slots i (key e) \<Longrightarrow> unique_keys key (slots[i := Some e])"
  using placed_others [of key slots i "key e"] by (intro unique_keys_update) auto

lemma count_if_full: "count_if (\<lambda>s. s \<noteq> None) slots = length slots \<longleftrightarrow> None \<notin> set slots"
  by (metis (mono_tags, lifting) count_if_def filter_id_conv length_filter_less less_irrefl)

lemma placed_lookup:
  assumes "unique_keys key slots" "placed key slots i (key e)"
    and room: "slot_lookup key slots (key e) \<noteq> None \<or> card (dom (slot_lookup key slots)) < length slots"
  shows "slot_lookup key (slots[i := Some e]) = (slot_lookup key slots)(key e \<mapsto> e)"
proof -
  have i: "i < length slots" using assms(2) by (simp add: placed_def)
  have "None \<in> set slots" if "slot_lookup key slots (key e) = None"
    using room that count_if_full [of slots] card_dom_slot_lookup [OF assms(1)] by auto
  then have "\<not> holds key k (slots ! i)" if "k \<noteq> key e" for k
    using assms(2) that by (auto simp: placed_def holds_def split: option.splits if_splits)
  then show ?thesis
    using slot_lookup_update [OF assms(1) i, of e] placed_others [OF assms(1,2)] by (intro ext) simp
qed

lemma placed_evicts:
  assumes "unique_keys key slots" "placed key slots i (key e)"
    and full: "slot_lookup key slots (key e) = None" "card (dom (slot_lookup key slots)) = length slots"
  shows "\<exists>v\<in>dom (slot_lookup key slots). holds key v (slots ! i) \<and>
    slot_lookup key (slots[i := Some e]) = (slot_lookup key slots)(v := None, key e \<mapsto> e)"
proof -
  have i: "i < length slots" using assms(2) by (simp add: placed_def)
  have "None \<notin> set slots"
    using full(2) count_if_full [of slots] card_dom_slot_lookup [OF assms(1)] by simp
  then obtain e' where e': "slots ! i = Some e'" using i nth_mem [of i slots] by (cases "slots ! i") auto
  then have "slot_lookup key slots (key e') = Some e'" using slot_lookup_Some [OF assms(1)] i by blast
  moreover have "slot_lookup key (slots[i := Some e]) = (slot_lookup key slots)(key e' := None, key e \<mapsto> e)"
    using slot_lookup_update [OF assms(1) i, of e] placed_others [OF assms(1,2)] e' by (intro ext) auto
  ultimately show ?thesis using e' by (intro bexI [of _ "key e'"]) auto
qed

subsection \<open>An array with a count\<close>

text \<open>The first \<open>c\<close> of \<open>n\<close> elements are in use.\<close>

definition counted_slots :: "nat \<Rightarrow> 'e list \<Rightarrow> nat \<Rightarrow> 'e option list" where
  "counted_slots n arr c = map Some (take c arr) @ replicate (n - c) None"

lemma find_index_pad: "\<not> P None \<Longrightarrow> find_index P (xs @ replicate n None) = find_index P xs"
  by (induction xs) simp_all

lemma find_counted_slots:
  "find_index (holds key k) (counted_slots n arr c) = find_index (\<lambda>e. key e = k) (take c arr)"
  unfolding counted_slots_def by (subst find_index_pad) (simp_all add: find_index_map)

lemma length_counted_slots [simp]: "length arr = n \<Longrightarrow> c \<le> n \<Longrightarrow> length (counted_slots n arr c) = n"
  by (simp add: counted_slots_def)

lemma counted_slots_nth:
  "length arr = n \<Longrightarrow> c \<le> n \<Longrightarrow> i < n \<Longrightarrow> counted_slots n arr c ! i = (if i < c then Some (arr ! i) else None)"
  by (auto simp: counted_slots_def nth_append)

text \<open>Writing an entry at an old index or at the first free one.\<close>

lemma counted_slots_write:
  assumes "length arr = n" "c \<le> n" "i < n" "i \<le> c"
  shows "counted_slots n (arr[i := e]) (max c (Suc i)) = (counted_slots n arr c)[i := Some e]"
proof (rule nth_equalityI)
  show l: "length (counted_slots n (arr[i := e]) (max c (Suc i))) = length ((counted_slots n arr c)[i := Some e])"
    using assms by simp
  fix j assume "j < length (counted_slots n (arr[i := e]) (max c (Suc i)))"
  then have j: "j < n" using assms by simp
  show "counted_slots n (arr[i := e]) (max c (Suc i)) ! j = (counted_slots n arr c)[i := Some e] ! j"
    using j assms by (cases "j = i") (auto simp: counted_slots_nth)
qed

text \<open>The slot a counted table takes for a key it does not hold.\<close>

lemma placed_counted:
  assumes "length arr = n" "c \<le> n" "slot_lookup key (counted_slots n arr c) k = None"
    and "i = (if c < n then c else j)" "j < n"
  shows "placed key (counted_slots n arr c) i k"
  using assms counted_slots_nth [of arr n c i] by (auto simp: placed_def counted_slots_def)

lemma counted_found:
  assumes "length arr = n" "c \<le> n" "find_index (holds key k) (counted_slots n arr c) = Some j"
  shows "j < c" "slot_lookup key (counted_slots n arr c) k = Some (arr ! j)" "key (arr ! j) = k"
    "placed key (counted_slots n arr c) j k"
proof -
  have "find_index (\<lambda>e. key e = k) (take c arr) = Some j" using assms(3) by (simp add: find_counted_slots)
  from find_index_SomeD [OF this] have j: "j < c" "key (arr ! j) = k" using assms by auto
  then show "j < c" "key (arr ! j) = k" by simp_all
  have s: "counted_slots n arr c ! j = Some (arr ! j)" using assms j by (simp add: counted_slots_nth)
  then show "slot_lookup key (counted_slots n arr c) k = Some (arr ! j)" using assms(3) by (simp add: slot_lookup_def)
  then show "placed key (counted_slots n arr c) j k" using assms s j by (simp add: placed_def)
qed

subsection \<open>The interface\<close>

text \<open>
  A bounded table as its clients see it: the map it denotes, and a \<open>put\<close> that binds
  its key, changes no other binding while there is room, and loses one binding when there
  is none. \<open>ok\<close> are the keys the table stores faithfully.
\<close>

locale bounded_table =
  fixes inv :: "'s \<Rightarrow> bool" and lookup :: "'s \<Rightarrow> 'k \<Rightarrow> 'v option"
    and put :: "'k \<Rightarrow> 'x \<Rightarrow> 's \<Rightarrow> 's" and ok :: "'k \<Rightarrow> bool" and cap :: nat
  assumes inv_put: "inv s \<Longrightarrow> ok k \<Longrightarrow> inv (put k x s)"
    and bounded: "inv s \<Longrightarrow> finite (dom (lookup s)) \<and> card (dom (lookup s)) \<le> cap"
    and put_room: "inv s \<Longrightarrow> ok k \<Longrightarrow> k \<in> dom (lookup s) \<or> card (dom (lookup s)) < cap \<Longrightarrow>
      \<exists>v. lookup (put k x s) = (lookup s)(k \<mapsto> v)"
    and put_full: "inv s \<Longrightarrow> ok k \<Longrightarrow> k \<notin> dom (lookup s) \<Longrightarrow> card (dom (lookup s)) = cap \<Longrightarrow>
      \<exists>w\<in>dom (lookup s). \<exists>v. lookup (put k x s) = (lookup s)(w := None, k \<mapsto> v)"
begin

lemma put_binds: "inv s \<Longrightarrow> ok k \<Longrightarrow> lookup (put k x s) k \<noteq> None"
  using put_room [of s k x] put_full [of s k x] bounded [of s]
  by (cases "k \<in> dom (lookup s) \<or> card (dom (lookup s)) < cap") (auto simp: not_less)

text \<open>One \<open>put\<close> loses at most one other binding.\<close>

lemma put_loses: "inv s \<Longrightarrow> ok k \<Longrightarrow>
  \<exists>w. \<forall>k'. k' \<noteq> k \<and> k' \<noteq> w \<longrightarrow> lookup (put k x s) k' = lookup s k'"
  using put_room [of s k x] put_full [of s k x] bounded [of s]
  by (cases "k \<in> dom (lookup s) \<or> card (dom (lookup s)) < cap") (auto simp: not_less)

lemma puts_inv: "inv s \<Longrightarrow> \<forall>(k, x)\<in>set xs. ok k \<Longrightarrow> inv (fold (\<lambda>(k, x). put k x) xs s)"
  by (induction xs arbitrary: s) (auto simp: inv_put)

text \<open>As long as the distinct keys fit, none is ever lost.\<close>

lemma puts_room:
  assumes "inv s" "\<forall>(k, x)\<in>set xs. ok k" "card (dom (lookup s) \<union> fst ` set xs) \<le> cap"
  shows "dom (lookup (fold (\<lambda>(k, x). put k x) xs s)) = dom (lookup s) \<union> fst ` set xs"
  using assms
proof (induction xs arbitrary: s)
  case (Cons a xs)
  obtain k x where a: "a = (k, x)" by (cases a)
  have fin: "finite (dom (lookup s))" using bounded Cons.prems(1) by blast
  have "k \<in> dom (lookup s) \<or> card (dom (lookup s)) < cap"
  proof (rule ccontr)
    assume *: "\<not> ?thesis"
    then have "cap < card (insert k (dom (lookup s)))" using fin by simp
    also have "\<dots> \<le> card (dom (lookup s) \<union> fst ` set (a # xs))" using fin a by (intro card_mono) auto
    finally show False using Cons.prems(3) by simp
  qed
  then obtain v where v: "lookup (put k x s) = (lookup s)(k \<mapsto> v)"
    using put_room [of s k x] Cons.prems a by auto
  then have d: "dom (lookup (put k x s)) \<union> fst ` set xs = dom (lookup s) \<union> fst ` set (a # xs)"
    using a by auto
  show ?case
    using Cons.IH [of "put k x s"] Cons.prems d inv_put [of s k x] a by auto
qed simp

end

end
