(* ===== verification/Route_Table.thy ===== *)
theory Route_Table
  imports Slot_Table Mesh_Packet "HOL-Library.Product_Lexorder"
begin

text \<open>
  \<open>src/route_table.c\<close>: routes learned from the relay of each heard packet, keyed by
  destination and next hop, refreshed by time. The static array and its count are the state;
  \<open>now_ms()\<close> is an argument (a 32-bit millisecond clock that wraps), and the mutex
  makes each operation one atomic step.
\<close>

abbreviation MAX_ROUTE_ENTRIES :: nat where "MAX_ROUTE_ENTRIES \<equiv> 32"
definition ROUTE_STALE_MS :: u32 where "ROUTE_STALE_MS = 300000"

record route_entry_t =
  re_destination :: bytes
  re_next_hop :: bytes
  re_hop_count :: int
  re_best_rssi :: int
  re_cost :: u32
  re_last_seen_tick_ms :: u32
  re_stale :: bool

record route_state =
  route_table :: "route_entry_t list"
  route_count :: nat

definition route_entry_zero :: route_entry_t where
  "route_entry_zero = \<lparr>re_destination = zeros FIELD_LEN, re_next_hop = zeros FIELD_LEN, re_hop_count = 0,
     re_best_rssi = 0, re_cost = 0, re_last_seen_tick_ms = 0, re_stale = False\<rparr>"

definition find_route_index :: "route_state \<Rightarrow> bytes \<Rightarrow> bytes \<Rightarrow> nat option" where
  "find_route_index st destination next_hop =
    find_index (\<lambda>e. streq (re_destination e) destination \<and> streq (re_next_hop e) next_hop)
      (take (route_count st) (route_table st))"

definition route_is_stale_locked :: "route_entry_t \<Rightarrow> u32 \<Rightarrow> bool" where
  "route_is_stale_locked entry now \<longleftrightarrow> now - re_last_seen_tick_ms entry \<ge> ROUTE_STALE_MS"

definition refresh_stale_state :: "route_entry_t \<Rightarrow> u32 \<Rightarrow> route_entry_t" where
  "refresh_stale_state entry now = entry\<lparr>re_stale := route_is_stale_locked entry now\<rparr>"

text \<open>A NULL string is None.\<close>

definition route_is_valid :: "bytes option \<Rightarrow> bytes option \<Rightarrow> int \<Rightarrow> bool" where
  "route_is_valid destination next_hop hop_count \<longleftrightarrow>
    (case destination of None \<Rightarrow> False | Some d \<Rightarrow> \<not> str_empty d) \<and>
    (case next_hop of None \<Rightarrow> False | Some n \<Rightarrow> \<not> str_empty n) \<and> hop_count > 0"

text \<open>The slot for a new route, and the count after taking it.\<close>

definition route_slot :: "route_state \<Rightarrow> u32 \<Rightarrow> nat \<times> nat" where
  "route_slot st now =
    (if route_count st < MAX_ROUTE_ENTRIES then (route_count st, route_count st + 1)
     else (oldest_index (\<lambda>i. now - re_last_seen_tick_ms (route_table st ! i)) (route_count st), route_count st))"

text \<open>What \<open>route_table_learn\<close> does to the entry it has found or cleared.\<close>

definition route_entry_learn :: "route_entry_t \<Rightarrow> int \<Rightarrow> int \<Rightarrow> u32 \<Rightarrow> route_entry_t" where
  "route_entry_learn e hop_count rssi now =
    (let e = refresh_stale_state e now;
         e = (if re_stale e \<or> hop_count < re_hop_count e \<or>
                 (hop_count = re_hop_count e \<and> rssi > re_best_rssi e) \<or> re_hop_count e = 0
              then e\<lparr>re_hop_count := hop_count, re_best_rssi := rssi,
                     re_cost := (if rssi < 0 then word_of_int (- rssi) else 0)\<rparr>
              else e);
         e = e\<lparr>re_last_seen_tick_ms := now\<rparr>
     in refresh_stale_state e now)"

definition route_table_learn ::
  "bytes option \<Rightarrow> bytes option \<Rightarrow> int \<Rightarrow> int \<Rightarrow> u32 \<Rightarrow> route_state \<Rightarrow> route_state" where
  "route_table_learn destination next_hop hop_count rssi now st =
    (if \<not> route_is_valid destination next_hop hop_count then st
     else (let d = the destination; n = the next_hop in
       case find_route_index st d n of
         Some index \<Rightarrow> st\<lparr>route_table := (route_table st)
           [index := route_entry_learn (route_table st ! index) hop_count rssi now]\<rparr>
       | None \<Rightarrow>
           (let (index, count) = route_slot st now;
                e = route_entry_zero\<lparr>re_destination := copy_field (re_destination route_entry_zero) d,
                                     re_next_hop := copy_field (re_next_hop route_entry_zero) n\<rparr>
            in st\<lparr>route_table := (route_table st)[index := route_entry_learn e hop_count rssi now],
                  route_count := count\<rparr>)))"

text \<open>The preference between a candidate and the best route so far.\<close>

definition route_better :: "route_entry_t \<Rightarrow> route_entry_t \<Rightarrow> bool" where
  "route_better candidate best \<longleftrightarrow>
    re_hop_count candidate < re_hop_count best \<or>
    (re_hop_count candidate = re_hop_count best \<and> re_best_rssi candidate > re_best_rssi best) \<or>
    (re_hop_count candidate = re_hop_count best \<and> re_best_rssi candidate = re_best_rssi best \<and>
     strless (re_next_hop candidate) (re_next_hop best))"

text \<open>The loop; \<open>best\<close> is None while \<open>found\<close> is false.\<close>

fun get_best_loop :: "bytes \<Rightarrow> u32 \<Rightarrow> route_entry_t list \<Rightarrow> route_entry_t option \<Rightarrow> route_entry_t option" where
  "get_best_loop destination now [] best = best"
| "get_best_loop destination now (e # es) best =
    (if \<not> streq (re_destination e) destination then get_best_loop destination now es best
     else (let candidate = refresh_stale_state e now in
       if re_stale candidate \<or> re_hop_count candidate \<le> 0 then get_best_loop destination now es best
       else get_best_loop destination now es
         (case best of
            None \<Rightarrow> Some candidate
          | Some b \<Rightarrow> if route_better candidate b then Some candidate else best)))"

definition route_table_get_best :: "bytes option \<Rightarrow> u32 \<Rightarrow> route_state \<Rightarrow> route_entry_t option" where
  "route_table_get_best destination now st =
    (case destination of
       None \<Rightarrow> None
     | Some d \<Rightarrow> if str_empty d then None else get_best_loop d now (take (route_count st) (route_table st)) None)"

definition route_table_lookup :: "bytes option \<Rightarrow> u32 \<Rightarrow> route_state \<Rightarrow> route_entry_t option" where
  "route_table_lookup destination now st = route_table_get_best destination now st"

text \<open>The entries copied out (their number is the return value) and the refreshed table.\<close>

definition route_table_get_snapshot :: "nat \<Rightarrow> u32 \<Rightarrow> route_state \<Rightarrow> route_entry_t list \<times> route_state" where
  "route_table_get_snapshot out_capacity now st =
    (if out_capacity = 0 then ([], st)
     else (let count = min (route_count st) out_capacity;
               shown = map (\<lambda>e. refresh_stale_state e now) (take count (route_table st))
           in (shown, st\<lparr>route_table := shown @ drop count (route_table st)\<rparr>)))"

definition route_table_debug_set_last_seen_for_test ::
  "bytes \<Rightarrow> bytes \<Rightarrow> u32 \<Rightarrow> u32 \<Rightarrow> route_state \<Rightarrow> route_state" where
  "route_table_debug_set_last_seen_for_test destination next_hop last_seen_tick_ms now st =
    (case find_route_index st destination next_hop of
       None \<Rightarrow> st
     | Some index \<Rightarrow> st\<lparr>route_table := (route_table st)
         [index := refresh_stale_state ((route_table st ! index)\<lparr>re_last_seen_tick_ms := last_seen_tick_ms\<rparr>) now]\<rparr>)"

definition route_table_debug_reset_for_test :: "route_state \<Rightarrow> route_state" where
  "route_table_debug_reset_for_test st = \<lparr>route_table = map (\<lambda>_. route_entry_zero) (route_table st), route_count = 0\<rparr>"

definition route_start :: route_state where
  "route_start = \<lparr>route_table = replicate MAX_ROUTE_ENTRIES route_entry_zero, route_count = 0\<rparr>"

subsection \<open>The best route\<close>

text \<open>The preference is a linear order: hops, then signal, then the next hop's name.\<close>

definition route_rank :: "route_entry_t \<Rightarrow> int \<times> int \<times> bytes" where
  "route_rank e = (re_hop_count e, - re_best_rssi e, cstr (re_next_hop e))"

definition route_usable :: "bytes \<Rightarrow> u32 \<Rightarrow> route_entry_t \<Rightarrow> bool" where
  "route_usable destination now e \<longleftrightarrow>
    streq (re_destination e) destination \<and> now - re_last_seen_tick_ms e < ROUTE_STALE_MS \<and> 0 < re_hop_count e"

lemma route_better_rank: "route_better a b \<longleftrightarrow> route_rank a < route_rank b"
  by (auto simp: route_better_def route_rank_def strless_def)

lemma refresh_simps [simp]:
  "re_destination (refresh_stale_state e now) = re_destination e"
  "re_next_hop (refresh_stale_state e now) = re_next_hop e"
  "re_hop_count (refresh_stale_state e now) = re_hop_count e"
  "re_best_rssi (refresh_stale_state e now) = re_best_rssi e"
  "re_last_seen_tick_ms (refresh_stale_state e now) = re_last_seen_tick_ms e"
  "re_stale (refresh_stale_state e now) = route_is_stale_locked e now"
  by (simp_all add: refresh_stale_state_def)

lemma route_rank_refresh [simp]: "route_rank (refresh_stale_state e now) = route_rank e"
  by (simp add: route_rank_def)

lemma get_best_loop_spec:
  "case get_best_loop d now es best of
     None \<Rightarrow> best = None \<and> (\<forall>e\<in>set es. \<not> route_usable d now e)
   | Some b \<Rightarrow> (best = Some b \<or> (\<exists>e\<in>set es. route_usable d now e \<and> b = refresh_stale_state e now)) \<and>
       (\<forall>e\<in>set es. route_usable d now e \<longrightarrow> route_rank b \<le> route_rank e) \<and>
       (\<forall>b0. best = Some b0 \<longrightarrow> route_rank b \<le> route_rank b0)"
proof (induction es arbitrary: best)
  case Nil
  then show ?case by (simp split: option.split)
next
  case (Cons e es)
  show ?case
  proof (cases "route_usable d now e")
    case False
    then have "get_best_loop d now (e # es) best = get_best_loop d now es best"
      by (auto simp: route_usable_def Let_def route_is_stale_locked_def not_less)
    with Cons.IH [of best] False show ?thesis by (simp split: option.splits)
  next
    case True
    let ?c = "refresh_stale_state e now"
    let ?b = "case best of None \<Rightarrow> Some ?c | Some b \<Rightarrow> if route_better ?c b then Some ?c else best"
    have step: "get_best_loop d now (e # es) best = get_best_loop d now es ?b"
      using True by (auto simp: route_usable_def Let_def route_is_stale_locked_def not_less)
    have "?b \<noteq> None" by (simp split: option.split)
    then obtain b where b: "?b = Some b" by blast
    have "route_rank b \<le> route_rank e" "\<forall>b0. best = Some b0 \<longrightarrow> route_rank b \<le> route_rank b0"
      "best = Some b \<or> b = ?c"
      using b by (auto simp: route_better_rank split: option.splits if_splits)
    then show ?thesis
      using Cons.IH [of "Some b"] True unfolding step b by (auto split: option.splits intro: order_trans)
  qed
qed

subsection \<open>The table as a map\<close>

definition route_key :: "route_entry_t \<Rightarrow> bytes \<times> bytes" where
  "route_key e = (cstr (re_destination e), cstr (re_next_hop e))"

definition route_slots :: "route_state \<Rightarrow> route_entry_t option list" where
  "route_slots st = counted_slots MAX_ROUTE_ENTRIES (route_table st) (route_count st)"

definition route_find :: "route_state \<Rightarrow> bytes \<times> bytes \<Rightarrow> route_entry_t option" where
  "route_find st = slot_lookup route_key (route_slots st)"

definition route_inv :: "route_state \<Rightarrow> bool" where
  "route_inv st \<longleftrightarrow> length (route_table st) = MAX_ROUTE_ENTRIES \<and> route_count st \<le> MAX_ROUTE_ENTRIES \<and>
     unique_keys route_key (route_slots st) \<and>
     (\<forall>e\<in>set (take (route_count st) (route_table st)). 0 < re_hop_count e)"

definition route_id :: "bytes \<times> bytes \<Rightarrow> bool" where
  "route_id k \<longleftrightarrow> node_id (fst k) \<and> node_id (snd k)"

lemma route_entry_learn_simps [simp]:
  "re_destination (route_entry_learn e h r now) = re_destination e"
  "re_next_hop (route_entry_learn e h r now) = re_next_hop e"
  "re_last_seen_tick_ms (route_entry_learn e h r now) = now"
  "route_key (route_entry_learn e h r now) = route_key e"
  by (simp_all add: route_entry_learn_def refresh_stale_state_def Let_def route_key_def)

lemma route_entry_learn_hops:
  assumes "0 < h"
  shows "re_hop_count (route_entry_learn e h r now) \<le> h"
    and "0 \<le> re_hop_count e \<Longrightarrow> 0 < re_hop_count (route_entry_learn e h r now)"
  using assms by (auto simp: route_entry_learn_def refresh_stale_state_def Let_def)

lemma find_route_slots:
  assumes "route_id k"
  shows "find_route_index st (fst k) (snd k) = find_index (holds route_key k) (route_slots st)"
proof -
  have "(\<lambda>e. streq (re_destination e) (fst k) \<and> streq (re_next_hop e) (snd k)) = (\<lambda>e. route_key e = k)"
    using assms(1) by (auto simp: streq_def route_key_def route_id_def)
  then show ?thesis by (simp add: find_route_index_def route_slots_def find_counted_slots)
qed

definition route_fresh :: "bytes \<times> bytes \<Rightarrow> route_entry_t" where
  "route_fresh k = route_entry_zero\<lparr>re_destination := copy_field (zeros FIELD_LEN) (fst k),
                                     re_next_hop := copy_field (zeros FIELD_LEN) (snd k)\<rparr>"

lemma route_fresh_key: "route_id k \<Longrightarrow> route_key (route_fresh k) = k" "re_hop_count (route_fresh k) = 0"
  by (auto simp: route_fresh_def route_key_def route_id_def route_entry_zero_def)

lemma learn_step:
  assumes "route_inv st" "route_id k" "0 < h"
  obtains i e where "placed route_key (route_slots st) i k" "i < MAX_ROUTE_ENTRIES" "i \<le> route_count st"
    "e = (case route_find st k of None \<Rightarrow> route_fresh k | Some e \<Rightarrow> e)" "route_key e = k" "0 \<le> re_hop_count e"
    "route_table_learn (Some (fst k)) (Some (snd k)) h r now st =
      st\<lparr>route_table := (route_table st)[i := route_entry_learn e h r now], route_count := max (route_count st) (Suc i)\<rparr>"
proof (cases "find_index (holds route_key k) (route_slots st)")
  case None
  have s: "length (route_table st) = 32" "route_count st \<le> 32" using assms(1) by (auto simp: route_inv_def)
  have f: "find_route_index st (fst k) (snd k) = None" unfolding find_route_slots [OF assms(2)] by (rule None)
  have lk: "route_find st k = None" unfolding route_find_def slot_lookup_def None by simp
  have v: "route_is_valid (Some (fst k)) (Some (snd k)) h" using assms by (simp add: route_is_valid_def route_id_def)
  let ?o = "oldest_index (\<lambda>i. now - re_last_seen_tick_ms (route_table st ! i)) 32"
  let ?i = "if route_count st < 32 then route_count st else ?o"
  have o: "?o < 32" by (rule oldest_index_spec) simp
  have i: "?i < 32" "?i \<le> route_count st" "route_slot st now = (?i, max (route_count st) (Suc ?i))"
    using o s(2) by (auto simp: route_slot_def max_def)
  have p: "placed route_key (route_slots st) ?i k"
    using s o lk unfolding route_slots_def route_find_def by (intro placed_counted [of _ _ _ _ _ _ ?o]) simp_all
  have "route_table_learn (Some (fst k)) (Some (snd k)) h r now st =
      st\<lparr>route_table := (route_table st)[?i := route_entry_learn (route_fresh k) h r now],
         route_count := max (route_count st) (Suc ?i)\<rparr>"
    using v f i(3) by (simp add: route_table_learn_def Let_def route_fresh_def route_entry_zero_def)
  then show ?thesis using that [OF p i(1,2), of "route_fresh k"] lk route_fresh_key [of k] assms(2) by simp
next
  case (Some j)
  have s: "length (route_table st) = 32" "route_count st \<le> 32" using assms(1) by (auto simp: route_inv_def)
  note j = counted_found [OF s Some [unfolded route_slots_def]]
  have v: "find_route_index st (fst k) (snd k) = Some j" "route_is_valid (Some (fst k)) (Some (snd k)) h"
    using Some find_route_slots [OF assms(2)] assms by (simp_all add: route_is_valid_def route_id_def)
  have "route_table st ! j \<in> set (take (route_count st) (route_table st))"
    using j(1) s by (auto simp: in_set_conv_nth)
  then have "0 \<le> re_hop_count (route_table st ! j)" using assms(1) by (auto simp: route_inv_def dest: less_imp_le)
  moreover have "max (route_count st) (Suc j) = route_count st" using j(1) by simp
  ultimately show ?thesis
    using that [of j "route_table st ! j"] j s v by (simp add: route_table_learn_def route_find_def route_slots_def)
qed

lemma learn_laws:
  assumes "route_inv st" "route_id k" "0 < h"
    and st': "st' = route_table_learn (Some (fst k)) (Some (snd k)) h r now st"
  shows "route_inv st'"
    "route_find st k \<noteq> None \<or> card (dom (route_find st)) < MAX_ROUTE_ENTRIES \<Longrightarrow>
      route_find st' = (route_find st)(k \<mapsto>
        route_entry_learn (case route_find st k of None \<Rightarrow> route_fresh k | Some e \<Rightarrow> e) h r now)"
    "route_find st k = None \<Longrightarrow> card (dom (route_find st)) = MAX_ROUTE_ENTRIES \<Longrightarrow>
      \<exists>w\<in>dom (route_find st). \<exists>e. route_find st' = (route_find st)(w := None, k \<mapsto> e)"
    "\<exists>e\<in>set (take (route_count st') (route_table st')). route_key e = k \<and> re_hop_count e \<le> h \<and>
       0 < re_hop_count e \<and> re_last_seen_tick_ms e = now"
proof -
  obtain i e where p: "placed route_key (route_slots st) i k" and i: "i < 32" "i \<le> route_count st"
    and e: "e = (case route_find st k of None \<Rightarrow> route_fresh k | Some e \<Rightarrow> e)" "route_key e = k" "0 \<le> re_hop_count e"
    and l: "route_table_learn (Some (fst k)) (Some (snd k)) h r now st =
      st\<lparr>route_table := (route_table st)[i := route_entry_learn e h r now], route_count := max (route_count st) (Suc i)\<rparr>"
    by (rule learn_step [OF assms(1-3)])
  let ?e = "route_entry_learn e h r now"
  have s: "length (route_table st) = 32" "route_count st \<le> 32" "unique_keys route_key (route_slots st)"
    "length (route_slots st) = 32"
    using assms(1) by (auto simp: route_inv_def route_slots_def)
  have sl: "route_slots st' = (route_slots st)[i := Some ?e]"
    using counted_slots_write [OF s(1,2) i] by (simp add: st' l route_slots_def)
  have p': "placed route_key (route_slots st) i (route_key ?e)" using p e(2) by simp
  note h = route_entry_learn_hops [OF assms(3), of e r now] 
  have new: "take (route_count st') (route_table st') = (take (max (route_count st) (Suc i)) (route_table st))[i := ?e]"
    by (simp add: st' l take_update_swap)
  show "\<exists>e\<in>set (take (route_count st') (route_table st')). route_key e = k \<and> re_hop_count e \<le> h \<and>
       0 < re_hop_count e \<and> re_last_seen_tick_ms e = now"
    unfolding new using s i h e by (intro bexI [of _ ?e]) (auto intro!: set_update_memI)
  have "0 < re_hop_count x" if "x \<in> set (take (route_count st') (route_table st'))" for x
  proof -
    from that obtain m where m: "m < max (route_count st) (Suc i)" "x = (route_table st)[i := ?e] ! m" "m < 32"
      using s i by (auto simp: st' l in_set_conv_nth)
    then show ?thesis
    proof (cases "m = i")
      case False
      then have "m < route_count st" using m i by auto
      then have "route_table st ! m \<in> set (take (route_count st) (route_table st))"
        using s by (auto simp: in_set_conv_nth)
      with False m assms(1) show ?thesis by (auto simp: route_inv_def)
    qed (use m s h e in simp)
  qed
  then show "route_inv st'"
    using s i placed_unique [OF s(3) p'] sl by (auto simp: route_inv_def st' l)
  show "route_find st' = (route_find st)(k \<mapsto>
        route_entry_learn (case route_find st k of None \<Rightarrow> route_fresh k | Some e \<Rightarrow> e) h r now)"
    if "route_find st k \<noteq> None \<or> card (dom (route_find st)) < MAX_ROUTE_ENTRIES"
    using placed_lookup [OF s(3) p'] that s(4) e(2) sl unfolding route_find_def e(1) by simp
  show "\<exists>w\<in>dom (route_find st). \<exists>e. route_find st' = (route_find st)(w := None, k \<mapsto> e)"
    if "route_find st k = None" "card (dom (route_find st)) = MAX_ROUTE_ENTRIES"
    using placed_evicts [OF s(3) p'] that s(4) e(2) sl unfolding route_find_def by auto
qed

text \<open>One observation of a route: its hop count (at least one), signal and time.\<close>

definition route_observe :: "bytes \<times> bytes \<Rightarrow> nat \<times> int \<times> u32 \<Rightarrow> route_state \<Rightarrow> route_state" where
  "route_observe k x st = (case x of (h, r, now) \<Rightarrow>
     route_table_learn (Some (fst k)) (Some (snd k)) (int h + 1) r now st)"

interpretation routes: bounded_table route_inv route_find route_observe route_id MAX_ROUTE_ENTRIES
proof
  show "finite (dom (route_find s)) \<and> card (dom (route_find s)) \<le> MAX_ROUTE_ENTRIES"
    if "route_inv s" for s
    using card_dom_slot_lookup [of route_key "route_slots s"] that count_if_le [of _ "route_slots s"]
    by (auto simp: route_inv_def route_find_def route_slots_def)
qed (use learn_laws(1-3) [OF _ _ _ refl] in \<open>auto simp: domIff route_observe_def split: prod.split\<close>)

lemma route_start_inv: "route_inv route_start" "route_find route_start = Map.empty"
proof -
  have s: "route_slots route_start = replicate 32 None"
    by (simp add: route_slots_def counted_slots_def route_start_def)
  show "route_inv route_start"
    unfolding route_inv_def s by (auto simp: route_start_def unique_keys_def)
  show "route_find route_start = Map.empty"
    unfolding route_find_def s by (intro ext) (simp add: slot_lookup_None)
qed

subsection \<open>Properties\<close>

text \<open>
  C20. \<open>route_table_get_best\<close> answers exactly when some entry of the table leads to the
  destination, was heard within \<open>ROUTE_STALE_MS\<close> and has a positive hop count; its
  answer is such an entry, and none of them has fewer hops, or as many and a better signal,
  or the same of both and a smaller next hop name.
\<close>

theorem route_get_best_optimal:
  assumes "\<not> str_empty d"
  shows "case route_table_get_best (Some d) now st of
      None \<Rightarrow> \<not> (\<exists>e\<in>set (take (route_count st) (route_table st)). route_usable d now e)
    | Some b \<Rightarrow> route_usable d now b \<and>
        (\<exists>e\<in>set (take (route_count st) (route_table st)). b = refresh_stale_state e now) \<and>
        \<not> (\<exists>e\<in>set (take (route_count st) (route_table st)). route_usable d now e \<and> route_better e b)"
  using get_best_loop_spec [where d = d and now = now and es = "take (route_count st) (route_table st)" and best = None] assms
  by (auto simp: route_table_get_best_def route_better_rank route_usable_def not_less split: option.splits)

definition sample_routes :: route_state where
  "sample_routes =
    fold (\<lambda>(d, n, h, r, now). route_table_learn (Some (lit d)) (Some (lit n)) h r now)
      [(''D'', ''N1'', 2, - 70, 10), (''D'', ''N2'', 1, - 90, 20), (''D'', ''N3'', 1, - 80, 30)] route_start"

theorem route_get_best_optimal_witness:
  "case route_table_get_best (Some (lit ''D'')) 40 sample_routes of
      None \<Rightarrow> \<not> (\<exists>e\<in>set (take (route_count sample_routes) (route_table sample_routes)). route_usable (lit ''D'') 40 e)
    | Some b \<Rightarrow> route_usable (lit ''D'') 40 b \<and>
        (\<exists>e\<in>set (take (route_count sample_routes) (route_table sample_routes)). b = refresh_stale_state e 40) \<and>
        \<not> (\<exists>e\<in>set (take (route_count sample_routes) (route_table sample_routes)). route_usable (lit ''D'') 40 e \<and> route_better e b)"
  by (rule route_get_best_optimal) code_simp

text \<open>
  A learned route can be used: after a valid observation of \<open>destination\<close> through
  \<open>next_hop\<close> with \<open>h\<close> hops, every lookup within the next five minutes finds a
  route to that destination with at most \<open>h\<close> hops, whatever the table held.
\<close>

theorem route_learned_is_found:
  assumes "route_inv st" "node_id d" "node_id n" "0 < h" "now' - now < ROUTE_STALE_MS"
  shows "\<exists>b. route_table_lookup (Some d) now' (route_table_learn (Some d) (Some n) h rssi now st) = Some b \<and>
    re_hop_count b \<le> h"
proof -
  let ?st = "route_table_learn (Some d) (Some n) h rssi now st"
  obtain e where e: "e \<in> set (take (route_count ?st) (route_table ?st))" "route_key e = (d, n)"
    "re_hop_count e \<le> h" "0 < re_hop_count e" "re_last_seen_tick_ms e = now"
    using learn_laws(4) [of st "(d, n)" h ?st rssi now] assms by (auto simp: route_id_def)
  then have u: "route_usable d now' e"
    using assms by (auto simp: route_usable_def route_key_def streq_def)
  show ?thesis
    using get_best_loop_spec [where d = d and now = now' and es = "take (route_count ?st) (route_table ?st)" and best = None] u e assms(2)
    by (force simp: route_table_lookup_def route_table_get_best_def route_rank_def split: option.splits)
qed

theorem route_learned_is_found_witness:
  "\<exists>b. route_table_lookup (Some (lit ''D'')) 5 (route_table_learn (Some (lit ''D'')) (Some (lit ''N'')) 3 (- 90) 4294967290 route_start) = Some b \<and>
    re_hop_count b \<le> 3"
  by (rule route_learned_is_found [OF route_start_inv(1)]) code_simp+

text \<open>
  While at most \<open>MAX_ROUTE_ENTRIES\<close> different routes are heard, none is lost, in
  whatever order and however often they are observed.
\<close>

theorem routes_within_capacity_kept:
  assumes "\<forall>(k, x)\<in>set obs. route_id k" "card (fst ` set obs) \<le> MAX_ROUTE_ENTRIES"
  shows "dom (route_find (fold (\<lambda>(k, x). route_observe k x) obs route_start)) = fst ` set obs"
  using routes.puts_room [OF route_start_inv(1) assms(1)] assms(2) by (simp add: route_start_inv)

theorem routes_within_capacity_kept_witness:
  "dom (route_find (fold (\<lambda>(k, x). route_observe k x) [((lit ''D'', lit ''N''), (0, - 90, 5)), ((lit ''E'', lit ''N''), (1, - 80, 6))] route_start)) =
   {(lit ''D'', lit ''N''), (lit ''E'', lit ''N'')}"
  using routes_within_capacity_kept [of "[((lit ''D'', lit ''N''), (0, - 90, 5)), ((lit ''E'', lit ''N''), (1, - 80, 6))]"]
  by (simp add: route_id_def node_id_def clean_str_def printable_def lit_def card_insert_if)
end
