(* ===== verification/Tx_Scheduler.thy ===== *)
theory Tx_Scheduler
  imports Message_Store Route_Table
begin

text \<open>
  \<open>src/mesh/tx_scheduler.c\<close>: sixteen transmissions in progress, each a small state
  machine driven by the scheduler task, the radio's results and incoming ACKs. Each critical
  section of the source is one function here; \<open>send_current_packet\<close>, which gives up
  the lock around \<open>lora_tx_submit\<close>, is two (\<open>send_begin\<close>, \<open>send_finish\<close>)
  and their composition. Tick counts, random numbers and the radio queue's answer are
  arguments.
\<close>

definition TX_RETRY_MAX_ATTEMPTS :: u8 where "TX_RETRY_MAX_ATTEMPTS = 3"
definition TX_ACK_TIMEOUT_MS :: nat where "TX_ACK_TIMEOUT_MS = 5000"

text \<open>\<open>pdMS_TO_TICKS\<close> at the configured 100 ticks per second.\<close>

definition pdMS_TO_TICKS :: "nat \<Rightarrow> u32" where
  "pdMS_TO_TICKS ms = of_nat (ms * 100 div 1000)"

definition portTICK_PERIOD_MS :: u32 where "portTICK_PERIOD_MS = 10"

datatype tx_state_t =
    TX_STATE_EMPTY | TX_STATE_CREATED | TX_STATE_QUEUED | TX_STATE_SUBMITTING | TX_STATE_WAITING_RADIO
  | TX_STATE_TRANSMITTING | TX_STATE_WAITING_ACK | TX_STATE_RETRY_BACKOFF | TX_STATE_DELIVERED | TX_STATE_EXPIRED
  | TX_STATE_FAILED_RADIO | TX_STATE_FAILED_QUEUE | TX_STATE_FAILED_TIMEOUT | TX_STATE_FAILED

datatype tx_error_t =
    TX_ERROR_NONE | TX_ERROR_RADIO_BUSY | TX_ERROR_RADIO_TIMEOUT | TX_ERROR_QUEUE_FULL | TX_ERROR_PACKET_BUILD
  | TX_ERROR_ACK_TIMEOUT | TX_ERROR_INVALID_ROUTE

record tx_entry_t =
  te_message :: emergency_message_t
  te_nvs_slot :: int
  te_state :: tx_state_t
  te_error :: tx_error_t
  te_attempts :: u8
  te_remaining_hops :: int
  te_radio_request_id :: u32
  te_generation :: u32
  te_next_action_tick :: u32
  te_active :: bool

definition tx_entry_zero :: tx_entry_t where
  "tx_entry_zero = \<lparr>te_message = emergency_message_zero, te_nvs_slot = 0, te_state = TX_STATE_EMPTY,
     te_error = TX_ERROR_NONE, te_attempts = 0, te_remaining_hops = 0, te_radio_request_id = 0,
     te_generation = 0, te_next_action_tick = 0, te_active = False\<rparr>"

text \<open>The radio's request and result (\<open>radio/lora_radio.h\<close>).\<close>

datatype lora_tx_priority_t = LORA_TX_PRIORITY_LOW | LORA_TX_PRIORITY_NORMAL | LORA_TX_PRIORITY_HIGH

record lora_tx_request_t =
  rq_request_id :: u32
  rq_message_id :: u32
  rq_packet :: bytes
  rq_packet_len :: nat
  rq_priority :: lora_tx_priority_t
  rq_submitted_at_ms :: u32
  rq_require_result :: bool

datatype lora_tx_result_code_t =
    LORA_TX_RESULT_SUCCESS | LORA_TX_RESULT_QUEUE_FULL | LORA_TX_RESULT_CHANNEL_BUSY | LORA_TX_RESULT_TIMEOUT
  | LORA_TX_RESULT_SPI_ERROR | LORA_TX_RESULT_RADIO_FAULT | LORA_TX_RESULT_ABORTED | LORA_TX_RESULT_UNKNOWN

record lora_tx_result_t =
  rr_request_id :: u32
  rr_message_id :: u32
  rr_result :: lora_tx_result_code_t
  rr_started_at_ms :: u32
  rr_completed_at_ms :: u32
  rr_airtime_ms :: u32
  rr_rssi :: int
  rr_snr :: int

text \<open>The scheduler's static state, with the message store it writes statuses to.\<close>

record 'n tx_sched =
  tx_entries :: "tx_entry_t list"
  next_generation :: u32
  tx_store :: "'n store_state"

fun state_label :: "tx_state_t \<Rightarrow> tx_error_t \<Rightarrow> bytes" where
  "state_label TX_STATE_CREATED e = lit ''CREATED''"
| "state_label TX_STATE_QUEUED e = lit ''QUEUED''"
| "state_label TX_STATE_WAITING_RADIO e = lit ''WAITING_RADIO''"
| "state_label TX_STATE_TRANSMITTING e = lit ''TRANSMITTING''"
| "state_label TX_STATE_WAITING_ACK e = lit ''WAITING_ACK''"
| "state_label TX_STATE_RETRY_BACKOFF e = lit ''RETRY_BACKOFF''"
| "state_label TX_STATE_DELIVERED e = lit ''DELIVERED''"
| "state_label TX_STATE_EXPIRED e = lit ''EXPIRED''"
| "state_label TX_STATE_FAILED_RADIO e = lit ''FAILED_RADIO''"
| "state_label TX_STATE_FAILED_QUEUE e = lit ''FAILED_QUEUE''"
| "state_label TX_STATE_FAILED_TIMEOUT e = lit ''FAILED_TIMEOUT''"
| "state_label TX_STATE_FAILED e =
    (case e of TX_ERROR_RADIO_BUSY \<Rightarrow> lit ''FAILED_RADIO'' | TX_ERROR_PACKET_BUILD \<Rightarrow> lit ''FAILED_QUEUE''
     | TX_ERROR_ACK_TIMEOUT \<Rightarrow> lit ''FAILED_TIMEOUT'' | TX_ERROR_RADIO_TIMEOUT \<Rightarrow> lit ''FAILED_RADIO''
     | TX_ERROR_INVALID_ROUTE \<Rightarrow> lit ''FAILED_RADIO'' | _ \<Rightarrow> lit ''FAILED'')"
| "state_label s e = lit ''CREATED''"

text \<open>Entries are named by their index; None where the source returns NULL.\<close>

definition find_entry :: "tx_entry_t list \<Rightarrow> u32 \<Rightarrow> bytes \<Rightarrow> nat option" where
  "find_entry es ident ack_sender =
    find_index (\<lambda>e. te_active e \<and> te_state e = TX_STATE_WAITING_ACK \<and> em_id (te_message e) = ident \<and>
                    streq (em_destination (te_message e)) ack_sender) es"

definition next_slot :: "tx_entry_t list \<Rightarrow> nat option" where
  "next_slot es = find_index (\<lambda>e. \<not> te_active e) es"

definition find_entry_by_generation :: "tx_entry_t list \<Rightarrow> u32 \<Rightarrow> u32 \<Rightarrow> u32 \<Rightarrow> nat option" where
  "find_entry_by_generation es message_id generation request_id =
    find_index (\<lambda>e. te_active e \<and> em_id (te_message e) = message_id \<and> te_generation e = generation \<and>
                    te_radio_request_id e = request_id) es"

definition set_status :: "'n nvs_api \<Rightarrow> bytes \<Rightarrow> tx_entry_t \<times> 'n store_state \<Rightarrow> tx_entry_t \<times> 'n store_state" where
  "set_status api status es = (case es of (entry, store) \<Rightarrow>
    (let m = te_message entry;
         m = m\<lparr>em_status := copy_field (em_status m) status,
               em_hops := (if te_remaining_hops entry < 0 then 0 else te_remaining_hops entry)\<rparr>
     in (entry\<lparr>te_message := m\<rparr>,
         if te_nvs_slot entry \<ge> 0 then snd (message_store_update api (te_nvs_slot entry) m store) else store)))"

definition finalize_failure :: "'n nvs_api \<Rightarrow> tx_entry_t \<times> 'n store_state \<Rightarrow> tx_entry_t \<times> 'n store_state" where
  "finalize_failure api es = (case es of (entry, store) \<Rightarrow>
    (let state = (if te_error entry = TX_ERROR_ACK_TIMEOUT then TX_STATE_FAILED_TIMEOUT
                  else if te_error entry = TX_ERROR_QUEUE_FULL \<or> te_error entry = TX_ERROR_PACKET_BUILD
                  then TX_STATE_FAILED_QUEUE else TX_STATE_FAILED_RADIO);
         (entry, store) = set_status api (state_label state (te_error entry)) (entry\<lparr>te_state := state\<rparr>, store)
     in (entry\<lparr>te_active := False\<rparr>, store)))"

text \<open>An action on the entry at index \<open>i\<close> and the store.\<close>

definition at_entry :: "nat \<Rightarrow> (tx_entry_t \<times> 'n store_state \<Rightarrow> tx_entry_t \<times> 'n store_state) \<Rightarrow> 'n tx_sched \<Rightarrow> 'n tx_sched" where
  "at_entry i f st =
    (case f (tx_entries st ! i, tx_store st) of (e, store) \<Rightarrow>
       st\<lparr>tx_entries := (tx_entries st)[i := e], tx_store := store\<rparr>)"

definition radio_outcome ::
  "'n nvs_api \<Rightarrow> u32 \<Rightarrow> lora_tx_result_code_t \<Rightarrow> tx_entry_t \<times> 'n store_state \<Rightarrow> tx_entry_t \<times> 'n store_state" where
  "radio_outcome api now code es = (case es of (entry, store) \<Rightarrow>
    (case code of
       LORA_TX_RESULT_SUCCESS \<Rightarrow>
         set_status api (lit ''SENT'')
           (entry\<lparr>te_state := TX_STATE_WAITING_ACK, te_next_action_tick := now + pdMS_TO_TICKS TX_ACK_TIMEOUT_MS\<rparr>, store)
     | LORA_TX_RESULT_CHANNEL_BUSY \<Rightarrow>
         (entry\<lparr>te_state := TX_STATE_RETRY_BACKOFF, te_next_action_tick := now + pdMS_TO_TICKS 2000\<rparr>, store)
     | _ \<Rightarrow> (entry\<lparr>te_state := TX_STATE_RETRY_BACKOFF, te_next_action_tick := now + pdMS_TO_TICKS 5000\<rparr>, store)))"

definition handle_radio_result :: "'n nvs_api \<Rightarrow> u32 \<Rightarrow> lora_tx_result_t \<Rightarrow> 'n tx_sched \<Rightarrow> 'n tx_sched" where
  "handle_radio_result api now result st =
    (case find_index (\<lambda>c. te_active c \<and> te_state c = TX_STATE_WAITING_RADIO \<and>
            em_id (te_message c) = rr_message_id result \<and> te_radio_request_id c = rr_request_id result) (tx_entries st) of
       None \<Rightarrow> st
     | Some c \<Rightarrow>
        (case find_entry_by_generation (tx_entries st) (em_id (te_message (tx_entries st ! c)))
                (te_generation (tx_entries st ! c)) (rr_request_id result) of
           None \<Rightarrow> st
         | Some i \<Rightarrow>
             if te_state (tx_entries st ! i) \<noteq> TX_STATE_WAITING_RADIO then st
             else at_entry i (radio_outcome api now (rr_result result)) st))"

text \<open>
  The packet built for an entry; \<open>best\<close> is what \<open>route_table_get_best\<close> answers for
  the destination and \<open>local\<close> is \<open>node_config_get_node_id()\<close>.
\<close>

definition prepare_packet :: "route_entry_t option \<Rightarrow> bytes \<Rightarrow> tx_entry_t \<Rightarrow> mesh_packet_t" where
  "prepare_packet best local entry =
    (let m = te_message entry;
         route = (case best of Some r \<Rightarrow> r | None \<Rightarrow> route_entry_zero);
         p = mesh_packet_zero\<lparr>mp_valid := True, mp_id := em_id m,
               mp_hops := (if te_remaining_hops entry > 0 then te_remaining_hops entry - 1 else 0),
               mp_path_hops := 1,
               mp_source := copy_field (mp_source mesh_packet_zero) (em_source m),
               mp_destination := copy_field (mp_destination mesh_packet_zero) (em_destination m),
               mp_type := copy_field (mp_type mesh_packet_zero) (em_type m),
               mp_priority := copy_field (mp_priority mesh_packet_zero) (em_priority m),
               mp_relay := copy_field (mp_relay mesh_packet_zero) local,
               mp_payload := copy_field (mp_payload mesh_packet_zero) (em_payload m)\<rparr>
     in if \<not> str_empty (re_destination route)
        then p\<lparr>mp_next_hop := copy_field (mp_next_hop p) (re_next_hop route)\<rparr> else p)"

definition prepare_current_packet ::
  "route_entry_t option \<Rightarrow> bytes \<Rightarrow> bytes \<Rightarrow> tx_entry_t \<Rightarrow> (bytes \<times> nat) option" where
  "prepare_current_packet best local route_packet entry =
    build_forward_packet_v2 (prepare_packet best local entry) route_packet"

definition request_priority :: "bytes \<Rightarrow> lora_tx_priority_t" where
  "request_priority priority =
    (if streq priority (lit ''HIGH'') then LORA_TX_PRIORITY_HIGH
     else if streq priority (lit ''LOW'') then LORA_TX_PRIORITY_LOW else LORA_TX_PRIORITY_NORMAL)"

text \<open>
  \<open>send_current_packet\<close> up to its call of \<open>lora_tx_submit\<close>, which it makes without
  the lock: the request to submit, if any. \<open>random\<close> is \<open>esp_random()\<close>,
  \<open>stack\<close> the uninitialised packet buffer.
\<close>

definition send_begin ::
  "'n nvs_api \<Rightarrow> u32 \<Rightarrow> u32 \<Rightarrow> route_entry_t option \<Rightarrow> bytes \<Rightarrow> bytes \<Rightarrow> nat \<Rightarrow> 'n tx_sched \<Rightarrow>
   lora_tx_request_t option \<times> 'n tx_sched" where
  "send_begin api now random best local stack i st =
    (let entry = tx_entries st ! i in
     if \<not> te_active entry \<or>
        (te_state entry \<noteq> TX_STATE_QUEUED \<and> te_state entry \<noteq> TX_STATE_RETRY_BACKOFF \<and> te_state entry \<noteq> TX_STATE_CREATED)
     then (None, st)
     else if te_attempts entry \<ge> TX_RETRY_MAX_ATTEMPTS
     then (None, at_entry i (\<lambda>(e, s). finalize_failure api (e\<lparr>te_error := TX_ERROR_RADIO_TIMEOUT\<rparr>, s)) st)
     else (case prepare_current_packet best local stack entry of
       None \<Rightarrow>
         (None, at_entry i (\<lambda>(e, s).
            case set_status api (state_label TX_STATE_FAILED_QUEUE TX_ERROR_PACKET_BUILD)
                   (e\<lparr>te_state := TX_STATE_FAILED_QUEUE, te_error := TX_ERROR_PACKET_BUILD\<rparr>, s) of (e, s) \<Rightarrow>
              (e\<lparr>te_active := False, te_next_action_tick := now + pdMS_TO_TICKS TX_ACK_TIMEOUT_MS\<rparr>, s)) st)
     | Some (route_packet, len) \<Rightarrow>
         (let request_id = (if random = 0 then 1 else random) in
          (Some \<lparr>rq_request_id = request_id, rq_message_id = em_id (te_message entry),
                 rq_packet = blit (zeros 255) 0 (take len route_packet), rq_packet_len = len,
                 rq_priority = request_priority (em_priority (te_message entry)),
                 rq_submitted_at_ms = now * portTICK_PERIOD_MS, rq_require_result = True\<rparr>,
           st\<lparr>tx_entries := (tx_entries st)[i := entry\<lparr>te_state := TX_STATE_SUBMITTING,
                te_radio_request_id := request_id, te_attempts := te_attempts entry + 1\<rparr>]\<rparr>))))"

text \<open>The rest of \<open>send_current_packet\<close>, once \<open>lora_tx_submit\<close> has returned.\<close>

definition send_finish ::
  "'n nvs_api \<Rightarrow> u32 \<Rightarrow> u32 \<Rightarrow> u32 \<Rightarrow> u32 \<Rightarrow> esp_err_t \<Rightarrow> 'n tx_sched \<Rightarrow> 'n tx_sched" where
  "send_finish api now message_id generation request_id submit_result st =
    (case find_entry_by_generation (tx_entries st) message_id generation request_id of
       None \<Rightarrow> st
     | Some i \<Rightarrow>
        if te_state (tx_entries st ! i) \<noteq> TX_STATE_SUBMITTING then st
        else at_entry i (\<lambda>(e, s).
          if submit_result \<noteq> ESP_OK then
            (let e = e\<lparr>te_error := TX_ERROR_QUEUE_FULL\<rparr> in
             if te_attempts e \<ge> TX_RETRY_MAX_ATTEMPTS then finalize_failure api (e, s)
             else (e\<lparr>te_state := TX_STATE_RETRY_BACKOFF, te_next_action_tick := now + pdMS_TO_TICKS 2000\<rparr>, s))
          else (e\<lparr>te_state := TX_STATE_WAITING_RADIO, te_next_action_tick := now + pdMS_TO_TICKS 10000\<rparr>, s)) st)"

text \<open>What the outside answers during one \<open>send_current_packet\<close>.\<close>

record send_env =
  se_begin_tick :: u32
  se_random :: u32
  se_route :: "route_entry_t option"
  se_local :: bytes
  se_stack :: bytes
  se_submit :: "lora_tx_request_t \<Rightarrow> esp_err_t"
  se_end_tick :: u32

definition send_current_packet :: "'n nvs_api \<Rightarrow> send_env \<Rightarrow> nat \<Rightarrow> 'n tx_sched \<Rightarrow> 'n tx_sched" where
  "send_current_packet api env i st =
    (case send_begin api (se_begin_tick env) (se_random env) (se_route env) (se_local env) (se_stack env) i st of
       (None, st') \<Rightarrow> st'
     | (Some request, st') \<Rightarrow>
         send_finish api (se_end_tick env) (rq_message_id request) (te_generation (tx_entries st ! i))
           (rq_request_id request) (se_submit env request) st')"

text \<open>The scheduler task's visit of one entry: whether to send it, and the timeouts.\<close>

definition scheduler_visit :: "'n nvs_api \<Rightarrow> u32 \<Rightarrow> nat \<Rightarrow> 'n tx_sched \<Rightarrow> bool \<times> 'n tx_sched" where
  "scheduler_visit api now i st =
    (let entry = tx_entries st ! i in
     if \<not> te_active entry then (False, st)
     else if te_state entry = TX_STATE_QUEUED \<or> te_state entry = TX_STATE_RETRY_BACKOFF \<or> te_state entry = TX_STATE_CREATED
     then (now \<ge> te_next_action_tick entry, st)
     else if te_state entry = TX_STATE_WAITING_ACK \<and> now \<ge> te_next_action_tick entry
     then (False, at_entry i (\<lambda>(e, s).
       if te_attempts e \<ge> TX_RETRY_MAX_ATTEMPTS
       then finalize_failure api (e\<lparr>te_error := TX_ERROR_ACK_TIMEOUT\<rparr>, s)
       else (e\<lparr>te_state := TX_STATE_RETRY_BACKOFF,
               te_next_action_tick := now + pdMS_TO_TICKS (5000 * unat (te_attempts e))\<rparr>, s)) st)
     else if te_state entry = TX_STATE_WAITING_RADIO \<and> now \<ge> te_next_action_tick entry
     then (False, at_entry i (\<lambda>(e, s).
       if te_attempts e \<ge> TX_RETRY_MAX_ATTEMPTS
       then finalize_failure api (e\<lparr>te_error := TX_ERROR_RADIO_TIMEOUT\<rparr>, s)
       else (e\<lparr>te_state := TX_STATE_RETRY_BACKOFF, te_next_action_tick := now + pdMS_TO_TICKS 2000\<rparr>, s)) st)
     else (False, st))"

definition scheduler_serve :: "'n nvs_api \<Rightarrow> u32 \<Rightarrow> send_env \<Rightarrow> nat \<Rightarrow> 'n tx_sched \<Rightarrow> 'n tx_sched" where
  "scheduler_serve api now env i st =
    (case scheduler_visit api now i st of (should_send, st) \<Rightarrow>
       if should_send then send_current_packet api env i st else st)"

text \<open>
  One round of \<open>scheduler_task\<close>: the results waiting in the radio's queue (with the
  tick at which each is handled), then every entry in turn.
\<close>

definition scheduler_round ::
  "'n nvs_api \<Rightarrow> u32 \<Rightarrow> (u32 \<times> lora_tx_result_t) list \<Rightarrow> (nat \<Rightarrow> send_env) \<Rightarrow> 'n tx_sched \<Rightarrow> 'n tx_sched" where
  "scheduler_round api now results env st =
    fold (\<lambda>i. scheduler_serve api now (env i) i) [0..<MAX_MESSAGES]
      (fold (\<lambda>(tick, r). handle_radio_result api tick r) results st)"

definition fresh_generation :: "u32 \<Rightarrow> u32" where
  "fresh_generation g = (if g + 1 = 0 then g + 1 + 1 else g + 1)"

fun restore_loop :: "u32 \<Rightarrow> (emergency_message_t \<times> nat) list \<Rightarrow> 'n tx_sched \<Rightarrow> nat \<times> 'n tx_sched" where
  "restore_loop tick [] st = (0, st)"
| "restore_loop tick ((m, slot) # pending) st =
    (case next_slot (tx_entries st) of
       None \<Rightarrow> (0, st)
     | Some i \<Rightarrow>
        (let generation = fresh_generation (next_generation st);
             e = tx_entry_zero\<lparr>te_message := m, te_nvs_slot := int slot, te_generation := generation,
                   te_state := TX_STATE_QUEUED, te_remaining_hops := em_hops m, te_next_action_tick := tick,
                   te_active := True\<rparr>;
             (n, st') = restore_loop tick pending
               (st\<lparr>tx_entries := (tx_entries st)[i := e], next_generation := generation\<rparr>)
         in (n + 1, st')))"

definition tx_scheduler_restore_pending :: "u32 \<Rightarrow> 'n tx_sched \<Rightarrow> nat \<times> 'n tx_sched" where
  "tx_scheduler_restore_pending tick st =
    restore_loop tick (message_store_copy_pending_tx MAX_MESSAGES (tx_store st)) st"

definition tx_scheduler_submit ::
  "'n nvs_api \<Rightarrow> u32 \<Rightarrow> emergency_message_t \<Rightarrow> int \<Rightarrow> 'n tx_sched \<Rightarrow> bool \<times> 'n tx_sched" where
  "tx_scheduler_submit api tick message nvs_slot st =
    (case next_slot (tx_entries st) of
       None \<Rightarrow> (False, st)
     | Some i \<Rightarrow>
        (let generation = fresh_generation (next_generation st);
             e = tx_entry_zero\<lparr>te_generation := generation, te_message := message, te_nvs_slot := nvs_slot,
                   te_state := TX_STATE_QUEUED, te_error := TX_ERROR_NONE, te_attempts := 0,
                   te_remaining_hops := em_hops message, te_next_action_tick := tick, te_active := True\<rparr>
         in (True, at_entry i (\<lambda>(_, s). set_status api (lit ''QUEUED'') (e, s)) (st\<lparr>next_generation := generation\<rparr>))))"

definition tx_scheduler_enqueue ::
  "'n nvs_api \<Rightarrow> u32 \<Rightarrow> emergency_message_t \<Rightarrow> int \<Rightarrow> 'n tx_sched \<Rightarrow> bool \<times> 'n tx_sched" where
  "tx_scheduler_enqueue api tick message nvs_slot st = tx_scheduler_submit api tick message nvs_slot st"

definition tx_scheduler_acknowledge ::
  "'n nvs_api \<Rightarrow> u32 \<Rightarrow> bytes option \<Rightarrow> 'n tx_sched \<Rightarrow> bool \<times> 'n tx_sched" where
  "tx_scheduler_acknowledge api acknowledged_id ack_source st =
    (case ack_source of None \<Rightarrow> (False, st) | Some ack_source \<Rightarrow>
       if str_empty ack_source then (False, st)
       else (case find_entry (tx_entries st) acknowledged_id ack_source of
         None \<Rightarrow> (False, st)
       | Some i \<Rightarrow> (True, at_entry i (\<lambda>(e, s).
           case set_status api (lit ''ACKED'') (e\<lparr>te_state := TX_STATE_DELIVERED, te_error := TX_ERROR_NONE\<rparr>, s) of
             (e, s) \<Rightarrow> (e\<lparr>te_active := False\<rparr>, s)) st)))"

definition tx_scheduler_queue_depth :: "'n tx_sched \<Rightarrow> nat" where
  "tx_scheduler_queue_depth st = count_if te_active (tx_entries st)"

definition tx_scheduler_debug_reset_for_test :: "'n tx_sched \<Rightarrow> 'n tx_sched" where
  "tx_scheduler_debug_reset_for_test st =
    st\<lparr>tx_entries := map (\<lambda>_. tx_entry_zero) (tx_entries st), next_generation := 0\<rparr>"

end
