(* ===== verification/Mesh_Packet_Props.thy ===== *)
theory Mesh_Packet_Props
  imports Mesh_Packet
begin

text \<open>
  What the packet codec of \<open>mesh_protocol.c\<close> guarantees: the exact bytes of a V2
  packet (\<open>v2_wire\<close>), the round trip through the parser, the refusal of truncated
  frames, and the well-formedness of everything the two parsers accept. The parser is shown
  to be a \<open>stream_reader\<close> stage by stage.
\<close>

subsection \<open>The bytes of a V2 packet\<close>

definition enc_head :: "mesh_packet_t \<Rightarrow> v2_layout \<Rightarrow> bytes" where
  "enc_head p l =
    [lay_flags l, type_to_u8 (mp_type p), priority_to_u8 (mp_priority p), lay_source_len l] @
    cstr (mp_source p) @ [lay_destination_len l] @
    (if lay_destination_len l = V2_BROADCAST_ID then [] else cstr (mp_destination p))"

definition enc_route :: "mesh_packet_t \<Rightarrow> v2_layout \<Rightarrow> bytes" where
  "enc_route p l =
    le32 (mp_id p) @ [lay_relay_len l] @ cstr (mp_relay p) @ [hop_byte (mp_hops p), hop_byte (mp_path_hops p)] @
    (if str_empty (mp_next_hop p) then [] else lay_next_hop_len l # cstr (mp_next_hop p))"

definition has_location :: "mesh_packet_t \<Rightarrow> bool" where
  "has_location p \<longleftrightarrow>
    \<not> str_empty (mp_location_raw p) \<or> \<not> str_empty (sitio (mp_location p)) \<or>
    \<not> str_empty (barangay (mp_location p)) \<or> \<not> str_empty (municipality (mp_location p))"

definition location_text :: "location_info_t \<Rightarrow> bytes" where
  "location_text loc = cstr (sitio loc) @ [126] @ cstr (barangay loc) @ [126] @ cstr (municipality loc)"

definition payload_bytes :: "mesh_packet_t \<Rightarrow> bytes" where
  "payload_bytes p =
    (if mp_payload_len p > 0 then take (mp_payload_len p) (mp_payload p) else cstr (mp_payload p))"

definition enc_location :: "mesh_packet_t \<Rightarrow> v2_layout \<Rightarrow> bytes" where
  "enc_location p l = (if has_location p then lay_location_len l # location_text (mp_location p) else [])"

definition enc_payload :: "mesh_packet_t \<Rightarrow> v2_layout \<Rightarrow> bytes" where
  "enc_payload p l = lay_payload_len l # payload_bytes p"

definition v2_wire :: "mesh_packet_t \<Rightarrow> v2_layout \<Rightarrow> bytes" where
  "v2_wire p l = [V2_MAGIC, 2] @ enc_head p l @ enc_route p l @ enc_location p l @ enc_payload p l"

text \<open>What the builder's lengths are for a packet whose buffers have their sizes.\<close>

lemma cstr_location_encode:
  assumes "wf_location loc"
  shows "cstr (location_encode loc (zeros LOCATION_BUF_LEN)) = location_text loc"
    and "0 < length (location_text loc)" "length (location_text loc) < 72"
proof -
  have "length (cstr (sitio loc)) < 24" "length (cstr (barangay loc)) < 24" "length (cstr (municipality loc)) < 24"
    using assms by (auto simp: wf_location_def dest: field_cstr)
  then show "cstr (location_encode loc (zeros LOCATION_BUF_LEN)) = location_text loc"
    "0 < length (location_text loc)" "length (location_text loc) < 72"
    by (simp_all add: location_encode_def location_text_def cstr_snprintf)
qed

definition v2_flags :: "mesh_packet_t \<Rightarrow> u8" where
  "v2_flags p =
    (let f = (if str_empty (mp_next_hop p) then 0 else V2_FLAG_NEXT_HOP) OR V2_FLAG_PATH_HOPS
     in if has_location p then f OR V2_FLAG_LOCATION else f)"

lemma v2_flags_tests [simp]:
  "v2_flags p AND V2_FLAG_PATH_HOPS \<noteq> 0"
  "v2_flags p AND V2_FLAG_NEXT_HOP = 0 \<longleftrightarrow> str_empty (mp_next_hop p)"
  "v2_flags p AND V2_FLAG_LOCATION = 0 \<longleftrightarrow> \<not> has_location p"
  by (simp_all add: v2_flags_def Let_def V2_FLAG_NEXT_HOP_def V2_FLAG_PATH_HOPS_def V2_FLAG_LOCATION_def)

definition broadcast :: "mesh_packet_t \<Rightarrow> bool" where
  "broadcast p \<longleftrightarrow> mp_broadcast_destination p \<or> streq (mp_destination p) (lit ''ALL'')"

definition v2_layout_of :: "mesh_packet_t \<Rightarrow> v2_layout" where
  "v2_layout_of p =
    \<lparr>lay_flags = v2_flags p, lay_source_len = of_nat (length (cstr (mp_source p))),
     lay_destination_len = (if broadcast p then V2_BROADCAST_ID else of_nat (length (cstr (mp_destination p)))),
     lay_relay_len = of_nat (length (cstr (mp_relay p))),
     lay_next_hop_len = of_nat (length (cstr (mp_next_hop p))),
     lay_location = location_encode (mp_location p) (zeros LOCATION_BUF_LEN),
     lay_location_len = (if has_location p then of_nat (length (location_text (mp_location p))) else 0),
     lay_payload_len = of_nat (length (payload_bytes p))\<rparr>"

lemma v2_plan_eq:
  assumes "wf_packet p"
  shows "v2_plan p =
    (if \<not> str_empty (mp_source p) \<and> \<not> str_empty (mp_relay p) then Some (v2_layout_of p) else None)"
proof -
  have w: "wf_location (mp_location p)" "length (mp_payload p) = 140" "mp_payload_len p < 140"
    "length (cstr (mp_source p)) < 32" "length (cstr (mp_relay p)) < 32" "length (cstr (mp_next_hop p)) < 32"
    "length (cstr (mp_payload p)) < 140"
    using assms by (auto simp: wf_packet_def dest: field_length field_cstr)
  have z: "(of_nat (length (cstr (mp_source p))) :: u8) = 0 \<longleftrightarrow> str_empty (mp_source p)"
    "(of_nat (length (cstr (mp_relay p))) :: u8) = 0 \<longleftrightarrow> str_empty (mp_relay p)"
    "(of_nat (length (cstr (mp_next_hop p))) :: u8) = 0 \<longleftrightarrow> str_empty (mp_next_hop p)"
    using w by (simp_all add: of_nat_u8_0 str_empty_def)
  have loc: "location_text (mp_location p) \<noteq> []" "length (location_text (mp_location p)) < 255"
    "cstr (location_encode (mp_location p) (zeros LOCATION_BUF_LEN)) = location_text (mp_location p)"
    using cstr_location_encode [OF w(1)] by auto
  have pl: "length (payload_bytes p) = (if mp_payload_len p > 0 then mp_payload_len p else length (cstr (mp_payload p)))"
    using w by (simp add: payload_bytes_def)
  show ?thesis
    using w unfolding v2_plan_def Let_def z v2_layout_of_def pl loc v2_flags_def has_location_def broadcast_def
    by (simp add: loc z)
qed

text \<open>The facts about the lengths of a well-formed packet that the proofs below share.\<close>

lemma wf_packet_lengths:
  assumes "wf_packet p"
  shows "length (cstr (mp_source p)) < 32" "length (cstr (mp_destination p)) < 32"
    "length (cstr (mp_relay p)) < 32" "length (cstr (mp_next_hop p)) < 32"
    "length (payload_bytes p) < 140" "length (location_text (mp_location p)) < 72"
    "payload_bytes p = take (length (payload_bytes p)) (mp_payload p)"
proof -
  have w: "wf_location (mp_location p)" "length (mp_payload p) = 140" "mp_payload_len p < 140"
    "length (cstr (mp_payload p)) < 140"
    using assms by (auto simp: wf_packet_def dest: field_length field_cstr)
  show "length (payload_bytes p) < 140" using w by (simp add: payload_bytes_def)
  show "payload_bytes p = take (length (payload_bytes p)) (mp_payload p)"
    using w by (simp add: payload_bytes_def cstr_take)
  show "length (location_text (mp_location p)) < 72" using cstr_location_encode [OF w(1)] by simp
qed (use assms in \<open>auto simp: wf_packet_def dest: field_cstr\<close>)

lemma unat_layout:
  assumes "wf_packet p"
  shows "unat (lay_source_len (v2_layout_of p)) = length (cstr (mp_source p))"
    "unat (lay_relay_len (v2_layout_of p)) = length (cstr (mp_relay p))"
    "unat (lay_next_hop_len (v2_layout_of p)) = length (cstr (mp_next_hop p))"
    "unat (lay_payload_len (v2_layout_of p)) = length (payload_bytes p)"
    "lay_destination_len (v2_layout_of p) = V2_BROADCAST_ID \<longleftrightarrow> broadcast p"
    "\<not> broadcast p \<Longrightarrow> unat (lay_destination_len (v2_layout_of p)) = length (cstr (mp_destination p))"
    "has_location p \<Longrightarrow> unat (lay_location_len (v2_layout_of p)) = length (location_text (mp_location p))"
    "lay_flags (v2_layout_of p) = v2_flags p"
proof -
  note w = wf_packet_lengths [OF assms]
  have "(of_nat (length (cstr (mp_destination p))) :: u8) \<noteq> V2_BROADCAST_ID"
    using w(2) unat_of_nat_u8 [of "length (cstr (mp_destination p))"]
    by (auto simp: V2_BROADCAST_ID_def dest: arg_cong [of _ _ unat])
  then show "lay_destination_len (v2_layout_of p) = V2_BROADCAST_ID \<longleftrightarrow> broadcast p"
    by (simp add: v2_layout_of_def)
qed (use wf_packet_lengths [OF assms] in \<open>simp_all add: v2_layout_of_def\<close>)

lemma v2_required_eq:
  assumes "wf_packet p"
  shows "v2_required (v2_layout_of p) = length (v2_wire p (v2_layout_of p))"
  using unat_layout [OF assms]
  by (simp add: v2_required_def v2_wire_def enc_head_def enc_route_def enc_location_def enc_payload_def)

lemma v2_write_eq:
  assumes "wf_packet p"
  shows "v2_write p (v2_layout_of p) c = put (v2_wire p (v2_layout_of p)) c"
proof -
  note w = wf_packet_lengths [OF assms] and u = unat_layout [OF assms]
  have len: "length (mp_payload p) = 140" using assms by (auto simp: wf_packet_def dest: field_length)
  have loc: "location_text (mp_location p) =
      take (length (location_text (mp_location p))) (lay_location (v2_layout_of p))"
    "length (location_text (mp_location p)) \<le> length (lay_location (v2_layout_of p))"
  proof -
    have eq: "cstr (lay_location (v2_layout_of p)) = location_text (mp_location p)"
      using assms cstr_location_encode(1) [of "mp_location p"] by (simp add: v2_layout_of_def wf_packet_def)
    show "location_text (mp_location p) =
        take (length (location_text (mp_location p))) (lay_location (v2_layout_of p))"
      using cstr_take [of "lay_location (v2_layout_of p)"] unfolding eq by simp
    show "length (location_text (mp_location p)) \<le> length (lay_location (v2_layout_of p))"
      by (metis eq length_cstr_le)
  qed
  have pay: "take (length (payload_bytes p)) (mp_payload p) = payload_bytes p"
     "length (payload_bytes p) \<le> length (mp_payload p)" using w len by simp_all
  show ?thesis
    using loc pay
    by (cases "broadcast p"; cases "has_location p"; cases "str_empty (mp_next_hop p)")
      (simp_all add: v2_write_def u write_put put_put put_bind cstr_take v2_wire_def enc_head_def
        enc_route_def enc_location_def enc_payload_def)
qed

subsection \<open>Parsing what was built\<close>

text \<open>The readers as functions of the bytes that are left.\<close>

lemma read_u8_drop: "read_u8 p off = (case drop off p of [] \<Rightarrow> None | x # _ \<Rightarrow> Some (x, off + 1))"
  by (cases "off < length p") (auto simp: read_u8_def Cons_nth_drop_Suc [symmetric])

lemma of_le32_bytes [simp]:
  "of_le32 (ucast v) (ucast (drop_bit 8 v)) (ucast (drop_bit 16 v)) (ucast (drop_bit 24 v)) = v"
  using of_le32_le32 [of v] by (simp add: le32_def numeral_3_eq_3)

lemma read_u32_drop:
  "read_u32 p off =
    (case drop off p of a # b # c # d # _ \<Rightarrow> Some (of_le32 a b c d, off + Suc (Suc (Suc (Suc 0)))) | _ \<Rightarrow> None)"
proof (cases "off + 4 \<le> length p")
  case True
  then have "drop off p = p ! off # p ! (off + 1) # p ! (off + 2) # p ! (off + 3) # drop (off + 4) p"
    by (simp add: Cons_nth_drop_Suc numeral_2_eq_2 numeral_3_eq_3 numeral_eq_Suc)
  then show ?thesis using True by (simp add: read_u32_def)
next
  case False
  then have "length (drop off p) < 4" by simp
  then show ?thesis using False
    by (auto simp: read_u32_def split: list.split dest!: arg_cong [of _ _ length] simp del: length_drop)
qed

lemma read_bytes_drop:
  assumes "0 < len"
  shows "read_bytes p off (zeros n) len =
    (if length (drop off p) < len \<or> n \<le> len then None else Some (pad n (take len (drop off p)), off + len))"
proof (cases "length (drop off p) < len \<or> n \<le> len")
  case False
  then have "length (take len (drop off p)) = len" by simp
  with False assms blit_zeros_pad [of "take len (drop off p)" n] show ?thesis
    by (auto simp: read_bytes_def)
qed (use assms in \<open>auto simp: read_bytes_def\<close>)

text \<open>
  The same readers \<open>k\<close> bytes into a stage that starts at \<open>off\<close>: offsets stay
  of the form \<open>off + k\<close>, so that the simplifier runs a stage on the list of bytes.
\<close>

lemma read_u8_from:
  "read_u8 p (off + k) = (case drop k (drop off p) of [] \<Rightarrow> None | x # _ \<Rightarrow> Some (x, off + Suc k))"
  by (simp add: read_u8_drop drop_add del: drop_drop split: list.split)

lemma read_u32_from:
  "read_u32 p (off + k) =
    (case drop k (drop off p) of a # b # c # d # _ \<Rightarrow> Some (of_le32 a b c d, off + Suc (Suc (Suc (Suc k)))) | _ \<Rightarrow> None)"
  by (simp add: read_u32_drop drop_add add.assoc del: drop_drop split: list.split)

lemma read_bytes_from:
  "0 < len \<Longrightarrow> read_bytes p (off + k) (zeros n) len =
    (let r = drop k (drop off p) in
     if length r < len \<or> n \<le> len then None else Some (pad n (take len r), off + (k + len)))"
  by (simp add: read_bytes_drop drop_add add.assoc Let_def del: drop_drop length_drop)

lemmas stage_simps = read_u8_from read_u32_from read_bytes_from Let_def

lemma parse_v2_head_enc:
  assumes "wf_packet p" "\<not> str_empty (mp_source p)" "broadcast p \<or> \<not> str_empty (mp_destination p)"
    and "drop off w = enc_head p (v2_layout_of p) @ r"
  shows "parse_v2_head w off = Some ((v2_flags p, type_to_u8 (mp_type p), priority_to_u8 (mp_priority p),
      mesh_packet_zero\<lparr>mp_source := pad 32 (cstr (mp_source p)), mp_broadcast_destination := broadcast p,
        mp_destination := (if broadcast p then copy_field (zeros 32) (lit ''ALL'')
                           else pad 32 (cstr (mp_destination p)))\<rparr>),
      off + length (enc_head p (v2_layout_of p)))"
proof -
  note u = unat_layout [OF assms(1)] wf_packet_lengths(1-6) [OF assms(1)]
  have nz: "lay_source_len (v2_layout_of p) \<noteq> 0" "\<not> broadcast p \<Longrightarrow> lay_destination_len (v2_layout_of p) \<noteq> 0"
    "cstr (mp_source p) \<noteq> []"
    using u assms(2,3) by (auto simp: str_empty_def)
  show ?thesis
    using assms(3,4) u nz
    by (cases "broadcast p")
     (simp_all add: parse_v2_head_def read_u8_drop [of w off] stage_simps enc_head_def mesh_packet_zero_def str_empty_def
       del: drop_drop add_Suc_right)
qed

lemma parse_v2_route_enc:
  assumes "wf_packet p" "\<not> str_empty (mp_relay p)"
    and "mp_relay q = zeros 32" "mp_next_hop q = zeros 32"
    and "drop off w = enc_route p (v2_layout_of p) @ r"
  shows "parse_v2_route (v2_flags p) q w off = Some (
      q\<lparr>mp_id := mp_id p, mp_relay := pad 32 (cstr (mp_relay p)), mp_hops := uint (hop_byte (mp_hops p)),
        mp_path_hops := uint (hop_byte (mp_path_hops p)), mp_next_hop := pad 32 (cstr (mp_next_hop p))\<rparr>,
      off + length (enc_route p (v2_layout_of p)))"
proof -
  note u = unat_layout [OF assms(1)] wf_packet_lengths(1-6) [OF assms(1)]
  have nz: "lay_relay_len (v2_layout_of p) \<noteq> 0" "cstr (mp_relay p) \<noteq> []"
    "\<not> str_empty (mp_next_hop p) \<Longrightarrow> lay_next_hop_len (v2_layout_of p) \<noteq> 0"
    using u assms(2) by (auto simp: str_empty_def)
  show ?thesis
  proof (cases "str_empty (mp_next_hop p)")
    case True
    then have "q\<lparr>mp_next_hop := zeros 32\<rparr> = q" using assms(4) by simp
    then have nh: "q\<lparr>mp_id := i, mp_relay := y, mp_hops := h, mp_path_hops := k, mp_next_hop := zeros 32\<rparr> =
        q\<lparr>mp_id := i, mp_relay := y, mp_hops := h, mp_path_hops := k\<rparr>" for i y h k
      by (cases q) simp
    have "cstr (mp_next_hop p) = []" using True by (simp add: str_empty_def)
    with True show ?thesis
      using assms(2,3,5) u nz
      by (simp add: parse_v2_route_def read_u32_drop [of w off] stage_simps enc_route_def le32_def nh
           del: drop_drop add_Suc_right)
  next
    case False
    then show ?thesis
      using assms u nz
      by (simp add: parse_v2_route_def read_u32_drop [of w off] stage_simps enc_route_def le32_def str_empty_def
           del: drop_drop add_Suc_right)
  qed
qed

lemma drop_eq_length: "drop off w = x # r \<Longrightarrow> length w = off + Suc (length r)"
  by (metis length_Cons length_drop le_add_diff_inverse nat_le_linear diff_is_0_eq' nat.distinct(1))

lemma parse_v2_location_enc:
  assumes "wf_packet p" "mp_location_raw q = zeros 320" "mp_location q = location_zero"
    and "drop off w = enc_location p (v2_layout_of p) @ r"
  shows "parse_v2_location (v2_flags p) q w off = Some (
      (if has_location p
       then q\<lparr>mp_location_raw := pad 320 (location_text (mp_location p)),
              mp_location := location_decode (Some (pad 320 (location_text (mp_location p))))\<rparr>
       else q), off + length (enc_location p (v2_layout_of p)))"
proof (cases "has_location p")
  case True
  let ?l = "location_text (mp_location p)"
  note u = unat_layout(7) [OF assms(1) True]
  have l: "0 < length ?l" "length ?l < 72"
    using cstr_location_encode(2,3) [of "mp_location p"] assms(1) by (auto simp: wf_packet_def)
  have pos: "lay_location_len (v2_layout_of p) > 0" using l u by (simp add: word_less_nat_alt)
  have d: "drop off w = lay_location_len (v2_layout_of p) # ?l @ r"
    using assms(4) True by (simp add: enc_location_def)
  have w: "length w = off + Suc (length (?l @ r))" by (rule drop_eq_length [OF d])
  have b: "(blit (zeros 320) 0 ?l)[length ?l := 0] = pad 320 ?l" using l by (intro blit_zeros_pad) simp
  have t: "take (length ?l) (drop (off + Suc 0) w) = ?l" unfolding drop_add d by simp
  show ?thesis
    using True pos assms(2) u w b t
    by (simp add: parse_v2_location_def read_u8_drop [of w off] d Let_def enc_location_def)
qed (use assms in \<open>simp add: parse_v2_location_def enc_location_def\<close>)

lemma parse_v2_payload_enc:
  assumes "wf_packet p" "mp_payload q = zeros 140"
    and "drop off w = enc_payload p (v2_layout_of p) @ r"
  shows "parse_v2_payload q w off = Some ((lay_payload_len (v2_layout_of p),
      q\<lparr>mp_payload := pad 140 (payload_bytes p)\<rparr>), off + length (enc_payload p (v2_layout_of p)))"
proof -
  let ?l = "payload_bytes p"
  note u = unat_layout(4) [OF assms(1)] wf_packet_lengths(5) [OF assms(1)]
  have d: "drop off w = lay_payload_len (v2_layout_of p) # ?l @ r"
    using assms(3) by (simp add: enc_payload_def)
  have w: "length w = off + Suc (length (?l @ r))" by (rule drop_eq_length [OF d])
  have b: "(blit (zeros 140) 0 ?l)[length ?l := 0] = pad 140 ?l" using u by (intro blit_zeros_pad) simp
  have t: "take (length ?l) (drop (off + Suc 0) w) = ?l" unfolding drop_add d by simp
  have pos: "lay_payload_len (v2_layout_of p) > 0 \<longleftrightarrow> ?l \<noteq> []" using u by (simp add: word_less_nat_alt)
  have "q\<lparr>mp_payload := zeros 140\<rparr> = q" using assms(2) by (cases q) simp
  then show ?thesis
    using assms(2) u w b t
    by (cases "?l = []") (simp_all add: parse_v2_payload_def read_u8_drop [of w off] d pos enc_payload_def)
qed

text \<open>What a receiver holds after a packet has crossed the air.\<close>

definition v2_normal :: "mesh_packet_t \<Rightarrow> mesh_packet_t" where
  "v2_normal p = update_thread_key
    \<lparr>mp_valid = True, mp_id = mp_id p,
     mp_hops = uint (hop_byte (mp_hops p)), mp_path_hops = uint (hop_byte (mp_path_hops p)),
     mp_broadcast_destination = broadcast p,
     mp_source = pad 32 (cstr (mp_source p)),
     mp_destination = (if broadcast p then copy_field (zeros 32) (lit ''ALL'') else pad 32 (cstr (mp_destination p))),
     mp_type = copy_field (zeros 32) (type_from_u8 (type_to_u8 (mp_type p))),
     mp_priority = copy_field (zeros 32) (priority_from_u8 (priority_to_u8 (mp_priority p))),
     mp_relay = pad 32 (cstr (mp_relay p)), mp_next_hop = pad 32 (cstr (mp_next_hop p)),
     mp_location_raw = (if has_location p then pad 320 (location_text (mp_location p)) else zeros 320),
     mp_location = (if has_location p then location_decode (Some (pad 320 (location_text (mp_location p))))
                    else location_zero),
     mp_thread_key = zeros 32, mp_payload = pad 140 (payload_bytes p), mp_payload_len = length (payload_bytes p)\<rparr>"

lemma cstr_copy_ALL: "\<not> str_empty (copy_field (zeros 32) (lit ''ALL''))"
  by code_simp

lemma parse_v2_at_wire:
  assumes "wf_packet p" "\<not> str_empty (mp_source p)" "\<not> str_empty (mp_relay p)"
    "broadcast p \<or> \<not> str_empty (mp_destination p)"
    and d1: "drop off w = enc_head p (v2_layout_of p) @ (enc_route p (v2_layout_of p) @
               (enc_location p (v2_layout_of p) @ (enc_payload p (v2_layout_of p) @ e)))"
  shows "parse_v2_at w off = Some (v2_normal p,
    off + length (enc_head p (v2_layout_of p)) + length (enc_route p (v2_layout_of p)) +
    length (enc_location p (v2_layout_of p)) + length (enc_payload p (v2_layout_of p)))"
proof -
  let ?l = "v2_layout_of p"
  have d2: "drop (off + length (enc_head p ?l)) w = enc_route p ?l @ (enc_location p ?l @ enc_payload p ?l @ e)"
    unfolding drop_add d1 by simp
  have d3: "drop (off + length (enc_head p ?l) + length (enc_route p ?l)) w = enc_location p ?l @ (enc_payload p ?l @ e)"
    unfolding drop_add [of "off + length (enc_head p ?l)"] d2 by simp
  have d4: "drop (off + length (enc_head p ?l) + length (enc_route p ?l) + length (enc_location p ?l)) w =
      enc_payload p ?l @ e"
    unfolding drop_add [of "off + length (enc_head p ?l) + length (enc_route p ?l)"] d3 by simp
  have ne: "\<not> broadcast p \<Longrightarrow> \<not> str_empty (pad 32 (cstr (mp_destination p)))"
    using assms(4) by (simp add: str_empty_def cstr_pad)
  note stages = parse_v2_head_enc [OF assms(1,2,4) d1] parse_v2_route_enc [OF assms(1,3) _ _ d2]
    parse_v2_location_enc [OF assms(1) _ _ d3] parse_v2_payload_enc [OF assms(1) _ d4]
  have z: "(zeros 32)[0 := 0] = zeros 32" by (simp add: zeros_def numeral_eq_Suc)
  show ?thesis
    using ne
    by (cases "has_location p"; cases "broadcast p")
     (simp_all add: parse_v2_at_def stages mesh_packet_zero_def
       parse_v2_finish_def Let_def v2_normal_def cstr_copy_ALL z unat_layout(4) [OF assms(1)])
qed

lemma parse_v2_wire:
  assumes "wf_packet p" "\<not> str_empty (mp_source p)" "\<not> str_empty (mp_relay p)"
    "broadcast p \<or> \<not> str_empty (mp_destination p)"
  shows "parse_mesh_packet_v2 (v2_wire p (v2_layout_of p) @ e) = Some (v2_normal p)"
proof -
  have "mesh_packet_is_v2 (v2_wire p (v2_layout_of p) @ e)" by (simp add: mesh_packet_is_v2_def v2_wire_def)
  then show ?thesis
    using parse_v2_at_wire [OF assms, of 2 "v2_wire p (v2_layout_of p) @ e" e]
    by (simp add: parse_mesh_packet_v2_def v2_wire_def)
qed

lemma build_forward_packet_v2_eq:
  assumes "wf_packet p"
  shows "build_forward_packet_v2 p packet =
    (if \<not> str_empty (mp_source p) \<and> \<not> str_empty (mp_relay p) \<and>
        length (v2_wire p (v2_layout_of p)) \<le> min BEMS_MAX_PLAINTEXT (length packet)
     then Some (blit packet 0 (v2_wire p (v2_layout_of p)), length (v2_wire p (v2_layout_of p))) else None)"
  using assms
  by (auto simp: build_forward_packet_v2_def v2_plan_eq v2_required_eq v2_write_eq put_def)

subsection \<open>Every stage of the parser is a reader\<close>

lemma parse_v2_head_reader: "stream_reader parse_v2_head"
  unfolding parse_v2_head_def Let_def require_bind by (rule stream_readers)+

lemma parse_v2_route_reader: "stream_reader (parse_v2_route flags q)"
  unfolding parse_v2_route_def Let_def require_bind by (rule stream_readers)+

lemma parse_v2_location_reader: "stream_reader (parse_v2_location flags q)"
proof (cases "flags AND V2_FLAG_LOCATION = 0")
  case True
  then have "parse_v2_location flags q = (\<lambda>p off. Some (q, off))"
    by (intro ext) (simp add: parse_v2_location_def)
  then show ?thesis by (simp add: stream_reader_return)
next
  case False
  show ?thesis
  proof
    fix p off y off' e
    assume *: "parse_v2_location flags q p off = Some (y, off')"
    with False obtain l o1 where l: "read_u8 p off = Some (l, o1)"
      by (auto simp: parse_v2_location_def Option.bind_eq_Some_conv)
    have fits: "o1 + unat l \<le> length p" if "0 < l"
      using * l False that by (auto simp: parse_v2_location_def split: if_splits)
    then show "parse_v2_location flags q (p @ e) off = Some (y, off')"
      using * l u8_codec.rd_extend [OF l, of e] False
      by (cases "0 < l") (simp_all add: parse_v2_location_def split: if_splits)
    show "off \<le> off' \<and> off' \<le> length p" if "off \<le> length p"
      using * l fits u8_codec.rd_bound [OF l that] False
      by (cases "0 < l") (auto simp: parse_v2_location_def Let_def split: if_splits)
  qed
qed

lemma parse_v2_payload_reader: "stream_reader (parse_v2_payload q)"
proof
  fix p off y off' e
  assume *: "parse_v2_payload q p off = Some (y, off')"
  show "parse_v2_payload q (p @ e) off = Some (y, off')"
    using * by (auto simp: parse_v2_payload_def read_u8_def nth_append Let_def split: if_splits)
  show "off \<le> off' \<and> off' \<le> length p" if "off \<le> length p"
    using * that by (auto simp: parse_v2_payload_def read_u8_def Let_def split: if_splits)
qed

interpretation packet_reader: stream_reader parse_v2_at
proof -
  have eq: "parse_v2_at = (\<lambda>packet offset.
     Option.bind (parse_v2_head packet offset) (\<lambda>(h, offset).
     Option.bind (parse_v2_route (fst h) (snd (snd (snd h))) packet offset) (\<lambda>(q, offset).
     Option.bind (parse_v2_location (fst h) q packet offset) (\<lambda>(q, offset).
     Option.bind (parse_v2_payload q packet offset) (\<lambda>(r, offset).
     Some (parse_v2_finish (fst (snd h)) (fst (snd (snd h))) (fst r) (snd r), offset))))))"
    by (intro ext) (simp add: parse_v2_at_def split_def)
  show "stream_reader parse_v2_at"
    unfolding eq
    by (rule stream_readers parse_v2_head_reader parse_v2_route_reader parse_v2_location_reader
        parse_v2_payload_reader)+
qed

subsection \<open>Parsed packets are well formed\<close>

definition byte_hops :: "mesh_packet_t \<Rightarrow> bool" where
  "byte_hops p \<longleftrightarrow> 0 \<le> mp_hops p \<and> mp_hops p \<le> 255 \<and> 0 \<le> mp_path_hops p \<and> mp_path_hops p \<le> 255"

lemma wf_packet_updates:
  assumes "wf_packet p"
  shows "field 32 b \<Longrightarrow> wf_packet (p\<lparr>mp_source := b\<rparr>)" "field 32 b \<Longrightarrow> wf_packet (p\<lparr>mp_destination := b\<rparr>)"
    "field 32 b \<Longrightarrow> wf_packet (p\<lparr>mp_relay := b\<rparr>)" "field 32 b \<Longrightarrow> wf_packet (p\<lparr>mp_next_hop := b\<rparr>)"
    "field 32 b \<Longrightarrow> wf_packet (p\<lparr>mp_type := b\<rparr>)" "field 32 b \<Longrightarrow> wf_packet (p\<lparr>mp_priority := b\<rparr>)"
    "field 32 b \<Longrightarrow> wf_packet (p\<lparr>mp_thread_key := b\<rparr>)"
    "field 320 b \<Longrightarrow> wf_packet (p\<lparr>mp_location_raw := b\<rparr>)" "field 140 b \<Longrightarrow> wf_packet (p\<lparr>mp_payload := b\<rparr>)"
    "wf_location l \<Longrightarrow> wf_packet (p\<lparr>mp_location := l\<rparr>)" "wf_packet (p\<lparr>mp_valid := v\<rparr>)"
    "n < 140 \<Longrightarrow> wf_packet (p\<lparr>mp_payload_len := n\<rparr>)" "wf_packet (p\<lparr>mp_id := i\<rparr>)"
    "wf_packet (p\<lparr>mp_hops := h\<rparr>)" "wf_packet (p\<lparr>mp_path_hops := h\<rparr>)" "wf_packet (p\<lparr>mp_broadcast_destination := v\<rparr>)"
  using assms by (simp_all add: wf_packet_def)

declare wf_packet_updates [wf_intros]

lemma wf_packet_sizes:
  assumes "wf_packet p"
  shows "length (mp_source p) = 32" "length (mp_destination p) = 32" "length (mp_type p) = 32"
    "length (mp_priority p) = 32" "length (mp_relay p) = 32" "length (mp_next_hop p) = 32"
    "length (mp_location_raw p) = 320" "length (mp_thread_key p) = 32" "length (mp_payload p) = 140"
  using assms by (simp_all add: wf_packet_def field_def)

lemma field_blit_terminated: "length b = n \<Longrightarrow> length d \<le> k \<Longrightarrow> k < n \<Longrightarrow> field n ((blit b 0 d)[k := 0])"
  by (intro field_terminated) simp_all

lemma field_length_read_bytes: "read_bytes p off out len = Some (b, off') \<Longrightarrow> field (length out) b"
  by (rule field_read_bytes) simp_all

lemma wf_parse_v2_head: "pred_option (\<lambda>((f, t, pr, q), off'). wf_packet q) (parse_v2_head w off)"
  unfolding parse_v2_head_def Let_def require_bind
  by (intro pred_option_intros; drule field_length_read_bytes; (drule field_length_read_bytes)?;
      simp add: wf_packet_updates wf_packet_sizes)

lemma wf_parse_v2_route:
  assumes "wf_packet q"
  shows "pred_option (\<lambda>(q', off'). wf_packet q' \<and> byte_hops q') (parse_v2_route f q w off)"
  unfolding parse_v2_route_def Let_def require_bind
  by (intro pred_option_intros; drule field_length_read_bytes; (drule field_length_read_bytes)?;
      simp add: assms wf_packet_updates wf_packet_sizes byte_hops_def uint_u8_bounds)

lemma wf_parse_v2_location:
  assumes "wf_packet q" "byte_hops q"
  shows "pred_option (\<lambda>(q', off'). wf_packet q' \<and> byte_hops q') (parse_v2_location f q w off)"
  unfolding parse_v2_location_def Let_def require_bind
  using assms unat_u8_less [THEN less_trans, of 320]
  by (intro pred_option_intros) (simp_all add: wf_packet_updates wf_packet_sizes byte_hops_def field_blit_terminated)

lemma wf_parse_v2_payload:
  assumes "wf_packet q" "byte_hops q"
  shows "pred_option (\<lambda>((n, q'), off'). wf_packet q' \<and> byte_hops q' \<and> unat n < 140) (parse_v2_payload q w off)"
  unfolding parse_v2_payload_def Let_def require_bind
  using assms
  by (intro pred_option_intros) (simp_all add: wf_packet_updates wf_packet_sizes byte_hops_def field_blit_terminated)

lemma wf_parse_v2_finish:
  assumes "wf_packet q" "unat n < 140"
  shows "wf_packet (parse_v2_finish t pr n q)" "byte_hops (parse_v2_finish t pr n q) = byte_hops q"
    "mp_valid (parse_v2_finish t pr n q)"
  using assms
  by (auto simp: parse_v2_finish_def Let_def wf_packet_updates wf_packet_sizes byte_hops_def update_thread_key_def)

lemma wf_parse_v2:
  assumes "parse_mesh_packet_v2 w = Some p"
  shows "wf_packet p \<and> mp_valid p \<and> byte_hops p"
proof -
  from assms obtain f t pr q1 o1 q2 o2 q3 o3 n q4 o4 where
    st: "parse_v2_head w 2 = Some ((f, t, pr, q1), o1)" "parse_v2_route f q1 w o1 = Some (q2, o2)"
      "parse_v2_location f q2 w o2 = Some (q3, o3)" "parse_v2_payload q3 w o3 = Some ((n, q4), o4)"
      "p = parse_v2_finish t pr n q4"
    by (auto simp: parse_mesh_packet_v2_def parse_v2_at_def Option.bind_eq_Some_conv split: if_splits)
  have 1: "wf_packet q1" using pred_optionD [OF wf_parse_v2_head st(1)] by simp
  have 2: "wf_packet q2" "byte_hops q2" using pred_optionD [OF wf_parse_v2_route [OF 1] st(2)] by simp_all
  have 3: "wf_packet q3" "byte_hops q3" using pred_optionD [OF wf_parse_v2_location [OF 2] st(3)] by simp_all
  have 4: "wf_packet q4" "byte_hops q4" "unat n < 140"
    using pred_optionD [OF wf_parse_v2_payload [OF 3] st(4)] by simp_all
  show ?thesis using 4 by (simp add: st(5) wf_parse_v2_finish)
qed

lemma mp_valid_update_thread_key [simp]: "mp_valid (update_thread_key p) = mp_valid p"
  by (simp add: update_thread_key_def)

lemma wf_parse_v1: "pred_option (\<lambda>p. wf_packet p \<and> mp_valid p) (parse_mesh_packet w)"
proof -
  have "field 32 ((mp_next_hop mesh_packet_zero)[0 := 0])"
    by (intro field_terminated) (simp_all add: wf_packet_sizes)
  then show ?thesis
    unfolding parse_mesh_packet_def Let_def
    by (intro pred_option_ifI pred_option_NoneI pred_option_SomeI conjI wf_update_thread_key)
     (simp_all add: wf_packet_updates wf_packet_sizes length_copied)
qed

subsection \<open>Location text\<close>

text \<open>A location whose three names are printable and hold no tilde.\<close>

definition plain_name :: "bytes \<Rightarrow> bool" where
  "plain_name b \<longleftrightarrow> clean_str 24 (cstr b) \<and> 126 \<notin> set (cstr b)"

definition plain_location :: "location_info_t \<Rightarrow> bool" where
  "plain_location loc \<longleftrightarrow> plain_name (sitio loc) \<and> plain_name (barangay loc) \<and> plain_name (municipality loc)"

definition location_normal :: "location_info_t \<Rightarrow> location_info_t" where
  "location_normal loc =
    \<lparr>sitio = pad 24 (cstr (sitio loc)), barangay = pad 24 (cstr (barangay loc)),
     municipality = pad 24 (cstr (municipality loc))\<rparr>"

lemma copy_field_clean: "clean_str n (cstr s) \<Longrightarrow> copy_field (zeros n) s = pad n (cstr s)"
  by (cases "n = 0") (simp_all add: copy_field_zeros copied_id pad_def clean_str_def)

lemma takeWhile_tilde: "126 \<notin> set a \<Longrightarrow> takeWhile (\<lambda>c. c \<noteq> 126) (a @ 126 # r) = (a :: bytes)"
  "126 \<notin> set a \<Longrightarrow> dropWhile (\<lambda>c. c \<noteq> 126) (a @ 126 # r) = (126 # r :: bytes)"
  by (induction a) auto

lemma location_decode_text:
  assumes "plain_location loc"
  shows "location_decode (Some (pad n (location_text loc))) = location_normal loc"
proof -
  let ?a = "cstr (sitio loc)" and ?b = "cstr (barangay loc)" and ?c = "cstr (municipality loc)"
  let ?t = "?a @ 126 # ?b @ 126 # ?c"
  have c: "clean_str 24 ?a" "clean_str 24 ?b" "clean_str 24 ?c" "126 \<notin> set ?a" "126 \<notin> set ?b" "126 \<notin> set ?c"
    using assms by (auto simp: plain_location_def plain_name_def)
  have t: "clean_str 74 ?t" using c by (auto simp: clean_str_def printable_def)
  have nz: "0 \<notin> set ?t" using t by (rule clean_str_nonzero)
  have buf: "copy_field (zeros 74) (pad n (location_text loc)) = pad 74 ?t"
    using t nz copy_field_clean [of 74 "pad n (location_text loc)"] by (simp add: cstr_pad location_text_def)
  have s1: "strchr (pad 74 ?t) 126 = Some (126 # ?b @ 126 # ?c)"
    using nz c by (simp add: strchr_def cstr_pad takeWhile_tilde)
  have s2: "strchr (?b @ 126 # ?c) 126 = Some (126 # ?c)"
    using nz c by (simp add: strchr_def takeWhile_tilde)
  have fields: "copy_field (zeros 24) ?a = pad 24 ?a" "copy_field (zeros 24) ?b = pad 24 ?b"
    "copy_field (zeros 24) ?c = pad 24 ?c"
    using c copy_field_clean [of 24] by (simp_all del: copy_field_cstr)
  show ?thesis
    using c nz s1 s2 buf fields
    by (simp add: location_decode_def location_normal_def location_zero_def takeWhile_tilde cstr_pad
        del: copy_field_cstr)
qed

lemma parse_v2_at_wire_end:
  assumes "wf_packet p" "\<not> str_empty (mp_source p)" "\<not> str_empty (mp_relay p)"
    "broadcast p \<or> \<not> str_empty (mp_destination p)"
  shows "parse_v2_at (v2_wire p (v2_layout_of p)) 2 = Some (v2_normal p, length (v2_wire p (v2_layout_of p)))"
  using parse_v2_at_wire [OF assms, of 2 "v2_wire p (v2_layout_of p)" "[]"] by (simp add: v2_wire_def)

subsection \<open>Properties\<close>

text \<open>A packet the witnesses below send: an emergency to one node, with a location.\<close>

definition sample_packet :: mesh_packet_t where
  "sample_packet = mesh_packet_zero\<lparr>
     mp_id := 7, mp_hops := 5, mp_path_hops := 1, mp_source := pad 32 (lit ''ALPHA''),
     mp_destination := pad 32 (lit ''BRAVO''), mp_type := pad 32 (lit ''EMERGENCY''),
     mp_priority := pad 32 (lit ''HIGH''), mp_relay := pad 32 (lit ''ALPHA''),
     mp_location := \<lparr>sitio = pad 24 (lit ''Purok 1''), barangay = pad 24 (lit ''San Jose''),
       municipality = pad 24 (lit ''Naga'')\<rparr>,
     mp_payload := pad 140 (lit ''help'')\<rparr>"

lemma sample_packet_ok:
  "wf_packet sample_packet" "\<not> str_empty (mp_source sample_packet)" "\<not> str_empty (mp_destination sample_packet)"
  "plain_location (mp_location sample_packet)" "wf_location (mp_location sample_packet)"
  by code_simp+

lemma build_sample_packet:
  "build_forward_packet_v2 sample_packet (zeros 227) =
   Some (v2_wire sample_packet (v2_layout_of sample_packet) @ zeros 171, 56)"
  by code_simp

lemma parse_built_v2:
  assumes "wf_packet p" "broadcast p \<or> \<not> str_empty (mp_destination p)"
    and "build_forward_packet_v2 p packet = Some (out, n)"
  shows "parse_mesh_packet_v2 (take n out) = Some (v2_normal p)"
proof -
  from assms(1,3) have b: "\<not> str_empty (mp_source p)" "\<not> str_empty (mp_relay p)"
    "out = blit packet 0 (v2_wire p (v2_layout_of p))" "n = length (v2_wire p (v2_layout_of p))"
    "length (v2_wire p (v2_layout_of p)) \<le> length packet"
    by (auto simp: build_forward_packet_v2_eq split: if_splits)
  then show ?thesis using parse_v2_wire [OF assms(1) b(1,2) assms(2), of "[]"] by (simp add: take_blit0)
qed

text \<open>
  What the receiver reads of the packet sent. The binary format has codes for six types and
  three priorities and one byte for each hop count, so the rest is lost: a type without a code
  (MEDICAL and INFO among those the portal offers) is read as FLOOD, a priority without one as
  NORMAL, a hop count modulo 256.
\<close>

definition v2_type_names :: "bytes set" where
  "v2_type_names = {lit ''ACK'', lit ''TIME_SYNC'', lit ''SYNC_REQ'', lit ''SYNC_RESP'', lit ''EMERGENCY'', lit ''FLOOD''}"

definition v2_reading :: "mesh_packet_t \<Rightarrow> mesh_packet_t \<Rightarrow> bool" where
  "v2_reading p q \<longleftrightarrow> mp_valid q \<and> mp_id q = mp_id p \<and>
    cstr (mp_source q) = cstr (mp_source p) \<and> cstr (mp_relay q) = cstr (mp_relay p) \<and> cstr (mp_next_hop q) = cstr (mp_next_hop p) \<and>
    mp_broadcast_destination q = broadcast p \<and>
    cstr (mp_destination q) = (if broadcast p then lit ''ALL'' else cstr (mp_destination p)) \<and>
    take (mp_payload_len q) (mp_payload q) = payload_bytes p \<and>
    cstr (mp_type q) = (if cstr (mp_type p) \<in> v2_type_names then cstr (mp_type p) else lit ''FLOOD'') \<and>
    cstr (mp_priority q) = (if cstr (mp_priority p) \<in> {lit ''HIGH'', lit ''LOW''} then cstr (mp_priority p) else lit ''NORMAL'') \<and>
    mp_hops q = (if mp_hops p < 0 then 0 else mp_hops p mod 256) \<and>
    mp_path_hops q = (if mp_path_hops p < 0 then 0 else mp_path_hops p mod 256) \<and>
    (has_location p \<and> plain_location (mp_location p) \<longrightarrow> mp_location q = location_normal (mp_location p))"

lemma v2_normal_simps [simp]:
  "mp_valid (v2_normal p)" "mp_priority (v2_normal p) = copy_field (zeros 32) (priority_from_u8 (priority_to_u8 (mp_priority p)))"
  "mp_broadcast_destination (v2_normal p) = broadcast p"
  "mp_location (v2_normal p) = (if has_location p then location_decode (Some (pad 320 (location_text (mp_location p)))) else location_zero)"
  "mp_id (v2_normal p) = mp_id p" "mp_hops (v2_normal p) = uint (hop_byte (mp_hops p))"
  "mp_path_hops (v2_normal p) = uint (hop_byte (mp_path_hops p))" "mp_source (v2_normal p) = pad 32 (cstr (mp_source p))"
  "mp_destination (v2_normal p) = (if broadcast p then copy_field (zeros 32) (lit ''ALL'') else pad 32 (cstr (mp_destination p)))"
  "mp_type (v2_normal p) = copy_field (zeros 32) (type_from_u8 (type_to_u8 (mp_type p)))"
  "mp_relay (v2_normal p) = pad 32 (cstr (mp_relay p))" "mp_next_hop (v2_normal p) = pad 32 (cstr (mp_next_hop p))"
  "mp_payload (v2_normal p) = pad 140 (payload_bytes p)" "mp_payload_len (v2_normal p) = length (payload_bytes p)"
  by (simp_all add: v2_normal_def update_thread_key_def)

lemma type_reading:
  "cstr (copy_field (zeros 32) (type_from_u8 (type_to_u8 t))) = (if cstr t \<in> v2_type_names then cstr t else lit ''FLOOD'')"
proof (cases "cstr t \<in> v2_type_names")
  case True
  have "\<forall>name\<in>set [lit ''ACK'', lit ''TIME_SYNC'', lit ''SYNC_REQ'', lit ''SYNC_RESP'', lit ''EMERGENCY'', lit ''FLOOD''].
      cstr (copy_field (zeros 32) (type_from_u8 (type_to_u8 name))) = name" by code_simp
  then have "cstr (copy_field (zeros 32) (type_from_u8 (type_to_u8 (cstr t)))) = cstr t"
    using True unfolding v2_type_names_def list.set by (rule bspec)
  moreover have "type_to_u8 (cstr t) = type_to_u8 t" by (simp add: type_to_u8_def streq_def)
  ultimately show ?thesis using True by simp
next
  case False
  have l: "cstr (lit ''ACK'') = lit ''ACK''" "cstr (lit ''TIME_SYNC'') = lit ''TIME_SYNC''" "cstr (lit ''SYNC_REQ'') = lit ''SYNC_REQ''"
    "cstr (lit ''SYNC_RESP'') = lit ''SYNC_RESP''" "cstr (lit ''EMERGENCY'') = lit ''EMERGENCY''" by code_simp+
  then have "type_to_u8 t = packet_type_code BEMS_PACKET_TYPE_FLOOD"
    using False by (simp add: type_to_u8_def streq_def v2_type_names_def)
  moreover have "cstr (copy_field (zeros 32) (type_from_u8 (packet_type_code BEMS_PACKET_TYPE_FLOOD))) = lit ''FLOOD''" by code_simp
  ultimately show ?thesis using False by simp
qed

lemma priority_reading:
  "cstr (copy_field (zeros 32) (priority_from_u8 (priority_to_u8 t))) =
    (if cstr t \<in> {lit ''HIGH'', lit ''LOW''} then cstr t else lit ''NORMAL'')"
proof -
  have "cstr (copy_field (zeros 32) (lit ''HIGH'')) = lit ''HIGH''" "cstr (copy_field (zeros 32) (lit ''LOW'')) = lit ''LOW''"
    "cstr (copy_field (zeros 32) (lit ''NORMAL'')) = lit ''NORMAL''" "cstr (lit ''HIGH'') = lit ''HIGH''" "cstr (lit ''LOW'') = lit ''LOW''"
    by code_simp+
  then show ?thesis by (auto simp: priority_from_u8_def priority_to_u8_def streq_def)
qed

lemma v2_normal_reading:
  assumes "wf_packet p"
  shows "v2_reading p (v2_normal p)"
proof -
  have all: "cstr (copy_field (zeros 32) (lit ''ALL'')) = lit ''ALL''" by code_simp
  have "uint (hop_byte h) = (if h < 0 then 0 else h mod 256)" for h by (simp add: hop_byte_def uint_word_of_int)
  moreover have "take (length (payload_bytes p)) (pad 140 (payload_bytes p)) = payload_bytes p" by (simp add: pad_def)
  ultimately show ?thesis
    using assms all wf_packet_lengths [OF assms] type_reading priority_reading location_decode_text
    by (auto simp: v2_reading_def cstr_pad)
qed

text \<open>
  C15. Round trip of the binary format: whatever \<open>build_forward_packet_v2\<close> emits for a
  packet with a destination, \<open>parse_mesh_packet_v2\<close> reads back with the same number,
  source, destination, relay, next hop and payload (byte for byte) and, if its names are plain,
  the same location. The types ACK, TIME_SYNC, SYNC_REQ, SYNC_RESP, EMERGENCY and FLOOD, the
  priorities HIGH, LOW and NORMAL and hop counts below 256 are kept; any other type (MEDICAL
  and INFO of the portal) is read as FLOOD, any other priority as NORMAL, and hop counts are
  reduced modulo 256.
\<close>

theorem parse_build_v2:
  assumes "wf_packet p" "broadcast p \<or> \<not> str_empty (mp_destination p)"
    and "build_forward_packet_v2 p packet = Some (out, n)"
  shows "parse_mesh_packet_v2 (take n out) = Some (v2_normal p) \<and> v2_reading p (v2_normal p)"
  using parse_built_v2 [OF assms] v2_normal_reading [OF assms(1)] by simp

theorem parse_build_v2_witness:
  "\<exists>q. parse_mesh_packet_v2 (take 56 (v2_wire sample_packet (v2_layout_of sample_packet) @ zeros 171)) = Some q \<and>
    cstr (mp_type q) = lit ''EMERGENCY'' \<and> mp_hops q = 5 \<and> v2_reading sample_packet q"
proof -
  note r = parse_build_v2 [OF sample_packet_ok(1) disjI2 [OF sample_packet_ok(3)] build_sample_packet]
  have "cstr (mp_type sample_packet) = lit ''EMERGENCY''" "mp_hops sample_packet = 5" by code_simp+
  then show ?thesis using r by (auto simp: v2_reading_def v2_type_names_def)
qed

text \<open>A message the portal sends as MEDICAL reaches every receiver as FLOOD.\<close>

lemma medical_read_as_flood:
  "cstr (mp_type p) \<in> {lit ''MEDICAL'', lit ''INFO''} \<Longrightarrow> cstr (mp_type (v2_normal p)) = lit ''FLOOD''"
proof -
  have "lit ''MEDICAL'' \<notin> v2_type_names" "lit ''INFO'' \<notin> v2_type_names" by (simp_all add: v2_type_names_def lit_def)
  then show "cstr (mp_type p) \<in> {lit ''MEDICAL'', lit ''INFO''} \<Longrightarrow> cstr (mp_type (v2_normal p)) = lit ''FLOOD''"
    by (auto simp: type_reading simp del: cstr_copy_field)
qed


text \<open>
  The builder succeeds exactly when the source and the relay are named and the encoding
  fits both the caller's buffer and the \<open>BEMS_MAX_PLAINTEXT\<close> bytes one radio frame
  can protect; it then leaves the encoding at the start of the buffer and reports its length.
\<close>

theorem build_forward_packet_v2_spec:
  assumes "wf_packet p"
  shows "build_forward_packet_v2 p packet =
    (let w = v2_wire p (v2_layout_of p) in
     if \<not> str_empty (mp_source p) \<and> \<not> str_empty (mp_relay p) \<and> length w \<le> min BEMS_MAX_PLAINTEXT (length packet)
     then Some (blit packet 0 w, length w) else None)"
  unfolding Let_def by (rule build_forward_packet_v2_eq [OF assms])

theorem build_forward_packet_v2_spec_witness:
  "build_forward_packet_v2 sample_packet (zeros 50) = None"
  unfolding build_forward_packet_v2_spec [OF sample_packet_ok(1)] by code_simp

text \<open>
  A frame cut short is never taken for a packet: every proper prefix of what the builder
  emits is refused by the parser.
\<close>

theorem truncated_v2_rejected:
  assumes "wf_packet p" "broadcast p \<or> \<not> str_empty (mp_destination p)"
    and "build_forward_packet_v2 p packet = Some (out, n)" "k < n"
  shows "parse_mesh_packet_v2 (take k out) = None"
proof (rule ccontr)
  let ?w = "v2_wire p (v2_layout_of p)"
  from assms(1,3) have b: "\<not> str_empty (mp_source p)" "\<not> str_empty (mp_relay p)"
    "out = blit packet 0 ?w" "n = length ?w" "length ?w \<le> length packet"
    by (auto simp: build_forward_packet_v2_eq split: if_splits)
  assume "parse_mesh_packet_v2 (take k out) \<noteq> None"
  moreover have "take k out = take k ?w" using b assms(4) by (simp add: take_blit0)
  ultimately obtain x off where "2 \<le> length (take k ?w)" "parse_v2_at (take k ?w) 2 = Some (x, off)"
    by (auto simp: parse_mesh_packet_v2_def mesh_packet_is_v2_def split: if_splits)
  from packet_reader.rd_prefix [OF this(2,1)] show False
    using parse_v2_at_wire_end [OF assms(1) b(1,2) assms(2)] b(4) assms(4) by simp
qed

theorem truncated_v2_rejected_witness:
  "parse_mesh_packet_v2 (take 55 (v2_wire sample_packet (v2_layout_of sample_packet) @ zeros 171)) = None"
  by (rule truncated_v2_rejected [OF sample_packet_ok(1) disjI2 [OF sample_packet_ok(3)] build_sample_packet]) simp

text \<open>
  C30. Whatever bytes arrive, a packet accepted by either parser is well formed: every buffer
  has its size and holds a terminated string, the payload is shorter than its buffer, and the
  hop counts of the binary format are bytes.
\<close>

theorem parsed_packets_wf:
  "pred_option (\<lambda>p. wf_packet p \<and> mp_valid p \<and> byte_hops p) (parse_mesh_packet_v2 w) \<and>
   pred_option (\<lambda>p. wf_packet p \<and> mp_valid p) (parse_mesh_packet w)"
proof
  show "pred_option (\<lambda>p. wf_packet p \<and> mp_valid p \<and> byte_hops p) (parse_mesh_packet_v2 w)"
    by (cases "parse_mesh_packet_v2 w") (auto dest: wf_parse_v2)
qed (rule wf_parse_v1)

text \<open>
  A location of printable names without the separator survives encoding and decoding.
\<close>

theorem location_roundtrip:
  assumes "wf_location loc" "plain_location loc"
  shows "location_decode (Some (location_encode loc (zeros LOCATION_BUF_LEN))) = location_normal loc"
proof -
  have "location_decode (Some b) = location_decode (Some (cstr b))" for b
    by (simp add: location_decode_def)
  moreover have "location_decode (Some (cstr (pad 72 (location_text loc)))) = location_normal loc"
    using location_decode_text [OF assms(2), of 72] calculation by metis
  moreover have "0 \<notin> set (location_text loc)" by (simp add: location_text_def)
  ultimately show ?thesis using cstr_location_encode(1) [OF assms(1)] by (metis cstr_pad)
qed

theorem location_roundtrip_witness:
  "location_decode (Some (location_encode (mp_location sample_packet) (zeros LOCATION_BUF_LEN))) =
   location_normal (mp_location sample_packet)"
  by (rule location_roundtrip [OF sample_packet_ok(5,4)])

end
