(* ===== verification/Forwarding.thy ===== *)
theory Forwarding
  imports Mesh_Packet_Props Tx_Scheduler
begin

text \<open>
  Relaying other nodes' packets: the decision (\<open>app_runtime_should_forward_packet\<close>), the
  three priority queues (\<open>src/mesh/forward_queue.c\<close>) and the worker that takes a job,
  uses up a hop and re-encodes the packet (\<open>src/mesh/forward_worker.c\<close>).
\<close>

subsection \<open>The decision\<close>

definition mesh_control_is_control_packet_type :: "bytes \<Rightarrow> bool" where
  "mesh_control_is_control_packet_type t \<longleftrightarrow>
    streq t (lit ''ACK'') \<or> streq t (lit ''SYNC_REQ'') \<or> streq t (lit ''SYNC_RESP'') \<or> streq t (lit ''TIME_SYNC'')"

definition app_runtime_should_forward_packet :: "mesh_packet_t \<Rightarrow> route_entry_t option \<Rightarrow> bytes \<Rightarrow> bool" where
  "app_runtime_should_forward_packet packet route local_node_id =
    (if str_empty local_node_id then False
     else if mp_hops packet \<le> 0 then False
     else if mesh_control_is_control_packet_type (mp_type packet) \<and> \<not> streq (mp_type packet) (lit ''ACK'') then False
     else if streq (mp_destination packet) local_node_id then False
     else (case route of
             None \<Rightarrow> True
           | Some r \<Rightarrow> if str_empty (re_destination r) \<or> re_stale r \<or> str_empty (mp_next_hop packet) then True
                       else streq (mp_next_hop packet) local_node_id))"

datatype tx_priority_t = TX_PRIORITY_HIGH | TX_PRIORITY_NORMAL | TX_PRIORITY_LOW

definition forward_priority_for_packet :: "mesh_packet_t \<Rightarrow> tx_priority_t" where
  "forward_priority_for_packet packet =
    (if streq (mp_priority packet) (lit ''HIGH'') then TX_PRIORITY_HIGH
     else if streq (mp_priority packet) (lit ''LOW'') then TX_PRIORITY_LOW else TX_PRIORITY_NORMAL)"

record forward_job_t =
  fj_packet :: mesh_packet_t
  fj_rssi :: int
  fj_snr :: int
  fj_route :: route_entry_t
  fj_route_known :: bool
  fj_local_node_id :: bytes

text \<open>The job \<open>lora_handle_rx_packet\<close> queues for a packet it does not keep to itself.\<close>

definition relay_job :: "mesh_packet_t \<Rightarrow> int \<Rightarrow> int \<Rightarrow> route_entry_t option \<Rightarrow> bytes \<Rightarrow> forward_job_t" where
  "relay_job parsed rssi snr best local_id =
    (let parsed = (case best of
           Some route \<Rightarrow> if str_empty (mp_next_hop parsed)
             then parsed\<lparr>mp_next_hop := copy_field (mp_next_hop parsed) (re_next_hop route)\<rparr> else parsed
         | None \<Rightarrow> parsed)
     in \<lparr>fj_packet = parsed, fj_rssi = rssi, fj_snr = snr,
         fj_route = (case best of Some route \<Rightarrow> route | None \<Rightarrow> route_entry_zero),
         fj_route_known = (best \<noteq> None),
         fj_local_node_id = copy_field (zeros FIELD_LEN) local_id\<rparr>)"

subsection \<open>The queues\<close>

text \<open>
  FreeRTOS queues are a parameter: creation (None when out of memory), \<open>xQueueSend\<close>
  without waiting, and \<open>xQueueReceive\<close> with a time limit in ticks.
\<close>

record ('a, 'q) queue_api =
  xQueueCreate :: "'q option"
  xQueueSend :: "'a \<Rightarrow> 'q \<Rightarrow> bool \<times> 'q"
  xQueueReceive :: "nat \<Rightarrow> 'q \<Rightarrow> 'a option \<times> 'q"

abbreviation FORWARD_QUEUE_DEPTH :: nat where "FORWARD_QUEUE_DEPTH \<equiv> 8"

record 'q forward_state =
  forward_queues :: "'q option list"
  normal_budget :: u8
  low_budget :: u8

definition forward_queue_init :: "('a, 'q) queue_api \<Rightarrow> 'q forward_state \<Rightarrow> 'q forward_state" where
  "forward_queue_init api st =
    st\<lparr>forward_queues := map (\<lambda>q. case q of None \<Rightarrow> xQueueCreate api | Some q \<Rightarrow> Some q) (forward_queues st)\<rparr>"

fun queue_for_priority :: "tx_priority_t \<Rightarrow> nat" where
  "queue_for_priority TX_PRIORITY_HIGH = 0"
| "queue_for_priority TX_PRIORITY_LOW = 2"
| "queue_for_priority TX_PRIORITY_NORMAL = 1"

definition forward_queue_enqueue ::
  "('a, 'q) queue_api \<Rightarrow> 'a \<Rightarrow> tx_priority_t \<Rightarrow> 'q forward_state \<Rightarrow> bool \<times> 'q forward_state" where
  "forward_queue_enqueue api job priority st =
    (let st = forward_queue_init api st; i = queue_for_priority priority in
     case forward_queues st ! i of
       None \<Rightarrow> (False, st)
     | Some q \<Rightarrow> (case xQueueSend api job q of (ok, q') \<Rightarrow>
         (ok, st\<lparr>forward_queues := (forward_queues st)[i := Some q']\<rparr>)))"

text \<open>\<open>forward_queues[i] != NULL && xQueueReceive(forward_queues[i], job, ticks)\<close>.\<close>

definition take_from ::
  "('a, 'q) queue_api \<Rightarrow> nat \<Rightarrow> nat \<Rightarrow> 'q forward_state \<Rightarrow> 'a option \<times> 'q forward_state" where
  "take_from api i ticks st =
    (case forward_queues st ! i of
       None \<Rightarrow> (None, st)
     | Some q \<Rightarrow> (case xQueueReceive api ticks q of (job, q') \<Rightarrow>
         (job, st\<lparr>forward_queues := (forward_queues st)[i := Some q']\<rparr>)))"

definition forward_queue_receive ::
  "('a, 'q) queue_api \<Rightarrow> nat \<Rightarrow> 'q forward_state \<Rightarrow> 'a option \<times> 'q forward_state" where
  "forward_queue_receive api timeout_ticks st =
    (case take_from api 0 0 (forward_queue_init api st) of
       (Some job, st) \<Rightarrow> (Some job, st)
     | (None, st) \<Rightarrow>
    (case if normal_budget st > 0 then take_from api 1 0 st else (None, st) of
       (Some job, st) \<Rightarrow> (Some job, st\<lparr>normal_budget := normal_budget st - 1, low_budget := 1\<rparr>)
     | (None, st) \<Rightarrow>
    (case if low_budget st > 0 then take_from api 2 0 st else (None, st) of
       (Some job, st) \<Rightarrow> (Some job, st\<lparr>low_budget := low_budget st - 1, normal_budget := 2\<rparr>)
     | (None, st) \<Rightarrow>
    (case take_from api 1 timeout_ticks st of
       (Some job, st) \<Rightarrow> (Some job, st\<lparr>normal_budget := 1, low_budget := 1\<rparr>)
     | (None, st) \<Rightarrow>
    (case take_from api 2 timeout_ticks st of
       (Some job, st) \<Rightarrow> (Some job, st\<lparr>low_budget := 1\<rparr>)
     | (None, st) \<Rightarrow> (None, st))))))"

definition forward_start :: "'q forward_state" where
  "forward_start = \<lparr>forward_queues = [None, None, None], normal_budget = 2, low_budget = 1\<rparr>"

subsection \<open>The worker\<close>

text \<open>The packet as it leaves the node.\<close>

definition relayed_packet :: "forward_job_t \<Rightarrow> mesh_packet_t \<Rightarrow> mesh_packet_t" where
  "relayed_packet job packet =
    (let packet = packet\<lparr>mp_relay := copy_field (mp_relay packet) (fj_local_node_id job)\<rparr>;
         packet = (if mp_path_hops packet < 255 then packet\<lparr>mp_path_hops := mp_path_hops packet + 1\<rparr> else packet)
     in if fj_route_known job
        then packet\<lparr>mp_next_hop := copy_field (mp_next_hop packet) (re_next_hop (fj_route job))\<rparr>
        else packet\<lparr>mp_next_hop := (mp_next_hop packet)[0 := 0]\<rparr>)"

definition relay_tx_priority :: "mesh_packet_t \<Rightarrow> lora_tx_priority_t" where
  "relay_tx_priority packet =
    (if streq (mp_type packet) (lit ''ACK'') then LORA_TX_PRIORITY_HIGH
     else if streq (mp_priority packet) (lit ''HIGH'') then LORA_TX_PRIORITY_HIGH
     else if streq (mp_priority packet) (lit ''LOW'') then LORA_TX_PRIORITY_LOW else LORA_TX_PRIORITY_NORMAL)"

text \<open>
  One round of \<open>forward_worker_task\<close> for the job received: what it hands to
  \<open>lora_transmit_bytes_priority\<close>, if anything. \<open>stack\<close> is the uninitialised buffer.
\<close>

definition forward_worker_step :: "bytes \<Rightarrow> forward_job_t \<Rightarrow> (bytes \<times> nat \<times> lora_tx_priority_t) option" where
  "forward_worker_step stack job =
    (if \<not> app_runtime_should_forward_packet (fj_packet job)
          (if fj_route_known job then Some (fj_route job) else None) (fj_local_node_id job) then None
     else if mp_hops (fj_packet job) \<le> 0 then None
     else (case mesh_packet_consume_hop (fj_packet job) of
       (False, _) \<Rightarrow> None
     | (True, packet) \<Rightarrow>
        (let packet = relayed_packet job packet in
         case build_forward_packet_v2 packet stack of
           None \<Rightarrow> None
         | Some (frame, len) \<Rightarrow> Some (frame, len, relay_tx_priority packet))))"

subsection \<open>The queues keep order and are fair\<close>

text \<open>
  What the queues rely on: \<open>contents\<close> reads a queue as a list, sending appends up to the
  depth, receiving takes the head, and an empty queue answers at once when not waiting.
\<close>

definition queue_faithful :: "('a, 'q) queue_api \<Rightarrow> ('q \<Rightarrow> 'a list) \<Rightarrow> bool" where
  "queue_faithful api contents \<longleftrightarrow>
    (\<forall>q. xQueueCreate api = Some q \<longrightarrow> contents q = []) \<and>
    (\<forall>q x. length (contents q) < FORWARD_QUEUE_DEPTH \<longrightarrow>
       (\<exists>q'. xQueueSend api x q = (True, q') \<and> contents q' = contents q @ [x])) \<and>
    (\<forall>q x. FORWARD_QUEUE_DEPTH \<le> length (contents q) \<longrightarrow> xQueueSend api x q = (False, q)) \<and>
    (\<forall>q x xs t. contents q = x # xs \<longrightarrow> (\<exists>q'. xQueueReceive api t q = (Some x, q') \<and> contents q' = xs)) \<and>
    (\<forall>q. contents q = [] \<longrightarrow> xQueueReceive api 0 q = (None, q))"

definition queue_view :: "('q \<Rightarrow> 'a list) \<Rightarrow> 'q forward_state \<Rightarrow> nat \<Rightarrow> 'a list" where
  "queue_view contents st i = (case forward_queues st ! i of None \<Rightarrow> [] | Some q \<Rightarrow> contents q)"

inductive forward_reach :: "('a, 'q) queue_api \<Rightarrow> 'q forward_state \<Rightarrow> bool" for api where
  forward_boot: "forward_reach api forward_start"
| forward_enqueue: "forward_reach api st \<Longrightarrow> forward_queue_enqueue api job p st = (b, st') \<Longrightarrow> forward_reach api st'"
| forward_receive: "forward_reach api st \<Longrightarrow> forward_queue_receive api t st = (job, st') \<Longrightarrow> forward_reach api st'"

definition budgets_ok :: "'q forward_state \<Rightarrow> bool" where
  "budgets_ok st \<longleftrightarrow> length (forward_queues st) = 3 \<and> normal_budget st \<le> 2 \<and> low_budget st \<le> 1 \<and>
    (normal_budget st = 0 \<longrightarrow> low_budget st = 1)"

lemma init_simps [simp]:
  "normal_budget (forward_queue_init api st) = normal_budget st" "low_budget (forward_queue_init api st) = low_budget st"
  "length (forward_queues (forward_queue_init api st)) = length (forward_queues st)"
  "budgets_ok (forward_queue_init api st) = budgets_ok st"
  by (simp_all add: forward_queue_init_def budgets_ok_def)

lemma queue_view_init:
  assumes "queue_faithful api contents" "i < length (forward_queues st)"
  shows "queue_view contents (forward_queue_init api st) i = queue_view contents st i"
  using assms by (auto simp: queue_view_def forward_queue_init_def queue_faithful_def split: option.splits)

lemma take_from_budgets:
  "take_from api i t st = (r, st') \<Longrightarrow> normal_budget st' = normal_budget st \<and> low_budget st' = low_budget st \<and>
     length (forward_queues st') = length (forward_queues st)"
  by (auto simp: take_from_def split: option.splits prod.splits)

lemma take_from_some:
  assumes "queue_faithful api contents" "i < length (forward_queues st)" "queue_view contents st i = x # xs"
  obtains st' where "take_from api i t st = (Some x, st')"
    "\<And>j. queue_view contents st' j = (if j = i then xs else queue_view contents st j)"
proof -
  obtain q where q: "forward_queues st ! i = Some q" "contents q = x # xs"
    using assms(3) by (auto simp: queue_view_def split: option.splits)
  then obtain q' where q': "xQueueReceive api t q = (Some x, q')" "contents q' = xs"
    using assms(1) by (force simp: queue_faithful_def)
  show thesis
    by (rule that [of "st\<lparr>forward_queues := (forward_queues st)[i := Some q']\<rparr>"])
      (use q q' assms(2) in \<open>auto simp: take_from_def queue_view_def\<close>)
qed

lemma take_from_none:
  assumes "queue_faithful api contents" "queue_view contents st i = []"
  shows "take_from api i 0 st = (None, st)"
proof (cases "forward_queues st ! i")
  case (Some q)
  then have "xQueueReceive api 0 q = (None, q)" using assms by (simp add: queue_view_def queue_faithful_def)
  moreover have "(forward_queues st)[i := Some q] = forward_queues st" using Some by (metis list_update_id)
  ultimately show ?thesis using Some by (simp add: take_from_def)
qed (simp add: take_from_def)

lemma small_u8: "(b :: u8) \<le> 2 \<longleftrightarrow> b = 0 \<or> b = 1 \<or> b = 2" "(b :: u8) \<le> 1 \<longleftrightarrow> b = 0 \<or> b = 1"
  by (auto simp: word_le_nat_alt word_unat_eq_iff)

lemma receive_outcomes:
  assumes "forward_queue_receive api t st = (r, st')"
  shows "length (forward_queues st') = length (forward_queues st) \<and>
    (normal_budget st', low_budget st') \<in> {(normal_budget st, low_budget st), (1, 1), (normal_budget st, 1)} \<union>
      (if normal_budget st > 0 then {(normal_budget st - 1, 1)} else {}) \<union>
      (if low_budget st > 0 then {(2, low_budget st - 1)} else {})"
proof -
  obtain r0 s0 where 0: "take_from api 0 0 (forward_queue_init api st) = (r0, s0)" by fastforce
  obtain r1 s1 where 1: "(if normal_budget s0 > 0 then take_from api 1 0 s0 else (None, s0)) = (r1, s1)" by fastforce
  obtain r2 s2 where 2: "(if low_budget s1 > 0 then take_from api 2 0 s1 else (None, s1)) = (r2, s2)" by fastforce
  obtain r3 s3 where 3: "take_from api 1 t s2 = (r3, s3)" by fastforce
  obtain r4 s4 where 4: "take_from api 2 t s3 = (r4, s4)" by fastforce
  note b0 = take_from_budgets [OF 0, simplified]
  have b1: "normal_budget s1 = normal_budget st \<and> low_budget s1 = low_budget st \<and> length (forward_queues s1) = length (forward_queues st)"
    using 1 b0 take_from_budgets [of api 1 0 s0 r1 s1] by (auto split: if_splits)
  have b2: "normal_budget s2 = normal_budget st \<and> low_budget s2 = low_budget st \<and> length (forward_queues s2) = length (forward_queues st)"
    using 2 b1 take_from_budgets [of api 2 0 s1 r2 s2] by (auto split: if_splits)
  note b3 = take_from_budgets [OF 3] b2 and b4 = take_from_budgets [OF 4]
  have n: "r1 = Some x \<Longrightarrow> normal_budget st > 0" for x using 1 b0 by (auto split: if_splits)
  have l: "r2 = Some x \<Longrightarrow> low_budget st > 0" for x using 2 b1 by (auto split: if_splits)
  show ?thesis
  proof (cases r0)
    case (Some x)
    then show ?thesis using assms 0 b0 by (simp add: forward_queue_receive_def)
  next
    case n0: None
    show ?thesis
    proof (cases r1)
      case (Some x)
      then show ?thesis using assms 0 1 b1 n n0 by (auto simp: forward_queue_receive_def)
    next
      case n1: None
      show ?thesis
      proof (cases r2)
        case (Some x)
        then show ?thesis using assms 0 1 2 b2 l n0 n1 by (auto simp: forward_queue_receive_def)
      next
        case n2: None
        note e = 0 1 2 3 4 n0 n1 n2
        show ?thesis
        proof (cases r3)
          case (Some x)
          then have "st' = s3\<lparr>normal_budget := 1, low_budget := 1\<rparr>" using assms e by (simp add: forward_queue_receive_def)
          then show ?thesis using b3 by simp
        next
          case n3: None
          then have "st' = s4 \<or> st' = s4\<lparr>low_budget := 1\<rparr>"
            using assms e by (cases r4) (simp_all add: forward_queue_receive_def)
          then show ?thesis using b3 b4 by auto
        qed
      qed
    qed
  qed
qed

lemma receive_budgets: "budgets_ok st \<Longrightarrow> forward_queue_receive api t st = (r, st') \<Longrightarrow> budgets_ok st'"
  by (drule receive_outcomes) (auto simp: budgets_ok_def small_u8 split: if_splits)

lemma reach_budgets: "forward_reach api st \<Longrightarrow> budgets_ok st"
proof (induction rule: forward_reach.induct)
  case (forward_enqueue st job p b st')
  then show ?case
    by (auto simp: forward_queue_enqueue_def Let_def budgets_ok_def split: option.splits prod.splits)
next
  case (forward_receive st t job st')
  then show ?case using receive_budgets by blast
qed (simp add: forward_start_def budgets_ok_def)

lemma receive_high:
  assumes "queue_faithful api contents" "budgets_ok st" "queue_view contents st 0 = x # xs"
  shows "\<exists>st'. forward_queue_receive api t st = (Some x, st') \<and>
    (\<forall>j<3. queue_view contents st' j = (if j = 0 then xs else queue_view contents st j))"
proof -
  have l: "0 < length (forward_queues (forward_queue_init api st))" and l3: "length (forward_queues st) = 3"
    using assms(2) by (simp_all add: budgets_ok_def)
  have v: "queue_view contents (forward_queue_init api st) 0 = x # xs" using queue_view_init [OF assms(1)] assms(3) l3 by simp
  from take_from_some [OF assms(1) l v, of 0] obtain st' where "take_from api 0 0 (forward_queue_init api st) = (Some x, st')"
    "\<And>j. queue_view contents st' j = (if j = 0 then xs else queue_view contents (forward_queue_init api st) j)" by blast
  then show ?thesis using l3 queue_view_init [OF assms(1)] by (simp add: forward_queue_receive_def)
qed

lemma receive_rest:
  assumes "queue_faithful api contents" "budgets_ok st" "queue_view contents st 0 = []"
  obtains s0 where "take_from api 0 0 (forward_queue_init api st) = (None, s0)" "normal_budget s0 = normal_budget st"
    "low_budget s0 = low_budget st" "length (forward_queues s0) = 3" "\<And>j. j < 3 \<Longrightarrow> queue_view contents s0 j = queue_view contents st j"
proof -
  have l: "length (forward_queues st) = 3" using assms(2) by (simp add: budgets_ok_def)
  have v: "queue_view contents (forward_queue_init api st) j = queue_view contents st j" if "j < 3" for j
    using queue_view_init [OF assms(1)] that l by simp
  have "take_from api 0 0 (forward_queue_init api st) = (None, forward_queue_init api st)"
    by (rule take_from_none [OF assms(1)]) (simp add: v assms(3))
  then show thesis using that v l by simp
qed

lemma receive_normal:
  assumes "queue_faithful api contents" "budgets_ok st" "queue_view contents st 0 = []" "queue_view contents st 1 = x # xs"
    "normal_budget st > 0 \<or> queue_view contents st 2 = []"
  shows "\<exists>st'. forward_queue_receive api t st = (Some x, st') \<and>
      (\<forall>j<3. queue_view contents st' j = (if j = 1 then xs else queue_view contents st j)) \<and>
      (normal_budget st > 0 \<longrightarrow> normal_budget st' = normal_budget st - 1)"
proof -
  obtain s0 where s0: "take_from api 0 0 (forward_queue_init api st) = (None, s0)" "normal_budget s0 = normal_budget st"
    "low_budget s0 = low_budget st" "length (forward_queues s0) = 3" "\<And>j. j < 3 \<Longrightarrow> queue_view contents s0 j = queue_view contents st j"
    using receive_rest [OF assms(1-3)] by metis
  have v1: "queue_view contents s0 1 = x # xs" "1 < length (forward_queues s0)" using s0 assms(4) by simp_all
  show ?thesis
  proof (cases "normal_budget st > 0")
    case True
    from take_from_some [OF assms(1) v1(2,1), of 0] obtain s1 where s1: "take_from api 1 0 s0 = (Some x, s1)"
      "\<And>j. queue_view contents s1 j = (if j = 1 then xs else queue_view contents s0 j)" by blast
    then have "forward_queue_receive api t st = (Some x, s1\<lparr>normal_budget := normal_budget st - 1, low_budget := 1\<rparr>)"
      using True s0(1,2) take_from_budgets [OF s1(1)] by (simp add: forward_queue_receive_def)
    then show ?thesis using s1(2) s0(5) by (simp add: queue_view_def)
  next
    case False
    then have "take_from api 2 0 s0 = (None, s0)" using take_from_none [OF assms(1)] assms(5) s0(5) by simp
    moreover from take_from_some [OF assms(1) v1(2,1), of t] obtain s1 where s1: "take_from api 1 t s0 = (Some x, s1)"
      "\<And>j. queue_view contents s1 j = (if j = 1 then xs else queue_view contents s0 j)" by blast
    ultimately have "forward_queue_receive api t st = (Some x, s1\<lparr>normal_budget := 1, low_budget := 1\<rparr>)"
      using False s0(1,2) by (simp add: forward_queue_receive_def)
    then show ?thesis using s1(2) s0(5) False by (simp add: queue_view_def)
  qed
qed

lemma receive_low:
  assumes "queue_faithful api contents" "budgets_ok st" "queue_view contents st 0 = []" "queue_view contents st 2 = x # xs"
    "low_budget st > 0" "normal_budget st = 0 \<or> queue_view contents st 1 = []"
  shows "\<exists>st'. forward_queue_receive api t st = (Some x, st') \<and>
      (\<forall>j<3. queue_view contents st' j = (if j = 2 then xs else queue_view contents st j)) \<and> normal_budget st' = 2 \<and>
      low_budget st' = low_budget st - 1"
proof -
  obtain s0 where s0: "take_from api 0 0 (forward_queue_init api st) = (None, s0)" "normal_budget s0 = normal_budget st"
    "low_budget s0 = low_budget st" "length (forward_queues s0) = 3" "\<And>j. j < 3 \<Longrightarrow> queue_view contents s0 j = queue_view contents st j"
    using receive_rest [OF assms(1-3)] by metis
  have n: "(if normal_budget s0 > 0 then take_from api 1 0 s0 else (None, s0)) = (None, s0)"
    using assms(6) s0(2,5) take_from_none [OF assms(1)] by auto
  have v2: "queue_view contents s0 2 = x # xs" "2 < length (forward_queues s0)" using s0 assms(4) by simp_all
  from take_from_some [OF assms(1) v2(2,1), of 0] obtain s1 where s1: "take_from api 2 0 s0 = (Some x, s1)"
    "\<And>j. queue_view contents s1 j = (if j = 2 then xs else queue_view contents s0 j)" by blast
  then have "forward_queue_receive api t st = (Some x, s1\<lparr>low_budget := low_budget st - 1, normal_budget := 2\<rparr>)"
    using s0(1,3) n assms(5) take_from_budgets [OF s1(1)] by (simp add: forward_queue_receive_def)
  then show ?thesis using s1(2) s0(5) by (simp add: queue_view_def)
qed

text \<open>With the low budget spent, nothing but the wait on the NORMAL queue decides.\<close>

lemma receive_blocked:
  assumes "queue_faithful api contents" "budgets_ok st" "queue_view contents st 0 = []" "queue_view contents st 1 = []"
    "low_budget st = 0 \<or> queue_view contents st 2 = []"
  obtains s0 where "normal_budget s0 = normal_budget st" "\<And>j. j < 3 \<Longrightarrow> queue_view contents s0 j = queue_view contents st j"
    "forward_queues s0 = forward_queues (forward_queue_init api st)"
    "\<And>x s1. take_from api 1 t s0 = (Some x, s1) \<Longrightarrow>
       forward_queue_receive api t st = (Some x, s1\<lparr>normal_budget := 1, low_budget := 1\<rparr>)"
proof -
  let ?i = "forward_queue_init api st"
  have l: "length (forward_queues st) = 3" using assms(2) by (simp add: budgets_ok_def)
  have v: "queue_view contents ?i j = queue_view contents st j" if "j < 3" for j
    using queue_view_init [OF assms(1)] that l by simp
  have t: "take_from api 0 0 ?i = (None, ?i)" "take_from api 1 0 ?i = (None, ?i)"
    "(if low_budget ?i > 0 then take_from api 2 0 ?i else (None, ?i)) = (None, ?i)"
    using take_from_none [OF assms(1)] v assms(3-5) by auto
  show thesis
    by (rule that [of ?i]) (use t v in \<open>simp_all add: forward_queue_receive_def\<close>)
qed

text \<open>
  A queue for the witnesses: its jobs, and the jobs that will arrive while someone waits.
\<close>

definition list_queue :: "'a list \<Rightarrow> ('a, 'a list \<times> 'a list) queue_api" where
  "list_queue arrivals = \<lparr>xQueueCreate = Some ([], arrivals),
     xQueueSend = (\<lambda>x (q, f). if length q < 8 then (True, q @ [x], f) else (False, q, f)),
     xQueueReceive = (\<lambda>t (q, f). case q of x # q' \<Rightarrow> (Some x, q', f)
        | [] \<Rightarrow> if t = 0 then (None, [], f) else (case f of [] \<Rightarrow> (None, [], []) | x # f' \<Rightarrow> (Some x, [], f')))\<rparr>"

lemma list_queue_faithful: "queue_faithful (list_queue arrivals) fst"
  by (auto simp: queue_faithful_def list_queue_def)

lemma enqueue_view:
  assumes "queue_faithful api contents" "xQueueCreate api \<noteq> None" "length (forward_queues st) = 3"
    "forward_queue_enqueue api job p st = (b, st')"
  shows "b = (length (queue_view contents st (queue_for_priority p)) < FORWARD_QUEUE_DEPTH) \<and>
    (\<forall>j<3. queue_view contents st' j =
       (if b \<and> j = queue_for_priority p then queue_view contents st j @ [job] else queue_view contents st j))"
proof -
  let ?i = "queue_for_priority p" and ?s = "forward_queue_init api st"
  have i: "?i < 3" by (cases p) simp_all
  have v: "queue_view contents ?s j = queue_view contents st j" if "j < 3" for j
    using queue_view_init [OF assms(1)] that assms(3) by simp
  obtain q where q: "forward_queues ?s ! ?i = Some q"
    using assms(2,3) i by (cases "forward_queues st ! ?i") (auto simp: forward_queue_init_def)
  then have c: "contents q = queue_view contents st ?i" using v [OF i] by (simp add: queue_view_def)
  show ?thesis
  proof (cases "length (contents q) < FORWARD_QUEUE_DEPTH")
    case True
    then obtain q' where q': "xQueueSend api job q = (True, q')" "contents q' = contents q @ [job]"
      using assms(1) unfolding queue_faithful_def by blast
    then have "b" "st' = ?s\<lparr>forward_queues := (forward_queues ?s)[?i := Some q']\<rparr>"
      using assms(4) q by (auto simp: forward_queue_enqueue_def Let_def)
    then show ?thesis using True q' c v i assms(3) by (auto simp: queue_view_def nth_list_update)
  next
    case False
    then have "xQueueSend api job q = (False, q)" using assms(1) by (auto simp: queue_faithful_def)
    then have "\<not> b" "st' = ?s\<lparr>forward_queues := (forward_queues ?s)[?i := Some q]\<rparr>"
      using assms(4) q by (auto simp: forward_queue_enqueue_def Let_def)
    moreover have "(forward_queues ?s)[?i := Some q] = forward_queues ?s" using q by (metis list_update_id)
    ultimately show ?thesis using False c v by (simp add: queue_view_def)
  qed
qed

subsection \<open>Properties\<close>

text \<open>
  The forwarding queues are served fairly and in order: whenever a HIGH or NORMAL job is
  waiting, or a LOW one and the low budget is not spent, the worker gets the head of one
  queue and the others stay as they are; HIGH jobs come first; a NORMAL job that passes a
  waiting LOW one uses up one of at most two units of budget, and a LOW job passes a waiting
  NORMAL one only when that budget is gone, which it then renews.
\<close>

theorem forward_receive_fair:
  assumes "queue_faithful api contents" "forward_reach api st"
    "queue_view contents st 0 \<noteq> [] \<or> queue_view contents st 1 \<noteq> [] \<or> queue_view contents st 2 \<noteq> [] \<and> low_budget st > 0"
  shows "\<exists>i<3. \<exists>x xs st'. queue_view contents st i = x # xs \<and> forward_queue_receive api t st = (Some x, st') \<and>
    (\<forall>j<3. queue_view contents st' j = (if j = i then xs else queue_view contents st j)) \<and>
    (queue_view contents st 0 \<noteq> [] \<longrightarrow> i = 0) \<and>
    (i = 1 \<and> queue_view contents st 2 \<noteq> [] \<longrightarrow> normal_budget st' < normal_budget st \<and> normal_budget st \<le> 2) \<and>
    (i = 2 \<and> queue_view contents st 1 \<noteq> [] \<longrightarrow> normal_budget st = 0 \<and> normal_budget st' = 2)"
proof -
  have ok: "budgets_ok st" by (rule reach_budgets [OF assms(2)])
  show ?thesis
  proof (cases "queue_view contents st 0")
    case (Cons x xs)
    from receive_high [OF assms(1) ok this, of t] show ?thesis using Cons by (intro exI [of _ "0 :: nat"]) auto
  next
    case h: Nil
    show ?thesis
    proof (cases "queue_view contents st 1 \<noteq> [] \<and> (normal_budget st > 0 \<or> queue_view contents st 2 = [])")
      case True
      then obtain x xs where x: "queue_view contents st 1 = x # xs" by (cases "queue_view contents st 1") auto
      from receive_normal [OF assms(1) ok h x, of t] True obtain st' where st':
        "forward_queue_receive api t st = (Some x, st')" "\<forall>j<3. queue_view contents st' j = (if j = 1 then xs else queue_view contents st j)"
        "normal_budget st > 0 \<longrightarrow> normal_budget st' = normal_budget st - 1" by auto
      have "normal_budget st > 0 \<longrightarrow> normal_budget st' < normal_budget st \<and> normal_budget st \<le> 2"
        using st'(3) ok by (auto simp: budgets_ok_def small_u8)
      then show ?thesis using x st' h True by (intro exI [of _ "1 :: nat"]) auto
    next
      case False
      then obtain x xs where x: "queue_view contents st 2 = x # xs" using assms(3) h by (cases "queue_view contents st 2") auto
      have n: "normal_budget st = 0 \<or> queue_view contents st 1 = []" using False by (auto simp: word_gt_0)
      have l: "low_budget st > 0" using assms(3) h n ok by (auto simp: budgets_ok_def)
      from receive_low [OF assms(1) ok h x l n, of t] show ?thesis using x h n by (intro exI [of _ "2 :: nat"]) auto
    qed
  qed
qed

theorem forward_receive_fair_witness:
  "\<exists>st'. forward_queue_receive (list_queue []) 5
     (snd (forward_queue_enqueue (list_queue []) (7 :: nat) TX_PRIORITY_NORMAL forward_start)) = (Some 7, st')"
proof -
  let ?st = "snd (forward_queue_enqueue (list_queue []) (7 :: nat) TX_PRIORITY_NORMAL forward_start)"
  have r: "forward_reach (list_queue []) ?st"
    by (rule forward_enqueue [OF forward_boot, where job = "7 :: nat" and p = TX_PRIORITY_NORMAL]) (rule prod.collapse [symmetric])
  have v: "queue_view fst ?st 0 = []" "queue_view fst ?st 1 = [7]" "queue_view fst ?st 2 = []" by code_simp+
  from forward_receive_fair [OF list_queue_faithful r, of 5] v show ?thesis
    by (auto simp: less_Suc_eq numeral_eq_Suc)
qed

text \<open>
  A LOW job can wait forever: after one of two waiting LOW jobs has been served, the next
  \<open>forward_queue_receive\<close> waits on the empty NORMAL queue, and it is a NORMAL job that ends
  the wait, with the second LOW job still queued.
\<close>

theorem low_job_waits_for_normal:
  assumes "queue_faithful api contents" "forward_reach api st" "low_budget st > 0"
    "queue_view contents st 0 = []" "queue_view contents st 1 = []" "queue_view contents st 2 = [a, b]"
    "forward_queue_receive api t st = (r, st1)"
    "forward_queues st1 ! 1 = Some q" "xQueueReceive api t q = (Some late, q')" "contents q' = []"
  shows "r = Some a \<and> (\<exists>st2. forward_queue_receive api t st1 = (Some late, st2) \<and> queue_view contents st2 2 = [b])"
proof -
  have ok: "budgets_ok st" by (rule reach_budgets [OF assms(2)])
  from receive_low [OF assms(1) ok assms(4,6,3) disjI2 [OF assms(5)], of t] assms(7)
  have r: "r = Some a" "\<forall>j<3. queue_view contents st1 j = (if j = 2 then [b] else queue_view contents st j)" "low_budget st1 = low_budget st - 1"
    by auto
  have ok1: "budgets_ok st1" by (rule receive_budgets [OF ok assms(7)])
  have l: "low_budget st1 = 0" using r(3) ok assms(3) by (auto simp: budgets_ok_def small_u8)
  obtain s0 where s0: "\<And>j. j < 3 \<Longrightarrow> queue_view contents s0 j = queue_view contents st1 j"
    "forward_queues s0 = forward_queues (forward_queue_init api st1)"
    "\<And>x s1. take_from api 1 t s0 = (Some x, s1) \<Longrightarrow>
       forward_queue_receive api t st1 = (Some x, s1\<lparr>normal_budget := 1, low_budget := 1\<rparr>)"
    by (rule receive_blocked [OF assms(1) ok1, of t]) (use r(2) assms(4,5) l in auto)
  have "forward_queues s0 ! 1 = Some q" using s0(2) assms(8) ok1 by (simp add: forward_queue_init_def budgets_ok_def)
  then have "take_from api 1 t s0 = (Some late, s0\<lparr>forward_queues := (forward_queues s0)[1 := Some q']\<rparr>)"
    using assms(9) by (simp add: take_from_def)
  from s0(3) [OF this] show ?thesis using r(1,2) s0(1) [of 2] by (simp add: queue_view_def)
qed

theorem low_job_waits_for_normal_witness:
  "\<exists>st1 st2. forward_queue_receive (list_queue [9 :: nat]) 5
       (snd (forward_queue_enqueue (list_queue [9]) 2 TX_PRIORITY_LOW
         (snd (forward_queue_enqueue (list_queue [9]) 1 TX_PRIORITY_LOW forward_start)))) = (Some 1, st1) \<and>
     forward_queue_receive (list_queue [9]) 5 st1 = (Some 9, st2) \<and> queue_view fst st2 2 = [2]"
proof -
  let ?api = "list_queue [9 :: nat]"
  let ?first = "snd (forward_queue_enqueue ?api 1 TX_PRIORITY_LOW forward_start)"
  let ?st = "snd (forward_queue_enqueue ?api 2 TX_PRIORITY_LOW ?first)"
  let ?r = "forward_queue_receive ?api 5 ?st"
  have "forward_reach ?api ?first"
    by (rule forward_enqueue [OF forward_boot prod.collapse [symmetric]])
  then have r: "forward_reach ?api ?st"
    by (rule forward_enqueue [OF _ prod.collapse [symmetric]])
  have v: "queue_view fst ?st 0 = []" "queue_view fst ?st 1 = []" "queue_view fst ?st 2 = [1, 2]" "low_budget ?st > 0"
    "forward_queues (snd ?r) ! 1 = Some ([], [9])" "xQueueReceive ?api 5 ([], [9]) = (Some 9, [], [])" by code_simp+
  have "fst ?r = Some 1 \<and> (\<exists>st2. forward_queue_receive ?api 5 (snd ?r) = (Some 9, st2) \<and> queue_view fst st2 2 = [2])"
    by (rule low_job_waits_for_normal [OF list_queue_faithful r v(4,1,2,3) prod.collapse [symmetric] v(5,6)]) simp
  then show ?thesis by (metis prod.collapse)
qed

text \<open>What a relay changes, and what the next node reads from its frame.\<close>

definition relayable :: "mesh_packet_t \<Rightarrow> bool" where
  "relayable p \<longleftrightarrow> wf_packet p \<and> byte_hops p \<and> \<not> str_empty (mp_destination p) \<and>
    mp_broadcast_destination p = streq (mp_destination p) (lit ''ALL'')"

lemma type_code_roundtrip: "type_to_u8 (copy_field (zeros 32) (type_from_u8 (type_to_u8 t))) = type_to_u8 t"
proof -
  have "\<forall>c\<in>set [1..6]. type_to_u8 (copy_field (zeros 32) (type_from_u8 (word_of_int c))) = word_of_int c" by code_simp
  moreover have "type_to_u8 t \<in> word_of_int ` set [1..6]" by (auto simp: type_to_u8_def image_iff upto.simps)
  ultimately show ?thesis by fastforce
qed

lemma hop_byte_id: "0 \<le> h \<Longrightarrow> h \<le> 255 \<Longrightarrow> uint (hop_byte h) = h"
  by (simp add: hop_byte_def uint_word_of_int take_bit_int_eq_self)

lemma field_nil_first: "field n b \<Longrightarrow> 0 < n \<Longrightarrow> field n (b[0 := 0])"
  by (cases b) (auto simp: field_def cstr_def)

lemma length_payload_bytes: "wf_packet p \<Longrightarrow> length (payload_bytes p) < 140"
  by (auto simp: payload_bytes_def wf_packet_def field_def)

lemma payload_bytes_normal: "wf_packet p \<Longrightarrow> payload_bytes (v2_normal p) = payload_bytes p"
  by (auto simp: payload_bytes_def [of "v2_normal p"] pad_def)

lemma relayed_packet_simps [simp]:
  "mp_id (relayed_packet job p) = mp_id p" "mp_hops (relayed_packet job p) = mp_hops p"
  "mp_source (relayed_packet job p) = mp_source p" "mp_destination (relayed_packet job p) = mp_destination p"
  "mp_type (relayed_packet job p) = mp_type p" "mp_priority (relayed_packet job p) = mp_priority p"
  "mp_broadcast_destination (relayed_packet job p) = mp_broadcast_destination p"
  "mp_payload (relayed_packet job p) = mp_payload p" "mp_payload_len (relayed_packet job p) = mp_payload_len p"
  "mp_path_hops (relayed_packet job p) = (if mp_path_hops p < 255 then mp_path_hops p + 1 else mp_path_hops p)"
  "mp_relay (relayed_packet job p) = copy_field (mp_relay p) (fj_local_node_id job)"
  by (simp_all add: relayed_packet_def Let_def)

lemma wf_relayed_packet: "wf_packet p \<Longrightarrow> wf_packet (relayed_packet job p)"
proof -
  assume p: "wf_packet p"
  then have "field 32 (copy_field (mp_relay p) x)" "field 32 (copy_field (mp_next_hop p) x)" "field 32 ((mp_next_hop p)[0 := 0])" for x
    by (auto simp: wf_packet_def field_nil_first field_copy_field field_length)
  then show ?thesis using p by (simp add: relayed_packet_def Let_def wf_packet_def)
qed

text \<open>
  Relaying keeps the message and uses up one hop: when the worker transmits for a job,
  the next node parses from the frame the same packet number, source, destination, type and
  payload, one hop less, this node as the relay and one more hop on the path; the packet had
  hops left and was not addressed to this node.
\<close>

theorem relayed_frame:
  assumes "relayable (fj_packet job)" "forward_worker_step stack job = Some (frame, n, prio)"
  shows "\<exists>q. parse_mesh_packet_v2 (take n frame) = Some q \<and> mp_id q = mp_id (fj_packet job) \<and>
    streq (mp_source q) (mp_source (fj_packet job)) \<and> streq (mp_destination q) (mp_destination (fj_packet job)) \<and>
    type_to_u8 (mp_type q) = type_to_u8 (mp_type (fj_packet job)) \<and> payload_bytes q = payload_bytes (fj_packet job) \<and>
    mp_hops q = mp_hops (fj_packet job) - 1 \<and> 0 \<le> mp_hops q \<and>
    mp_path_hops q = min 255 (mp_path_hops (fj_packet job) + 1) \<and>
    cstr (mp_relay q) = copied FIELD_LEN (fj_local_node_id job) \<and>
    \<not> streq (mp_destination (fj_packet job)) (fj_local_node_id job)"
proof -
  let ?p = "fj_packet job"
  let ?q = "relayed_packet job (?p\<lparr>mp_hops := mp_hops ?p - 1\<rparr>)"
  have p: "wf_packet ?p" "byte_hops ?p" "\<not> str_empty (mp_destination ?p)"
    "mp_broadcast_destination ?p = streq (mp_destination ?p) (lit ''ALL'')" using assms(1) by (auto simp: relayable_def)
  have h: "mp_hops ?p > 0" "\<not> streq (mp_destination ?p) (fj_local_node_id job)" "build_forward_packet_v2 ?q stack = Some (frame, n)"
    using assms(2) by (auto simp: forward_worker_step_def mesh_packet_consume_hop_def app_runtime_should_forward_packet_def Let_def
      split: if_splits option.splits)
  have w: "wf_packet ?q" using p(1) by (intro wf_relayed_packet) (simp add: wf_packet_def)
  have d: "broadcast ?q \<or> \<not> str_empty (mp_destination ?q)" using p(3) by simp
  have b: "broadcast ?q \<longleftrightarrow> streq (mp_destination ?p) (lit ''ALL'')" using p(4) by (simp add: broadcast_def)
  have all: "streq (copy_field (zeros 32) (lit ''ALL'')) (lit ''ALL'')" by code_simp
  have "payload_bytes (v2_normal ?q) = payload_bytes ?p" using payload_bytes_normal [OF w] by (simp add: payload_bytes_def)
  moreover have "cstr (mp_relay (v2_normal ?q)) = copied FIELD_LEN (fj_local_node_id job)"
    using p(1) by (auto simp: cstr_pad wf_packet_def field_def)
  moreover have "streq (mp_destination (v2_normal ?q)) (mp_destination ?p)"
    using b all by (simp add: streq_def cstr_pad del: cstr_copy_field)
  moreover have "uint (hop_byte (mp_hops ?q)) = mp_hops ?p - 1" "uint (hop_byte (mp_path_hops ?q)) = min 255 (mp_path_hops ?p + 1)"
    using p(2) h(1) by (auto simp: byte_hops_def hop_byte_id)
  ultimately show ?thesis
    using parse_built_v2 [OF w d h(3)] h(1,2) by (simp add: type_code_roundtrip streq_def cstr_pad del: cstr_copy_field)
qed

definition sample_job :: forward_job_t where
  "sample_job = relay_job (sample_packet\<lparr>mp_valid := True, mp_hops := 3, mp_path_hops := 1, mp_location := location_zero\<rparr>) (- 80) 7 None (lit ''CHARLIE'')"

theorem relayed_frame_witness:
  "\<exists>frame n q. forward_worker_step (zeros 40) sample_job = Some (frame, n, LORA_TX_PRIORITY_HIGH) \<and>
     parse_mesh_packet_v2 (take n frame) = Some q \<and> mp_hops q = 2"
proof -
  have r: "relayable (fj_packet sample_job)" and h: "mp_hops (fj_packet sample_job) = 3" by code_simp+
  have "map_option (\<lambda>(f, n, p). p) (forward_worker_step (zeros 40) sample_job) = Some LORA_TX_PRIORITY_HIGH" by code_simp
  then obtain frame n where f: "forward_worker_step (zeros 40) sample_job = Some (frame, n, LORA_TX_PRIORITY_HIGH)" by auto
  from relayed_frame [OF r f] obtain q where "parse_mesh_packet_v2 (take n frame) = Some q" "mp_hops q = mp_hops (fj_packet sample_job) - 1"
    by blast
  then show ?thesis using f h by force
qed

text \<open>
  A flooded packet whose destination has a known route is not relayed: the receiver
  writes its own next hop for that route into the packet before queueing the job, and the
  worker then finds that the packet names another node as next hop and drops it.
\<close>

theorem routed_flood_dropped:
  assumes "str_empty (mp_next_hop parsed)" "length (mp_next_hop parsed) = FIELD_LEN" "\<not> str_empty (re_destination route)"
    "\<not> re_stale route" "clean_str FIELD_LEN (cstr (re_next_hop route))" "\<not> str_empty (re_next_hop route)"
    "clean_str FIELD_LEN (cstr local_id)" "\<not> streq (re_next_hop route) local_id"
  shows "forward_worker_step stack (relay_job parsed rssi snr (Some route) local_id) = None"
proof -
  let ?job = "relay_job parsed rssi snr (Some route) local_id"
  have "mp_next_hop parsed \<noteq> []" using assms(2) by auto
  then have "cstr (mp_next_hop (fj_packet ?job)) = cstr (re_next_hop route)" "cstr (fj_local_node_id ?job) = cstr local_id"
    using assms(1,2,5,7) by (simp_all add: relay_job_def Let_def copied_id)
  then show ?thesis using assms(3,4,6,8)
    by (auto simp: forward_worker_step_def app_runtime_should_forward_packet_def relay_job_def Let_def streq_def str_empty_def)
qed

theorem routed_flood_dropped_witness:
  "forward_worker_step (zeros 320) (relay_job (sample_packet\<lparr>mp_hops := 3\<rparr>) (- 80) 7
     (Some (route_entry_zero\<lparr>re_destination := pad 32 (lit ''BRAVO''), re_next_hop := pad 32 (lit ''BRAVO'')\<rparr>)) (lit ''CHARLIE'')) = None"
proof -
  have n: "clean_str FIELD_LEN (cstr (pad 32 (lit ''BRAVO'')))" "\<not> str_empty (pad 32 (lit ''BRAVO''))"
    "clean_str FIELD_LEN (cstr (lit ''CHARLIE''))" "\<not> streq (pad 32 (lit ''BRAVO'')) (lit ''CHARLIE'')" by code_simp+
  have p: "str_empty (mp_next_hop sample_packet)" "length (mp_next_hop sample_packet) = 32"
    by (simp_all add: sample_packet_def mesh_packet_zero_def str_empty_def)
  show ?thesis by (rule routed_flood_dropped) (use n p in \<open>simp_all add: route_entry_zero_def\<close>)
qed

end
