(* ===== verification/Bems_Crypto.thy ===== *)
theory Bems_Crypto
  imports Mesh_Packet
begin

text \<open>
  \<open>src/bems_crypto.c\<close>: the authenticated frame around every packet on the air: four
  header bytes, an 8-byte random nonce, the packet under AES-128 in counter mode and the
  first 16 bytes of an HMAC-SHA256 over all of it. The PSA crypto service is a parameter; a
  call that does not return \<open>PSA_SUCCESS\<close> is None.
\<close>

abbreviation BEMS_FRAME_HEADER_LEN :: nat where "BEMS_FRAME_HEADER_LEN \<equiv> 12"
abbreviation BEMS_NONCE_LEN :: nat where "BEMS_NONCE_LEN \<equiv> 8"
abbreviation BEMS_HMAC_TAG_LEN :: nat where "BEMS_HMAC_TAG_LEN \<equiv> 16"

definition BEMS_FRAME_PREFIX :: bytes where
  "BEMS_FRAME_PREFIX = lit ''BM2'' @ [1]"

record ('k, 'o) psa_api =
  psa_crypto_init :: bool
  psa_hash_compute :: "bytes \<Rightarrow> bytes option"
  psa_import_key :: "bytes \<Rightarrow> 'k option"
  psa_cipher_encrypt_setup :: "'k \<Rightarrow> 'o option"
  psa_cipher_set_iv :: "bytes \<Rightarrow> 'o \<Rightarrow> 'o option"
  psa_cipher_update :: "bytes \<Rightarrow> 'o \<Rightarrow> (bytes \<times> 'o) option"
  psa_cipher_finish :: "'o \<Rightarrow> bytes option"
  psa_mac_compute :: "'k \<Rightarrow> bytes \<Rightarrow> bytes option"

text \<open>What is used of the node's configuration.\<close>

record crypto_config =
  network_key :: bytes
  provisioned :: bool

definition secure_zero :: "bytes \<Rightarrow> bytes" where
  "secure_zero d = map (\<lambda>_. 0) d"

definition constant_time_equal :: "bytes \<Rightarrow> bytes \<Rightarrow> nat \<Rightarrow> bool" where
  "constant_time_equal left right len \<longleftrightarrow>
    foldl (\<lambda>diff i. diff OR (left ! i XOR right ! i)) 0 [0..<len] = 0"

text \<open>The flag \<open>crypto_ready\<close> before, the result and the flag after.\<close>

definition crypto_init_once :: "('k, 'o) psa_api \<Rightarrow> bool \<Rightarrow> bool \<times> bool" where
  "crypto_init_once psa crypto_ready =
    (if \<not> crypto_ready then (if \<not> psa_crypto_init psa then (False, False) else (True, True)) else (True, True))"

text \<open>
  The keys; \<open>psa_crypto_init\<close> answers the same each time, so the flag only saves calls.
\<close>

definition derive_crypto_keys :: "('k, 'o) psa_api \<Rightarrow> crypto_config \<Rightarrow> (bytes \<times> bytes) option" where
  "derive_crypto_keys psa config =
    (let key = cstr (network_key config) in
     if \<not> fst (crypto_init_once psa False) then None
     else if \<not> provisioned config then None
     else (case psa_hash_compute psa (key @ lit ''BMESH AES-128'') of
       None \<Rightarrow> None
     | Some digest \<Rightarrow>
        if length digest < 32 then None
        else (case psa_hash_compute psa (key @ lit ''BMESH HMAC-SHA256'') of
          None \<Rightarrow> None
        | Some hmac_key \<Rightarrow> if length hmac_key \<noteq> 32 then None else Some (take 16 digest, hmac_key))))"

definition psa_ctr :: "('k, 'o) psa_api \<Rightarrow> bytes \<Rightarrow> bytes \<Rightarrow> bytes \<Rightarrow> bytes option" where
  "psa_ctr psa aes_key counter d = do {
     key_id \<leftarrow> psa_import_key psa aes_key;
     operation \<leftarrow> psa_cipher_encrypt_setup psa key_id;
     operation \<leftarrow> psa_cipher_set_iv psa counter operation;
     (output, operation) \<leftarrow> psa_cipher_update psa d operation;
     finish \<leftarrow> psa_cipher_finish psa operation;
     Some (output @ finish)
   }"

definition aes_ctr_crypt :: "('k, 'o) psa_api \<Rightarrow> crypto_config \<Rightarrow> bytes \<Rightarrow> bytes \<Rightarrow> bytes option" where
  "aes_ctr_crypt psa config d nonce =
    (case derive_crypto_keys psa config of
       None \<Rightarrow> None
     | Some (aes_key, unused_hmac_key) \<Rightarrow>
        (let counter = blit (zeros 16) 0 (take BEMS_NONCE_LEN nonce) in
         case psa_ctr psa aes_key counter d of
           None \<Rightarrow> None
         | Some output \<Rightarrow> if length output = length d then Some output else None))"

definition bems_hmac_sha256 :: "('k, 'o) psa_api \<Rightarrow> crypto_config \<Rightarrow> bytes \<Rightarrow> bytes option" where
  "bems_hmac_sha256 psa config d =
    (case derive_crypto_keys psa config of
       None \<Rightarrow> None
     | Some (aes_key, hmac_key) \<Rightarrow>
        (case Option.bind (psa_import_key psa hmac_key) (\<lambda>key_id. psa_mac_compute psa key_id d) of
           None \<Rightarrow> None
         | Some tag \<Rightarrow> if length tag = 32 then Some tag else None))"

text \<open>\<open>r0\<close> and \<open>r1\<close> are the two words of \<open>esp_random()\<close> in the nonce.\<close>

definition bems_encrypt_frame ::
  "('k, 'o) psa_api \<Rightarrow> crypto_config \<Rightarrow> u32 \<Rightarrow> u32 \<Rightarrow> bytes \<Rightarrow> bytes \<Rightarrow> (bytes \<times> nat) option" where
  "bems_encrypt_frame psa config r0 r1 plain_packet frame =
    (let plain_len = length plain_packet in
     if plain_len > BEMS_MAX_PLAINTEXT then None
     else if length frame < BEMS_FRAME_HEADER_LEN + plain_len + BEMS_HMAC_TAG_LEN then None
     else (let frame = blit frame 0 BEMS_FRAME_PREFIX;
               frame = blit (blit frame 4 (le32 r0)) 8 (le32 r1)
           in case aes_ctr_crypt psa config plain_packet (drop 4 frame) of
                None \<Rightarrow> None
              | Some cipher \<Rightarrow>
                 (let frame = blit frame BEMS_FRAME_HEADER_LEN cipher in
                  case bems_hmac_sha256 psa config (take (BEMS_FRAME_HEADER_LEN + plain_len) frame) of
                    None \<Rightarrow> None
                  | Some full_tag \<Rightarrow>
                     Some (blit frame (BEMS_FRAME_HEADER_LEN + plain_len) (take BEMS_HMAC_TAG_LEN full_tag),
                           BEMS_FRAME_HEADER_LEN + plain_len + BEMS_HMAC_TAG_LEN))))"

definition bems_encrypt_packet ::
  "('k, 'o) psa_api \<Rightarrow> crypto_config \<Rightarrow> u32 \<Rightarrow> u32 \<Rightarrow> bytes option \<Rightarrow> bytes \<Rightarrow> (bytes \<times> nat) option" where
  "bems_encrypt_packet psa config r0 r1 plain_packet frame =
    (case plain_packet of None \<Rightarrow> None | Some p \<Rightarrow> bems_encrypt_frame psa config r0 r1 (cstr p) frame)"

text \<open>The frame is the list of its \<open>frame_len\<close> bytes; the result is the buffer and the length.\<close>

definition bems_decrypt_frame_bytes ::
  "('k, 'o) psa_api \<Rightarrow> crypto_config \<Rightarrow> bytes \<Rightarrow> bytes \<Rightarrow> (bytes \<times> nat) option" where
  "bems_decrypt_frame_bytes psa config frame plain_packet =
    (if length frame < BEMS_FRAME_HEADER_LEN + BEMS_HMAC_TAG_LEN \<or> length plain_packet = 0 then None
     else if take 4 frame \<noteq> BEMS_FRAME_PREFIX then None
     else (let cipher_len = length frame - BEMS_FRAME_HEADER_LEN - BEMS_HMAC_TAG_LEN in
       if cipher_len \<ge> length plain_packet then None
       else (case bems_hmac_sha256 psa config (take (BEMS_FRAME_HEADER_LEN + cipher_len) frame) of
         None \<Rightarrow> None
       | Some full_tag \<Rightarrow>
          (let calculated_tag = take BEMS_HMAC_TAG_LEN full_tag in
           if \<not> constant_time_equal calculated_tag (drop (BEMS_FRAME_HEADER_LEN + cipher_len) frame) BEMS_HMAC_TAG_LEN then None
           else (case aes_ctr_crypt psa config (take cipher_len (drop BEMS_FRAME_HEADER_LEN frame)) (drop 4 frame) of
             None \<Rightarrow> None
           | Some plain \<Rightarrow> Some (blit plain_packet 0 plain, cipher_len))))))"

definition bems_decrypt_frame ::
  "('k, 'o) psa_api \<Rightarrow> crypto_config \<Rightarrow> bytes \<Rightarrow> bytes \<Rightarrow> bytes option" where
  "bems_decrypt_frame psa config frame plain_packet =
    (case bems_decrypt_frame_bytes psa config frame plain_packet of
       None \<Rightarrow> None | Some (plain, plain_len) \<Rightarrow> Some (plain[plain_len := 0]))"

subsection \<open>Comparing tags\<close>

lemma byte_diff: "(d :: u8) OR (a XOR b) = 0 \<longleftrightarrow> d = 0 \<and> a = b"
  by (auto simp: bit_eq_iff bit_or_iff bit_xor_iff)

lemma constant_time_equal_iff:
  "len \<le> length a \<Longrightarrow> len \<le> length b \<Longrightarrow> constant_time_equal a b len \<longleftrightarrow> take len a = take len b"
proof -
  have "foldl (\<lambda>diff i. diff OR (a ! i XOR b ! i)) d [0..<n] = 0 \<longleftrightarrow> d = 0 \<and> (\<forall>i<n. a ! i = b ! i)" for d :: u8 and n
    by (induction n) (auto simp: less_Suc_eq byte_diff)
  then show "len \<le> length a \<Longrightarrow> len \<le> length b \<Longrightarrow> ?thesis"
    by (auto simp: constant_time_equal_def list_eq_iff_nth_eq)
qed

subsection \<open>Frames\<close>

definition nonce_bytes :: "u32 \<Rightarrow> u32 \<Rightarrow> bytes" where
  "nonce_bytes r0 r1 = le32 r0 @ le32 r1"

lemma length_prefix [simp]: "length BEMS_FRAME_PREFIX = 4"
  by (simp add: BEMS_FRAME_PREFIX_def lit_def)

lemma aes_ctr_crypt_nonce: "take 8 n = take 8 n' \<Longrightarrow> aes_ctr_crypt psa config d n = aes_ctr_crypt psa config d n'"
  by (simp only: aes_ctr_crypt_def)

lemma aes_ctr_crypt_length: "aes_ctr_crypt psa config d n = Some c \<Longrightarrow> length c = length d"
  by (auto simp: aes_ctr_crypt_def Let_def split: option.splits if_splits prod.splits)

text \<open>What the sender leaves in the buffer.\<close>

lemma encrypt_frame_eq:
  assumes "bems_encrypt_frame psa config r0 r1 plain buf = Some (frame, n)"
  obtains cipher tag where "aes_ctr_crypt psa config plain (nonce_bytes r0 r1) = Some cipher"
    "bems_hmac_sha256 psa config (BEMS_FRAME_PREFIX @ nonce_bytes r0 r1 @ cipher) = Some tag"
    "take n frame = BEMS_FRAME_PREFIX @ nonce_bytes r0 r1 @ cipher @ take 16 tag" "n = 28 + length plain" "n \<le> 255"
proof -
  let ?h = "BEMS_FRAME_PREFIX @ nonce_bytes r0 r1"
  have l: "length plain \<le> 227" "28 + length plain \<le> length buf"
    using assms by (auto simp: bems_encrypt_frame_def Let_def BEMS_MAX_PLAINTEXT_def split: if_splits)
  have f: "blit (blit (blit buf 0 BEMS_FRAME_PREFIX) 4 (le32 r0)) 8 (le32 r1) = ?h @ drop 12 buf"
    using l(2) by (simp add: blit_def nonce_bytes_def)
  have t: "take 8 (drop 4 (?h @ drop 12 buf)) = take 8 (nonce_bytes r0 r1)" by (simp add: nonce_bytes_def)
  obtain c where c: "aes_ctr_crypt psa config plain (drop 4 (?h @ drop 12 buf)) = Some c"
    using assms l by (auto simp: bems_encrypt_frame_def Let_def f split: if_splits option.splits)
  have lc: "length c = length plain" by (rule aes_ctr_crypt_length [OF c])
  have b: "blit (?h @ drop 12 buf) 12 c = ?h @ c @ drop (12 + length plain) buf" using lc by (simp add: blit_def nonce_bytes_def add.commute)
  have "take (12 + length plain) (?h @ c @ drop (12 + length plain) buf) = ?h @ c" using lc by (simp add: nonce_bytes_def)
  then obtain tag where tag: "bems_hmac_sha256 psa config (?h @ c) = Some tag"
    "frame = blit (?h @ c @ drop (12 + length plain) buf) (12 + length plain) (take 16 tag)" "n = 28 + length plain"
    using assms l c by (auto simp: bems_encrypt_frame_def Let_def f b [unfolded append_assoc] split: if_splits option.splits)
  have "length tag = 32" using tag(1) by (auto simp: bems_hmac_sha256_def split: option.splits if_splits)
  then have "take n frame = ?h @ c @ take 16 tag" using tag(2,3) lc by (simp add: blit_def nonce_bytes_def)
  moreover have "aes_ctr_crypt psa config plain (nonce_bytes r0 r1) = Some c" by (rule trans [OF aes_ctr_crypt_nonce [OF t [symmetric]] c])
  ultimately show thesis using that [of c tag] tag(1,3) l(1) by simp
qed

lemma decrypt_frame_body:
  assumes "length nonce = 8" "bems_hmac_sha256 psa config (BEMS_FRAME_PREFIX @ nonce @ cipher) = Some tag" "length t = 16"
    "length cipher < length buf"
  shows "bems_decrypt_frame_bytes psa config (BEMS_FRAME_PREFIX @ nonce @ cipher @ t) buf =
    (if t = take 16 tag then map_option (\<lambda>plain. (blit buf 0 plain, length cipher)) (aes_ctr_crypt psa config cipher nonce) else None)"
proof -
  let ?f = "BEMS_FRAME_PREFIX @ nonce @ cipher @ t"
  have l: "length tag = 32" using assms(2) by (auto simp: bems_hmac_sha256_def split: option.splits if_splits)
  have "constant_time_equal (take 16 tag) t 16 \<longleftrightarrow> take 16 tag = t"
    using constant_time_equal_iff [of 16 "take 16 tag" t] l assms(3) by simp
  moreover have "aes_ctr_crypt psa config cipher (drop 4 ?f) = aes_ctr_crypt psa config cipher nonce"
    using assms(1) by (intro aes_ctr_crypt_nonce) simp
  ultimately show ?thesis
    using assms by (auto simp: bems_decrypt_frame_bytes_def Let_def split: option.splits)
qed

text \<open>
  What decryption relies on: in counter mode a second run with the same key and counter block
  undoes the first.
\<close>

definition psa_ctr_inverse :: "('k, 'o) psa_api \<Rightarrow> bool" where
  "psa_ctr_inverse psa \<longleftrightarrow> (\<forall>key counter d c. psa_ctr psa key counter d = Some c \<longrightarrow> psa_ctr psa key counter c = Some d)"

text \<open>A PSA service for the witnesses: the key stream is the key, the tag starts with the data's sum.\<close>

definition toy_psa :: "(bytes, bytes) psa_api" where
  "toy_psa = \<lparr>psa_crypto_init = True, psa_hash_compute = (\<lambda>d. Some (replicate 32 (of_nat (length d)))), psa_import_key = Some,
     psa_cipher_encrypt_setup = Some, psa_cipher_set_iv = (\<lambda>iv k. Some (k @ iv)),
     psa_cipher_update = (\<lambda>d k. Some (map (\<lambda>b. b XOR hd k) d, k)), psa_cipher_finish = (\<lambda>_. Some []),
     psa_mac_compute = (\<lambda>k d. Some (sum_list d # zeros 31))\<rparr>"

lemma byte_xor_twice: "(b XOR k) XOR k = (b :: u8)"
  by (auto simp: bit_eq_iff bit_xor_iff)

lemma toy_psa_inverse: "psa_ctr_inverse toy_psa"
  by (auto simp: psa_ctr_inverse_def psa_ctr_def toy_psa_def o_def byte_xor_twice)

lemma aes_ctr_crypt_inverse:
  assumes "psa_ctr_inverse psa" "aes_ctr_crypt psa config d nonce = Some c"
  shows "aes_ctr_crypt psa config c nonce = Some d"
proof -
  let ?counter = "blit (zeros 16) 0 (take BEMS_NONCE_LEN nonce)"
  obtain k h where k: "derive_crypto_keys psa config = Some (k, h)"
    using assms(2) by (cases "derive_crypto_keys psa config") (auto simp: aes_ctr_crypt_def)
  have e: "psa_ctr psa k ?counter d = Some c" "length c = length d"
    using assms(2) k by (auto simp: aes_ctr_crypt_def Let_def split: option.splits if_splits)
  have "psa_ctr psa k ?counter c = Some d" using assms(1) e(1) unfolding psa_ctr_inverse_def by blast
  then show ?thesis using k e(2) by (simp add: aes_ctr_crypt_def Let_def)
qed

lemma encrypted_frame_decrypts:
  assumes "psa_ctr_inverse psa" "bems_encrypt_frame psa config r0 r1 plain buf = Some (frame, n)" "length plain < length out"
  shows "bems_decrypt_frame_bytes psa config (take n frame) out = Some (blit out 0 plain, length plain)" "n \<le> 255"
proof -
  obtain cipher tag where e: "aes_ctr_crypt psa config plain (nonce_bytes r0 r1) = Some cipher"
    "bems_hmac_sha256 psa config (BEMS_FRAME_PREFIX @ nonce_bytes r0 r1 @ cipher) = Some tag"
    "take n frame = BEMS_FRAME_PREFIX @ nonce_bytes r0 r1 @ cipher @ take 16 tag" "n \<le> 255"
    by (rule encrypt_frame_eq [OF assms(2)])
  have l: "length cipher = length plain" by (rule aes_ctr_crypt_length [OF e(1)])
  have t: "length (take 16 tag) = 16" using e(2) by (auto simp: bems_hmac_sha256_def split: option.splits if_splits)
  have "aes_ctr_crypt psa config cipher (nonce_bytes r0 r1) = Some plain"
    by (rule aes_ctr_crypt_inverse [OF assms(1) e(1)])
  then show "bems_decrypt_frame_bytes psa config (take n frame) out = Some (blit out 0 plain, length plain)"
    using decrypt_frame_body [OF _ e(2) t, of out] l assms(3) e(3) by (simp add: nonce_bytes_def)
  show "n \<le> 255" by (rule e(4))
qed

text \<open>
  C12. What one node encrypts, another with the same network key decrypts: a frame produced by
  \<open>bems_encrypt_frame\<close> is accepted and yields exactly the packet, and it never exceeds the
  255 bytes of a LoRa payload.
\<close>

theorem frame_roundtrip:
  assumes "psa_ctr_inverse psa" "bems_encrypt_frame psa config r0 r1 plain buf = Some (frame, n)" "length plain < length out"
  shows "\<exists>out'. bems_decrypt_frame_bytes psa config (take n frame) out = Some (out', length plain) \<and>
    take (length plain) out' = plain \<and> n \<le> 255"
  using encrypted_frame_decrypts [OF assms] assms(3) by (simp add: blit_def)

text \<open>
  C11. Only authentic frames get in: whatever bytes the radio delivers, they are accepted only
  with the right header and with the 16 bytes of the HMAC under the network key over
  everything before the tag; a node that is not provisioned accepts nothing.
\<close>

theorem accepted_frames_authentic:
  assumes "bems_decrypt_frame_bytes psa config frame out = Some (out', n)"
  shows "\<exists>nonce cipher tag. length nonce = BEMS_NONCE_LEN \<and> length cipher = n \<and> n < length out \<and> provisioned config \<and>
    frame = BEMS_FRAME_PREFIX @ nonce @ cipher @ take BEMS_HMAC_TAG_LEN tag \<and>
    bems_hmac_sha256 psa config (BEMS_FRAME_PREFIX @ nonce @ cipher) = Some tag"
proof -
  let ?n = "length frame - 28"
  have l: "28 \<le> length frame" "take 4 frame = BEMS_FRAME_PREFIX" "?n < length out"
    using assms by (auto simp: bems_decrypt_frame_bytes_def Let_def split: if_splits)
  define nonce cipher t where "nonce = take 8 (drop 4 frame)" and "cipher = take ?n (drop 12 frame)" and "t = drop (12 + ?n) frame"
  have n: "length nonce = 8" "length cipher = ?n" "length t = 16" using l(1) by (simp_all add: nonce_def cipher_def t_def)
  have "frame = take 4 frame @ take 8 (drop 4 frame) @ take ?n (drop 8 (drop 4 frame)) @ drop ?n (drop 8 (drop 4 frame))"
    by (simp only: append_take_drop_id)
  then have f: "frame = BEMS_FRAME_PREFIX @ nonce @ cipher @ t"
    by (simp add: nonce_def cipher_def t_def add.commute flip: l(2))
  have "take (12 + ?n) frame = BEMS_FRAME_PREFIX @ nonce @ cipher" by (subst f) (simp add: n)
  then obtain tag where tag: "bems_hmac_sha256 psa config (BEMS_FRAME_PREFIX @ nonce @ cipher) = Some tag"
    using assms l by (auto simp: bems_decrypt_frame_bytes_def Let_def split: if_splits option.splits)
  have p: "provisioned config" using tag by (auto simp: bems_hmac_sha256_def derive_crypto_keys_def Let_def split: option.splits if_splits)
  have "bems_decrypt_frame_bytes psa config (BEMS_FRAME_PREFIX @ nonce @ cipher @ t) out = Some (out', n)" using assms f by simp
  then have "t = take 16 tag" "n = length cipher"
    using decrypt_frame_body [OF n(1) tag n(3), of out] n l by (auto split: if_splits)
  moreover from this have "frame = BEMS_FRAME_PREFIX @ nonce @ cipher @ take BEMS_HMAC_TAG_LEN tag" by (subst f) simp
  moreover have "length cipher < length out" using n(2) l(3) by simp
  ultimately show ?thesis using n(1) p tag by blast
qed

definition toy_config :: crypto_config where
  "toy_config = \<lparr>network_key = lit ''net'' @ [0], provisioned = True\<rparr>"

lemma toy_encrypts: "bems_encrypt_frame toy_psa toy_config 1 2 (lit ''hi'') (zeros 30) = 
  Some (lit ''BM2'' @ [1] @ [1,0,0,0,2,0,0,0] @ [120,121] @ [182] @ zeros 15, 30)"
  by code_simp

theorem frame_roundtrip_witness:
  "\<exists>out'. bems_decrypt_frame_bytes toy_psa toy_config (take 30 (lit ''BM2'' @ [1] @ [1,0,0,0,2,0,0,0] @ [120,121] @ [182] @ zeros 15))
    (zeros 8) = Some (out', length (lit ''hi'')) \<and> take (length (lit ''hi'')) out' = lit ''hi'' \<and> (30::nat) \<le> 255"
  by (rule frame_roundtrip [OF toy_psa_inverse toy_encrypts]) (simp add: lit_def)

theorem accepted_frames_authentic_witness:
  "\<exists>nonce cipher tag. length nonce = BEMS_NONCE_LEN \<and> length cipher = 2 \<and> 2 < length (zeros 8) \<and> provisioned toy_config \<and>
    lit ''BM2'' @ [1] @ [1,0,0,0,2,0,0,0] @ [120,121] @ [182] @ zeros 15 =
      BEMS_FRAME_PREFIX @ nonce @ cipher @ take BEMS_HMAC_TAG_LEN tag \<and>
    bems_hmac_sha256 toy_psa toy_config (BEMS_FRAME_PREFIX @ nonce @ cipher) = Some tag"
proof (rule accepted_frames_authentic [where out' = "lit ''hi'' @ zeros 6"])
  show "bems_decrypt_frame_bytes toy_psa toy_config (lit ''BM2'' @ [1] @ [1,0,0,0,2,0,0,0] @ [120,121] @ [182] @ zeros 15)
    (zeros 8) = Some (lit ''hi'' @ zeros 6, 2)"
    by code_simp
qed

end
