(* ===== verification/Lora_Radio.thy ===== *)
theory Lora_Radio
  imports Tx_Scheduler Forwarding Bems_Crypto "HOL-Library.State_Monad"
begin

text \<open>
  \<open>src/radio/lora_radio.c\<close>: the driver of the SX1278 transceiver. Everything the driver
  does goes over the SPI bus, so its operations are programs of the state monad over the
  driver's static variables, the environment \<open>'h\<close> behind the pins, and the trace of
  what was put on the pins. The bus, the reset pin, the DIO0 semaphore, the scheduler's delay
  and the FreeRTOS queues are parameters (\<open>radio_services\<close>); the environment may answer
  each call in any way. The SPI mutex is elided, a transfer is one step.
\<close>

unbundle bit_operations_syntax

subsection \<open>Registers and constants\<close>

abbreviation LORA_MAX_PAYLOAD :: nat where "LORA_MAX_PAYLOAD \<equiv> 255"
definition LORA_FREQUENCY_HZ :: "64 word" where "LORA_FREQUENCY_HZ = 433000000"

definition REG_FIFO :: u8 where "REG_FIFO = 0x00"
definition REG_OP_MODE :: u8 where "REG_OP_MODE = 0x01"
definition REG_FRF_MSB :: u8 where "REG_FRF_MSB = 0x06"
definition REG_FRF_MID :: u8 where "REG_FRF_MID = 0x07"
definition REG_FRF_LSB :: u8 where "REG_FRF_LSB = 0x08"
definition REG_PA_CONFIG :: u8 where "REG_PA_CONFIG = 0x09"
definition REG_LNA :: u8 where "REG_LNA = 0x0C"
definition REG_FIFO_ADDR_PTR :: u8 where "REG_FIFO_ADDR_PTR = 0x0D"
definition REG_FIFO_TX_BASE_ADDR :: u8 where "REG_FIFO_TX_BASE_ADDR = 0x0E"
definition REG_FIFO_RX_BASE_ADDR :: u8 where "REG_FIFO_RX_BASE_ADDR = 0x0F"
definition REG_FIFO_RX_CURRENT_ADDR :: u8 where "REG_FIFO_RX_CURRENT_ADDR = 0x10"
definition REG_IRQ_FLAGS :: u8 where "REG_IRQ_FLAGS = 0x12"
definition REG_RX_NB_BYTES :: u8 where "REG_RX_NB_BYTES = 0x13"
definition REG_PKT_SNR_VALUE :: u8 where "REG_PKT_SNR_VALUE = 0x19"
definition REG_PKT_RSSI_VALUE :: u8 where "REG_PKT_RSSI_VALUE = 0x1A"
definition REG_MODEM_CONFIG_1 :: u8 where "REG_MODEM_CONFIG_1 = 0x1D"
definition REG_MODEM_CONFIG_2 :: u8 where "REG_MODEM_CONFIG_2 = 0x1E"
definition REG_PREAMBLE_MSB :: u8 where "REG_PREAMBLE_MSB = 0x20"
definition REG_PREAMBLE_LSB :: u8 where "REG_PREAMBLE_LSB = 0x21"
definition REG_PAYLOAD_LENGTH :: u8 where "REG_PAYLOAD_LENGTH = 0x22"
definition REG_MODEM_CONFIG_3 :: u8 where "REG_MODEM_CONFIG_3 = 0x26"
definition REG_SYNC_WORD :: u8 where "REG_SYNC_WORD = 0x39"
definition REG_DIO_MAPPING_1 :: u8 where "REG_DIO_MAPPING_1 = 0x40"
definition REG_VERSION :: u8 where "REG_VERSION = 0x42"

lemmas radio_regs = REG_FIFO_def REG_OP_MODE_def REG_FRF_MSB_def REG_FRF_MID_def REG_FRF_LSB_def REG_PA_CONFIG_def
  REG_LNA_def REG_FIFO_ADDR_PTR_def REG_FIFO_TX_BASE_ADDR_def REG_FIFO_RX_BASE_ADDR_def REG_FIFO_RX_CURRENT_ADDR_def
  REG_IRQ_FLAGS_def REG_RX_NB_BYTES_def REG_PKT_SNR_VALUE_def REG_PKT_RSSI_VALUE_def REG_MODEM_CONFIG_1_def
  REG_MODEM_CONFIG_2_def REG_PREAMBLE_MSB_def REG_PREAMBLE_LSB_def REG_PAYLOAD_LENGTH_def REG_MODEM_CONFIG_3_def
  REG_SYNC_WORD_def REG_DIO_MAPPING_1_def REG_VERSION_def

definition MODE_LONG_RANGE_MODE :: u8 where "MODE_LONG_RANGE_MODE = 0x80"
definition MODE_SLEEP :: u8 where "MODE_SLEEP = 0x00"
definition MODE_STDBY :: u8 where "MODE_STDBY = 0x01"
definition MODE_TX :: u8 where "MODE_TX = 0x03"
definition MODE_RX_CONTINUOUS :: u8 where "MODE_RX_CONTINUOUS = 0x05"

lemmas radio_modes = MODE_LONG_RANGE_MODE_def MODE_SLEEP_def MODE_STDBY_def MODE_TX_def MODE_RX_CONTINUOUS_def

definition IRQ_TX_DONE_MASK :: u8 where "IRQ_TX_DONE_MASK = 0x08"
definition IRQ_CAD_DONE_MASK :: u8 where "IRQ_CAD_DONE_MASK = 0x04"
definition IRQ_CAD_DETECTED_MASK :: u8 where "IRQ_CAD_DETECTED_MASK = 0x01"
definition IRQ_PAYLOAD_CRC_ERROR_MASK :: u8 where "IRQ_PAYLOAD_CRC_ERROR_MASK = 0x20"
definition IRQ_RX_DONE_MASK :: u8 where "IRQ_RX_DONE_MASK = 0x40"

definition LORA_MODEM_CONFIG_1 :: u8 where "LORA_MODEM_CONFIG_1 = 0x70 OR 0x02 OR 0x00"
definition LORA_MODEM_CONFIG_2 :: u8 where "LORA_MODEM_CONFIG_2 = push_bit 4 7 OR 0x00 OR 0x04"
definition LORA_MODEM_CONFIG_3 :: u8 where "LORA_MODEM_CONFIG_3 = 0x00 OR 0x04"

definition ESP_ERR_TIMEOUT :: esp_err_t where "ESP_ERR_TIMEOUT = ESP_ERR_OTHER 0x107"

datatype radio_state_t =
    RADIO_STATE_UNINITIALIZED | RADIO_STATE_INITIALIZING | RADIO_STATE_RX | RADIO_STATE_TX
  | RADIO_STATE_CAD | RADIO_STATE_FAULT | RADIO_STATE_RECOVERING

subsection \<open>The driver's state and what it runs on\<close>

text \<open>What the driver puts on the pins: the bytes of a transfer with its result, a level of
  the reset pin, a delay in ticks.\<close>

datatype radio_event = Spi_Transfer bytes esp_err_t bytes | Rst_Level bool | Task_Delay u32

record ('h, 'q, 'r) radio =
  lora_state :: radio_state_t
  lora_recovery_attempts :: u8
  lora_tx_request_queues :: "'q option list"
  lora_tx_result_queue :: "'r option"
  lora_tx_task_handle :: bool
  lora_read_frame_callback :: bool
  high_streak :: u8
  normal_streak :: u8
  radio_env :: 'h
  radio_trace :: "radio_event list"

record ('h, 'q, 'r) radio_services =
  spi_device_transmit :: "bytes \<Rightarrow> 'h \<Rightarrow> (esp_err_t \<times> bytes) \<times> 'h"
  gpio_set_level :: "bool \<Rightarrow> 'h \<Rightarrow> 'h"
  vTaskDelay :: "u32 \<Rightarrow> 'h \<Rightarrow> 'h"
  take_dio0 :: "u32 \<Rightarrow> 'h \<Rightarrow> bool \<times> 'h"
  request_api :: "(lora_tx_request_t, 'q) queue_api"
  uxQueueMessagesWaiting :: "'q \<Rightarrow> nat"
  result_api :: "(lora_tx_result_t, 'r) queue_api"

type_synonym ('h, 'q, 'r, 'a) radio_op = "(('h, 'q, 'r) radio, 'a) state"

text \<open>Access to the state, in the monad.\<close>

definition reads :: "('s \<Rightarrow> 'a) \<Rightarrow> ('s, 'a) state" where
  "reads f = State (\<lambda>s. (f s, s))"

definition modifies :: "('s \<Rightarrow> 's) \<Rightarrow> ('s, unit) state" where
  "modifies f = State (\<lambda>s. ((), f s))"

definition spi_action :: "('h, 'q, 'r) radio_services \<Rightarrow> bytes \<Rightarrow> ('h, 'q, 'r, esp_err_t \<times> bytes) radio_op" where
  "spi_action sv tx = State (\<lambda>s. case spi_device_transmit sv tx (radio_env s) of ((e, rx), h) \<Rightarrow>
     ((e, rx), s\<lparr>radio_env := h, radio_trace := radio_trace s @ [Spi_Transfer tx e rx]\<rparr>))"

definition reset_action :: "('h, 'q, 'r) radio_services \<Rightarrow> bool \<Rightarrow> ('h, 'q, 'r, unit) radio_op" where
  "reset_action sv b = modifies (\<lambda>s. s\<lparr>radio_env := gpio_set_level sv b (radio_env s),
     radio_trace := radio_trace s @ [Rst_Level b]\<rparr>)"

definition delay_action :: "('h, 'q, 'r) radio_services \<Rightarrow> u32 \<Rightarrow> ('h, 'q, 'r, unit) radio_op" where
  "delay_action sv t = modifies (\<lambda>s. s\<lparr>radio_env := vTaskDelay sv t (radio_env s),
     radio_trace := radio_trace s @ [Task_Delay t]\<rparr>)"

definition dio0_action :: "('h, 'q, 'r) radio_services \<Rightarrow> u32 \<Rightarrow> ('h, 'q, 'r, bool) radio_op" where
  "dio0_action sv t = State (\<lambda>s. case take_dio0 sv t (radio_env s) of (b, h) \<Rightarrow> (b, s\<lparr>radio_env := h\<rparr>))"

text \<open>A chain \<open>a() == ESP_OK && b() == ESP_OK && \<dots>\<close>: the first error ends it.\<close>

primrec all_ok :: "('s, esp_err_t) state list \<Rightarrow> ('s, bool) state" where
  "all_ok [] = State_Monad.return True"
| "all_ok (m # ms) = do { e \<leftarrow> m; if e = ESP_OK then all_ok ms else State_Monad.return False }"

subsection \<open>Register access\<close>

definition lora_set_state :: "radio_state_t \<Rightarrow> ('h, 'q, 'r, unit) radio_op" where
  "lora_set_state st = modifies (\<lambda>s. s\<lparr>lora_state := st\<rparr>)"

text \<open>The reason is only logged.\<close>

definition lora_enter_fault_internal :: "string \<Rightarrow> ('h, 'q, 'r, unit) radio_op" where
  "lora_enter_fault_internal reason = lora_set_state RADIO_STATE_FAULT"

definition lora_radio_enter_fault :: "unit \<Rightarrow> ('h, 'q, 'r, unit) radio_op" where
  "lora_radio_enter_fault u = lora_enter_fault_internal ''manual fault''"

definition lora_transfer ::
  "('h, 'q, 'r) radio_services \<Rightarrow> u8 \<Rightarrow> bytes option \<Rightarrow> nat \<Rightarrow> ('h, 'q, 'r, esp_err_t \<times> bytes) radio_op" where
  "lora_transfer sv address tx_data n =
    (if n > LORA_MAX_PAYLOAD then State_Monad.return (ESP_ERR_INVALID_SIZE, [])
     else do {
       let tx_buffer = address # (case tx_data of None \<Rightarrow> zeros n | Some d \<Rightarrow> take n d);
       (result, answer) \<leftarrow> spi_action sv tx_buffer;
       let rx_buffer = blit (zeros (LORA_MAX_PAYLOAD + 1)) 0 (take (n + 1) answer);
       State_Monad.return (result, take n (drop 1 rx_buffer)) })"

text \<open>The value is meaningful when the result is \<open>ESP_OK\<close>; the callers look at it only then.\<close>

definition lora_read_reg :: "('h, 'q, 'r) radio_services \<Rightarrow> u8 \<Rightarrow> ('h, 'q, 'r, esp_err_t \<times> u8) radio_op" where
  "lora_read_reg sv address =
    do { (e, rx) \<leftarrow> lora_transfer sv (address AND 0x7F) None 1; State_Monad.return (e, at rx 0) }"

definition lora_write_reg :: "('h, 'q, 'r) radio_services \<Rightarrow> u8 \<Rightarrow> u8 \<Rightarrow> ('h, 'q, 'r, esp_err_t) radio_op" where
  "lora_write_reg sv address v =
    do { (e, rx) \<leftarrow> lora_transfer sv (address OR 0x80) (Some [v]) 1; State_Monad.return e }"

definition lora_write_fifo :: "('h, 'q, 'r) radio_services \<Rightarrow> bytes \<Rightarrow> nat \<Rightarrow> ('h, 'q, 'r, esp_err_t) radio_op" where
  "lora_write_fifo sv d n =
    do { (e, rx) \<leftarrow> lora_transfer sv (REG_FIFO OR 0x80) (Some d) n; State_Monad.return e }"

definition lora_read_fifo :: "('h, 'q, 'r) radio_services \<Rightarrow> bytes \<Rightarrow> nat \<Rightarrow> ('h, 'q, 'r, esp_err_t \<times> bytes) radio_op" where
  "lora_read_fifo sv buf n =
    do { (e, rx) \<leftarrow> lora_transfer sv (REG_FIFO AND 0x7F) None n;
         State_Monad.return (e, if e = ESP_OK \<and> n > 0 then blit buf 0 rx else buf) }"

definition lora_set_mode :: "('h, 'q, 'r) radio_services \<Rightarrow> u8 \<Rightarrow> ('h, 'q, 'r, esp_err_t) radio_op" where
  "lora_set_mode sv mode = lora_write_reg sv REG_OP_MODE (MODE_LONG_RANGE_MODE OR mode)"

text \<open>What a register transfer comes to, for evaluation.\<close>

lemma read_reg_code [code]:
  "lora_read_reg sv address = do { (e, rx) \<leftarrow> spi_action sv [address AND 0x7F, 0]; State_Monad.return (e, at rx 1) }"
proof -
  have "at (take 1 (drop 1 (blit (zeros 256) 0 (take 2 rx)))) 0 = at rx 1" for rx :: bytes
    by (cases rx rule: remdups_adj.cases) (simp_all add: blit_def zeros_def at_def)
  then show ?thesis
    by (simp add: lora_read_reg_def lora_transfer_def zeros_def case_prod_unfold numeral_2_eq_2)
qed

lemma write_reg_code [code]:
  "lora_write_reg sv address v = do { (e, rx) \<leftarrow> spi_action sv [address OR 0x80, v]; State_Monad.return e }"
  by (simp add: lora_write_reg_def lora_transfer_def case_prod_unfold)

lemma write_fifo_code [code]:
  "lora_write_fifo sv d n = (if n > LORA_MAX_PAYLOAD then State_Monad.return ESP_ERR_INVALID_SIZE
     else do { (e, rx) \<leftarrow> spi_action sv ((REG_FIFO OR 0x80) # take n d); State_Monad.return e })"
  by (simp add: lora_write_fifo_def lora_transfer_def case_prod_unfold)

definition lora_radio_is_ready :: "('h, 'q, 'r) radio \<Rightarrow> bool" where
  "lora_radio_is_ready s \<longleftrightarrow> lora_state s = RADIO_STATE_RX"

definition lora_radio_get_state :: "('h, 'q, 'r) radio \<Rightarrow> radio_state_t" where
  "lora_radio_get_state s = lora_state s"

subsection \<open>Channel activity detection\<close>

text \<open>One turn of the loop: Some answer when the function returns from inside it.\<close>

definition cad_attempt :: "('h, 'q, 'r) radio_services \<Rightarrow> nat \<Rightarrow> ('h, 'q, 'r, bool option) radio_op" where
  "cad_attempt sv attempt = do {
     e \<leftarrow> lora_set_mode sv MODE_STDBY;
     if e \<noteq> ESP_OK then do { lora_enter_fault_internal ''CAD standby failed''; State_Monad.return (Some False) }
     else do {
       ok \<leftarrow> all_ok [lora_write_reg sv REG_DIO_MAPPING_1 0x80, lora_write_reg sv REG_IRQ_FLAGS 0xFF];
       if \<not> ok then do { lora_enter_fault_internal ''CAD setup SPI failure''; State_Monad.return (Some False) }
       else do {
         e \<leftarrow> lora_set_mode sv 0x07;
         if e \<noteq> ESP_OK then do { lora_enter_fault_internal ''CAD mode failed''; State_Monad.return (Some False) }
         else do {
           delay_action sv (pdMS_TO_TICKS 10);
           (e, irq_flags) \<leftarrow> lora_read_reg sv REG_IRQ_FLAGS;
           ok \<leftarrow> (if e = ESP_OK then all_ok [lora_write_reg sv REG_IRQ_FLAGS 0xFF] else State_Monad.return False);
           if \<not> ok then do { lora_enter_fault_internal ''CAD read SPI failure''; State_Monad.return (Some False) }
           else do {
             e \<leftarrow> lora_set_mode sv MODE_STDBY;
             if e \<noteq> ESP_OK then do { lora_enter_fault_internal ''CAD exit standby failed''; State_Monad.return (Some False) }
             else if irq_flags AND IRQ_CAD_DONE_MASK \<noteq> 0 \<and> irq_flags AND IRQ_CAD_DETECTED_MASK = 0
             then do { lora_set_state RADIO_STATE_RX; State_Monad.return (Some True) }
             else do { delay_action sv (pdMS_TO_TICKS (20 + attempt * 30)); State_Monad.return None } } } } } }"

primrec cad_loop :: "('h, 'q, 'r) radio_services \<Rightarrow> nat list \<Rightarrow> ('h, 'q, 'r, bool) radio_op" where
  "cad_loop sv [] = do { lora_set_state RADIO_STATE_RX; State_Monad.return False }"
| "cad_loop sv (a # as) = do {
     r \<leftarrow> cad_attempt sv a;
     (case r of Some b \<Rightarrow> State_Monad.return b | None \<Rightarrow> cad_loop sv as) }"

definition lora_channel_clear :: "('h, 'q, 'r) radio_services \<Rightarrow> ('h, 'q, 'r, bool) radio_op" where
  "lora_channel_clear sv = do {
     ready \<leftarrow> reads lora_radio_is_ready;
     if \<not> ready then State_Monad.return False
     else do { lora_set_state RADIO_STATE_CAD; cad_loop sv [0, 1, 2] } }"

subsection \<open>Bringing the chip up, and recovery\<close>

definition lora_set_frequency :: "('h, 'q, 'r) radio_services \<Rightarrow> 64 word \<Rightarrow> ('h, 'q, 'r, unit) radio_op" where
  "lora_set_frequency sv frequency_hz = do {
     let frf = push_bit 19 frequency_hz div 32000000;
     _ \<leftarrow> lora_write_reg sv REG_FRF_MSB (ucast (drop_bit 16 frf));
     _ \<leftarrow> lora_write_reg sv REG_FRF_MID (ucast (drop_bit 8 frf));
     _ \<leftarrow> lora_write_reg sv REG_FRF_LSB (ucast frf);
     State_Monad.return () }"

definition lora_receive_mode :: "('h, 'q, 'r) radio_services \<Rightarrow> ('h, 'q, 'r, unit) radio_op" where
  "lora_receive_mode sv = do {
     _ \<leftarrow> lora_write_reg sv REG_DIO_MAPPING_1 0x00;
     _ \<leftarrow> lora_write_reg sv REG_IRQ_FLAGS 0xFF;
     _ \<leftarrow> lora_set_mode sv MODE_RX_CONTINUOUS;
     lora_set_state RADIO_STATE_RX }"

definition lora_radio_apply_defaults :: "('h, 'q, 'r) radio_services \<Rightarrow> ('h, 'q, 'r, esp_err_t) radio_op" where
  "lora_radio_apply_defaults sv = do {
     (e, version) \<leftarrow> lora_read_reg sv REG_VERSION;
     if e \<noteq> ESP_OK \<or> version \<noteq> 0x12 then State_Monad.return ESP_FAIL
     else do {
       e \<leftarrow> lora_set_mode sv MODE_SLEEP;
       if e \<noteq> ESP_OK then State_Monad.return ESP_FAIL
       else do {
         delay_action sv (pdMS_TO_TICKS 10);
         lora_set_frequency sv LORA_FREQUENCY_HZ;
         ok \<leftarrow> all_ok [lora_write_reg sv REG_FIFO_TX_BASE_ADDR 0x00, lora_write_reg sv REG_FIFO_RX_BASE_ADDR 0x00];
         if \<not> ok then State_Monad.return ESP_FAIL
         else do {
           (e, version) \<leftarrow> lora_read_reg sv REG_LNA;
           if e \<noteq> ESP_OK then State_Monad.return ESP_FAIL
           else do {
             ok \<leftarrow> all_ok [lora_write_reg sv REG_LNA (version OR 0x03),
               lora_write_reg sv REG_MODEM_CONFIG_1 LORA_MODEM_CONFIG_1,
               lora_write_reg sv REG_MODEM_CONFIG_2 LORA_MODEM_CONFIG_2,
               lora_write_reg sv REG_MODEM_CONFIG_3 LORA_MODEM_CONFIG_3,
               lora_write_reg sv REG_PREAMBLE_MSB 0x00, lora_write_reg sv REG_PREAMBLE_LSB 0x08,
               lora_write_reg sv REG_SYNC_WORD 0x12, lora_write_reg sv REG_PA_CONFIG 0x8F];
             State_Monad.return (if ok then ESP_OK else ESP_FAIL) } } } } }"

definition lora_radio_bring_up :: "('h, 'q, 'r) radio_services \<Rightarrow> ('h, 'q, 'r, bool) radio_op" where
  "lora_radio_bring_up sv = do {
     e \<leftarrow> lora_radio_apply_defaults sv;
     if e \<noteq> ESP_OK then State_Monad.return False
     else do { lora_receive_mode sv; State_Monad.return True } }"

definition lora_radio_reset :: "('h, 'q, 'r) radio_services \<Rightarrow> ('h, 'q, 'r, esp_err_t) radio_op" where
  "lora_radio_reset sv = do {
     lora_set_state RADIO_STATE_RECOVERING;
     reset_action sv False;
     delay_action sv (pdMS_TO_TICKS 10);
     reset_action sv True;
     delay_action sv (pdMS_TO_TICKS 20);
     State_Monad.return ESP_OK }"

definition lora_radio_recover :: "('h, 'q, 'r) radio_services \<Rightarrow> ('h, 'q, 'r, bool) radio_op" where
  "lora_radio_recover sv = do {
     attempts \<leftarrow> reads lora_recovery_attempts;
     if attempts \<ge> 3 then do { lora_set_state RADIO_STATE_FAULT; State_Monad.return False }
     else do {
       modifies (\<lambda>s. s\<lparr>lora_recovery_attempts := lora_recovery_attempts s + 1\<rparr>);
       lora_enter_fault_internal ''recovering'';
       e \<leftarrow> lora_radio_reset sv;
       if e \<noteq> ESP_OK then do { lora_set_state RADIO_STATE_FAULT; State_Monad.return False }
       else do {
         up \<leftarrow> lora_radio_bring_up sv;
         if \<not> up then do { lora_set_state RADIO_STATE_FAULT; State_Monad.return False }
         else do {
           modifies (\<lambda>s. s\<lparr>lora_recovery_attempts := 0\<rparr>);
           lora_set_state RADIO_STATE_RX;
           State_Monad.return True } } } }"

definition lora_radio_health_check :: "('h, 'q, 'r) radio_services \<Rightarrow> ('h, 'q, 'r, bool) radio_op" where
  "lora_radio_health_check sv = do {
     st \<leftarrow> reads lora_state;
     if st = RADIO_STATE_UNINITIALIZED \<or> st = RADIO_STATE_FAULT then State_Monad.return False
     else do {
       (e, version) \<leftarrow> lora_read_reg sv REG_VERSION;
       if e \<noteq> ESP_OK \<or> version \<noteq> 0x12 then do { lora_enter_fault_internal ''health check failed''; State_Monad.return False }
       else State_Monad.return True } }"

subsection \<open>Receiving\<close>

text \<open>\<open>(int8_t)flags / 4\<close>: C division rounds towards zero.\<close>

definition snr_value :: "u8 \<Rightarrow> int" where
  "snr_value flags = (let v = sint flags in if v < 0 then - ((- v) div 4) else v div 4)"

text \<open>The answer is Some (payload, length, rssi, snr) where the source returns true.\<close>

definition lora_read_raw_frame ::
  "('h, 'q, 'r) radio_services \<Rightarrow> bytes \<Rightarrow> ('h, 'q, 'r, (bytes \<times> nat \<times> int \<times> int) option) radio_op" where
  "lora_read_raw_frame sv payload = do {
     (e, flags) \<leftarrow> lora_read_reg sv REG_IRQ_FLAGS;
     if e \<noteq> ESP_OK then do { lora_enter_fault_internal ''RX IRQ read failed''; State_Monad.return None }
     else if flags AND IRQ_RX_DONE_MASK = 0 then State_Monad.return None
     else do {
       e \<leftarrow> lora_write_reg sv REG_IRQ_FLAGS 0xFF;
       if e \<noteq> ESP_OK then do { lora_enter_fault_internal ''RX IRQ clear failed''; State_Monad.return None }
       else if flags AND IRQ_PAYLOAD_CRC_ERROR_MASK \<noteq> 0 then State_Monad.return None
       else do {
         (e, frame_length) \<leftarrow> lora_read_reg sv REG_RX_NB_BYTES;
         if e \<noteq> ESP_OK then State_Monad.return None
         else do {
           (e, current_addr) \<leftarrow> lora_read_reg sv REG_FIFO_RX_CURRENT_ADDR;
           if e \<noteq> ESP_OK then State_Monad.return None
           else do {
             (e, flags) \<leftarrow> lora_read_reg sv REG_PKT_RSSI_VALUE;
             if e \<noteq> ESP_OK then State_Monad.return None
             else do {
               let rssi = uint flags - 164;
               (e, flags) \<leftarrow> lora_read_reg sv REG_PKT_SNR_VALUE;
               if e \<noteq> ESP_OK then State_Monad.return None
               else do {
                 let snr = snr_value flags;
                 e \<leftarrow> lora_write_reg sv REG_FIFO_ADDR_PTR current_addr;
                 if e \<noteq> ESP_OK then State_Monad.return None
                 else do {
                   (e, payload) \<leftarrow> lora_read_fifo sv payload (unat frame_length);
                   if e \<noteq> ESP_OK then State_Monad.return None
                   else State_Monad.return
                     (Some (payload[unat frame_length := 0], unat frame_length, rssi, snr)) } } } } } } } }"

text \<open>
  One turn of the receive task after its wait on DIO0 ended: the frame it hands to
  \<open>lora_handle_rx_packet\<close>, if any.
\<close>

definition lora_rx_task_round ::
  "('h, 'q, 'r) radio_services \<Rightarrow> bytes \<Rightarrow> ('h, 'q, 'r, (bytes \<times> nat \<times> int \<times> int) option) radio_op" where
  "lora_rx_task_round sv payload = do {
     (e, irq_flags) \<leftarrow> lora_read_reg sv REG_IRQ_FLAGS;
     if e \<noteq> ESP_OK then State_Monad.return None
     else do {
       st \<leftarrow> reads lora_state;
       if irq_flags AND IRQ_TX_DONE_MASK \<noteq> 0 \<and> st \<noteq> RADIO_STATE_RX then State_Monad.return None
       else if irq_flags AND IRQ_TX_DONE_MASK \<noteq> 0
       then do { _ \<leftarrow> lora_write_reg sv REG_IRQ_FLAGS IRQ_TX_DONE_MASK; State_Monad.return None }
       else if irq_flags AND IRQ_RX_DONE_MASK = 0 then State_Monad.return None
       else do {
         callback \<leftarrow> reads lora_read_frame_callback;
         if st = RADIO_STATE_RX \<and> callback then lora_read_raw_frame sv payload
         else State_Monad.return None } } }"

subsection \<open>Transmitting\<close>

definition lora_transmit_raw_frame ::
  "('h, 'q, 'r) radio_services \<Rightarrow> bytes \<Rightarrow> nat \<Rightarrow> ('h, 'q, 'r, bool) radio_op" where
  "lora_transmit_raw_frame sv frame n =
    all_ok [lora_write_reg sv REG_DIO_MAPPING_1 0x40, lora_write_reg sv REG_IRQ_FLAGS 0xFF,
      lora_write_reg sv REG_FIFO_ADDR_PTR 0x00, lora_write_fifo sv frame n,
      lora_write_reg sv REG_PAYLOAD_LENGTH (of_nat n)]"

definition lora_encrypt_air_frame ::
  "('k, 'o) psa_api \<Rightarrow> crypto_config \<Rightarrow> u32 \<Rightarrow> u32 \<Rightarrow> bytes \<Rightarrow> bytes \<Rightarrow> (bytes \<times> nat) option" where
  "lora_encrypt_air_frame psa cfg r0 r1 plain_packet air_frame =
    (if length plain_packet = 0 \<or> length plain_packet > BEMS_MAX_PLAINTEXT then None
     else bems_encrypt_frame psa cfg r0 r1 plain_packet air_frame)"

text \<open>The encryption reads the node's configuration and two random words; \<open>air\<close> is the
  uninitialised local frame buffer.\<close>

record ('k, 'o) tx_crypto =
  tc_psa :: "('k, 'o) psa_api"
  tc_config :: crypto_config
  tc_random :: "u32 \<times> u32"
  tc_air :: bytes

definition lora_execute_tx ::
  "('h, 'q, 'r) radio_services \<Rightarrow> ('k, 'o) tx_crypto \<Rightarrow> lora_tx_request_t \<Rightarrow> lora_tx_result_t \<Rightarrow>
   ('h, 'q, 'r, lora_tx_result_code_t \<times> lora_tx_result_t) radio_op" where
  "lora_execute_tx sv tc request result = do {
     ready \<leftarrow> reads lora_radio_is_ready;
     if \<not> ready then State_Monad.return (LORA_TX_RESULT_RADIO_FAULT, result)
     else (case lora_encrypt_air_frame (tc_psa tc) (tc_config tc) (fst (tc_random tc)) (snd (tc_random tc))
                  (take (rq_packet_len request) (rq_packet request)) (tc_air tc) of
       None \<Rightarrow> State_Monad.return (LORA_TX_RESULT_ABORTED, result)
     | Some (air_frame, air_len) \<Rightarrow> do {
       clear \<leftarrow> lora_channel_clear sv;
       if \<not> clear then State_Monad.return (LORA_TX_RESULT_CHANNEL_BUSY, result)
       else do {
         _ \<leftarrow> dio0_action sv 0;
         lora_set_state RADIO_STATE_TX;
         sent \<leftarrow> lora_transmit_raw_frame sv air_frame air_len;
         if \<not> sent then do {
           lora_receive_mode sv;
           lora_enter_fault_internal ''TX frame write failed'';
           _ \<leftarrow> lora_radio_recover sv;
           State_Monad.return (LORA_TX_RESULT_SPI_ERROR, result) }
         else do {
           e \<leftarrow> lora_set_mode sv MODE_TX;
           if e \<noteq> ESP_OK then do {
             lora_enter_fault_internal ''TX mode set failed'';
             _ \<leftarrow> lora_radio_recover sv;
             State_Monad.return (LORA_TX_RESULT_SPI_ERROR, result) }
           else do {
             woken \<leftarrow> dio0_action sv (pdMS_TO_TICKS 5000);
             if woken then do {
               (e, irq_flags) \<leftarrow> lora_read_reg sv REG_IRQ_FLAGS;
               if e \<noteq> ESP_OK \<or> irq_flags AND IRQ_TX_DONE_MASK = 0 then do {
                 lora_enter_fault_internal ''unexpected DIO0 event during TX'';
                 _ \<leftarrow> lora_radio_recover sv;
                 State_Monad.return (LORA_TX_RESULT_SPI_ERROR, result) }
               else do {
                 _ \<leftarrow> lora_write_reg sv REG_IRQ_FLAGS IRQ_TX_DONE_MASK;
                 lora_receive_mode sv;
                 State_Monad.return (LORA_TX_RESULT_SUCCESS, result\<lparr>rr_airtime_ms := 0, rr_rssi := 0, rr_snr := 0\<rparr>) } }
             else do {
               lora_enter_fault_internal ''TX timeout'';
               _ \<leftarrow> lora_radio_recover sv;
               lora_receive_mode sv;
               State_Monad.return (LORA_TX_RESULT_TIMEOUT, result) } } } } }) }"

subsection \<open>Requests, results and the transmit task\<close>

definition lora_tx_queue_index :: "lora_tx_priority_t \<Rightarrow> nat" where
  "lora_tx_queue_index p = (if p = LORA_TX_PRIORITY_HIGH then 0 else if p = LORA_TX_PRIORITY_LOW then 2 else 1)"

definition lora_tx_submit ::
  "('h, 'q, 'r) radio_services \<Rightarrow> lora_tx_request_t option \<Rightarrow> ('h, 'q, 'r, esp_err_t) radio_op" where
  "lora_tx_submit sv request = (case request of None \<Rightarrow> State_Monad.return ESP_ERR_INVALID_ARG
   | Some rq \<Rightarrow>
     if rq_packet_len rq = 0 \<or> rq_packet_len rq > BEMS_MAX_PLAINTEXT \<or> rq_packet_len rq > LORA_MAX_PAYLOAD
     then State_Monad.return ESP_ERR_INVALID_ARG
     else do {
       let i = lora_tx_queue_index (rq_priority rq);
       qs \<leftarrow> reads lora_tx_request_queues;
       (case qs ! i of None \<Rightarrow> State_Monad.return ESP_ERR_INVALID_STATE
        | Some q \<Rightarrow> (case xQueueSend (request_api sv) rq q of (sent, q') \<Rightarrow> do {
            modifies (\<lambda>s. s\<lparr>lora_tx_request_queues := qs[i := Some q']\<rparr>);
            State_Monad.return (if sent then ESP_OK else ESP_ERR_TIMEOUT) })) })"

text \<open>\<open>now\<close> is the tick count and \<open>random\<close> the random number read.\<close>

definition lora_radio_submit ::
  "('h, 'q, 'r) radio_services \<Rightarrow> u32 \<Rightarrow> u32 \<Rightarrow> bytes option \<Rightarrow> nat \<Rightarrow> lora_tx_priority_t \<Rightarrow>
   ('h, 'q, 'r, bool) radio_op" where
  "lora_radio_submit sv random now packet n priority = do {
     st \<leftarrow> reads lora_state;
     if st \<noteq> RADIO_STATE_RX then State_Monad.return False
     else (case packet of None \<Rightarrow> State_Monad.return False
       | Some p \<Rightarrow>
         if n = 0 \<or> n > BEMS_MAX_PLAINTEXT \<or> n > LORA_MAX_PAYLOAD then State_Monad.return False
         else do {
           e \<leftarrow> lora_tx_submit sv (Some \<lparr>rq_request_id = random, rq_message_id = 0,
             rq_packet = blit (zeros LORA_MAX_PAYLOAD) 0 (take n p), rq_packet_len = n, rq_priority = priority,
             rq_submitted_at_ms = now * portTICK_PERIOD_MS, rq_require_result = True\<rparr>);
           State_Monad.return (e = ESP_OK) }) }"

definition lora_transmit_bytes_priority ::
  "('h, 'q, 'r) radio_services \<Rightarrow> u32 \<Rightarrow> u32 \<Rightarrow> bytes option \<Rightarrow> nat \<Rightarrow> lora_tx_priority_t \<Rightarrow>
   ('h, 'q, 'r, bool) radio_op" where
  "lora_transmit_bytes_priority sv random now packet packet_len priority =
    lora_radio_submit sv random now packet packet_len priority"

definition lora_transmit_bytes ::
  "('h, 'q, 'r) radio_services \<Rightarrow> u32 \<Rightarrow> u32 \<Rightarrow> bytes option \<Rightarrow> nat \<Rightarrow> ('h, 'q, 'r, bool) radio_op" where
  "lora_transmit_bytes sv random now packet packet_len =
    lora_transmit_bytes_priority sv random now packet packet_len LORA_TX_PRIORITY_NORMAL"

definition lora_transmit ::
  "('h, 'q, 'r) radio_services \<Rightarrow> u32 \<Rightarrow> u32 \<Rightarrow> bytes option \<Rightarrow> ('h, 'q, 'r, bool) radio_op" where
  "lora_transmit sv random now packet = (case packet of None \<Rightarrow> State_Monad.return False
   | Some p \<Rightarrow> lora_radio_submit sv random now packet (strlen p) LORA_TX_PRIORITY_NORMAL)"

text \<open>Which queue the task serves, with the two streak counters (\<open>uint8_t\<close>, they wrap).\<close>

definition lora_tx_select :: "bool \<Rightarrow> bool \<Rightarrow> bool \<Rightarrow> u8 \<times> u8 \<Rightarrow> nat option \<times> u8 \<times> u8" where
  "lora_tx_select high_waiting normal_waiting low_waiting streaks = (case streaks of (high, normal) \<Rightarrow>
    if low_waiting \<and> (high \<ge> 4 \<or> normal \<ge> 3) then (Some 2, 0, 0)
    else if normal_waiting \<and> high \<ge> 4 then (Some 1, 0, normal + 1)
    else if high_waiting then (Some 0, high + 1, normal)
    else if normal_waiting then (Some 1, 0, normal + 1)
    else if low_waiting then (Some 2, 0, 0)
    else (None, high, normal))"

definition lora_tx_result_zero :: lora_tx_result_t where
  "lora_tx_result_zero = \<lparr>rr_request_id = 0, rr_message_id = 0, rr_result = LORA_TX_RESULT_SUCCESS,
     rr_started_at_ms = 0, rr_completed_at_ms = 0, rr_airtime_ms = 0, rr_rssi = 0, rr_snr = 0\<rparr>"

text \<open>
  One turn of the transmit task; \<open>t0\<close> and \<open>t1\<close> are the tick counts it reads
  before and after the transmission. The answer is the result it made, None when it only
  waited. The task runs only when all three queues exist.
\<close>

definition queue_waiting :: "('h, 'q, 'r) radio_services \<Rightarrow> 'q option list \<Rightarrow> nat \<Rightarrow> bool" where
  "queue_waiting sv qs i = (case qs ! i of None \<Rightarrow> False | Some q \<Rightarrow> uxQueueMessagesWaiting sv q > 0)"

definition lora_tx_serve ::
  "('h, 'q, 'r) radio_services \<Rightarrow> ('k, 'o) tx_crypto \<Rightarrow> u32 \<Rightarrow> u32 \<Rightarrow> lora_tx_request_t \<Rightarrow>
   ('h, 'q, 'r, lora_tx_result_t) radio_op" where
  "lora_tx_serve sv tc t0 t1 request = do {
     (code, result) \<leftarrow> lora_execute_tx sv tc request
       (lora_tx_result_zero\<lparr>rr_request_id := rq_request_id request, rr_message_id := rq_message_id request,
          rr_started_at_ms := t0 * portTICK_PERIOD_MS\<rparr>);
     let result = result\<lparr>rr_result := code, rr_completed_at_ms := t1 * portTICK_PERIOD_MS\<rparr>;
     modifies (\<lambda>s. case lora_tx_result_queue s of None \<Rightarrow> s
       | Some q \<Rightarrow> s\<lparr>lora_tx_result_queue := Some (snd (xQueueSend (result_api sv) result q))\<rparr>);
     State_Monad.return result }"

definition lora_tx_task_round ::
  "('h, 'q, 'r) radio_services \<Rightarrow> ('k, 'o) tx_crypto \<Rightarrow> u32 \<Rightarrow> u32 \<Rightarrow>
   ('h, 'q, 'r, lora_tx_result_t option) radio_op" where
  "lora_tx_task_round sv tc t0 t1 = do {
     qs \<leftarrow> reads lora_tx_request_queues;
     streaks \<leftarrow> reads (\<lambda>s. (high_streak s, normal_streak s));
     (case lora_tx_select (queue_waiting sv qs 0) (queue_waiting sv qs 1) (queue_waiting sv qs 2) streaks of
        (selected, high, normal) \<Rightarrow> do {
          modifies (\<lambda>s. s\<lparr>high_streak := high, normal_streak := normal\<rparr>);
          (case selected of None \<Rightarrow> State_Monad.return None
           | Some i \<Rightarrow> (case qs ! i of None \<Rightarrow> State_Monad.return None
             | Some q \<Rightarrow> (case xQueueReceive (request_api sv) 0 q of
                 (None, q') \<Rightarrow> do {
                   modifies (\<lambda>s. s\<lparr>lora_tx_request_queues := qs[i := Some q']\<rparr>);
                   State_Monad.return None }
               | (Some request, q') \<Rightarrow> do {
                   modifies (\<lambda>s. s\<lparr>lora_tx_request_queues := qs[i := Some q']\<rparr>);
                   result \<leftarrow> lora_tx_serve sv tc t0 t1 request;
                   State_Monad.return (Some result) }))) }) }"

definition lora_tx_result_receive ::
  "('h, 'q, 'r) radio_services \<Rightarrow> nat \<Rightarrow> ('h, 'q, 'r, lora_tx_result_t option) radio_op" where
  "lora_tx_result_receive sv timeout_ticks = do {
     rq \<leftarrow> reads lora_tx_result_queue;
     (case rq of None \<Rightarrow> State_Monad.return None
      | Some q \<Rightarrow> (case xQueueReceive (result_api sv) timeout_ticks q of (result, q') \<Rightarrow> do {
          modifies (\<lambda>s. s\<lparr>lora_tx_result_queue := Some q'\<rparr>);
          State_Monad.return result })) }"

subsection \<open>Initialisation\<close>

text \<open>What the platform answers while the driver starts. The outcome is None where
  \<open>ESP_ERROR_CHECK\<close> aborts the firmware.\<close>

record ('q, 'r) radio_start =
  rs_reset_gpio :: esp_err_t
  rs_dio0_gpio :: esp_err_t
  rs_semaphore :: bool
  rs_mutex :: bool
  rs_isr_service :: esp_err_t
  rs_isr_handler :: esp_err_t
  rs_spi_bus :: esp_err_t
  rs_spi_device :: esp_err_t
  rs_request_queue :: "nat \<Rightarrow> 'q option"
  rs_result_queue :: "'r option"
  rs_tx_task :: bool

definition lora_radio_init ::
  "('h, 'q, 'r) radio_services \<Rightarrow> ('q, 'r) radio_start \<Rightarrow> ('h, 'q, 'r, unit option) radio_op" where
  "lora_radio_init sv a =
    (if rs_reset_gpio a \<noteq> ESP_OK \<or> rs_dio0_gpio a \<noteq> ESP_OK then State_Monad.return None
     else if \<not> rs_semaphore a then State_Monad.return (Some ())
     else if \<not> rs_mutex a then State_Monad.return (Some ())
     else if rs_isr_service a \<noteq> ESP_OK \<and> rs_isr_service a \<noteq> ESP_ERR_INVALID_STATE then State_Monad.return (Some ())
     else if rs_isr_handler a \<noteq> ESP_OK then State_Monad.return None
     else do {
       lora_set_state RADIO_STATE_INITIALIZING;
       if rs_spi_bus a \<noteq> ESP_OK \<or> rs_spi_device a \<noteq> ESP_OK then State_Monad.return None
       else do {
         e \<leftarrow> lora_radio_reset sv;
         up \<leftarrow> (if e = ESP_OK then lora_radio_bring_up sv else State_Monad.return False);
         if \<not> up then do { lora_enter_fault_internal ''Failed to initialize SX1278''; State_Monad.return (Some ()) }
         else do {
           modifies (\<lambda>s. s\<lparr>lora_read_frame_callback := True,
             lora_tx_request_queues := map (rs_request_queue a) [0, 1, 2],
             lora_tx_result_queue := rs_result_queue a\<rparr>);
           modifies (\<lambda>s. if (\<forall>q \<in> set (lora_tx_request_queues s). q \<noteq> None) \<and> lora_tx_result_queue s \<noteq> None
             then s\<lparr>lora_tx_task_handle := rs_tx_task a\<rparr> else s);
           lora_set_state RADIO_STATE_RX;
           State_Monad.return (Some ()) } } })"

end
