(* ===== verification/Lora_Radio_Props.thy ===== *)
theory Lora_Radio_Props
  imports Lora_Radio
begin

text \<open>
  What the radio driver guarantees whatever the bus answers. \<open>wp\<close> is the weakest
  precondition of a driver program; the rules below replace each call to the environment by
  an arbitrary answer, so every property holds for every chip, bus and scheduler.
\<close>

unbundle bit_operations_syntax

subsection \<open>Weakest preconditions\<close>

definition wp :: "('s, 'a) state \<Rightarrow> ('a \<Rightarrow> 's \<Rightarrow> bool) \<Rightarrow> 's \<Rightarrow> bool" where
  "wp m Q s = (case run_state m s of (a, s') \<Rightarrow> Q a s')"

named_theorems wp_rules

lemma wp_return [simp]: "wp (State_Monad.return a) Q = Q a" by (rule ext) (simp add: wp_def)
lemma wp_bind [simp]: "wp (State_Monad.bind m f) Q = wp m (\<lambda>a. wp (f a) Q)"
  by (rule ext) (simp add: wp_def split: prod.splits)
lemma wp_reads [simp]: "wp (reads f) Q s = Q (f s) s" by (simp add: wp_def reads_def)
lemma wp_modifies [simp]: "wp (modifies f) Q s = Q () (f s)" by (simp add: wp_def modifies_def)
lemma wp_if [simp]: "wp (if b then m else n) Q s = (if b then wp m Q s else wp n Q s)" by simp
lemma wp_set_state [simp]: "wp (lora_set_state st) Q s = Q () (s\<lparr>lora_state := st\<rparr>)" by (simp add: lora_set_state_def)
lemma wp_enter_fault [simp]: "wp (lora_enter_fault_internal reason) Q s = Q () (s\<lparr>lora_state := RADIO_STATE_FAULT\<rparr>)"
  by (simp add: lora_enter_fault_internal_def)

lemma wp_mono: "wp m Q s \<Longrightarrow> (\<And>a s'. Q a s' \<Longrightarrow> Q' a s') \<Longrightarrow> wp m Q' s"
  by (simp add: wp_def split: prod.splits)

lemma wp_run: "run_state m s = (a, s') \<Longrightarrow> wp m Q s \<Longrightarrow> Q a s'" by (simp add: wp_def)

lemma wp_spi [wp_rules]:
  "(\<And>e rx h. Q (e, rx) (s\<lparr>radio_env := h, radio_trace := radio_trace s @ [Spi_Transfer tx e rx]\<rparr>)) \<Longrightarrow>
   wp (spi_action sv tx) Q s"
  by (simp add: wp_def spi_action_def split: prod.splits)

lemma wp_reset_action [wp_rules]:
  "(\<And>h. Q () (s\<lparr>radio_env := h, radio_trace := radio_trace s @ [Rst_Level b]\<rparr>)) \<Longrightarrow> wp (reset_action sv b) Q s"
  by (simp add: reset_action_def)

lemma wp_delay [wp_rules]:
  "(\<And>h. Q () (s\<lparr>radio_env := h, radio_trace := radio_trace s @ [Task_Delay t]\<rparr>)) \<Longrightarrow> wp (delay_action sv t) Q s"
  by (simp add: delay_action_def)

lemma wp_dio0 [wp_rules]:
  "(\<And>b h. Q b (s\<lparr>radio_env := h\<rparr>)) \<Longrightarrow> wp (dio0_action sv t) Q s"
  by (simp add: wp_def dio0_action_def split: prod.splits)

lemma wp_write_reg [wp_rules]:
  "(\<And>e rx h. Q e (s\<lparr>radio_env := h, radio_trace := radio_trace s @ [Spi_Transfer [a OR 0x80, v] e rx]\<rparr>)) \<Longrightarrow>
   wp (lora_write_reg sv a v) Q s"
  unfolding lora_write_reg_def lora_transfer_def by (auto intro: wp_spi)

lemma wp_set_mode [wp_rules]:
  "(\<And>e rx h. Q e (s\<lparr>radio_env := h, radio_trace := radio_trace s @ [Spi_Transfer [0x81, 0x80 OR m] e rx]\<rparr>)) \<Longrightarrow>
   wp (lora_set_mode sv m) Q s"
  unfolding lora_set_mode_def radio_regs radio_modes
  by (rule wp_write_reg) simp

lemma wp_read_reg [wp_rules]:
  "(\<And>e rx v h. Q (e, v) (s\<lparr>radio_env := h, radio_trace := radio_trace s @ [Spi_Transfer [a AND 0x7F, 0] e rx]\<rparr>)) \<Longrightarrow>
   wp (lora_read_reg sv a) Q s"
  unfolding lora_read_reg_def lora_transfer_def by (auto simp: zeros_def intro!: wp_spi)

lemma wp_write_fifo [wp_rules]:
  assumes "n \<le> 255"
    "\<And>e rx h. Q e (s\<lparr>radio_env := h, radio_trace := radio_trace s @ [Spi_Transfer (0x80 # take n d) e rx]\<rparr>)"
  shows "wp (lora_write_fifo sv d n) Q s"
  using assms unfolding lora_write_fifo_def lora_transfer_def radio_regs by (auto intro!: wp_spi)

subsection \<open>What the trace says\<close>

text \<open>
  The view of the chip that the transfers acknowledged by the bus give: the operating mode
  last commanded (None after a reset), the bytes last loaded into the FIFO, the payload
  length, and the frames sent so far (the loaded bytes at each command of the TX mode).
\<close>

record wire_view =
  wv_mode :: "u8 option"
  wv_fifo :: bytes
  wv_len :: u8
  wv_sent :: "bytes list"

fun wire_step :: "radio_event \<Rightarrow> wire_view \<Rightarrow> wire_view" where
  "wire_step (Spi_Transfer (a # d) e rx) w =
    (if e \<noteq> ESP_OK then w
     else if a = 0x80 then w\<lparr>wv_fifo := d\<rparr>
     else if a = 0xA2 then w\<lparr>wv_len := hd d\<rparr>
     else if a = 0x81 then w\<lparr>wv_mode := Some (hd d),
       wv_sent := (if hd d = 0x83 then wv_sent w @ [take (unat (wv_len w)) (wv_fifo w)] else wv_sent w)\<rparr>
     else w)"
| "wire_step (Rst_Level b) w = w\<lparr>wv_mode := None\<rparr>"
| "wire_step ev w = w"

definition wire :: "radio_event list \<Rightarrow> wire_view" where
  "wire tr = fold wire_step tr \<lparr>wv_mode = None, wv_fifo = [], wv_len = 0, wv_sent = []\<rparr>"

lemma wire_append [simp]: "wire (tr @ evs) = fold wire_step evs (wire tr)" by (simp add: wire_def)

text \<open>What the bus traffic leaves alone.\<close>

definition tasks :: "('h, 'q, 'r) radio \<Rightarrow> 'q option list \<times> 'r option \<times> bool \<times> bool \<times> u8 \<times> u8" where
  "tasks s = (lora_tx_request_queues s, lora_tx_result_queue s, lora_tx_task_handle s, lora_read_frame_callback s,
     high_streak s, normal_streak s)"

lemma tasks_updates [simp]:
  "tasks (s\<lparr>radio_env := h\<rparr>) = tasks s" "tasks (s\<lparr>radio_trace := tr\<rparr>) = tasks s"
  "tasks (s\<lparr>lora_state := st\<rparr>) = tasks s" "tasks (s\<lparr>lora_recovery_attempts := n\<rparr>) = tasks s"
  by (simp_all add: tasks_def)

definition silent :: "('h, 'q, 'r) radio \<Rightarrow> ('h, 'q, 'r) radio \<Rightarrow> bool" where
  "silent s s' \<longleftrightarrow> wv_sent (wire (radio_trace s')) = wv_sent (wire (radio_trace s)) \<and> tasks s' = tasks s"

abbreviation mode_of :: "('h, 'q, 'r) radio \<Rightarrow> u8 option" where
  "mode_of s \<equiv> wv_mode (wire (radio_trace s))"

lemma wp_receive_mode [wp_rules]:
  assumes "\<And>s'. silent s s' \<Longrightarrow> lora_state s' = RADIO_STATE_RX \<Longrightarrow>
    lora_recovery_attempts s' = lora_recovery_attempts s \<Longrightarrow> Q () s'"
  shows "wp (lora_receive_mode sv) Q s"
  unfolding lora_receive_mode_def
  by (auto simp: radio_regs radio_modes silent_def intro!: wp_rules assms)

lemma wp_set_frequency [wp_rules]:
  assumes "\<And>h tr. wire tr = wire (radio_trace s) \<Longrightarrow> Q () (s\<lparr>radio_env := h, radio_trace := tr\<rparr>)"
  shows "wp (lora_set_frequency sv f) Q s"
  unfolding lora_set_frequency_def Let_def
  by (auto simp: radio_regs intro!: wp_rules assms)

lemma wp_apply_defaults [wp_rules]:
  assumes "\<And>e h tr. wv_sent (wire tr) = wv_sent (wire (radio_trace s)) \<Longrightarrow> Q e (s\<lparr>radio_env := h, radio_trace := tr\<rparr>)"
  shows "wp (lora_radio_apply_defaults sv) Q s"
  unfolding lora_radio_apply_defaults_def
  by (auto simp: radio_regs radio_modes intro!: wp_rules assms)

lemma wp_bring_up [wp_rules]:
  assumes "\<And>b s'. silent s s' \<Longrightarrow> lora_state s' = (if b then RADIO_STATE_RX else lora_state s) \<Longrightarrow>
    lora_recovery_attempts s' = lora_recovery_attempts s \<Longrightarrow> Q b s'"
  shows "wp (lora_radio_bring_up sv) Q s"
  unfolding lora_radio_bring_up_def
  by (auto simp: silent_def intro!: wp_apply_defaults wp_receive_mode assms)

lemma wp_reset [wp_rules]:
  assumes "\<And>s'. silent s s' \<Longrightarrow> lora_state s' = RADIO_STATE_RECOVERING \<Longrightarrow>
    lora_recovery_attempts s' = lora_recovery_attempts s \<Longrightarrow> Q ESP_OK s'"
  shows "wp (lora_radio_reset sv) Q s"
  unfolding lora_radio_reset_def
  by (auto simp: silent_def intro!: wp_reset_action wp_delay assms)

lemma wp_recover [wp_rules]:
  assumes "\<And>b s'. silent s s' \<Longrightarrow> lora_state s' = (if b then RADIO_STATE_RX else RADIO_STATE_FAULT) \<Longrightarrow>
    lora_recovery_attempts s' = (if b then 0 else if lora_recovery_attempts s \<ge> 3 then lora_recovery_attempts s
      else lora_recovery_attempts s + 1) \<Longrightarrow>
    (lora_recovery_attempts s \<ge> 3 \<Longrightarrow> \<not> b \<and> radio_trace s' = radio_trace s) \<Longrightarrow> Q b s'"
  shows "wp (lora_radio_recover sv) Q s"
  unfolding lora_radio_recover_def
  by (auto simp: silent_def split: if_splits intro!: wp_reset wp_bring_up assms)

lemma wp_cad_attempt [wp_rules]:
  assumes "\<And>r s'. silent s s' \<Longrightarrow> lora_recovery_attempts s' = lora_recovery_attempts s \<Longrightarrow>
    lora_state s' = (case r of None \<Rightarrow> lora_state s | Some True \<Rightarrow> RADIO_STATE_RX | Some False \<Rightarrow> RADIO_STATE_FAULT) \<Longrightarrow>
    (r \<noteq> Some False \<Longrightarrow> mode_of s' = Some 0x81) \<Longrightarrow> Q r s'"
  shows "wp (cad_attempt sv a) Q s"
  unfolding cad_attempt_def
  by (auto simp: radio_regs radio_modes silent_def intro!: wp_rules assms)

lemma wp_cad_loop:
  assumes "as \<noteq> [] \<or> mode_of s = Some 0x81"
    "\<And>b s'. silent s s' \<Longrightarrow> lora_recovery_attempts s' = lora_recovery_attempts s \<Longrightarrow>
      lora_state s' = RADIO_STATE_RX \<and> mode_of s' = Some 0x81 \<or> lora_state s' = RADIO_STATE_FAULT \<and> \<not> b \<Longrightarrow> Q b s'"
  shows "wp (cad_loop sv as) Q s"
  using assms
proof (induction as arbitrary: s)
  case (Cons a as)
  show ?case
    unfolding cad_loop.simps wp_bind
  proof (rule wp_cad_attempt)
    fix r and s' :: "('a, 'b, 'c) radio"
    assume r: "silent s s'" "lora_recovery_attempts s' = lora_recovery_attempts s"
      "lora_state s' = (case r of None \<Rightarrow> lora_state s | Some True \<Rightarrow> RADIO_STATE_RX | Some False \<Rightarrow> RADIO_STATE_FAULT)"
      "r \<noteq> Some False \<Longrightarrow> mode_of s' = Some 0x81"
    show "wp (case r of None \<Rightarrow> cad_loop sv as | Some b \<Rightarrow> State_Monad.return b) Q s'"
    proof (cases r)
      case None
      have "wp (cad_loop sv as) Q s'"
        by (rule Cons.IH) (use r None Cons.prems(2) in \<open>auto simp: silent_def\<close>)
      then show ?thesis using None by simp
    next
      case (Some b)
      have "Q b s'" by (rule Cons.prems(2)) (use r Some in \<open>auto split: if_splits bool.splits\<close>)
      then show ?thesis using Some by simp
    qed
  qed
qed (auto simp: silent_def)

lemma wp_channel_clear [wp_rules]:
  assumes "lora_state s = RADIO_STATE_RX"
    "\<And>b s'. silent s s' \<Longrightarrow> lora_recovery_attempts s' = lora_recovery_attempts s \<Longrightarrow>
      lora_state s' = RADIO_STATE_RX \<and> mode_of s' = Some 0x81 \<or> lora_state s' = RADIO_STATE_FAULT \<and> \<not> b \<Longrightarrow> Q b s'"
  shows "wp (lora_channel_clear sv) Q s"
  unfolding lora_channel_clear_def
  using assms by (auto simp: lora_radio_is_ready_def silent_def simp del: cad_loop.simps intro!: wp_cad_loop)

subsection \<open>A transmission\<close>

lemma wp_transmit_raw [wp_rules]:
  assumes "n \<le> 255"
    "\<And>b h tr. wv_sent (wire tr) = wv_sent (wire (radio_trace s)) \<Longrightarrow>
      (b \<Longrightarrow> wv_fifo (wire tr) = take n frame \<and> wv_len (wire tr) = of_nat n) \<Longrightarrow>
      Q b (s\<lparr>radio_env := h, radio_trace := tr\<rparr>)"
  shows "wp (lora_transmit_raw_frame sv frame n) Q s"
  unfolding lora_transmit_raw_frame_def
  using assms(1) by (auto simp: radio_regs intro!: wp_rules assms(2))

text \<open>How a transmission can end, by its result code; \<open>f\<close> is the encrypted frame.\<close>

fun tx_outcome :: "bytes \<Rightarrow> ('h, 'q, 'r) radio \<Rightarrow> lora_tx_result_code_t \<Rightarrow> ('h, 'q, 'r) radio \<Rightarrow> bool" where
  "tx_outcome f s LORA_TX_RESULT_SUCCESS s' \<longleftrightarrow> lora_state s' = RADIO_STATE_RX \<and>
     wv_sent (wire (radio_trace s')) = wv_sent (wire (radio_trace s)) @ [f]"
| "tx_outcome f s LORA_TX_RESULT_TIMEOUT s' \<longleftrightarrow> lora_state s' = RADIO_STATE_RX \<and>
     wv_sent (wire (radio_trace s')) = wv_sent (wire (radio_trace s)) @ [f]"
| "tx_outcome f s LORA_TX_RESULT_SPI_ERROR s' \<longleftrightarrow> lora_state s' \<in> {RADIO_STATE_RX, RADIO_STATE_FAULT} \<and>
     wv_sent (wire (radio_trace s')) \<in>
       {wv_sent (wire (radio_trace s)), wv_sent (wire (radio_trace s)) @ [f]}"
| "tx_outcome f s LORA_TX_RESULT_CHANNEL_BUSY s' \<longleftrightarrow> wv_sent (wire (radio_trace s')) = wv_sent (wire (radio_trace s)) \<and>
     (lora_state s' = RADIO_STATE_RX \<and> mode_of s' = Some 0x81 \<or> lora_state s' = RADIO_STATE_FAULT)"
| "tx_outcome f s LORA_TX_RESULT_RADIO_FAULT s' \<longleftrightarrow> lora_state s \<noteq> RADIO_STATE_RX \<and> s' = s"
| "tx_outcome f s LORA_TX_RESULT_ABORTED s' \<longleftrightarrow> False"
| "tx_outcome f s c s' \<longleftrightarrow> False"

definition request_frame :: "('k, 'o) tx_crypto \<Rightarrow> lora_tx_request_t \<Rightarrow> (bytes \<times> nat) option" where
  "request_frame tc request = lora_encrypt_air_frame (tc_psa tc) (tc_config tc) (fst (tc_random tc)) (snd (tc_random tc))
     (take (rq_packet_len request) (rq_packet request)) (tc_air tc)"

lemma request_frame_length: "request_frame tc request = Some (frame, n) \<Longrightarrow> n \<le> 255"
  by (auto simp: request_frame_def lora_encrypt_air_frame_def split: if_splits elim: encrypt_frame_eq)

lemma wp_execute_tx_sent:
  assumes "request_frame tc request = Some (frame, n)"
    "\<And>code r s'. tx_outcome (take n frame) s code s' \<Longrightarrow> tasks s' = tasks s \<Longrightarrow>
      rr_request_id r = rr_request_id result \<Longrightarrow> rr_message_id r = rr_message_id result \<Longrightarrow> Q (code, r) s'"
  shows "wp (lora_execute_tx sv tc request result) Q s"
proof -
  have n: "n \<le> 255" by (rule request_frame_length [OF assms(1)])
  then have u: "unat (of_nat n :: u8) = n" by (simp add: unat_of_nat)
  show ?thesis
    unfolding lora_execute_tx_def
    using n assms(1)
    by (auto simp: request_frame_def [symmetric] lora_radio_is_ready_def silent_def u radio_modes radio_regs
        intro!: wp_channel_clear wp_dio0 wp_transmit_raw wp_set_mode wp_read_reg wp_write_reg wp_receive_mode wp_recover assms(2))
qed

lemma wp_execute_tx_unsent:
  assumes "request_frame tc request = None"
    "Q (if lora_radio_is_ready s then LORA_TX_RESULT_ABORTED else LORA_TX_RESULT_RADIO_FAULT, result) s"
  shows "wp (lora_execute_tx sv tc request result) Q s"
  unfolding lora_execute_tx_def using assms by (auto simp: request_frame_def [symmetric])

lemma execute_tx_cases:
  assumes "run_state (lora_execute_tx sv tc request result) s = ((code, r), s')"
  obtains (sent) frame n where "request_frame tc request = Some (frame, n)" "tx_outcome (take n frame) s code s'"
      "tasks s' = tasks s" "rr_request_id r = rr_request_id result" "rr_message_id r = rr_message_id result"
  | (unsent) "request_frame tc request = None" "s' = s" "r = result"
      "code = (if lora_radio_is_ready s then LORA_TX_RESULT_ABORTED else LORA_TX_RESULT_RADIO_FAULT)"
proof (cases "request_frame tc request")
  case None
  have "wp (lora_execute_tx sv tc request result)
    (\<lambda>(c, r) t. c = (if lora_radio_is_ready s then LORA_TX_RESULT_ABORTED else LORA_TX_RESULT_RADIO_FAULT) \<and> t = s \<and> r = result) s"
    by (rule wp_execute_tx_unsent [OF None]) simp
  from wp_run [OF assms this] show ?thesis using unsent [OF None] by simp
next
  case (Some p)
  then obtain frame n where f: "request_frame tc request = Some (frame, n)" by (cases p) auto
  have "wp (lora_execute_tx sv tc request result)
    (\<lambda>(c, r) t. tx_outcome (take n frame) s c t \<and> tasks t = tasks s \<and> rr_request_id r = rr_request_id result \<and>
       rr_message_id r = rr_message_id result) s"
    by (rule wp_execute_tx_sent [OF f]) simp
  from wp_run [OF assms this] show ?thesis using sent [OF f] by simp
qed

subsection \<open>Receiving\<close>

lemma wp_read_fifo [wp_rules]:
  assumes "n \<le> 255"
    "\<And>e rx h. Q (e, if e = ESP_OK then blit buf 0 (take n (drop 1 (blit (zeros 256) 0 (take (n + 1) rx)))) else buf)
      (s\<lparr>radio_env := h, radio_trace := radio_trace s @ [Spi_Transfer (0 # zeros n) e rx]\<rparr>)"
  shows "wp (lora_read_fifo sv buf n) Q s"
proof -
  have *: "(if e = ESP_OK \<and> n > 0 then blit buf 0 (take n x) else buf) = (if e = ESP_OK then blit buf 0 (take n x) else buf)"
    for e x by (simp add: blit_def)
  have "wp (spi_action sv (0 # zeros n)) (\<lambda>(e, rx). Q (e, if e = ESP_OK \<and> n > 0
      then blit buf 0 (take n (drop 1 (blit (zeros 256) 0 (take (n + 1) rx)))) else buf)) s"
    unfolding * by (rule wp_spi) (simp only: prod.case, rule assms(2))
  then show ?thesis
    unfolding lora_read_fifo_def lora_transfer_def radio_regs using assms(1)
    by (auto simp: case_prod_unfold elim!: wp_mono)
qed

lemma snr_bounds: "- 32 \<le> snr_value v" "snr_value v \<le> 31"
proof -
  have "sint v \<ge> - 128" "sint v \<le> 127" using sint_range_size [of v] by (simp_all add: word_size)
  then show "- 32 \<le> snr_value v" "snr_value v \<le> 31" by (auto simp: snr_value_def Let_def)
qed

text \<open>A frame handed on: its length, the terminator, and that it is what the chip answered.\<close>

definition frame_read :: "bytes \<Rightarrow> ('h, 'q, 'r) radio \<Rightarrow> bytes \<times> nat \<times> int \<times> int \<Rightarrow> bool" where
  "frame_read payload s' fr \<longleftrightarrow> (case fr of (p, n, rssi, snr) \<Rightarrow>
    n \<le> 255 \<and> - 164 \<le> rssi \<and> rssi \<le> 91 \<and> - 32 \<le> snr \<and> snr \<le> 31 \<and>
    (\<exists>rx. last (radio_trace s') = Spi_Transfer (0 # zeros n) ESP_OK rx \<and>
      p = (blit payload 0 (take n (drop 1 (blit (zeros 256) 0 (take (n + 1) rx)))))[n := 0]))"

lemma u8_unat: "unat (v :: u8) \<le> 255"
proof -
  have "unat v < 2 ^ LENGTH(8)" by (rule unsigned_less)
  then show ?thesis by simp
qed

lemma u8_uint: "uint (v :: u8) \<le> 255"
  using uint_bounded [of v] by simp

lemma wp_read_raw_frame:
  assumes "lora_state s = RADIO_STATE_RX"
    "\<And>fr s'. wire (radio_trace s') = wire (radio_trace s) \<Longrightarrow> tasks s' = tasks s \<Longrightarrow>
      (fr \<noteq> None \<Longrightarrow> lora_state s' = RADIO_STATE_RX) \<Longrightarrow>
      lora_state s' \<in> {RADIO_STATE_RX, RADIO_STATE_FAULT} \<Longrightarrow> (\<And>f. fr = Some f \<Longrightarrow> frame_read payload s' f) \<Longrightarrow> Q fr s'"
  shows "wp (lora_read_raw_frame sv payload) Q s"
  unfolding lora_read_raw_frame_def
  using assms(1) snr_bounds u8_unat u8_uint
  by (auto simp: radio_regs frame_read_def intro!: wp_read_reg wp_write_reg wp_read_fifo assms(2))

lemma wp_rx_round:
  assumes "\<And>fr s'. wire (radio_trace s') = wire (radio_trace s) \<Longrightarrow> tasks s' = tasks s \<Longrightarrow>
      lora_state s' = lora_state s \<or> lora_state s' = RADIO_STATE_FAULT \<Longrightarrow>
      (\<And>f. fr = Some f \<Longrightarrow> frame_read payload s' f \<and> lora_state s = RADIO_STATE_RX) \<Longrightarrow> Q fr s'"
  shows "wp (lora_rx_task_round sv payload) Q s"
  unfolding lora_rx_task_round_def
  by (auto simp: radio_regs intro!: wp_read_reg wp_write_reg wp_read_raw_frame assms)

subsection \<open>The driver's tasks as steps\<close>

text \<open>
  What runs once the driver is up. The idle steps are the turns of the receive task and the
  calls that neither transmit nor command the chip; a driver step is one of them, a turn of the
  transmit task or a channel check. \<open>lora_radio_recover\<close> and \<open>lora_radio_reset\<close> are
  part of the interface too, but the firmware calls them inside \<open>lora_execute_tx\<close> only.
\<close>

inductive radio_idle_step :: "('h, 'q, 'r) radio_services \<Rightarrow> ('h, 'q, 'r) radio \<Rightarrow> ('h, 'q, 'r) radio \<Rightarrow> bool" for sv where
  idle_rx: "run_state (lora_rx_task_round sv payload) s = (fr, s') \<Longrightarrow> radio_idle_step sv s s'"
| idle_submit: "run_state (lora_tx_submit sv request) s = (e, s') \<Longrightarrow> radio_idle_step sv s s'"
| idle_bytes: "run_state (lora_radio_submit sv random now packet n priority) s = (b, s') \<Longrightarrow> radio_idle_step sv s s'"
| idle_result: "run_state (lora_tx_result_receive sv ticks) s = (r, s') \<Longrightarrow> radio_idle_step sv s s'"
| idle_health: "run_state (lora_radio_health_check sv) s = (b, s') \<Longrightarrow> radio_idle_step sv s s'"
| idle_enter_fault: "run_state (lora_radio_enter_fault ()) s = (u, s') \<Longrightarrow> radio_idle_step sv s s'"

inductive driver_step ::
  "('h, 'q, 'r) radio_services \<Rightarrow> ('k, 'o) tx_crypto set \<Rightarrow> ('h, 'q, 'r) radio \<Rightarrow> ('h, 'q, 'r) radio \<Rightarrow> bool" for sv tcs where
  step_idle: "radio_idle_step sv s s' \<Longrightarrow> driver_step sv tcs s s'"
| step_tx: "tc \<in> tcs \<Longrightarrow> run_state (lora_tx_task_round sv tc t0 t1) s = (r, s') \<Longrightarrow> driver_step sv tcs s s'"
| step_channel_clear: "run_state (lora_channel_clear sv) s = (b, s') \<Longrightarrow> driver_step sv tcs s s'"

inductive recovery_step :: "('h, 'q, 'r) radio_services \<Rightarrow> ('h, 'q, 'r) radio \<Rightarrow> ('h, 'q, 'r) radio \<Rightarrow> bool" for sv where
  step_reset: "run_state (lora_radio_reset sv) s = (e, s') \<Longrightarrow> recovery_step sv s s'"
| step_recover: "run_state (lora_radio_recover sv) s = (b, s') \<Longrightarrow> recovery_step sv s s'"

text \<open>Everything a user of \<open>lora_radio.h\<close> can make the driver do after its start.\<close>

inductive radio_step ::
  "('h, 'q, 'r) radio_services \<Rightarrow> ('k, 'o) tx_crypto set \<Rightarrow> ('h, 'q, 'r) radio \<Rightarrow> ('h, 'q, 'r) radio \<Rightarrow> bool" for sv tcs where
  step_driver: "driver_step sv tcs s s' \<Longrightarrow> radio_step sv tcs s s'"
| step_recovery: "recovery_step sv s s' \<Longrightarrow> radio_step sv tcs s s'"

text \<open>An idle step never commands a mode, and leaves the driver's state or faults it.\<close>

abbreviation idle_post :: "('h, 'q, 'r) radio \<Rightarrow> ('h, 'q, 'r) radio \<Rightarrow> bool" where
  "idle_post s s' \<equiv> wire (radio_trace s') = wire (radio_trace s) \<and>
     (lora_state s' = lora_state s \<or> lora_state s' = RADIO_STATE_FAULT)"

lemma wp_tx_submit: "(\<And>e. Q e s) \<Longrightarrow> (\<And>e qs. Q e (s\<lparr>lora_tx_request_queues := qs\<rparr>)) \<Longrightarrow> wp (lora_tx_submit sv rq) Q s"
  by (auto simp: lora_tx_submit_def Let_def split: option.splits prod.splits)

text \<open>
  The contract the receive task and the driver's callers share: an operation that keeps it
  neither sends nor retunes, and leaves the driver's state or faults it.
\<close>

locale idle_operation =
  fixes op :: "('h, 'q, 'r, 'a) radio_op"
  assumes idle: "wp op (\<lambda>_. idle_post s) s"
begin

lemma idle_run: "run_state op s = (a, s') \<Longrightarrow> idle_post s s'"
  by (rule wp_run [OF _ idle])

end

interpretation rx_round: idle_operation "lora_rx_task_round sv payload" for sv payload
  by unfold_locales (rule wp_rx_round, simp)

interpretation submit: idle_operation "lora_tx_submit sv request" for sv request
  by unfold_locales (rule wp_tx_submit, simp_all)

interpretation submit_bytes: idle_operation "lora_radio_submit sv random now packet n priority" for sv random now packet n priority
  by unfold_locales (auto simp: lora_radio_submit_def intro!: wp_tx_submit split: option.splits)

interpretation take_result: idle_operation "lora_tx_result_receive sv ticks" for sv ticks
  by unfold_locales (auto simp: lora_tx_result_receive_def split: option.splits prod.splits)

interpretation health: idle_operation "lora_radio_health_check sv" for sv
  by unfold_locales (auto simp: lora_radio_health_check_def radio_regs intro!: wp_read_reg)

interpretation enter_fault: idle_operation "lora_radio_enter_fault ()"
  by unfold_locales (simp add: lora_radio_enter_fault_def lora_enter_fault_internal_def lora_set_state_def)

lemmas idle_runs = rx_round.idle_run submit.idle_run submit_bytes.idle_run take_result.idle_run health.idle_run enter_fault.idle_run

lemma idle_step_post: "radio_idle_step sv s s' \<Longrightarrow> idle_post s s'"
  by (induction rule: radio_idle_step.induct) (blast dest: idle_runs)+

lemma idle_steps_post: "(radio_idle_step sv)\<^sup>*\<^sup>* s s' \<Longrightarrow> idle_post s s'"
  by (induction rule: rtranclp_induct) (auto dest: idle_step_post)

lemma tx_round_faulty:
  assumes "lora_state s = RADIO_STATE_FAULT"
  shows "wp (lora_tx_task_round sv tc t0 t1)
    (\<lambda>r s'. lora_state s' = RADIO_STATE_FAULT \<and> radio_trace s' = radio_trace s \<and>
       (\<forall>x. r = Some x \<longrightarrow> rr_result x = LORA_TX_RESULT_RADIO_FAULT)) s"
  using assms unfolding lora_tx_task_round_def lora_tx_serve_def lora_execute_tx_def
  by (auto simp: lora_radio_is_ready_def Let_def split: prod.splits option.splits)

lemma faulty_driver_step:
  assumes "driver_step sv tcs s s'" "lora_state s = RADIO_STATE_FAULT"
  shows "lora_state s' = RADIO_STATE_FAULT \<and> wire (radio_trace s') = wire (radio_trace s)"
  using assms(1)
proof cases
  case step_idle
  then show ?thesis using idle_step_post [OF step_idle] assms(2) by auto
next
  case (step_tx tc t0 t1 r)
  from wp_run [OF step_tx(2) tx_round_faulty [OF assms(2)]] show ?thesis using assms(2) by simp
next
  case (step_channel_clear b)
  then show ?thesis using assms(2) by (auto simp: lora_channel_clear_def reads_def lora_radio_is_ready_def)
qed

lemma faulty_driver_steps:
  assumes "(driver_step sv tcs)\<^sup>*\<^sup>* s s'" "lora_state s = RADIO_STATE_FAULT"
  shows "lora_state s' = RADIO_STATE_FAULT \<and> wire (radio_trace s') = wire (radio_trace s)"
  using assms by (induction rule: rtranclp_induct) (auto dest: faulty_driver_step)

subsection \<open>Which queue is served\<close>

text \<open>The choices of the transmit task over a run, given which queues are waiting at each turn.\<close>

fun selections :: "(bool \<times> bool \<times> bool) list \<Rightarrow> u8 \<times> u8 \<Rightarrow> nat option list" where
  "selections [] st = []"
| "selections ((h, n, l) # ws) st = (case lora_tx_select h n l st of (c, st') \<Rightarrow> c # selections ws st')"

text \<open>Turns LOW may still have to wait: four per turn NORMAL may take, less the current HIGH streak.\<close>

definition low_credit :: "u8 \<times> u8 \<Rightarrow> nat" where
  "low_credit st = (case st of (h, n) \<Rightarrow> if h \<ge> 4 \<or> n \<ge> 3 then 0 else (3 - unat n) * 4 - unat h)"

lemma small_word_succ: "(w :: u8) < 4 \<Longrightarrow> unat (w + 1) = unat w + 1"
  by (simp add: unat_word_ariths word_less_nat_alt)

lemma low_credit_step:
  assumes "lora_tx_select h n True st = (c, st')" "c \<noteq> Some 2"
  shows "low_credit st' < low_credit st"
proof -
  obtain a b where st: "st = (a, b)" by fastforce
  have ab: "a < 4" "b < 3" using assms st by (auto simp: lora_tx_select_def split: if_splits)
  then have u: "unat (a + 1) = unat a + 1" "unat (b + 1) = unat b + 1" "unat a < 4" "unat b < 3"
    by (simp_all add: small_word_succ word_less_nat_alt)
  have "st' = (a + 1, b) \<or> st' = (0, b + 1)" using assms st by (auto simp: lora_tx_select_def split: if_splits)
  then show ?thesis using ab u unfolding st low_credit_def
    by (auto simp: word_le_nat_alt word_less_nat_alt not_le)
qed

lemma low_credit_le: "low_credit st \<le> 12"
  by (cases st) (auto simp: low_credit_def)

lemma low_within_credit:
  "low_credit st < length ws \<Longrightarrow> list_all (\<lambda>(h, n, l). l) ws \<Longrightarrow> Some 2 \<in> set (selections ws st)"
proof (induction ws arbitrary: st)
  case (Cons w ws)
  obtain h n where w: "w = (h, n, True)" using Cons.prems(2) by (cases w) auto
  obtain c st' where c: "lora_tx_select h n True st = (c, st')" by (cases "lora_tx_select h n True st") simp
  show ?case
  proof (cases "c = Some 2")
    case False
    then have "low_credit st' < length ws" using low_credit_step [OF c] Cons.prems(1) by simp
    then show ?thesis using Cons.IH Cons.prems(2) w c by simp
  qed (simp add: w c)
qed simp

text \<open>While HIGH and LOW are waiting, NORMAL is never chosen, whatever the streaks are.\<close>

lemma crowded_choice: "lora_tx_select True n True streaks = (c, st') \<Longrightarrow> c = Some 0 \<or> c = Some 2"
  by (cases streaks) (auto simp: lora_tx_select_def split: if_splits)

lemma serve_keeps_queues:
  assumes "run_state (lora_tx_serve sv tc t0 t1 request) s = (r, s')"
  shows "lora_tx_request_queues s' = lora_tx_request_queues s"
proof -
  obtain code res u where e: "run_state (lora_execute_tx sv tc request
      (lora_tx_result_zero\<lparr>rr_request_id := rq_request_id request, rr_message_id := rq_message_id request,
        rr_started_at_ms := t0 * portTICK_PERIOD_MS\<rparr>)) s = ((code, res), u)" by (metis prod.exhaust)
  then have "tasks u = tasks s" by (cases rule: execute_tx_cases) simp_all
  then show ?thesis using assms e by (auto simp: lora_tx_serve_def Let_def modifies_def tasks_def split: option.splits)
qed

text \<open>
  What the queues promise: a message sent goes to the end, or is refused. In a crowded run the
  transmit task only takes its turn while HIGH and LOW requests are waiting.
\<close>

definition queue_appends :: "('a, 'q) queue_api \<Rightarrow> ('q \<Rightarrow> 'a list) \<Rightarrow> bool" where
  "queue_appends api contents \<longleftrightarrow> (\<forall>x q. contents (snd (xQueueSend api x q)) \<in> {contents q, contents q @ [x]})"

inductive crowded_run ::
  "('h, 'q, 'r) radio_services \<Rightarrow> ('k, 'o) tx_crypto set \<Rightarrow> ('h, 'q, 'r) radio \<Rightarrow> ('h, 'q, 'r) radio \<Rightarrow> bool" for sv tcs where
  crowded_start: "crowded_run sv tcs s s"
| crowded_idle: "crowded_run sv tcs s t \<Longrightarrow> radio_idle_step sv t u \<Longrightarrow> crowded_run sv tcs s u"
| crowded_turn: "crowded_run sv tcs s t \<Longrightarrow> tc \<in> tcs \<Longrightarrow> queue_waiting sv (lora_tx_request_queues t) 0 \<Longrightarrow>
    queue_waiting sv (lora_tx_request_queues t) 2 \<Longrightarrow> run_state (lora_tx_task_round sv tc t0 t1) t = (r, u) \<Longrightarrow> crowded_run sv tcs s u"

lemma crowded_round:
  assumes "queue_waiting sv (lora_tx_request_queues t) 0" "queue_waiting sv (lora_tx_request_queues t) 2"
    "run_state (lora_tx_task_round sv tc t0 t1) t = (r, u)"
  shows "lora_tx_request_queues u ! 1 = lora_tx_request_queues t ! 1"
proof -
  obtain c h n where c: "lora_tx_select (queue_waiting sv (lora_tx_request_queues t) 0) (queue_waiting sv (lora_tx_request_queues t) 1)
      (queue_waiting sv (lora_tx_request_queues t) 2) (high_streak t, normal_streak t) = (c, h, n)" by (metis prod_cases3)
  with crowded_choice [of "queue_waiting sv (lora_tx_request_queues t) 1"] assms(1,2) have "c = Some 0 \<or> c = Some 2" by auto
  then show ?thesis
    using assms(3) c by (auto simp: lora_tx_task_round_def reads_def modifies_def dest!: serve_keeps_queues split: option.splits prod.splits)
qed

definition grown :: "('q \<Rightarrow> 'a list) \<Rightarrow> 'q option \<Rightarrow> 'q option \<Rightarrow> bool" where
  "grown contents a b \<longleftrightarrow> (case (a, b) of (Some q, Some q') \<Rightarrow> (\<exists>new. contents q' = contents q @ new) | (None, None) \<Rightarrow> True | _ \<Rightarrow> False)"

lemma grown_refl [simp]: "grown contents a a" by (cases a) (simp_all add: grown_def)

lemma grown_trans: "grown contents a b \<Longrightarrow> grown contents b c \<Longrightarrow> grown contents a c"
  by (cases a; cases b; cases c) (auto simp: grown_def)

lemma wp_submit_grows:
  assumes "queue_appends (request_api sv) contents"
    "\<And>e t. grown contents (lora_tx_request_queues s ! 1) (lora_tx_request_queues t ! 1) \<Longrightarrow> Q e t"
  shows "wp (lora_tx_submit sv rq) Q s"
proof -
  have "grown contents (qs ! 1) (qs[i := Some q'] ! 1)" if "qs ! i = Some q" "xQueueSend (request_api sv) x q = (b, q')" for qs i q b q' x
  proof (cases "i = 1 \<and> 1 < length qs")
    case True
    have "contents q' \<in> {contents q, contents q @ [x]}"
      using assms(1) that(2) unfolding queue_appends_def by (metis snd_conv)
    then show ?thesis using that(1) True by (auto simp: grown_def)
  next
    case False
    then have "qs[i := Some q'] ! 1 = qs ! 1" by (cases "i = 1") (simp_all add: list_update_beyond)
    then show ?thesis by (simp only: grown_refl)
  qed
  then show ?thesis using assms(2) by (auto simp: lora_tx_submit_def Let_def split: option.splits prod.splits)
qed

lemma idle_grows:
  assumes "queue_appends (request_api sv) contents" "radio_idle_step sv s t"
  shows "grown contents (lora_tx_request_queues s ! 1) (lora_tx_request_queues t ! 1)"
  using assms(2)
proof cases
  case (idle_rx payload fr)
  have "wp (lora_rx_task_round sv payload) (\<lambda>_ t. tasks t = tasks s) s" by (rule wp_rx_round) simp
  from wp_run [OF idle_rx this] show ?thesis by (simp add: tasks_def)
next
  case (idle_submit request e)
  have "wp (lora_tx_submit sv request) (\<lambda>_ t. grown contents (lora_tx_request_queues s ! 1) (lora_tx_request_queues t ! 1)) s"
    by (rule wp_submit_grows [OF assms(1)])
  from wp_run [OF idle_submit this] show ?thesis .
next
  case (idle_bytes random now packet n priority b)
  have "wp (lora_radio_submit sv random now packet n priority) (\<lambda>_ t. grown contents (lora_tx_request_queues s ! 1) (lora_tx_request_queues t ! 1)) s"
    by (auto simp: lora_radio_submit_def intro!: wp_submit_grows [OF assms(1)] split: option.splits)
  from wp_run [OF idle_bytes this] show ?thesis .
next
  case (idle_result ticks r)
  have "wp (lora_tx_result_receive sv ticks) (\<lambda>_ t. lora_tx_request_queues t = lora_tx_request_queues s) s"
    by (auto simp: lora_tx_result_receive_def split: option.splits prod.splits)
  from wp_run [OF idle_result this] show ?thesis by simp
next
  case (idle_health b)
  have "wp (lora_radio_health_check sv) (\<lambda>_ t. lora_tx_request_queues t = lora_tx_request_queues s) s"
    by (auto simp: lora_radio_health_check_def radio_regs intro!: wp_read_reg)
  from wp_run [OF idle_health this] show ?thesis by simp
next
  case (idle_enter_fault u)
  have "wp (lora_radio_enter_fault ()) (\<lambda>_ t. lora_tx_request_queues t = lora_tx_request_queues s) s"
    by (simp add: lora_radio_enter_fault_def lora_enter_fault_internal_def lora_set_state_def)
  from wp_run [OF idle_enter_fault this] show ?thesis by simp
qed

subsection \<open>A chip for the examples\<close>

text \<open>
  The flag register is the whole environment: channel activity detection ends with the flags
  \<open>cad\<close>, a transmission raises TX-done, a write to the flags clears them.
\<close>

definition demo_spi :: "u8 \<Rightarrow> bytes \<Rightarrow> u8 \<Rightarrow> (esp_err_t \<times> bytes) \<times> u8" where
  "demo_spi cad tx flags =
    (if tx = [0x12, 0] then ((ESP_OK, [0, flags]), flags)
     else if tx = [0x13, 0] then ((ESP_OK, [0, 2]), flags)
     else if tx = [0x42, 0] then ((ESP_OK, [0, 0x12]), flags)
     else if tx = [0x81, 0x87] then ((ESP_OK, tx), cad)
     else if tx = [0x81, 0x83] then ((ESP_OK, tx), 0x08)
     else if take 1 tx = [0x92] then ((ESP_OK, tx), flags AND NOT (at tx 1))
     else ((ESP_OK, tx), flags))"

type_synonym demo_queues = "lora_tx_request_t list \<times> lora_tx_request_t list"
type_synonym demo_results = "lora_tx_result_t list \<times> lora_tx_result_t list"

definition demo_services :: "u8 \<Rightarrow> (u8, demo_queues, demo_results) radio_services" where
  "demo_services cad = \<lparr>spi_device_transmit = demo_spi cad, gpio_set_level = (\<lambda>b h. h), vTaskDelay = (\<lambda>t h. h),
     take_dio0 = (\<lambda>t h. (h AND 0x48 \<noteq> 0, h)), request_api = list_queue [], uxQueueMessagesWaiting = length \<circ> fst,
     result_api = list_queue []\<rparr>"

definition demo_radio :: "u8 \<Rightarrow> radio_state_t \<Rightarrow> (u8, demo_queues, demo_results) radio" where
  "demo_radio flags st = \<lparr>lora_state = st, lora_recovery_attempts = 0, lora_tx_request_queues = replicate 3 (Some ([], [])),
     lora_tx_result_queue = Some ([], []), lora_tx_task_handle = True, lora_read_frame_callback = True,
     high_streak = 0, normal_streak = 0, radio_env = flags, radio_trace = []\<rparr>"

definition demo_request :: lora_tx_request_t where
  "demo_request = \<lparr>rq_request_id = 7, rq_message_id = 0, rq_packet = lit ''HELLO'', rq_packet_len = 5,
     rq_priority = LORA_TX_PRIORITY_NORMAL, rq_submitted_at_ms = 0, rq_require_result = True\<rparr>"

definition demo_crypto :: "(bytes, bytes) tx_crypto" where
  "demo_crypto = \<lparr>tc_psa = toy_psa, tc_config = toy_config, tc_random = (1, 2), tc_air = zeros 40\<rparr>"

lemma demo_frame:
  "request_frame demo_crypto demo_request =
    Some ([66, 77, 50, 1, 1, 0, 0, 0, 2, 0, 0, 0, 88, 85, 92, 92, 95, 137] @ zeros 22, 33)"
  by code_simp

lemmas radio_run = read_reg_code write_reg_code write_fifo_code spi_action_def reads_def modifies_def delay_action_def
  dio0_action_def reset_action_def lora_set_state_def lora_enter_fault_internal_def lora_set_mode_def
  lora_channel_clear_def cad_attempt_def lora_radio_is_ready_def lora_receive_mode_def lora_transmit_raw_frame_def
  radio_regs radio_modes IRQ_TX_DONE_MASK_def IRQ_CAD_DONE_MASK_def IRQ_CAD_DETECTED_MASK_def
  IRQ_PAYLOAD_CRC_ERROR_MASK_def IRQ_RX_DONE_MASK_def demo_services_def demo_radio_def demo_spi_def at_def

lemmas tx_run = lora_execute_tx_def request_frame_def [symmetric] demo_frame radio_run

lemma demo_tx_success:
  "\<exists>r s'. run_state (lora_execute_tx (demo_services 0x04) demo_crypto demo_request lora_tx_result_zero)
     (demo_radio 0 RADIO_STATE_RX) = ((LORA_TX_RESULT_SUCCESS, r), s')"
  by (simp add: tx_run)

lemma demo_tx_busy:
  "\<exists>r s'. run_state (lora_execute_tx (demo_services 0x05) demo_crypto demo_request lora_tx_result_zero)
     (demo_radio 0 RADIO_STATE_RX) = ((LORA_TX_RESULT_CHANNEL_BUSY, r), s') \<and> lora_state s' = RADIO_STATE_RX"
  by (simp add: tx_run)

subsection \<open>Properties\<close>

text \<open>
  C10. Whatever the bus answers, a transmission puts at most one frame on the air, every node
  with the same network key decrypts that frame to the request's packet, a transmission that
  reports success did send it, and one that reports a busy channel, a faulty radio or a
  failed encryption sent nothing.
\<close>

theorem transmission_sends_packet:
  assumes "psa_ctr_inverse (tc_psa tc)"
    "run_state (lora_execute_tx sv tc request result) s = ((code, r), s')"
    "plain = take (rq_packet_len request) (rq_packet request)"
  shows "\<exists>fs. wv_sent (wire (radio_trace s')) = wv_sent (wire (radio_trace s)) @ fs \<and> length fs \<le> 1 \<and>
    (\<forall>f \<in> set fs. \<forall>out. length plain < length out \<longrightarrow>
       bems_decrypt_frame_bytes (tc_psa tc) (tc_config tc) f out = Some (blit out 0 plain, length plain)) \<and>
    (code = LORA_TX_RESULT_SUCCESS \<longrightarrow> fs \<noteq> []) \<and>
    (code \<in> {LORA_TX_RESULT_CHANNEL_BUSY, LORA_TX_RESULT_RADIO_FAULT, LORA_TX_RESULT_ABORTED} \<longrightarrow> fs = [])"
  using assms(2)
proof (cases rule: execute_tx_cases)
  case (sent frame n)
  have d: "\<forall>f \<in> set [take n frame]. \<forall>out. length plain < length out \<longrightarrow>
      bems_decrypt_frame_bytes (tc_psa tc) (tc_config tc) f out = Some (blit out 0 plain, length plain)"
    using sent(1) encrypted_frame_decrypts(1) [OF assms(1)] assms(3)
    by (auto simp: request_frame_def lora_encrypt_air_frame_def split: if_splits)
  have "wv_sent (wire (radio_trace s')) = wv_sent (wire (radio_trace s)) \<and> code \<noteq> LORA_TX_RESULT_SUCCESS \<or>
      wv_sent (wire (radio_trace s')) = wv_sent (wire (radio_trace s)) @ [take n frame] \<and>
      code \<notin> {LORA_TX_RESULT_CHANNEL_BUSY, LORA_TX_RESULT_RADIO_FAULT, LORA_TX_RESULT_ABORTED}"
    using sent(2) by (cases code) auto
  then show ?thesis
  proof
    assume "wv_sent (wire (radio_trace s')) = wv_sent (wire (radio_trace s)) \<and> code \<noteq> LORA_TX_RESULT_SUCCESS"
    then show ?thesis by (intro exI [of _ "[]"]) simp
  next
    assume "wv_sent (wire (radio_trace s')) = wv_sent (wire (radio_trace s)) @ [take n frame] \<and>
      code \<notin> {LORA_TX_RESULT_CHANNEL_BUSY, LORA_TX_RESULT_RADIO_FAULT, LORA_TX_RESULT_ABORTED}"
    then show ?thesis using d by (intro exI [of _ "[take n frame]"]) auto
  qed
next
  case unsent
  then show ?thesis by (intro exI [of _ "[]"]) simp
qed

theorem transmission_sends_packet_witness:
  "\<exists>r s' fs. run_state (lora_execute_tx (demo_services 0x04) demo_crypto demo_request lora_tx_result_zero)
     (demo_radio 0 RADIO_STATE_RX) = ((LORA_TX_RESULT_SUCCESS, r), s') \<and> wv_sent (wire (radio_trace s')) = fs \<and> fs \<noteq> []"
proof -
  obtain r s' where t: "run_state (lora_execute_tx (demo_services 0x04) demo_crypto demo_request lora_tx_result_zero)
     (demo_radio 0 RADIO_STATE_RX) = ((LORA_TX_RESULT_SUCCESS, r), s')" using demo_tx_success by blast
  have "psa_ctr_inverse (tc_psa demo_crypto)" by (simp add: demo_crypto_def toy_psa_inverse)
  from transmission_sends_packet [OF this t refl] show ?thesis
    using t by (auto simp: demo_radio_def wire_def)
qed

text \<open>
  C26. The driver's state after a transmission: receiving after a success and after a timeout
  (whether or not the recovery the timeout starts has worked), unchanged when the radio was
  not ready or the packet could not be encrypted, receiving or faulty otherwise; the result
  carries the request's identifiers, and the task never reports the remaining codes.
\<close>

theorem transmission_leaves_state:
  assumes "run_state (lora_execute_tx sv tc request result) s = ((code, r), s')"
  shows "code \<notin> {LORA_TX_RESULT_QUEUE_FULL, LORA_TX_RESULT_UNKNOWN} \<and>
    (code \<in> {LORA_TX_RESULT_SUCCESS, LORA_TX_RESULT_TIMEOUT} \<longrightarrow> lora_radio_is_ready s') \<and>
    (code \<in> {LORA_TX_RESULT_RADIO_FAULT, LORA_TX_RESULT_ABORTED} \<longrightarrow> s' = s) \<and>
    (code = LORA_TX_RESULT_RADIO_FAULT \<longleftrightarrow> \<not> lora_radio_is_ready s) \<and>
    (code \<in> {LORA_TX_RESULT_CHANNEL_BUSY, LORA_TX_RESULT_SPI_ERROR} \<longrightarrow>
       lora_state s' \<in> {RADIO_STATE_RX, RADIO_STATE_FAULT}) \<and>
    rr_request_id r = rr_request_id result \<and> rr_message_id r = rr_message_id result"
proof (cases "lora_radio_is_ready s")
  case False
  then have "(code, r) = (LORA_TX_RESULT_RADIO_FAULT, result) \<and> s' = s"
    using assms by (auto simp: lora_execute_tx_def reads_def)
  then show ?thesis using False by simp
next
  case True
  show ?thesis using assms
  proof (cases rule: execute_tx_cases)
    case (sent frame n)
    then show ?thesis using True by (cases code) (auto simp: lora_radio_is_ready_def)
  qed (use True in auto)
qed

theorem transmission_leaves_state_witness:
  "\<exists>r s'. run_state (lora_execute_tx (demo_services 0x04) demo_crypto demo_request lora_tx_result_zero)
     (demo_radio 0 RADIO_STATE_RX) = ((LORA_TX_RESULT_SUCCESS, r), s') \<and> lora_radio_is_ready s' \<and> rr_request_id r = 0"
proof -
  obtain r s' where t: "run_state (lora_execute_tx (demo_services 0x04) demo_crypto demo_request lora_tx_result_zero)
     (demo_radio 0 RADIO_STATE_RX) = ((LORA_TX_RESULT_SUCCESS, r), s')" using demo_tx_success by blast
  from transmission_leaves_state [OF t] show ?thesis using t by (simp add: lora_tx_result_zero_def)
qed

text \<open>
  C17. After a transmission found the channel busy, the driver says it is receiving but the
  last mode it commanded is standby, and nothing the receive task or the driver's callers do
  afterwards changes that: the node hears nothing until its next transmission.
\<close>

theorem busy_channel_leaves_standby:
  assumes "run_state (lora_execute_tx sv tc request result) s = ((LORA_TX_RESULT_CHANNEL_BUSY, r), s')"
    "lora_state s' \<noteq> RADIO_STATE_FAULT" "(radio_idle_step sv)\<^sup>*\<^sup>* s' s''"
  shows "lora_radio_is_ready s' \<and> mode_of s'' = Some (MODE_LONG_RANGE_MODE OR MODE_STDBY)"
  using assms(1)
proof (cases rule: execute_tx_cases)
  case (sent frame n)
  then show ?thesis using idle_steps_post [OF assms(3)] assms(2) by (auto simp: lora_radio_is_ready_def radio_modes)
qed (simp split: if_splits)

theorem busy_channel_leaves_standby_witness:
  "\<exists>r s' s'' fr. run_state (lora_execute_tx (demo_services 0x05) demo_crypto demo_request lora_tx_result_zero)
     (demo_radio 0 RADIO_STATE_RX) = ((LORA_TX_RESULT_CHANNEL_BUSY, r), s') \<and>
     run_state (lora_rx_task_round (demo_services 0x05) (zeros 256)) s' = (fr, s'') \<and>
     lora_radio_is_ready s' \<and> mode_of s'' = Some 0x81"
proof -
  obtain r s' where t: "run_state (lora_execute_tx (demo_services 0x05) demo_crypto demo_request lora_tx_result_zero)
     (demo_radio 0 RADIO_STATE_RX) = ((LORA_TX_RESULT_CHANNEL_BUSY, r), s')" "lora_state s' = RADIO_STATE_RX"
    using demo_tx_busy by blast
  obtain fr s'' where rx: "run_state (lora_rx_task_round (demo_services 0x05) (zeros 256)) s' = (fr, s'')"
    by (cases "run_state (lora_rx_task_round (demo_services 0x05) (zeros 256)) s'") simp
  have "lora_radio_is_ready s' \<and> mode_of s'' = Some (MODE_LONG_RANGE_MODE OR MODE_STDBY)"
    by (rule busy_channel_leaves_standby [OF t(1)]) (use t(2) idle_rx [OF rx] in auto)
  then show ?thesis using t rx by (auto simp: radio_modes)
qed

text \<open>
  C16. A fault is only left by the recovery calls, which the firmware never makes: whatever the
  chip answers, no sequence of turns of the two tasks, channel checks and other calls to the
  driver leaves the fault state or sends a frame. In a run that also calls
  \<open>lora_radio_reset\<close> or \<open>lora_radio_recover\<close>, everything before the first such call
  keeps the fault. The firmware calls them inside a transmission only, and a faulty radio
  transmits nothing.
\<close>

theorem fault_left_by_recovery_only:
  assumes "lora_state s = RADIO_STATE_FAULT"
  shows "((driver_step sv tcs)\<^sup>*\<^sup>* s s' \<longrightarrow> lora_state s' = RADIO_STATE_FAULT \<and> wire (radio_trace s') = wire (radio_trace s)) \<and>
    ((radio_step sv tcs)\<^sup>*\<^sup>* s s' \<longrightarrow> lora_state s' = RADIO_STATE_FAULT \<and> wire (radio_trace s') = wire (radio_trace s) \<or>
      (\<exists>t u. (driver_step sv tcs)\<^sup>*\<^sup>* s t \<and> lora_state t = RADIO_STATE_FAULT \<and> wire (radio_trace t) = wire (radio_trace s) \<and>
         recovery_step sv t u \<and> (radio_step sv tcs)\<^sup>*\<^sup>* u s'))"
proof -
  have "(driver_step sv tcs)\<^sup>*\<^sup>* s s' \<or> (\<exists>t u. (driver_step sv tcs)\<^sup>*\<^sup>* s t \<and> recovery_step sv t u \<and> (radio_step sv tcs)\<^sup>*\<^sup>* u s')"
    if "(radio_step sv tcs)\<^sup>*\<^sup>* s s'"
    using that
  proof (induction rule: rtranclp_induct)
    case (step t u)
    from step(2) show ?case
    proof cases
      case step_driver
      with step(3) show ?thesis
      proof (elim disjE exE conjE)
        assume "driver_step sv tcs t u" "(driver_step sv tcs)\<^sup>*\<^sup>* s t"
        then show ?thesis by (metis rtranclp.rtrancl_into_rtrancl)
      next
        fix a b assume "(driver_step sv tcs)\<^sup>*\<^sup>* s a" "recovery_step sv a b" "(radio_step sv tcs)\<^sup>*\<^sup>* b t"
        then show ?thesis using step(2) by (metis rtranclp.rtrancl_into_rtrancl)
      qed
    next
      case step_recovery
      with step(3) show ?thesis using step(2) by (metis rtranclp.rtrancl_into_rtrancl rtranclp.rtrancl_refl)
    qed
  qed simp
  then show ?thesis using faulty_driver_steps [OF _ assms] by blast
qed

theorem fault_left_by_recovery_only_witness:
  "\<exists>b s' c s''. run_state (lora_radio_health_check (demo_services 0x04)) (demo_radio 0 RADIO_STATE_FAULT) = (b, s') \<and>
     lora_state s' = RADIO_STATE_FAULT \<and>
     run_state (lora_radio_recover (demo_services 0x04)) (demo_radio 0 RADIO_STATE_FAULT) = (c, s'') \<and>
     lora_state s'' = RADIO_STATE_RX"
proof -
  obtain b s' where t: "run_state (lora_radio_health_check (demo_services 0x04)) (demo_radio 0 RADIO_STATE_FAULT) = (b, s')"
    by (cases "run_state (lora_radio_health_check (demo_services 0x04)) (demo_radio 0 RADIO_STATE_FAULT)") simp
  have f: "lora_state (demo_radio 0 RADIO_STATE_FAULT) = RADIO_STATE_FAULT" by (simp add: demo_radio_def)
  have "lora_state s' = RADIO_STATE_FAULT"
    using fault_left_by_recovery_only [OF f, of "demo_services 0x04" "{demo_crypto}" s'] step_idle [OF idle_health [OF t]] by blast
  moreover have "\<exists>s''. run_state (lora_radio_recover (demo_services 0x04)) (demo_radio 0 RADIO_STATE_FAULT) = (True, s'') \<and> lora_state s'' = RADIO_STATE_RX"
    by (simp add: lora_radio_recover_def lora_radio_reset_def lora_radio_bring_up_def lora_radio_apply_defaults_def lora_set_frequency_def Let_def radio_run)
  ultimately show ?thesis using t by blast
qed

text \<open>
  C21. A frame the receive task hands on was read while the driver was receiving, is at most
  255 bytes, ends with a zero byte inside the 256-byte buffer, is byte for byte what the
  chip's FIFO answered, and carries a signal strength and a noise ratio in range.
\<close>

theorem received_frame_bounds:
  assumes "run_state (lora_rx_task_round sv payload) s = (Some (p, n, rssi, snr), s')" "length payload = 256"
  shows "lora_radio_is_ready s \<and> n \<le> LORA_MAX_PAYLOAD \<and> length p = 256 \<and> p ! n = 0 \<and>
    - 164 \<le> rssi \<and> rssi \<le> 91 \<and> - 32 \<le> snr \<and> snr \<le> 31 \<and>
    (\<exists>rx. last (radio_trace s') = Spi_Transfer (0 # zeros n) ESP_OK rx \<and> (length rx = n + 1 \<longrightarrow> take n p = drop 1 rx))"
proof -
  have "wp (lora_rx_task_round sv payload) (\<lambda>fr s'. \<forall>f. fr = Some f \<longrightarrow> frame_read payload s' f \<and> lora_state s = RADIO_STATE_RX) s"
    by (rule wp_rx_round) simp
  from wp_run [OF assms(1) this] have f: "frame_read payload s' (p, n, rssi, snr)" "lora_state s = RADIO_STATE_RX" by auto
  then obtain rx where rx: "last (radio_trace s') = Spi_Transfer (0 # zeros n) ESP_OK rx"
    "p = (blit payload 0 (take n (drop 1 (blit (zeros 256) 0 (take (n + 1) rx)))))[n := 0]" "n \<le> 255"
    by (auto simp: frame_read_def)
  let ?b = "take n (drop 1 (blit (zeros 256) 0 (take (n + 1) rx)))"
  have l: "length ?b = n" using rx(3) by (simp add: blit_def zeros_def)
  then have "length p = 256" "p ! n = 0" using rx assms(2) by (simp_all add: blit_def)
  moreover have "take n p = drop 1 rx" if "length rx = n + 1"
  proof -
    have "?b = drop 1 rx" using that rx(3) by (simp add: blit_def drop_Suc)
    then show ?thesis using rx(2) l by (simp add: blit_def)
  qed
  ultimately show ?thesis using f rx(1,3) by (auto simp: frame_read_def lora_radio_is_ready_def)
qed

theorem received_frame_bounds_witness:
  "\<exists>p n rssi snr s'. run_state (lora_rx_task_round (demo_services 0x04) (zeros 256)) (demo_radio 0x40 RADIO_STATE_RX) =
     (Some (p, n, rssi, snr), s') \<and> n \<le> LORA_MAX_PAYLOAD \<and> p ! n = 0"
proof -
  have "\<exists>p n rssi snr s'. run_state (lora_rx_task_round (demo_services 0x04) (zeros 256)) (demo_radio 0x40 RADIO_STATE_RX) =
     (Some (p, n, rssi, snr), s')"
    by (simp add: lora_rx_task_round_def lora_read_raw_frame_def lora_read_fifo_def lora_transfer_def Let_def radio_run)
  then obtain p n rssi snr s' where t: "run_state (lora_rx_task_round (demo_services 0x04) (zeros 256)) (demo_radio 0x40 RADIO_STATE_RX) =
     (Some (p, n, rssi, snr), s')" by blast
  have "length (zeros 256) = 256" by (simp add: zeros_def)
  from received_frame_bounds [OF t this] show ?thesis using t by blast
qed

text \<open>
  No LOW request waits forever: from any value of the streak counters, thirteen turns of
  the transmit task in which the LOW queue is waiting serve it at least once, whatever
  arrives in the other two.
\<close>

theorem low_priority_served:
  assumes "length ws \<ge> 13" "list_all (\<lambda>(high, normal, low). low) ws"
  shows "Some (lora_tx_queue_index LORA_TX_PRIORITY_LOW) \<in> set (selections ws streaks)"
  using low_within_credit [of streaks ws] low_credit_le [of streaks] assms by (simp add: lora_tx_queue_index_def)

theorem low_priority_served_witness:
  "Some (lora_tx_queue_index LORA_TX_PRIORITY_LOW) \<in> set (selections (replicate 13 (True, True, True)) (0, 0))"
  by (rule low_priority_served) (simp_all add: list_all_iff)

text \<open>
  C23. NORMAL requests can wait forever: however many turns the transmit task takes, from any
  state and any streaks, as long as HIGH and LOW requests are waiting at each of them nothing
  is taken from the NORMAL queue; what waits there stays, in order, behind it only what comes
  in meanwhile.
\<close>

theorem normal_priority_starved:
  assumes "queue_appends (request_api sv) contents" "crowded_run sv tcs s s'" "lora_tx_request_queues s ! 1 = Some q"
  shows "\<exists>q' new. lora_tx_request_queues s' ! 1 = Some q' \<and> contents q' = contents q @ new"
proof -
  have "grown contents (lora_tx_request_queues s ! 1) (lora_tx_request_queues s' ! 1)"
    using assms(2)
  proof induction
    case (crowded_idle s t u)
    then show ?case using idle_grows [OF assms(1)] grown_trans by blast
  next
    case (crowded_turn s t tc t0 t1 r u)
    then show ?case using crowded_round by metis
  qed simp
  then show ?thesis using assms(3) by (auto simp: grown_def split: option.splits)
qed

text \<open>A turn with all three queues waiting, NORMAL having been served twice in a row.\<close>

definition crowded_radio :: "(u8, demo_queues, demo_results) radio" where
  "crowded_radio = (demo_radio 0 RADIO_STATE_FAULT)\<lparr>normal_streak := 2, lora_tx_request_queues := replicate 3 (Some ([demo_request], []))\<rparr>"

theorem normal_priority_starved_witness:
  "\<exists>r s' q'. run_state (lora_tx_task_round (demo_services 0x04) demo_crypto 0 0) crowded_radio = (Some r, s') \<and>
    lora_tx_request_queues s' ! 1 = Some q' \<and> take 1 (fst q') = [demo_request] \<and> lora_tx_request_queues s' ! 0 = Some ([], [])"
proof -
  have a: "queue_appends (request_api (demo_services 0x04)) fst"
    by (simp add: queue_appends_def demo_services_def list_queue_def split: prod.split)
  have w: "queue_waiting (demo_services 0x04) (lora_tx_request_queues crowded_radio) i" if "i < 3" for i
    using that by (simp add: queue_waiting_def crowded_radio_def demo_services_def)
  have "\<exists>r s'. run_state (lora_tx_task_round (demo_services 0x04) demo_crypto 0 0) crowded_radio = (Some r, s') \<and>
      lora_tx_request_queues s' ! 0 = Some ([], [])"
    using w [of 0] w [of 1] w [of 2]
    by (simp add: lora_tx_task_round_def lora_tx_serve_def lora_execute_tx_def lora_tx_select_def Let_def lora_radio_is_ready_def
        crowded_radio_def demo_radio_def demo_services_def list_queue_def radio_run)
  then obtain r s' where t: "run_state (lora_tx_task_round (demo_services 0x04) demo_crypto 0 0) crowded_radio = (Some r, s')"
    "lora_tx_request_queues s' ! 0 = Some ([], [])" by blast
  have "crowded_run (demo_services 0x04) {demo_crypto} crowded_radio s'"
    by (rule crowded_turn [OF crowded_start _ w w t(1)]) simp_all
  from normal_priority_starved [OF a this, of "([demo_request], [])"] t show ?thesis by (auto simp: crowded_radio_def)
qed

subsection \<open>Starting up\<close>

text \<open>A bus on which every transfer works, and a chip that answers with the SX1278's version.\<close>

definition bus_ok :: "('h, 'q, 'r) radio_services \<Rightarrow> bool" where
  "bus_ok sv \<longleftrightarrow> (\<forall>tx h. fst (fst (spi_device_transmit sv tx h)) = ESP_OK)"

definition sx1278_answers :: "('h, 'q, 'r) radio_services \<Rightarrow> bool" where
  "sx1278_answers sv \<longleftrightarrow> (\<forall>h. at (snd (fst (spi_device_transmit sv [REG_VERSION, 0] h))) 1 = 0x12)"

lemma wp_write_reg_ok:
  assumes "bus_ok sv"
    "\<And>rx h. Q ESP_OK (s\<lparr>radio_env := h, radio_trace := radio_trace s @ [Spi_Transfer [a OR 0x80, v] ESP_OK rx]\<rparr>)"
  shows "wp (lora_write_reg sv a v) Q s"
  using assms by (auto simp: write_reg_code wp_def spi_action_def bus_ok_def split: prod.splits) (metis fst_conv)

lemma wp_read_reg_ok:
  assumes "bus_ok sv"
    "\<And>rx h. (a = REG_VERSION \<Longrightarrow> sx1278_answers sv \<Longrightarrow> at rx 1 = 0x12) \<Longrightarrow>
      Q (ESP_OK, at rx 1) (s\<lparr>radio_env := h, radio_trace := radio_trace s @ [Spi_Transfer [a AND 0x7F, 0] ESP_OK rx]\<rparr>)"
  shows "wp (lora_read_reg sv a) Q s"
proof -
  obtain e rx h where t: "spi_device_transmit sv [a AND 0x7F, 0] (radio_env s) = ((e, rx), h)" by (metis surj_pair)
  have "e = ESP_OK" using assms(1) t unfolding bus_ok_def by (metis fst_conv)
  moreover have "at rx 1 = 0x12" if "a = REG_VERSION" "sx1278_answers sv"
  proof -
    have "spi_device_transmit sv [REG_VERSION, 0] (radio_env s) = ((e, rx), h)" using t that(1) by (simp add: radio_regs)
    then show ?thesis using that(2) unfolding sx1278_answers_def by (metis fst_conv snd_conv)
  qed
  ultimately show ?thesis using t assms(2) by (simp add: read_reg_code wp_def spi_action_def)
qed

lemma frequency_word: "push_bit 19 LORA_FREQUENCY_HZ div 32000000 = 0x6C4000"
  by (simp add: LORA_FREQUENCY_HZ_def)

lemma wp_set_mode_ok:
  assumes "bus_ok sv"
    "\<And>rx h. Q ESP_OK (s\<lparr>radio_env := h, radio_trace := radio_trace s @ [Spi_Transfer [0x81, 0x80 OR m] ESP_OK rx]\<rparr>)"
  shows "wp (lora_set_mode sv m) Q s"
  unfolding lora_set_mode_def radio_regs radio_modes using assms by (auto intro!: wp_write_reg_ok)

text \<open>The three carrier frequency registers as the trace leaves them.\<close>

definition written :: "u8 \<Rightarrow> u8 \<Rightarrow> radio_event \<Rightarrow> bool" where
  "written a v ev \<longleftrightarrow> (\<exists>rx. ev = Spi_Transfer [a OR 0x80, v] ESP_OK rx)"

definition tuned :: "radio_event list \<Rightarrow> bool" where
  "tuned tr \<longleftrightarrow> Bex (set tr) (written REG_FRF_MSB 0x6C) \<and> Bex (set tr) (written REG_FRF_MID 0x40) \<and>
     Bex (set tr) (written REG_FRF_LSB 0x00)"

lemma wp_apply_defaults_ok:
  assumes "bus_ok sv" "sx1278_answers sv"
    "\<And>h tr. tuned tr \<Longrightarrow> Q ESP_OK (s\<lparr>radio_env := h, radio_trace := tr\<rparr>)"
  shows "wp (lora_radio_apply_defaults sv) Q s"
proof -
  have f: "ucast (drop_bit 16 (0x6C4000 :: 64 word)) = (0x6C :: u8)" "ucast (drop_bit 8 (0x6C4000 :: 64 word)) = (0x40 :: u8)"
    "ucast (0x6C4000 :: 64 word) = (0x00 :: u8)" by simp_all
  show ?thesis
    unfolding lora_radio_apply_defaults_def lora_set_frequency_def
    using assms(1,2)
    by (auto simp: frequency_word f tuned_def written_def Let_def
        intro!: wp_read_reg_ok wp_write_reg_ok wp_set_mode_ok wp_delay assms(3))
qed

definition platform_ok :: "('q, 'r) radio_start \<Rightarrow> bool" where
  "platform_ok a \<longleftrightarrow> rs_reset_gpio a = ESP_OK \<and> rs_dio0_gpio a = ESP_OK \<and> rs_semaphore a \<and> rs_mutex a \<and>
     rs_isr_service a \<in> {ESP_OK, ESP_ERR_INVALID_STATE} \<and> rs_isr_handler a = ESP_OK \<and> rs_spi_bus a = ESP_OK \<and>
     rs_spi_device a = ESP_OK"

lemma wp_init_ok:
  assumes "bus_ok sv" "sx1278_answers sv" "platform_ok a"
    "\<And>s'. lora_state s' = RADIO_STATE_RX \<Longrightarrow> mode_of s' = Some 0x85 \<Longrightarrow> tuned (radio_trace s') \<Longrightarrow>
      lora_read_frame_callback s' \<Longrightarrow> lora_tx_request_queues s' = map (rs_request_queue a) [0, 1, 2] \<Longrightarrow>
      lora_tx_result_queue s' = rs_result_queue a \<Longrightarrow> Q (Some ()) s'"
  shows "wp (lora_radio_init sv a) Q s"
  unfolding lora_radio_init_def lora_radio_reset_def lora_radio_bring_up_def lora_receive_mode_def
  using assms(1,2,3)
  by (auto simp: platform_ok_def tuned_def radio_modes
      intro!: wp_reset_action wp_delay wp_apply_defaults_ok wp_write_reg_ok wp_set_mode_ok assms(4))

text \<open>
  On a node whose pins, semaphores and SPI bus work and whose chip answers with the
  SX1278's version, starting the driver ends in the receive state with the chip tuned to
  433 MHz and commanded into continuous reception, the receive callback installed and the
  four queues in place.
\<close>

theorem radio_starts:
  assumes "bus_ok sv" "sx1278_answers sv" "platform_ok a" "run_state (lora_radio_init sv a) s = (res, s')"
  shows "res = Some () \<and> lora_radio_is_ready s' \<and> mode_of s' = Some (MODE_LONG_RANGE_MODE OR MODE_RX_CONTINUOUS) \<and>
    tuned (radio_trace s') \<and> lora_read_frame_callback s' \<and>
    lora_tx_request_queues s' = map (rs_request_queue a) [0, 1, 2] \<and> lora_tx_result_queue s' = rs_result_queue a"
proof -
  have "wp (lora_radio_init sv a) (\<lambda>r s'. r = Some () \<and> lora_radio_is_ready s' \<and>
      mode_of s' = Some (MODE_LONG_RANGE_MODE OR MODE_RX_CONTINUOUS) \<and> tuned (radio_trace s') \<and> lora_read_frame_callback s' \<and>
      lora_tx_request_queues s' = map (rs_request_queue a) [0, 1, 2] \<and> lora_tx_result_queue s' = rs_result_queue a) s"
    using assms(1-3) by (rule wp_init_ok) (simp add: lora_radio_is_ready_def radio_modes)
  from wp_run [OF assms(4) this] show ?thesis .
qed

definition demo_start :: "(demo_queues, demo_results) radio_start" where
  "demo_start = \<lparr>rs_reset_gpio = ESP_OK, rs_dio0_gpio = ESP_OK, rs_semaphore = True, rs_mutex = True,
     rs_isr_service = ESP_ERR_INVALID_STATE, rs_isr_handler = ESP_OK, rs_spi_bus = ESP_OK, rs_spi_device = ESP_OK,
     rs_request_queue = (\<lambda>_. Some ([], [])), rs_result_queue = Some ([], []), rs_tx_task = True\<rparr>"

theorem radio_starts_witness:
  "lora_radio_is_ready (snd (run_state (lora_radio_init (demo_services 0x04) demo_start) (demo_radio 0 RADIO_STATE_UNINITIALIZED)))"
proof -
  have "bus_ok (demo_services 0x04)" "sx1278_answers (demo_services 0x04)" "platform_ok demo_start"
    by (simp_all add: bus_ok_def sx1278_answers_def demo_services_def demo_spi_def radio_regs at_def platform_ok_def demo_start_def)
  from radio_starts [OF this prod.collapse [symmetric]] show ?thesis by simp
qed

end
