(* ===== verification/Message_Store_Props.thy ===== *)
theory Message_Store_Props
  imports Message_Store
begin

text \<open>
  What the message store guarantees: the invariant of every reachable store (a step relation
  over all operations, any flash answers and restarts), allocation that spares pending
  messages, read-after-write, survival of restarts, and the reach of the checksum.
\<close>

subsection \<open>The invariant\<close>

definition slot_ok :: "persisted_message_t \<Rightarrow> bool" where
  "slot_ok r \<longleftrightarrow> wf_message (pm_message r) \<and> (pm_state r \<noteq> 0 \<longrightarrow> persisted_record_valid r)"

definition store_inv :: "'n store_state \<Rightarrow> bool" where
  "store_inv st \<longleftrightarrow> length (persisted_slots st) = MAX_MESSAGES \<and> length (reserved_slots st) = MAX_MESSAGES \<and>
    active_count st = length (used_messages st) \<and> (\<forall>r\<in>set (persisted_slots st). slot_ok r) \<and>
    (\<forall>i<MAX_MESSAGES. reserved_slots st ! i \<longrightarrow> pm_state (persisted_slots st ! i) = 0)"

lemma slot_ok_zero [simp]: "slot_ok persisted_message_zero"
  by (simp add: slot_ok_def persisted_message_zero_def)

lemma state_zero [simp]: "pm_state persisted_message_zero = 0"
  by (simp add: persisted_message_zero_def)

lemma valid_make_record: "persisted_record_valid (make_record m s)"
  by (cases s) (simp_all add: persisted_record_valid_def make_record_def)

lemma slot_ok_make_record [simp]: "wf_message m \<Longrightarrow> slot_ok (make_record m s)"
  by (simp add: slot_ok_def valid_make_record) (simp add: make_record_def)

lemma make_record_simps [simp]: "pm_message (make_record m s) = m" "pm_state (make_record m s) = slot_state_code s"
  by (simp_all add: make_record_def)

lemma state_code_nonzero [simp]: "slot_state_code (state_for_message m) \<noteq> 0" "0 \<noteq> slot_state_code (state_for_message m)"
  by (auto simp: state_for_message_def)

lemma active_count_recalc: "active_count (recalculate_active_count st) = length (used_messages st)"
  by (simp add: recalculate_active_count_def used_messages_def count_if_def)

lemma recalc_simps [simp]:
  "persisted_slots (recalculate_active_count st) = persisted_slots st"
  "reserved_slots (recalculate_active_count st) = reserved_slots st"
  "flash (recalculate_active_count st) = flash st"
  "used_messages (recalculate_active_count st) = used_messages st"
  by (simp_all add: recalculate_active_count_def used_messages_def)

text \<open>The two ways a record is changed: replaced by an OK one in an unreserved slot, or cleared.\<close>

lemma store_inv_put:
  assumes "store_inv st" "slot_ok r" "i < MAX_MESSAGES \<Longrightarrow> pm_state r = 0 \<or> \<not> reserved_slots st ! i"
    "persisted_slots st' = (persisted_slots st)[i := r]" "reserved_slots st' = reserved_slots st"
    "active_count st' = length (used_messages st')"
  shows "store_inv st'"
proof -
  have "\<forall>r\<in>set (persisted_slots st'). slot_ok r"
    using assms(1,2,4) by (auto simp: store_inv_def dest: set_list_update_cases)
  moreover have "pm_state (persisted_slots st' ! j) = 0" if "j < MAX_MESSAGES" "reserved_slots st' ! j" for j
    using assms that by (cases "j = i") (auto simp: store_inv_def)
  ultimately show ?thesis using assms by (simp add: store_inv_def)
qed

lemma store_inv_flash [simp]: "store_inv (st\<lparr>flash := n\<rparr>) = store_inv st"
  by (simp add: store_inv_def used_messages_def)

lemma store_inv_reserve:
  assumes "store_inv st" "b \<Longrightarrow> pm_state (persisted_slots st ! i) = 0"
  shows "store_inv (st\<lparr>reserved_slots := (reserved_slots st)[i := b]\<rparr>)"
proof -
  have "pm_state (persisted_slots st ! j) = 0" if "j < 16" "(reserved_slots st)[i := b] ! j" for j
    using assms that by (cases "j = i") (auto simp: store_inv_def)
  then show ?thesis using assms by (simp add: store_inv_def used_messages_def)
qed

lemma write_record_cases:
  assumes "write_record_locked api slot m s st = (res, st')"
  obtains (fail) n where "res \<noteq> ESP_OK" "st' = st\<lparr>flash := n\<rparr>"
  | (ok) key n where "res = ESP_OK" "slot_in_range slot" "slot_key slot = Some key" "nvs_open api (flash st) True = ESP_OK"
      "st' = recalculate_active_count (st\<lparr>flash := n, persisted_slots := (persisted_slots st)[nat slot := make_record m s]\<rparr>)"
      "\<exists>n1. nvs_set_blob api key (record_image (make_record m s)) (flash st) = (ESP_OK, n1) \<and> nvs_commit api n1 = (ESP_OK, n)"
proof (cases "slot_key slot")
  case None
  then have "res \<noteq> ESP_OK" "st' = st\<lparr>flash := flash st\<rparr>" using assms by (auto simp: write_record_locked_def)
  then show thesis by (rule fail)
next
  case (Some key)
  then have r: "slot_in_range slot" by (simp add: slot_key_def slot_in_range_def split: if_splits)
  show thesis
  proof (cases "nvs_open api (flash st) True = ESP_OK")
    case False
    then have "res \<noteq> ESP_OK" "st' = st\<lparr>flash := flash st\<rparr>" using assms Some by (auto simp: write_record_locked_def)
    then show thesis by (rule fail)
  next
    case True
    obtain r1 n1 where n1: "nvs_set_blob api key (record_image (make_record m s)) (flash st) = (r1, n1)" by fastforce
    obtain r2 n2 where n2: "nvs_commit api n1 = (r2, n2)" by fastforce
    show thesis
    proof (cases "r1 = ESP_OK \<and> r2 = ESP_OK")
      case ok: True
      then show thesis using assms Some True n1 n2 r
        by (intro that(2) [of key n2]) (auto simp: write_record_locked_def)
    next
      case no: False
      then have "res \<noteq> ESP_OK" "st' = st\<lparr>flash := if r1 = ESP_OK then n2 else n1\<rparr>"
        using assms Some True n1 n2 by (auto simp: write_record_locked_def split: if_splits)
      then show thesis by (rule fail)
    qed
  qed
qed

lemma delete_record_cases:
  assumes "delete_record_locked api slot st = (res, st')"
  obtains (fail) n where "res \<noteq> ESP_OK" "st' = st\<lparr>flash := n\<rparr>"
  | (ok) n where "res = ESP_OK"
      "st' = recalculate_active_count (st\<lparr>flash := n, persisted_slots := clear_slot (nat slot) (persisted_slots st)\<rparr>)"
      "fst (delete_record_nvs api slot (flash st)) \<in> {ESP_OK, ESP_ERR_NVS_NOT_FOUND}" "n = snd (delete_record_nvs api slot (flash st))"
  using assms by (auto simp: delete_record_locked_def Let_def split: prod.splits if_splits)

lemma write_record_inv:
  assumes "store_inv st" "wf_message m" "\<not> reserved_slots st ! nat slot \<or> pm_state (make_record m s) = 0"
    "write_record_locked api slot m s st = (res, st')"
  shows "store_inv st'"
  using assms(4)
proof (cases rule: write_record_cases)
  case ok
  then show ?thesis
    using assms(1-3) by (intro store_inv_put [OF assms(1), of "make_record m s" "nat slot"]) (auto simp: active_count_recalc)
qed (use assms in simp)

lemma delete_record_inv:
  assumes "store_inv st" "delete_record_locked api slot st = (res, st')"
  shows "store_inv st'"
  using assms(2)
proof (cases rule: delete_record_cases)
  case ok
  then show ?thesis
    using assms(1) store_inv_put [OF assms(1), of persisted_message_zero "nat slot" st']
    by (cases "nat slot < 16") (auto simp: clear_slot_def active_count_recalc store_inv_def)
qed (use assms in simp)

lemma write_record_reserved:
  "write_record_locked api slot m s (st\<lparr>reserved_slots := R\<rparr>) =
   map_prod id (\<lambda>st'. st'\<lparr>reserved_slots := R\<rparr>) (write_record_locked api slot m s st)"
  by (auto simp: write_record_locked_def recalculate_active_count_def Let_def split: option.split prod.split)

lemma write_record_reserved_eq:
  "write_record_locked api slot m s st = (res, st') \<Longrightarrow> reserved_slots st' = reserved_slots st"
  by (erule write_record_cases) auto

lemma write_unreserve_inv:
  assumes "store_inv st" "wf_message m" "write_record_locked api slot m s st = (res, st')"
  shows "store_inv (st'\<lparr>reserved_slots := (reserved_slots st')[nat slot := False]\<rparr>)"
proof -
  let ?st = "st\<lparr>reserved_slots := (reserved_slots st)[nat slot := False]\<rparr>"
  have i: "store_inv ?st" using assms(1) by (rule store_inv_reserve) simp
  have w: "write_record_locked api slot m s ?st = (res, st'\<lparr>reserved_slots := (reserved_slots st')[nat slot := False]\<rparr>)"
    using assms(3) write_record_reserved_eq [OF assms(3)] by (simp add: write_record_reserved)
  show ?thesis
  proof (cases "nat slot < 16")
    case True
    then have "\<not> reserved_slots ?st ! nat slot" using assms(1) by (simp add: store_inv_def)
    then show ?thesis using write_record_inv [OF i assms(2) _ w] by simp
  next
    case False
    then have "\<not> slot_in_range slot" by (auto simp: slot_in_range_def)
    then show ?thesis using write_record_cases [OF w] i by (cases rule: write_record_cases [OF w]) auto
  qed
qed

lemma in_range_nat: "slot_in_range slot \<Longrightarrow> nat slot < MAX_MESSAGES"
  by (auto simp: slot_in_range_def)

lemma message_store_write_inv:
  assumes "store_inv st" "wf_message m" "message_store_write api slot m st = (res, st')"
  shows "store_inv st'"
  using assms write_unreserve_inv [OF assms(1,2)]
  by (auto simp: message_store_write_def split: if_splits prod.splits)

lemma message_store_update_inv:
  assumes "store_inv st" "wf_message m" "message_store_update api slot m st = (res, st')"
  shows "store_inv st'"
proof (cases "slot_in_range slot \<and> pm_state (persisted_slots st ! nat slot) \<noteq> 0")
  case True
  then have "\<not> reserved_slots st ! nat slot" using assms(1) in_range_nat [of slot] by (auto simp: store_inv_def)
  then show ?thesis
    using assms True write_record_inv [OF assms(1,2), of slot "state_for_message m" api res st']
    by (auto simp: message_store_update_def split: if_splits)
next
  case False
  then show ?thesis
    using assms write_unreserve_inv [OF assms(1,2), of api slot "state_for_message m"]
    by (auto simp: message_store_update_def split: if_splits prod.splits)
qed

lemma message_store_delete_inv:
  assumes "store_inv st" "message_store_delete api slot st = (res, st')"
  shows "store_inv st'"
  using assms delete_record_inv [OF assms(1), of api slot res st'] store_inv_reserve [OF assms(1), of False "nat slot"]
  by (auto simp: message_store_delete_def split: if_splits)

lemma find_message_slot_Some:
  assumes "find_message_slot st ident source = Some i" "store_inv st"
  shows "i < MAX_MESSAGES" "pm_state (persisted_slots st ! i) \<noteq> 0" "\<not> reserved_slots st ! i"
    "em_id (pm_message (persisted_slots st ! i)) = ident" "streq (em_source (pm_message (persisted_slots st ! i))) source"
    "wf_message (pm_message (persisted_slots st ! i))"
proof -
  have f: "i < length (persisted_slots st)" "pm_state (persisted_slots st ! i) \<noteq> 0"
    "message_matches (pm_message (persisted_slots st ! i)) ident source"
    using find_index_SomeD [OF assms(1) [unfolded find_message_slot_def]] by auto
  then show "i < MAX_MESSAGES" "pm_state (persisted_slots st ! i) \<noteq> 0" "\<not> reserved_slots st ! i"
    "em_id (pm_message (persisted_slots st ! i)) = ident" "streq (em_source (pm_message (persisted_slots st ! i))) source"
    using assms(2) by (auto simp: store_inv_def message_matches_def)
  show "wf_message (pm_message (persisted_slots st ! i))"
    using assms(2) f(1) by (auto simp: store_inv_def slot_ok_def)
qed

lemma message_store_remove_inv:
  assumes "store_inv st" "message_store_remove api ident source st = (res, st')"
  shows "store_inv st'"
  using assms delete_record_inv [OF assms(1)]
  by (auto simp: message_store_remove_def split: option.splits if_splits prod.splits)

lemma wf_message_status [simp]: "wf_message m \<Longrightarrow> length s = 32 \<Longrightarrow> wf_message (m\<lparr>em_status := s\<rparr>)"
  by (simp add: wf_message_def)

lemma wf_message_status_length: "wf_message m \<Longrightarrow> length (em_status m) = 32"
  by (simp add: wf_message_def)

lemma message_store_update_status_inv:
  assumes "store_inv st"
  shows "store_inv (message_store_update_status api ident source status st)"
proof (cases "\<exists>src i. source = Some src \<and> \<not> str_empty src \<and> find_message_slot st ident src = Some i")
  case False
  then show ?thesis using assms by (auto simp: message_store_update_status_def split: option.splits)
next
  case True
  then obtain src i where s: "source = Some src" "\<not> str_empty src" "find_message_slot st ident src = Some i" by blast
  note f = find_message_slot_Some [OF s(3) assms]
  let ?m = "(pm_message (persisted_slots st ! i))\<lparr>em_status := copy_field (em_status (pm_message (persisted_slots st ! i))) status\<rparr>"
  obtain res st' where w: "write_record_locked api (int i) ?m (state_for_message ?m) st = (res, st')" by fastforce
  have "store_inv st'"
    using write_record_inv [OF assms _ _ w] f by (simp add: wf_message_status_length)
  then show ?thesis using s w by (simp add: message_store_update_status_def)
qed

text \<open>The slot \<open>evict_loop\<close> gives up is one of the evictable ones.\<close>

lemma evict_loop_sound:
  assumes "evict_loop rs vs i oldest = Some k" "length rs = length vs"
    "case oldest of None \<Rightarrow> True | Some (j, e) \<Rightarrow> P j"
    "\<And>m. m < length rs \<Longrightarrow> evictable (rs ! m) (vs ! m) \<Longrightarrow> P (i + m)"
  shows "P k"
  using assms
proof (induction rs vs i oldest rule: evict_loop.induct)
  case (1 r rs v vs i oldest)
  have P0: "evictable r v \<Longrightarrow> P i" using "1.prems"(4) [of 0] by simp
  have Ps: "\<And>m. m < length rs \<Longrightarrow> evictable (rs ! m) (vs ! m) \<Longrightarrow> P (Suc i + m)"
    using "1.prems"(4) [of "Suc m" for m] by simp
  show ?case
  proof (cases "evictable r v")
    case False
    then show ?thesis using "1.IH"(1) "1.prems" Ps by simp
  next
    case True
    let ?o = "case oldest of None \<Rightarrow> Some (i, em_stored_epoch (pm_message r)) | Some (j, oe) \<Rightarrow>
      if em_stored_epoch (pm_message r) \<noteq> 0 \<and> (oe = 0 \<or> em_stored_epoch (pm_message r) < oe)
      then Some (i, em_stored_epoch (pm_message r)) else oldest"
    have "case ?o of None \<Rightarrow> True | Some (j, e) \<Rightarrow> P j" using "1.prems"(3) P0 True by (auto split: option.splits)
    moreover have "evict_loop rs vs (Suc i) ?o = Some k" using "1.prems"(1) True by (simp add: Let_def)
    ultimately show ?thesis using "1.IH"(2) [OF _ refl] True "1.prems"(2) Ps by simp
  qed
qed (auto split: option.splits)

lemma allocate_cases:
  assumes "store_inv st" "message_store_allocate api st = (res, st')"
  obtains (none) n where "res = None" "st' = st \<or> st' = st\<lparr>flash := n\<rparr>"
  | (free) i where "res = Some i" "i < MAX_MESSAGES" "\<not> reserved_slots st ! i" "pm_state (persisted_slots st ! i) = 0"
      "st' = st\<lparr>reserved_slots := (reserved_slots st)[i := True]\<rparr>"
  | (evict) i st1 where "res = Some i" "i < MAX_MESSAGES" "evictable (persisted_slots st ! i) (reserved_slots st ! i)"
      "delete_record_locked api (int i) st = (ESP_OK, st1)" "st' = st1\<lparr>reserved_slots := (reserved_slots st1)[i := True]\<rparr>"
proof (cases "find_index (\<lambda>i. pm_state (persisted_slots st ! i) = slot_state_code MESSAGE_SLOT_EMPTY \<and> \<not> reserved_slots st ! i) [0..<MAX_MESSAGES]")
  case (Some i)
  from find_index_SomeD [OF Some] assms(2) Some show thesis
    by (intro free [of i]) (auto simp: message_store_allocate_def)
next
  case None
  show thesis
  proof (cases "evict_loop (persisted_slots st) (reserved_slots st) 0 None")
    case no: None
    then show thesis using none [of undefined] assms(2) unfolding message_store_allocate_def None by simp
  next
    case (Some i)
    have i: "i < 16 \<and> evictable (persisted_slots st ! i) (reserved_slots st ! i)"
      using evict_loop_sound [OF Some, of "\<lambda>i. i < 16 \<and> evictable (persisted_slots st ! i) (reserved_slots st ! i)"] assms(1)
      by (simp add: store_inv_def)
    obtain r st1 where d: "delete_record_locked api (int i) st = (r, st1)" by fastforce
    have a: "message_store_allocate api st = (if r = ESP_OK
        then (Some i, st1\<lparr>reserved_slots := (reserved_slots st1)[i := True]\<rparr>) else (None, st1))"
      unfolding message_store_allocate_def None using Some d by simp
    show thesis
    proof (cases "r = ESP_OK")
      case True
      then show thesis using evict [of i st1] i d a assms(2) by simp
    next
      case False
      then show thesis using delete_record_cases [OF d] none a assms(2) by (metis prod.inject)
    qed
  qed
qed

lemma message_store_allocate_inv:
  assumes "store_inv st" "message_store_allocate api st = (res, st')"
  shows "store_inv st'"
  using assms
proof (cases rule: allocate_cases)
  case (free i)
  then show ?thesis using store_inv_reserve [OF assms(1), of True i] by simp
next
  case (evict i st1)
  have i1: "store_inv st1" by (rule delete_record_inv [OF assms(1) evict(4)])
  have "pm_state (persisted_slots st1 ! i) = 0"
    using evict(2) assms(1) by (cases rule: delete_record_cases [OF evict(4)]) (auto simp: clear_slot_def store_inv_def)
  then show ?thesis using store_inv_reserve [OF i1, of True i] evict(5) by simp
qed (use assms in auto)

subsection \<open>Loading\<close>

text \<open>The record a slot is loaded with.\<close>

definition load_record :: "'n nvs_api \<Rightarrow> 'n \<Rightarrow> nat \<Rightarrow> persisted_message_t" where
  "load_record api n i =
    (case nvs_get_blob api n (the (slot_key (int i))) RECORD_SIZE of
       Inl e \<Rightarrow> persisted_message_zero
     | Inr b \<Rightarrow> if length b = RECORD_SIZE \<and> persisted_record_valid (record_of_image b) then record_of_image b
               else persisted_message_zero)"

definition keep_record :: "bytes option \<Rightarrow> persisted_message_t \<Rightarrow> persisted_message_t" where
  "keep_record local r = (if pm_state r \<noteq> 0 \<and> foreign_record local r then persisted_message_zero else r)"

lemma load_persisted_slot_eq:
  "i < 16 \<Longrightarrow> load_persisted_slot api n (int i) slots = slots[i := load_record api n i]"
  by (auto simp: load_persisted_slot_def load_record_def slot_key_def clear_slot_def split: sum.split)

lemma load_fold:
  "k \<le> 16 \<Longrightarrow> length slots = 16 \<Longrightarrow>
   fold (\<lambda>slot. load_persisted_slot api n (int slot)) [0..<k] slots = map (load_record api n) [0..<k] @ drop k slots"
proof (induction k)
  case (Suc k)
  then have "fold (\<lambda>slot. load_persisted_slot api n (int slot)) [0..<Suc k] slots =
      (map (load_record api n) [0..<k] @ drop k slots)[k := load_record api n k]"
    by (simp add: load_persisted_slot_eq)
  also have "drop k slots = slots ! k # drop (Suc k) slots" using Suc.prems by (simp add: Cons_nth_drop_Suc)
  finally show ?case by (simp add: list_update_append)
qed simp

lemma load_slots:
  assumes "nvs_open api (flash st) False = ESP_OK"
  shows "persisted_slots (message_store_load_messages_from_nvs api local st) =
    map (\<lambda>i. keep_record local (load_record api (flash st) i)) [0..<MAX_MESSAGES]"
proof -
  have "fold (\<lambda>slot. load_persisted_slot api (flash st) (int slot)) [0..<16] (replicate 16 persisted_message_zero) =
      map (load_record api (flash st)) [0..<16]"
    using load_fold [of 16 "replicate 16 persisted_message_zero" api "flash st"] by simp
  then show ?thesis
    using assms by (simp add: message_store_load_messages_from_nvs_def Let_def keep_record_def comp_def)
qed

lemma slot_ok_load_record: "slot_ok (load_record api n i)"
proof -
  have "wf_message (pm_message (record_of_image b))" if "length b = RECORD_SIZE" for b
    using wf_message_of_image [of "drop 16 b"] that by (simp add: record_of_image_def)
  then show ?thesis by (auto simp: load_record_def slot_ok_def persisted_message_zero_def split: sum.split)
qed

lemma slot_ok_keep_record [simp]: "slot_ok r \<Longrightarrow> slot_ok (keep_record local r)"
  by (simp add: keep_record_def)

lemma load_inv: "store_inv (message_store_load_messages_from_nvs api local st)"
proof (cases "nvs_open api (flash st) False = ESP_OK")
  case False
  then show ?thesis by (simp add: message_store_load_messages_from_nvs_def Let_def store_inv_def used_messages_def)
next
  case True
  let ?st = "message_store_load_messages_from_nvs api local st"
  have r: "reserved_slots ?st = replicate 16 False" "active_count ?st = length (used_messages ?st)"
    using True by (simp_all add: message_store_load_messages_from_nvs_def Let_def active_count_recalc)
  show ?thesis unfolding store_inv_def r load_slots [OF True] by (auto simp: slot_ok_load_record)
qed

subsection \<open>Every reachable store\<close>

text \<open>
  The operations in any order, with any answers from the flash service; the flash may be
  erased under the store, and a restart may find any flash contents.
\<close>

inductive store_step :: "'n nvs_api \<Rightarrow> 'n store_state \<Rightarrow> 'n store_state \<Rightarrow> bool" for api where
  step_allocate: "message_store_allocate api st = (r, st') \<Longrightarrow> store_step api st st'"
| step_write: "wf_message m \<Longrightarrow> message_store_write api slot m st = (res, st') \<Longrightarrow> store_step api st st'"
| step_update: "wf_message m \<Longrightarrow> message_store_update api slot m st = (res, st') \<Longrightarrow> store_step api st st'"
| step_delete: "message_store_delete api slot st = (res, st') \<Longrightarrow> store_step api st st'"
| step_remove: "message_store_remove api ident source st = (b, st') \<Longrightarrow> store_step api st st'"
| step_status: "store_step api st (message_store_update_status api ident source status st)"
| step_erase: "store_step api st (st\<lparr>flash := erase_message_keys api (flash st)\<rparr>)"
| step_restart: "store_step api st (message_store_load_messages_from_nvs api local (st\<lparr>flash := n\<rparr>))"

inductive store_reach :: "'n nvs_api \<Rightarrow> 'n store_state \<Rightarrow> bool" for api where
  reach_boot: "store_reach api (message_store_load_messages_from_nvs api local st)"
| reach_step: "store_reach api st \<Longrightarrow> store_step api st st' \<Longrightarrow> store_reach api st'"

lemmas store_inv_intros = message_store_allocate_inv message_store_write_inv message_store_update_inv
  message_store_delete_inv message_store_remove_inv message_store_update_status_inv load_inv

lemma store_step_inv: "store_step api st st' \<Longrightarrow> store_inv st \<Longrightarrow> store_inv st'"
  by (induction rule: store_step.induct) (auto intro: store_inv_intros)

lemma store_reach_inv: "store_reach api st \<Longrightarrow> store_inv st"
  by (induction rule: store_reach.induct) (auto intro: load_inv store_step_inv)

subsection \<open>Flash\<close>

text \<open>
  What the store relies on of the flash service, as its documentation states it: a committed
  blob is read back unchanged, a committed erase removes the key, neither touches another
  key, and neither a commit nor opening for writing (which creates the namespace) reports a
  missing entry.
\<close>

definition nvs_faithful :: "'n nvs_api \<Rightarrow> bool" where
  "nvs_faithful api \<longleftrightarrow>
    (\<forall>k v n n1 n2 size. nvs_set_blob api k v n = (ESP_OK, n1) \<and> nvs_commit api n1 = (ESP_OK, n2) \<longrightarrow>
       (length v \<le> size \<longrightarrow> nvs_get_blob api n2 k size = Inr v) \<and>
       (\<forall>k'. k' \<noteq> k \<longrightarrow> nvs_get_blob api n2 k' size = nvs_get_blob api n k' size)) \<and>
    (\<forall>k n r n1 n2 size. nvs_erase_key api k n = (r, n1) \<and> r \<in> {ESP_OK, ESP_ERR_NVS_NOT_FOUND} \<and>
       nvs_commit api n1 = (ESP_OK, n2) \<longrightarrow>
       nvs_get_blob api n2 k size = Inl ESP_ERR_NVS_NOT_FOUND \<and>
       (\<forall>k'. k' \<noteq> k \<longrightarrow> nvs_get_blob api n2 k' size = nvs_get_blob api n k' size)) \<and>
    (\<forall>n. fst (nvs_commit api n) \<noteq> ESP_ERR_NVS_NOT_FOUND) \<and> (\<forall>n. nvs_open api n True \<noteq> ESP_ERR_NVS_NOT_FOUND)"

lemma print_dec_inj: "print_dec a = print_dec b \<Longrightarrow> a = b"
  by (metis dec_value_print_dec)

lemma slot_key_in: "i < 16 \<Longrightarrow> slot_key (int i) = Some (lit ''msg_'' @ print_dec i)"
  by (simp add: slot_key_def)

lemma slot_key_inj: "i < 16 \<Longrightarrow> j < 16 \<Longrightarrow> slot_key (int i) = slot_key (int j) \<longleftrightarrow> i = j"
  by (auto simp: slot_key_def dest: print_dec_inj)

lemma write_flash:
  assumes "nvs_faithful api" "wf_message m" "write_record_locked api (int i) m s st = (ESP_OK, st')" "i < 16"
  shows "load_record api (flash st') i = make_record m s"
    "j < 16 \<Longrightarrow> j \<noteq> i \<Longrightarrow> load_record api (flash st') j = load_record api (flash st) j"
proof -
  obtain key n n1 where k: "slot_key (int i) = Some key" "flash st' = n"
    "nvs_set_blob api key (record_image (make_record m s)) (flash st) = (ESP_OK, n1)" "nvs_commit api n1 = (ESP_OK, n)"
    by (cases rule: write_record_cases [OF assms(3)]) auto
  have l: "length (record_image (make_record m s)) = 768" "record_of_image (record_image (make_record m s)) = make_record m s"
    using assms(2) by (simp_all add: length_record_image record_of_image)
  note f = assms(1) [unfolded nvs_faithful_def, THEN conjunct1, rule_format, OF conjI [OF k(3,4)]]
  show "load_record api (flash st') i = make_record m s"
    using f [of 768] k(1,2) l by (simp add: load_record_def valid_make_record)
  show "load_record api (flash st') j = load_record api (flash st) j" if "j < 16" "j \<noteq> i"
  proof -
    from slot_key_in [OF that(1)] obtain key' where key': "slot_key (int j) = Some key'" by blast
    then have "key' \<noteq> key" using slot_key_inj [OF that(1) assms(4)] that(2) k(1) by auto
    then show ?thesis using f [of 768] k(2) key' by (simp add: load_record_def)
  qed
qed

lemma delete_flash:
  assumes "nvs_faithful api" "delete_record_locked api (int i) st = (ESP_OK, st')" "i < 16"
  shows "load_record api (flash st') i = persisted_message_zero"
    "j < 16 \<Longrightarrow> j \<noteq> i \<Longrightarrow> load_record api (flash st') j = load_record api (flash st) j"
proof -
  obtain key where key: "slot_key (int i) = Some key" using assms(3) by (simp add: slot_key_def)
  have d: "fst (delete_record_nvs api (int i) (flash st)) \<in> {ESP_OK, ESP_ERR_NVS_NOT_FOUND}"
    "flash st' = snd (delete_record_nvs api (int i) (flash st))"
    by (cases rule: delete_record_cases [OF assms(2)]; simp)+
  have nf: "fst (nvs_commit api n) \<noteq> ESP_ERR_NVS_NOT_FOUND" "nvs_open api n True \<noteq> ESP_ERR_NVS_NOT_FOUND" for n
    using assms(1) by (simp_all add: nvs_faithful_def)
  obtain r n1 where e: "nvs_erase_key api key (flash st) = (r, n1)" by fastforce
  obtain r2 n2 where c: "nvs_commit api n1 = (r2, n2)" by fastforce
  have "nvs_open api (flash st) True = ESP_OK" "r \<in> {ESP_OK, ESP_ERR_NVS_NOT_FOUND}" "r2 = ESP_OK" "flash st' = n2"
    using d nf(1) [of n1] nf(2) [of "flash st"] key e c
    by (auto simp: delete_record_nvs_def split: if_splits)
  note f = assms(1) [unfolded nvs_faithful_def, THEN conjunct2, THEN conjunct1, rule_format, of key "flash st" r n1 n2 768]
  have f: "nvs_get_blob api n2 key 768 = Inl ESP_ERR_NVS_NOT_FOUND"
    "k' \<noteq> key \<Longrightarrow> nvs_get_blob api n2 k' 768 = nvs_get_blob api (flash st) k' 768" for k'
    using f e c \<open>r \<in> _\<close> \<open>r2 = ESP_OK\<close> by blast+
  show "load_record api (flash st') i = persisted_message_zero"
    using f(1) key \<open>flash st' = n2\<close> by (simp add: load_record_def)
  show "load_record api (flash st') j = load_record api (flash st) j" if "j < 16" "j \<noteq> i"
  proof -
    from slot_key_in [OF that(1)] obtain key' where key': "slot_key (int j) = Some key'" by blast
    then have "key' \<noteq> key" using slot_key_inj [OF that(1) assms(3)] that(2) key by auto
    then show ?thesis using f(2) [of key'] \<open>flash st' = n2\<close> key' by (simp add: load_record_def)
  qed
qed

lemma read_after_load:
  assumes "nvs_open api (flash st) False = ESP_OK" "i < 16"
  shows "message_store_read (int i) (message_store_load_messages_from_nvs api local st) =
    (let r = keep_record local (load_record api (flash st) i)
     in if pm_state r \<noteq> 0 then Some (pm_message r) else None)"
  using assms slot_ok_load_record [of api "flash st" i] slot_ok_keep_record [of "load_record api (flash st) i" local]
  by (auto simp: message_store_read_def load_slots slot_in_range_def Let_def slot_ok_def)

subsection \<open>Corrupted records\<close>

lemma le32_of_le32: "le32 (of_le32 a b c d) = [a, b, c, d]"
proof -
  have "(ucast (of_le32 a b c d) :: u8) = a" by (rule bit_word_eqI) (auto simp: of_le32_def bit_simps)
  moreover have "(ucast (drop_bit 8 (of_le32 a b c d)) :: u8) = b"
    by (rule bit_word_eqI) (auto simp: of_le32_def bit_simps dest: bit_imp_le_length)
  moreover have "(ucast (drop_bit 16 (of_le32 a b c d)) :: u8) = c"
    by (rule bit_word_eqI) (auto simp: of_le32_def bit_simps dest: bit_imp_le_length)
  moreover have "(ucast (drop_bit 24 (of_le32 a b c d)) :: u8) = d"
    by (rule bit_word_eqI) (auto simp: of_le32_def bit_simps dest: bit_imp_le_length)
  ultimately show ?thesis by (simp add: le32_def)
qed

lemma le32_of_bytes: "4 \<le> length b \<Longrightarrow> le32 (of_le32_bytes b) = take 4 b"
proof -
  assume l: "4 \<le> length b"
  then have "b \<noteq> []" by auto
  with l have "take 4 b = [b ! 0, b ! 1, b ! 2, b ! 3]"
    by (simp add: take_Suc_conv_app_nth eval_nat_numeral)
  then show ?thesis by (simp add: of_le32_bytes_def le32_of_le32)
qed

lemma slice_step: "off + len \<le> length b \<Longrightarrow> drop off b = slice off len b @ drop (off + len) b"
  by (simp add: slice_def add.commute flip: drop_drop)

lemma message_image_of_image:
  assumes "length b = MESSAGE_SIZE"
  shows "message_image (message_of_image b) = b"
proof -
  have w: "le32 (word_of_int (sint (of_le32_bytes x))) = le32 (of_le32_bytes x)" for x by simp
  have "b = take 4 b @ slice 4 8 b @ slice 12 32 b @ slice 44 32 b @ slice 76 32 b @ slice 108 32 b @ slice 140 140 b @
      slice 280 320 b @ slice 600 24 b @ slice 624 24 b @ slice 648 24 b @ slice 672 32 b @ slice 704 32 b @
      slice 736 4 b @ slice 740 4 b @ slice 744 4 b @ slice 748 4 b"
    using assms append_take_drop_id [of 4 b] slice_step [of 4 8 b] slice_step [of 12 32 b] slice_step [of 44 32 b]
      slice_step [of 76 32 b] slice_step [of 108 32 b] slice_step [of 140 140 b] slice_step [of 280 320 b]
      slice_step [of 600 24 b] slice_step [of 624 24 b] slice_step [of 648 24 b] slice_step [of 672 32 b]
      slice_step [of 704 32 b] slice_step [of 736 4 b] slice_step [of 740 4 b] slice_step [of 744 4 b]
      slice_step [of 748 4 b] by simp
  moreover have "le32 (of_le32_bytes (drop off b)) = slice off 4 b" if "off + 4 \<le> 752" for off
    using le32_of_bytes [of "drop off b"] that assms by (simp add: slice_def)
  ultimately show ?thesis
    using le32_of_bytes [of b] assms by (simp add: message_image_def message_of_image_def w)
qed

text \<open>A damaged byte of the stored message is noticed.\<close>

lemma corrupted_invalid:
  assumes "persisted_record_valid r" "wf_message (pm_message r)" "16 \<le> k" "k < RECORD_SIZE"
    "x \<noteq> record_image r ! k"
  shows "\<not> persisted_record_valid (record_of_image ((record_image r)[k := x]))"
proof
  let ?i = "message_image (pm_message r)" and ?b = "(record_image r)[k := x]"
  define h where "h = le32 (pm_magic r) @ le16 (pm_version r) @ le16 (pm_length r) @ le32 (pm_crc32 r) @ le16 (pm_state r) @ [0, 0]"
  have h: "record_image r = h @ ?i" "length h = 16" by (simp_all add: record_image_def h_def)
  have li: "length ?i = 752" using assms(2) by (rule length_message_image)
  have b: "?b = h @ ?i[k - 16 := x]" using h assms(3) by (simp add: list_update_append)
  have crc: "pm_crc32 (record_of_image ?b) = pm_crc32 r"
    unfolding b by (simp add: record_of_image_def h_def)
  have "message_image (pm_message (record_of_image ?b)) = ?i[k - 16 := x]"
    unfolding b using message_image_of_image [of "?i[k - 16 := x]"] li h(2) by (simp add: record_of_image_def)
  moreover assume "persisted_record_valid (record_of_image ?b)"
  ultimately have eq: "crc32_bytes (?i[k - 16 := x]) = crc32_bytes ?i"
    using crc assms(1) by (simp add: persisted_record_valid_def)
  let ?j = "k - 16"
  have j: "?j < length ?i" "x \<noteq> ?i ! ?j" using assms(3-5) li h by (auto simp: nth_append)
  have "?i[?j := x] = take ?j ?i @ x # drop (Suc ?j) ?i" using j(1) by (rule upd_conv_take_nth_drop)
  moreover have "?i = take ?j ?i @ ?i ! ?j # drop (Suc ?j) ?i" using j(1) by (rule id_take_nth_drop)
  ultimately show False using eq crc32_differs [OF j(2), of "take ?j ?i" "drop (Suc ?j) ?i"] by metis
qed

subsection \<open>Enumeration\<close>

lemma get_loop_spec:
  "c \<le> n \<Longrightarrow> get_loop rs n c =
    (let ms = map pm_message (filter (\<lambda>r. pm_state r \<noteq> 0) rs) in if n - c < length ms then Some (ms ! (n - c)) else None)"
proof (induction rs arbitrary: c)
  case (Cons r rs)
  show ?case
  proof (cases "pm_state r = 0")
    case False
    then show ?thesis
      using Cons.IH [of "Suc c"] Cons.prems by (cases "c = n") (auto simp: Let_def nth_Cons' diff_Suc split: nat.splits)
  qed (use Cons in simp)
qed simp

lemma copy_all_loop_spec:
  "copy_all_loop rs room = take room (map pm_message (filter (\<lambda>r. pm_state r \<noteq> 0) rs))"
  by (induction rs arbitrary: room) (auto simp: take_Cons' )


subsection \<open>Properties\<close>

text \<open>A flash service for the witnesses: a map that never fails.\<close>

definition map_nvs :: "(bytes \<rightharpoonup> bytes) nvs_api" where
  "map_nvs = \<lparr>nvs_open = (\<lambda>_ _. ESP_OK),
     nvs_get_blob = (\<lambda>n k size. case n k of None \<Rightarrow> Inl ESP_ERR_NVS_NOT_FOUND
        | Some b \<Rightarrow> if length b \<le> size then Inr b else Inl ESP_ERR_INVALID_SIZE),
     nvs_set_blob = (\<lambda>k v n. (ESP_OK, n(k \<mapsto> v))),
     nvs_erase_key = (\<lambda>k n. if n k = None then (ESP_ERR_NVS_NOT_FOUND, n) else (ESP_OK, n(k := None))),
     nvs_erase_all = (\<lambda>_. (ESP_OK, Map.empty)),
     nvs_commit = (\<lambda>n. (ESP_OK, n))\<rparr>"

lemma map_nvs_faithful: "nvs_faithful map_nvs"
  by (auto simp: nvs_faithful_def map_nvs_def split: if_splits)

definition sample_message :: emergency_message_t where
  "sample_message = emergency_message_zero\<lparr>em_id := 7, em_direction := lit ''TX'' @ zeros 6,
     em_source := lit ''ALPHA'' @ zeros 27, em_destination := lit ''BRAVO'' @ zeros 27,
     em_status := lit ''QUEUED'' @ zeros 26\<rparr>"

definition sample_store :: "(bytes \<rightharpoonup> bytes) store_state" where
  "sample_store = snd (message_store_allocate map_nvs
     (message_store_load_messages_from_nvs map_nvs None
        \<lparr>persisted_slots = [], reserved_slots = [], active_count = 0, flash = Map.empty\<rparr>))"

lemma sample_store_boot:
  "message_store_load_messages_from_nvs map_nvs None
     \<lparr>persisted_slots = [], reserved_slots = [], active_count = 0, flash = Map.empty\<rparr> =
   \<lparr>persisted_slots = replicate 16 persisted_message_zero, reserved_slots = replicate 16 False,
    active_count = 0, flash = Map.empty\<rparr>" (is "?st = _")
proof -
  have "persisted_slots ?st = map (\<lambda>i. persisted_message_zero) [0..<16]"
    by (subst load_slots) (simp_all add: map_nvs_def load_record_def keep_record_def)
  also have "\<dots> = replicate 16 persisted_message_zero" by (simp only: map_replicate_const length_upt) simp
  finally have s: "persisted_slots ?st = replicate 16 persisted_message_zero" .
  moreover have "active_count ?st = 0" using load_inv [of map_nvs None] s by (simp add: store_inv_def used_messages_def)
  moreover have "reserved_slots ?st = replicate 16 False" "flash ?st = Map.empty"
    by (simp_all add: message_store_load_messages_from_nvs_def map_nvs_def Let_def)
  ultimately show ?thesis by (cases ?st) simp
qed

lemma sample_store_eq:
  "sample_store = \<lparr>persisted_slots = replicate 16 persisted_message_zero, reserved_slots = True # replicate 15 False,
    active_count = 0, flash = Map.empty\<rparr>"
  unfolding sample_store_def sample_store_boot
  by (simp add: message_store_allocate_def upt_rec [of 0] numeral_eq_Suc)

lemma sample_ok: "store_inv sample_store" "wf_message sample_message"
proof -
  show "store_inv sample_store"
    unfolding sample_store_def by (rule message_store_allocate_inv [OF load_inv]) (simp add: prod_eq_iff)
  show "wf_message sample_message"
    by (simp add: sample_message_def wf_message_def emergency_message_zero_def location_zero_def)
qed

lemma sample_write:
  "message_store_write map_nvs 0 sample_message sample_store =
   (ESP_OK, snd (message_store_write map_nvs 0 sample_message sample_store))"
  by (simp add: message_store_write_def slot_in_range_def sample_store_eq write_record_locked_def slot_key_def map_nvs_def Let_def)

lemma write_ok:
  assumes "store_inv st" "message_store_write api slot m st = (ESP_OK, st')"
  obtains i st1 where "slot = int i" "i < MAX_MESSAGES" "reserved_slots st ! i" "pm_state (persisted_slots st ! i) = 0"
    "write_record_locked api (int i) m (state_for_message m) st = (ESP_OK, st1)"
    "st' = st1\<lparr>reserved_slots := (reserved_slots st1)[i := False]\<rparr>"
    "persisted_slots st' = (persisted_slots st)[i := make_record m (state_for_message m)]"
    "message_store_count st' = length (used_messages st')"
proof -
  have s: "slot_in_range slot" "reserved_slots st ! nat slot" using assms(2) by (auto simp: message_store_write_def split: if_splits)
  then obtain st1 where w: "write_record_locked api slot m (state_for_message m) st = (ESP_OK, st1)"
    "st' = st1\<lparr>reserved_slots := (reserved_slots st1)[nat slot := False]\<rparr>"
    using assms(2) by (auto simp: message_store_write_def split: prod.splits)
  have i: "slot = int (nat slot)" "nat slot < 16" using s(1) by (auto simp: slot_in_range_def)
  have p: "persisted_slots st1 = (persisted_slots st)[nat slot := make_record m (state_for_message m)]"
    "active_count st1 = length (used_messages st1)"
    by (cases rule: write_record_cases [OF w(1)]; simp add: active_count_recalc)+
  show thesis
    using that [of "nat slot" st1] i s(2) w p assms(1)
    by (simp add: store_inv_def message_store_count_def used_messages_def)
qed

text \<open>
  \<open>message_store_allocate\<close> never gives away a message that still has to be
  delivered: the slot it reserves was free, or held a message that is acknowledged, failed or
  received; it was not already reserved, is empty afterwards, and no other slot changes.
\<close>

theorem allocate_keeps_pending:
  assumes "store_inv st" "message_store_allocate api st = (Some i, st')"
  shows "i < MAX_MESSAGES \<and> \<not> reserved_slots st ! i \<and> reserved_slots st' ! i \<and> pm_state (persisted_slots st' ! i) = 0 \<and>
    (pm_state (persisted_slots st ! i) = 0 \<or>
     state_for_message (pm_message (persisted_slots st ! i)) \<in> {MESSAGE_SLOT_ACKED, MESSAGE_SLOT_FAILED, MESSAGE_SLOT_RECEIVED}) \<and>
    (\<forall>j. j \<noteq> i \<longrightarrow> persisted_slots st' ! j = persisted_slots st ! j \<and> reserved_slots st' ! j = reserved_slots st ! j)"
  using assms
proof (cases rule: allocate_cases)
  case (free k)
  then show ?thesis using assms(1) by (auto simp: store_inv_def)
next
  case (evict k st1)
  have "persisted_slots st1 = (persisted_slots st)[k := persisted_message_zero]" "reserved_slots st1 = reserved_slots st"
    using evict(2) by (cases rule: delete_record_cases [OF evict(4)]; simp add: clear_slot_def)+
  then show ?thesis using evict assms(1) by (auto simp: store_inv_def evictable_def)
qed simp

theorem allocate_keeps_pending_witness:
  "\<not> reserved_slots sample_store ! 1 \<and> pm_state (persisted_slots (snd (message_store_allocate map_nvs sample_store)) ! 1) = 0"
proof -
  have "message_store_allocate map_nvs sample_store = (Some 1, snd (message_store_allocate map_nvs sample_store))"
    unfolding sample_store_eq by (simp add: message_store_allocate_def upt_rec numeral_eq_Suc)
  from allocate_keeps_pending [OF sample_ok(1) this] show ?thesis by blast
qed

lemma write_reads:
  assumes "store_inv st" "message_store_write api slot m st = (ESP_OK, st')"
  shows "message_store_read slot st' = Some m \<and> message_store_read slot st = None \<and>
    (\<forall>s. s \<noteq> slot \<longrightarrow> message_store_read s st' = message_store_read s st) \<and>
    message_store_count st' = message_store_count st + 1"
proof -
  obtain i st1 where w: "slot = int i" "i < MAX_MESSAGES" "pm_state (persisted_slots st ! i) = 0"
    "persisted_slots st' = (persisted_slots st)[i := make_record m (state_for_message m)]"
    "message_store_count st' = length (used_messages st')"
    by (rule write_ok [OF assms])
  have l: "length (persisted_slots st) = 16" "message_store_count st = length (used_messages st)"
    using assms(1) by (auto simp: store_inv_def message_store_count_def)
  have "length (used_messages st') = Suc (length (used_messages st))"
    using count_if_update [of i "persisted_slots st" "\<lambda>r. pm_state r \<noteq> 0" "make_record m (state_for_message m)"] w(2-4) l(1)
    by (simp add: used_messages_def count_if_def)
  moreover have "message_store_read s st' = message_store_read s st" if "s \<noteq> slot" for s
  proof (cases "slot_in_range s")
    case True
    then have "nat s \<noteq> i" using that w(1) by (auto simp: slot_in_range_def)
    then show ?thesis using w(4) by (simp add: message_store_read_def)
  qed (simp add: message_store_read_def)
  ultimately show ?thesis
    using w l by (simp add: message_store_read_def slot_in_range_def valid_make_record)
qed

text \<open>
  A message written to an allocated slot can be read back, it replaced no other message,
  the other slots read as before, and the count grows by one.
\<close>

theorem write_then_read:
  assumes "store_inv st" "message_store_write api slot m st = (ESP_OK, st')"
  shows "message_store_read slot st' = Some m \<and> message_store_read slot st = None \<and>
    (\<forall>s. s \<noteq> slot \<longrightarrow> message_store_read s st' = message_store_read s st) \<and>
    message_store_count st' = message_store_count st + 1"
  by (rule write_reads [OF assms])

theorem write_then_read_witness:
  "message_store_read 0 (snd (message_store_write map_nvs 0 sample_message sample_store)) = Some sample_message"
  using write_then_read [OF sample_ok(1) sample_write] by blast

text \<open>
  C33. Stored messages survive a restart: with a flash service that keeps what is committed to
  it, a message written successfully is read from the same slot after
  \<open>message_store_load_messages_from_nvs\<close>, unless it is neither from nor to the local
  node, and the write changes what a restart finds in no other slot.
\<close>

theorem written_message_survives_restart:
  assumes "nvs_faithful api" "store_inv st" "wf_message m" "message_store_write api slot m st = (ESP_OK, st')"
    and "\<forall>n. nvs_open api n False = ESP_OK"
  shows "message_store_read slot (message_store_load_messages_from_nvs api local st') =
      (if foreign_record local (make_record m (state_for_message m)) then None else Some m) \<and>
    (\<forall>s. s \<noteq> slot \<longrightarrow> message_store_read s (message_store_load_messages_from_nvs api local st') =
      message_store_read s (message_store_load_messages_from_nvs api local st))"
proof (intro conjI allI impI)
  obtain i st1 where w: "slot = int i" "i < MAX_MESSAGES"
    "write_record_locked api (int i) m (state_for_message m) st = (ESP_OK, st1)"
    "st' = st1\<lparr>reserved_slots := (reserved_slots st1)[i := False]\<rparr>"
    by (rule write_ok [OF assms(2,4)])
  have f: "flash st' = flash st1" using w(4) by simp
  note fl = write_flash [OF assms(1,3) w(3,2)]
  show "message_store_read slot (message_store_load_messages_from_nvs api local st') =
      (if foreign_record local (make_record m (state_for_message m)) then None else Some m)"
    using w(1,2) assms(5) fl(1) by (simp add: read_after_load f keep_record_def)
  show "message_store_read s (message_store_load_messages_from_nvs api local st') =
      message_store_read s (message_store_load_messages_from_nvs api local st)" if "s \<noteq> slot" for s
  proof (cases "slot_in_range s")
    case True
    then have "s = int (nat s)" "nat s < 16" "nat s \<noteq> i" using that w(1) by (auto simp: slot_in_range_def)
    then show ?thesis
      using read_after_load [of api st' "nat s"] read_after_load [of api st "nat s"] assms(5) fl(2) [of "nat s"] f by simp
  qed (simp add: message_store_read_def)
qed

theorem written_message_survives_restart_witness:
  "message_store_read 0 (message_store_load_messages_from_nvs map_nvs None
     (snd (message_store_write map_nvs 0 sample_message sample_store))) = Some sample_message"
  using written_message_survives_restart [OF map_nvs_faithful sample_ok sample_write, of None]
  by (simp add: foreign_record_def map_nvs_def)

text \<open>
  A deleted message does not come back: after a successful \<open>message_store_delete\<close>
  of a stored message the slot reads empty, now and after a restart.
\<close>

theorem deleted_message_stays_deleted:
  assumes "nvs_faithful api" "store_inv st" "message_store_read slot st = Some m"
    "message_store_delete api slot st = (ESP_OK, st')" "\<forall>n. nvs_open api n False = ESP_OK"
  shows "message_store_read slot st' = None \<and>
    message_store_read slot (message_store_load_messages_from_nvs api local st') = None"
proof -
  have s: "slot = int (nat slot)" "nat slot < 16" "pm_state (persisted_slots st ! nat slot) \<noteq> 0"
    using assms(3) by (auto simp: message_store_read_def slot_in_range_def split: if_splits)
  then have d: "delete_record_locked api (int (nat slot)) st = (ESP_OK, st')"
    using assms(4) by (auto simp: message_store_delete_def split: if_splits)
  have l: "length (persisted_slots st) = 16" using assms(2) by (simp add: store_inv_def)
  have "persisted_slots st' = (persisted_slots st)[nat slot := persisted_message_zero]"
    using s(2) by (cases rule: delete_record_cases [OF d]) (simp_all add: clear_slot_def)
  then have "message_store_read slot st' = None" using s(2) l by (simp add: message_store_read_def)
  moreover have "message_store_read (int (nat slot)) (message_store_load_messages_from_nvs api local st') = None"
    by (subst read_after_load) (simp_all add: delete_flash(1) [OF assms(1) d s(2)] assms(5) s(2) keep_record_def)
  ultimately show ?thesis using s(1) by metis
qed

theorem deleted_message_stays_deleted_witness:
  "let st = snd (message_store_write map_nvs 0 sample_message sample_store) in
   message_store_read 0 (message_store_load_messages_from_nvs map_nvs None (snd (message_store_delete map_nvs 0 st))) = None"
proof -
  let ?st = "snd (message_store_write map_nvs 0 sample_message sample_store)"
  have r: "message_store_read 0 ?st = Some sample_message" using write_reads [OF sample_ok(1) sample_write] by blast
  have i: "store_inv ?st" by (rule message_store_write_inv [OF sample_ok sample_write])
  have "pm_state (persisted_slots ?st ! 0) \<noteq> 0" using r by (auto simp: message_store_read_def slot_in_range_def split: if_splits)
  then have "message_store_delete map_nvs 0 ?st = (ESP_OK, snd (message_store_delete map_nvs 0 ?st))"
    by (simp add: message_store_delete_def slot_in_range_def delete_record_locked_def delete_record_nvs_def slot_key_def
        map_nvs_def Let_def split: prod.split)
  from deleted_message_stays_deleted [OF map_nvs_faithful i r this, of None] show ?thesis
    by (simp add: map_nvs_def)
qed

text \<open>
  C34. The checksum protects a stored message: if any one byte of the message in a record read
  from flash differs from the one written, the record is refused and its slot is left empty.
\<close>

theorem corrupted_record_refused:
  assumes "persisted_record_valid r" "wf_message (pm_message r)" "16 \<le> k" "k < RECORD_SIZE"
    and "x \<noteq> record_image r ! k" "slot_key slot = Some key"
    and "nvs_get_blob api n key RECORD_SIZE = Inr ((record_image r)[k := x])"
  shows "load_persisted_slot api n slot slots = clear_slot (nat slot) slots"
  using corrupted_invalid [OF assms(1-5)] assms(6,7) by (simp add: load_persisted_slot_def)

theorem corrupted_record_refused_witness:
  "load_persisted_slot map_nvs
     [lit ''msg_0'' \<mapsto> (record_image (make_record sample_message MESSAGE_SLOT_QUEUED))
        [20 := NOT (record_image (make_record sample_message MESSAGE_SLOT_QUEUED) ! 20)]]
     0 (replicate 16 persisted_message_zero) = clear_slot 0 (replicate 16 persisted_message_zero)"
proof -
  have "print_dec 0 = lit ''0''" by code_simp
  then have key: "slot_key 0 = Some (lit ''msg_0'')" by (simp add: slot_key_def lit_def)
  have ne: "NOT x \<noteq> (x :: u8)" for x
  proof
    assume "NOT x = x"
    then have "bit (NOT x) 0 = bit x 0" by simp
    then show False by (simp add: bit_simps)
  qed
  have l: "length (record_image (make_record sample_message MESSAGE_SLOT_QUEUED)) = 768"
    using sample_ok(2) by (simp add: length_record_image)
  show ?thesis
    using corrupted_record_refused [OF valid_make_record [of sample_message MESSAGE_SLOT_QUEUED] _ _ _ ne key,
        of 20 map_nvs] sample_ok(2) l
    by (simp add: map_nvs_def)
qed

text \<open>
  C35. Every store the program can reach, by any sequence of operations, flash answers and
  restarts, is consistent: used slots hold valid checksummed records, a reserved slot is
  empty, \<open>message_store_count\<close> is the number of used slots, and \<open>message_store_get\<close>
  and \<open>message_store_copy_all\<close> enumerate exactly their messages, in slot order.
\<close>

theorem reachable_store_consistent:
  assumes "store_reach api st"
  shows "store_inv st \<and> message_store_count st = length (used_messages st) \<and> message_store_count st \<le> MAX_MESSAGES \<and>
    (\<forall>i. message_store_get i st = (if i < message_store_count st then Some (used_messages st ! i) else None)) \<and>
    (\<forall>n. message_store_copy_all n st = take n (used_messages st))"
proof -
  have i: "store_inv st" by (rule store_reach_inv [OF assms])
  have l: "length (used_messages st) \<le> 16"
    using i count_if_le [of "\<lambda>r. pm_state r \<noteq> 0" "persisted_slots st"]
    by (simp add: used_messages_def store_inv_def count_if_def del: count_if_le)
  have "message_store_get j st = (if j < length (used_messages st) then Some (used_messages st ! j) else None)" for j
    using get_loop_spec [of 0 j "persisted_slots st"] by (simp add: message_store_get_def used_messages_def Let_def)
  moreover have "message_store_copy_all n st = take n (used_messages st)" for n
    by (simp add: message_store_copy_all_def used_messages_def copy_all_loop_spec)
  ultimately show ?thesis using i l by (simp add: store_inv_def message_store_count_def)
qed

theorem reachable_store_consistent_witness:
  "message_store_get 0 (snd (message_store_write map_nvs 0 sample_message sample_store)) =
   Some (used_messages (snd (message_store_write map_nvs 0 sample_message sample_store)) ! 0)"
proof -
  have "store_reach map_nvs sample_store"
    unfolding sample_store_def by (rule reach_step [OF reach_boot step_allocate]) (simp add: prod_eq_iff)
  then have r: "store_reach map_nvs (snd (message_store_write map_nvs 0 sample_message sample_store))"
    by (rule reach_step [OF _ step_write [OF sample_ok(2) sample_write]])
  have "message_store_count (snd (message_store_write map_nvs 0 sample_message sample_store)) = 1"
  proof -
    obtain i st1 where w: "persisted_slots (snd (message_store_write map_nvs 0 sample_message sample_store)) =
        (persisted_slots sample_store)[i := make_record sample_message (state_for_message sample_message)]" "0 = int i"
      "message_store_count (snd (message_store_write map_nvs 0 sample_message sample_store)) =
        length (used_messages (snd (message_store_write map_nvs 0 sample_message sample_store)))"
      by (rule write_ok [OF sample_ok(1) sample_write]) metis
    then show ?thesis by (simp add: used_messages_def sample_store_eq numeral_eq_Suc)
  qed
  then show ?thesis using reachable_store_consistent [OF r] by simp
qed

end
