(* ===== verification/Tx_Scheduler_Props.thy ===== *)
theory Tx_Scheduler_Props
  imports Message_Store_Props Tx_Scheduler
begin

text \<open>
  What the transmission scheduler guarantees: every event uses up part of an entry's rank
  and each request to the radio part of its budget, so an accepted message costs at most
  three transmissions and the scheduler settles; entries that are due move on; an
  acknowledged or failed message is not sent again, not even after a restart.
\<close>

subsection \<open>The state machine of one entry\<close>

definition live_state :: "tx_state_t \<Rightarrow> bool" where
  "live_state s \<longleftrightarrow> s \<in> {TX_STATE_QUEUED, TX_STATE_SUBMITTING, TX_STATE_WAITING_RADIO, TX_STATE_WAITING_ACK, TX_STATE_RETRY_BACKOFF}"

definition entry_ok :: "tx_entry_t \<Rightarrow> bool" where
  "entry_ok e \<longleftrightarrow> (te_active e \<longrightarrow> live_state (te_state e) \<and> te_attempts e \<le> TX_RETRY_MAX_ATTEMPTS)"

definition tx_inv :: "'n tx_sched \<Rightarrow> bool" where
  "tx_inv st \<longleftrightarrow> length (tx_entries st) = MAX_MESSAGES \<and> (\<forall>e\<in>set (tx_entries st). entry_ok e)"

text \<open>How many transmissions an entry may still request, and how far it is from its end.\<close>

definition budget :: "tx_entry_t \<Rightarrow> nat" where
  "budget e = (if te_active e then 3 - unat (te_attempts e) else 0)"

fun phase :: "tx_state_t \<Rightarrow> nat" where
  "phase TX_STATE_SUBMITTING = 4"
| "phase TX_STATE_WAITING_RADIO = 3"
| "phase TX_STATE_WAITING_ACK = 2"
| "phase s = 1"

definition rank :: "tx_entry_t \<Rightarrow> nat" where
  "rank e = (if te_active e then 5 * budget e + phase (te_state e) else 0)"

lemma attempts_le: "a \<le> TX_RETRY_MAX_ATTEMPTS \<longleftrightarrow> unat a \<le> 3"
  by (simp add: TX_RETRY_MAX_ATTEMPTS_def word_le_nat_alt)

lemma attempts_less: "\<not> TX_RETRY_MAX_ATTEMPTS \<le> a \<longleftrightarrow> unat a < 3"
  by (simp add: TX_RETRY_MAX_ATTEMPTS_def word_le_nat_alt not_le)

lemma unat_attempts_Suc: "unat (a :: u8) < 3 \<Longrightarrow> unat (a + 1) = Suc (unat a)"
  by (simp add: unat_plus_if')

lemma set_status_fields [simp]:
  "te_state (fst (set_status api s (e, store))) = te_state e"
  "te_active (fst (set_status api s (e, store))) = te_active e"
  "te_attempts (fst (set_status api s (e, store))) = te_attempts e"
  "te_generation (fst (set_status api s (e, store))) = te_generation e"
  "te_nvs_slot (fst (set_status api s (e, store))) = te_nvs_slot e"
  "te_next_action_tick (fst (set_status api s (e, store))) = te_next_action_tick e"
  by (simp_all add: set_status_def Let_def)

lemma finalize_failure_inactive [simp]: "\<not> te_active (fst (finalize_failure api es))"
  by (simp add: finalize_failure_def split_beta Let_def)

lemma inactive_simps: "\<not> te_active e \<Longrightarrow> rank e = 0 \<and> budget e = 0 \<and> entry_ok e"
  by (simp add: rank_def budget_def entry_ok_def)

text \<open>
  A move of one entry: it uses up rank, and one unit of budget for each request it makes.
\<close>

definition entry_move :: "nat \<Rightarrow> tx_entry_t \<Rightarrow> tx_entry_t \<Rightarrow> bool" where
  "entry_move r e e' \<longleftrightarrow> entry_ok e' \<and> rank e' < rank e \<and> budget e' + r \<le> budget e"

lemma entry_move_end: "te_active e \<Longrightarrow> entry_ok e \<Longrightarrow> \<not> te_active e' \<Longrightarrow> entry_move 0 e e'"
  using inactive_simps [of e'] by (cases "te_state e") (auto simp: entry_move_def rank_def entry_ok_def live_state_def)

lemma entry_move_phase:
  assumes "entry_ok e" "te_active e" "te_active e'" "te_attempts e' = te_attempts e" "live_state (te_state e')"
    "phase (te_state e') < phase (te_state e)"
  shows "entry_move 0 e e'"
  using assms by (auto simp: entry_move_def rank_def budget_def entry_ok_def)

lemma entry_move_submit:
  assumes "te_active e" "\<not> TX_RETRY_MAX_ATTEMPTS \<le> te_attempts e" "te_active e'" "te_attempts e' = te_attempts e + 1"
    "te_state e' = TX_STATE_SUBMITTING" "phase (te_state e) = 1"
  shows "entry_move 1 e e'"
  using assms unat_attempts_Suc [of "te_attempts e"]
  by (auto simp: entry_move_def rank_def budget_def entry_ok_def attempts_less attempts_le live_state_def)

definition sched_move :: "nat \<Rightarrow> 'n tx_sched \<Rightarrow> 'n tx_sched \<Rightarrow> bool" where
  "sched_move r st st' \<longleftrightarrow> (\<exists>i<MAX_MESSAGES. \<exists>e'. te_active (tx_entries st ! i) \<and> entry_move r (tx_entries st ! i) e' \<and>
     tx_entries st' = (tx_entries st)[i := e'] \<and> next_generation st' = next_generation st)"

lemma sched_move_at_entry:
  "i < MAX_MESSAGES \<Longrightarrow> te_active (tx_entries st ! i) \<Longrightarrow>
   entry_move r (tx_entries st ! i) (fst (f (tx_entries st ! i, tx_store st))) \<Longrightarrow> sched_move r st (at_entry i f st)"
  by (auto simp: sched_move_def at_entry_def split_beta)

lemma find_index_in:
  "find_index P (tx_entries st) = Some i \<Longrightarrow> tx_inv st \<Longrightarrow> i < MAX_MESSAGES \<and> P (tx_entries st ! i)"
  using find_index_SomeD [of P "tx_entries st" i] by (auto simp: tx_inv_def)

lemma tx_inv_entry: "tx_inv st \<Longrightarrow> i < MAX_MESSAGES \<Longrightarrow> entry_ok (tx_entries st ! i)"
  by (simp add: tx_inv_def)

lemma radio_outcome_move:
  assumes "entry_ok e" "te_active e" "te_state e = TX_STATE_WAITING_RADIO"
  shows "entry_move 0 e (fst (radio_outcome api now code (e, store)))"
  using assms by (intro entry_move_phase) (auto simp: radio_outcome_def live_state_def split: lora_tx_result_code_t.splits)

lemma handle_radio_result_move:
  assumes "tx_inv st"
  shows "handle_radio_result api now res st = st \<or> sched_move 0 st (handle_radio_result api now res st)"
proof (cases "handle_radio_result api now res st = st")
  case False
  then obtain c i where i: "find_entry_by_generation (tx_entries st) (em_id (te_message (tx_entries st ! c)))
      (te_generation (tx_entries st ! c)) (rr_request_id res) = Some i" "te_state (tx_entries st ! i) = TX_STATE_WAITING_RADIO"
    "handle_radio_result api now res st = at_entry i (radio_outcome api now (rr_result res)) st"
    by (auto simp: handle_radio_result_def split: option.splits if_splits)
  from find_index_in [OF i(1) [unfolded find_entry_by_generation_def] assms]
  have j: "i < 16" "te_active (tx_entries st ! i)" by auto
  have "sched_move 0 st (at_entry i (radio_outcome api now (rr_result res)) st)"
    using j radio_outcome_move [OF tx_inv_entry [OF assms j(1)] j(2) i(2)] by (intro sched_move_at_entry) simp_all
  then show ?thesis using i(3) by simp
qed simp

lemma scheduler_visit_move:
  assumes "tx_inv st" "i < MAX_MESSAGES" "scheduler_visit api now i st = (b, st')"
  shows "st' = st \<or> sched_move 0 st st'"
proof -
  let ?e = "tx_entries st ! i"
  have ok: "entry_ok ?e" by (rule tx_inv_entry [OF assms(1,2)])
  consider "st' = st"
    | f where "te_active ?e" "te_state ?e \<in> {TX_STATE_WAITING_ACK, TX_STATE_WAITING_RADIO}" "st' = at_entry i f st"
        "\<not> te_active (fst (f (?e, tx_store st))) \<or>
         (te_active (fst (f (?e, tx_store st))) \<and> te_attempts (fst (f (?e, tx_store st))) = te_attempts ?e \<and>
          te_state (fst (f (?e, tx_store st))) = TX_STATE_RETRY_BACKOFF)"
    using assms(3) by (fastforce simp: scheduler_visit_def Let_def split: if_splits)
  then show ?thesis
  proof cases
    case (2 f)
    have "entry_move 0 ?e (fst (f (?e, tx_store st)))"
      using 2(4)
    proof
      assume "\<not> te_active (fst (f (?e, tx_store st)))"
      then show ?thesis using ok 2(1) by (intro entry_move_end)
    next
      assume "te_active (fst (f (?e, tx_store st))) \<and> te_attempts (fst (f (?e, tx_store st))) = te_attempts ?e \<and>
          te_state (fst (f (?e, tx_store st))) = TX_STATE_RETRY_BACKOFF"
      then show ?thesis using ok 2(1,2) by (intro entry_move_phase) (auto simp: live_state_def)
    qed
    then show ?thesis using 2 assms(2) by (simp add: sched_move_at_entry)
  qed simp
qed

lemma send_begin_move:
  assumes "tx_inv st" "i < MAX_MESSAGES" "send_begin api now random best local stack i st = (req, st')"
  shows "st' = st \<and> req = None \<or> sched_move (if req = None then 0 else 1) st st'"
proof -
  let ?e = "tx_entries st ! i"
  have ok: "entry_ok ?e" by (rule tx_inv_entry [OF assms(1,2)])
  show ?thesis
  proof (cases "te_active ?e \<and> te_state ?e \<in> {TX_STATE_QUEUED, TX_STATE_RETRY_BACKOFF, TX_STATE_CREATED}")
    case False
    then show ?thesis using assms(3) by (auto simp: send_begin_def Let_def)
  next
    case True
    then have c: "\<not> (\<not> te_active ?e \<or> (te_state ?e \<noteq> TX_STATE_QUEUED \<and> te_state ?e \<noteq> TX_STATE_RETRY_BACKOFF \<and>
        te_state ?e \<noteq> TX_STATE_CREATED))" by auto
    show ?thesis
    proof (cases "TX_RETRY_MAX_ATTEMPTS \<le> te_attempts ?e \<or> prepare_current_packet best local stack ?e = None")
      case fail: True
      then obtain f where f: "req = None" "st' = at_entry i f st" "\<not> te_active (fst (f (?e, tx_store st)))"
        using assms(3) c by (auto simp: send_begin_def Let_def split_beta split: if_splits)
      then show ?thesis using ok True assms(2) by (simp add: sched_move_at_entry entry_move_end)
    next
      case go: False
      then obtain p where p: "prepare_current_packet best local stack ?e = Some p" by auto
      obtain e' where e': "req \<noteq> None" "tx_entries st' = (tx_entries st)[i := e']" "next_generation st' = next_generation st"
        "te_active e'" "te_attempts e' = te_attempts ?e + 1" "te_state e' = TX_STATE_SUBMITTING"
        using assms(3) c go p True by (cases p) (auto simp: send_begin_def Let_def)
      have "entry_move 1 ?e e'" using True go e' by (intro entry_move_submit) auto
      then show ?thesis using e' True assms(2) by (auto simp: sched_move_def)
    qed
  qed
qed

lemma send_finish_move:
  assumes "tx_inv st"
  shows "send_finish api now mid gen rid res st = st \<or> sched_move 0 st (send_finish api now mid gen rid res st)"
proof (cases "find_entry_by_generation (tx_entries st) mid gen rid")
  case None
  show ?thesis unfolding send_finish_def None by simp
next
  case (Some i)
  from find_index_in [OF Some [unfolded find_entry_by_generation_def] assms]
  have i: "i < 16" "te_active (tx_entries st ! i)" by auto
  have ok: "entry_ok (tx_entries st ! i)" by (rule tx_inv_entry [OF assms i(1)])
  show ?thesis
  proof (cases "te_state (tx_entries st ! i) = TX_STATE_SUBMITTING")
    case True
    let ?f = "\<lambda>(e, s). if res \<noteq> ESP_OK then
            (let e = e\<lparr>te_error := TX_ERROR_QUEUE_FULL\<rparr> in
             if te_attempts e \<ge> TX_RETRY_MAX_ATTEMPTS then finalize_failure api (e, s)
             else (e\<lparr>te_state := TX_STATE_RETRY_BACKOFF, te_next_action_tick := now + pdMS_TO_TICKS 2000\<rparr>, s))
          else (e\<lparr>te_state := TX_STATE_WAITING_RADIO, te_next_action_tick := now + pdMS_TO_TICKS 10000\<rparr>, s)"
    have "entry_move 0 (tx_entries st ! i) (fst (?f (tx_entries st ! i, tx_store st)))"
    proof (cases "res \<noteq> ESP_OK \<and> te_attempts (tx_entries st ! i) \<ge> TX_RETRY_MAX_ATTEMPTS")
      case True
      then show ?thesis using ok i(2) by (intro entry_move_end) auto
    next
      case False
      then show ?thesis using ok i(2) True by (intro entry_move_phase) (auto simp: live_state_def)
    qed
    then have "sched_move 0 st (at_entry i ?f st)" using i by (simp add: sched_move_at_entry)
    then show ?thesis using Some True by (simp add: send_finish_def)
  qed (use Some in \<open>simp add: send_finish_def\<close>)
qed

lemma acknowledge_move:
  assumes "tx_inv st" "tx_scheduler_acknowledge api ident source st = (b, st')"
  shows "st' = st \<or> sched_move 0 st st'"
proof (cases b)
  case False
  then show ?thesis using assms(2) by (auto simp: tx_scheduler_acknowledge_def split: option.splits if_splits)
next
  case True
  then obtain src i f where f: "find_entry (tx_entries st) ident src = Some i" "st' = at_entry i f st"
    "\<not> te_active (fst (f (tx_entries st ! i, tx_store st)))"
    using assms(2) by (auto simp: tx_scheduler_acknowledge_def split_beta split: option.splits if_splits)
  from find_index_in [OF f(1) [unfolded find_entry_def] assms(1)]
  have i: "i < 16" "te_active (tx_entries st ! i)" by auto
  then show ?thesis using f tx_inv_entry [OF assms(1) i(1)] by (simp add: sched_move_at_entry entry_move_end)
qed
subsection \<open>Executions\<close>

text \<open>
  One critical section of the scheduler: requests handed to the radio, entries taken in.
  The last rule is every other task's use of the message store.
\<close>

inductive tx_step :: "'n nvs_api \<Rightarrow> nat \<Rightarrow> nat \<Rightarrow> 'n tx_sched \<Rightarrow> 'n tx_sched \<Rightarrow> bool" for api where
  tx_radio: "tx_step api 0 0 st (handle_radio_result api now res st)"
| tx_visit: "i < MAX_MESSAGES \<Longrightarrow> scheduler_visit api now i st = (b, st') \<Longrightarrow> tx_step api 0 0 st st'"
| tx_begin: "i < MAX_MESSAGES \<Longrightarrow> send_begin api now random best local stack i st = (req, st') \<Longrightarrow>
    tx_step api (if req = None then 0 else 1) 0 st st'"
| tx_finish: "tx_step api 0 0 st (send_finish api now mid gen rid res st)"
| tx_ack: "tx_scheduler_acknowledge api ident source st = (b, st') \<Longrightarrow> tx_step api 0 0 st st'"
| tx_submit: "tx_scheduler_enqueue api now m slot st = (b, st') \<Longrightarrow> tx_step api 0 (if b then 1 else 0) st st'"
| tx_restore: "tx_scheduler_restore_pending now st = (n, st') \<Longrightarrow> tx_step api 0 n st st'"
| tx_other: "tx_step api 0 0 st (st\<lparr>tx_store := s\<rparr>)"

inductive tx_exec :: "'n nvs_api \<Rightarrow> nat \<Rightarrow> nat \<Rightarrow> nat \<Rightarrow> 'n tx_sched \<Rightarrow> bool" for api where
  tx_boot: "tx_entries st = replicate MAX_MESSAGES tx_entry_zero \<Longrightarrow> tx_exec api 0 0 0 st"
| tx_next: "tx_exec api n r k st \<Longrightarrow> tx_step api r' k' st st' \<Longrightarrow>
    tx_exec api (n + (if tx_entries st' = tx_entries st then 0 else 1)) (r + r') (k + k') st'"

definition total :: "(tx_entry_t \<Rightarrow> nat) \<Rightarrow> 'n tx_sched \<Rightarrow> nat" where
  "total f st = sum_list (map f (tx_entries st))"

lemma sum_list_put: "i < length xs \<Longrightarrow> sum_list (map f (xs[i := x])) + f (xs ! i) = sum_list (map f xs) + (f x :: nat)"
  by (induction xs arbitrary: i) (auto split: nat.splits)

lemma tx_inv_put: "tx_inv st \<Longrightarrow> entry_ok e \<Longrightarrow> tx_entries st' = (tx_entries st)[i := e] \<Longrightarrow> tx_inv st'"
  by (auto simp: tx_inv_def dest: set_list_update_cases)

lemma sched_move_totals:
  assumes "tx_inv st" "sched_move r st st'"
  shows "tx_inv st' \<and> total rank st' < total rank st \<and> total budget st' + r \<le> total budget st"
proof -
  obtain i e where i: "i < 16" "entry_move r (tx_entries st ! i) e" "tx_entries st' = (tx_entries st)[i := e]"
    using assms(2) by (auto simp: sched_move_def)
  have "i < length (tx_entries st)" using i(1) assms(1) by (simp add: tx_inv_def)
  from sum_list_put [OF this, of rank e] sum_list_put [OF this, of budget e] i(2,3)
  have "total rank st' < total rank st" "total budget st' + r \<le> total budget st"
    by (auto simp: total_def entry_move_def)
  moreover have "tx_inv st'" using i(2,3) assms(1) by (auto intro: tx_inv_put simp: entry_move_def)
  ultimately show ?thesis by simp
qed

text \<open>A new entry has rank 16 and a budget of 3 requests.\<close>

lemma fresh_entry:
  assumes "tx_inv st" "next_slot (tx_entries st) = Some i" "tx_entries st' = (tx_entries st)[i := e]"
    "te_active e" "te_attempts e = 0" "te_state e = TX_STATE_QUEUED"
  shows "tx_inv st' \<and> total rank st' = total rank st + 16 \<and> total budget st' = total budget st + 3"
proof -
  from find_index_in [OF assms(2) [unfolded next_slot_def] assms(1)]
  have i: "i < length (tx_entries st)" "\<not> te_active (tx_entries st ! i)" using assms(1) by (auto simp: tx_inv_def)
  have e: "entry_ok e" "rank e = 16" "budget e = 3" using assms(4-6)
    by (simp_all add: entry_ok_def rank_def budget_def live_state_def attempts_le)
  from sum_list_put [OF i(1), of rank e] sum_list_put [OF i(1), of budget e] inactive_simps [OF i(2)] e assms(3)
  show ?thesis by (auto simp: total_def intro: tx_inv_put [OF assms(1)])
qed

lemma restore_loop_totals:
  assumes "tx_inv st" "restore_loop tick pending st = (n, st')"
  shows "tx_inv st' \<and> total rank st' = total rank st + 16 * n \<and> total budget st' = total budget st + 3 * n \<and>
    (n = 0 \<longrightarrow> st' = st)"
  using assms
proof (induction tick pending st arbitrary: n rule: restore_loop.induct)
  case (2 tick m slot pending st)
  show ?case
  proof (cases "next_slot (tx_entries st)")
    case None
    then show ?thesis using "2.prems" by (simp del: find_index_None)
  next
    case (Some i)
    let ?g = "fresh_generation (next_generation st)"
    let ?e = "tx_entry_zero\<lparr>te_message := m, te_nvs_slot := int slot, te_generation := ?g,
                   te_state := TX_STATE_QUEUED, te_remaining_hops := em_hops m, te_next_action_tick := tick,
                   te_active := True\<rparr>"
    let ?st = "st\<lparr>tx_entries := (tx_entries st)[i := ?e], next_generation := ?g\<rparr>"
    obtain n' where n': "restore_loop tick pending ?st = (n', st')" "n = n' + 1"
      using "2.prems"(2) Some by (auto simp: Let_def split: prod.splits)
    have f: "tx_inv ?st \<and> total rank ?st = total rank st + 16 \<and> total budget ?st = total budget st + 3"
      using "2.prems"(1) Some by (rule fresh_entry [where e = ?e]) (simp_all add: tx_entry_zero_def)
    then show ?thesis using "2.IH" [OF Some refl refl _ n'(1)] n'(2) by simp
  qed
qed simp

lemma submit_cases:
  assumes "tx_scheduler_submit api now m slot st = (b, st')"
  obtains (full) "next_slot (tx_entries st) = None" "\<not> b" "st' = st"
  | (taken) i e where "next_slot (tx_entries st) = Some i" "b" "tx_entries st' = (tx_entries st)[i := e]"
      "te_active e" "te_attempts e = 0" "te_state e = TX_STATE_QUEUED" "te_nvs_slot e = slot" "te_next_action_tick e = now"
      "te_message e = m\<lparr>em_status := copy_field (em_status m) (lit ''QUEUED''), em_hops := max 0 (em_hops m)\<rparr>"
      "tx_store st' = (if slot \<ge> 0 then snd (message_store_update api slot (te_message e) (tx_store st)) else tx_store st)"
proof (cases "next_slot (tx_entries st)")
  case None
  then show thesis using full assms by (simp add: tx_scheduler_submit_def del: find_index_None)
next
  case (Some i)
  let ?e = "tx_entry_zero\<lparr>te_generation := fresh_generation (next_generation st), te_nvs_slot := slot,
      te_message := m\<lparr>em_status := copy_field (em_status m) (lit ''QUEUED''), em_hops := max 0 (em_hops m)\<rparr>,
      te_state := TX_STATE_QUEUED, te_remaining_hops := em_hops m, te_next_action_tick := now, te_active := True\<rparr>"
  show thesis
    by (rule taken [of i ?e]) (use assms Some in \<open>auto simp: tx_scheduler_submit_def at_entry_def set_status_def Let_def tx_entry_zero_def max_def\<close>)
qed

lemma submit_totals:
  assumes "tx_inv st" "tx_scheduler_submit api now m slot st = (b, st')"
  shows "tx_inv st' \<and> total rank st' = total rank st + 16 * (if b then 1 else 0) \<and>
    total budget st' = total budget st + 3 * (if b then 1 else 0) \<and> (\<not> b \<longrightarrow> st' = st)"
  using assms(2)
proof (cases rule: submit_cases)
  case (taken i e)
  then show ?thesis using fresh_entry [OF assms(1) taken(1,3-6)] by simp
qed (use assms(1) in simp)

lemma tx_step_totals:
  assumes "tx_step api r k st st'" "tx_inv st"
  shows "tx_inv st' \<and> total rank st' + (if tx_entries st' = tx_entries st then 0 else 1) \<le> total rank st + 17 * k \<and>
    total budget st' + r \<le> total budget st + 3 * k"
proof -
  have move: ?thesis if "st' = st \<and> r = 0 \<or> sched_move r st st'"
    using that sched_move_totals [OF assms(2)] assms(2) by (auto dest!: sched_move_totals [OF assms(2)])
  show ?thesis
    using assms(1)
  proof cases
    case tx_submit
    show ?thesis using submit_totals [OF assms(2) tx_submit(3) [unfolded tx_scheduler_enqueue_def]] tx_submit(1,2) by auto
  next
    case tx_restore
    then show ?thesis using restore_loop_totals [OF assms(2) tx_restore(2) [unfolded tx_scheduler_restore_pending_def]]
      by (cases k) auto
  next
    case tx_radio
    then show ?thesis using move handle_radio_result_move [OF assms(2)] by metis
  next
    case tx_visit
    then show ?thesis using move scheduler_visit_move [OF assms(2)] by blast
  next
    case tx_begin
    then show ?thesis using move send_begin_move [OF assms(2) tx_begin(3,4)] by auto
  next
    case tx_finish
    then show ?thesis using move send_finish_move [OF assms(2)] by metis
  next
    case tx_ack
    then show ?thesis using move acknowledge_move [OF assms(2)] by blast
  next
    case tx_other
    then show ?thesis using assms(2) by (simp add: total_def tx_inv_def)
  qed
qed

lemma total_boot: "total rank st = 0 \<and> total budget st = 0 \<and> tx_inv st" if "tx_entries st = replicate MAX_MESSAGES tx_entry_zero"
  using that inactive_simps [of tx_entry_zero] by (simp add: total_def tx_inv_def map_replicate tx_entry_zero_def sum_list_replicate)

lemma tx_exec_totals:
  "tx_exec api n r k st \<Longrightarrow> tx_inv st \<and> n + total rank st \<le> 17 * k \<and> r + total budget st \<le> 3 * k"
proof (induction rule: tx_exec.induct)
  case (tx_boot st)
  then show ?case using total_boot by fastforce
next
  case (tx_next n r k st r' k' st')
  then show ?case using tx_step_totals [OF tx_next(2)] by auto
qed

subsection \<open>Progress\<close>

lemma sched_move_entry:
  "tx_inv st \<Longrightarrow> sched_move r st st' \<Longrightarrow> rank (tx_entries st' ! i) \<le> rank (tx_entries st ! i)"
  by (cases "i < MAX_MESSAGES") (auto simp: sched_move_def entry_move_def tx_inv_def nth_list_update)

lemma moved_entry:
  assumes "st' = st \<or> sched_move r st st'" "tx_inv st" "i < MAX_MESSAGES" "tx_entries st' ! i \<noteq> tx_entries st ! i"
  shows "rank (tx_entries st' ! i) < rank (tx_entries st ! i)"
  using assms by (auto simp: sched_move_def entry_move_def nth_list_update tx_inv_def split: if_splits)

lemma visit_due:
  assumes "scheduler_visit api now i st = (False, st')" "i < length (tx_entries st)" "te_active (tx_entries st ! i)"
    "live_state (te_state (tx_entries st ! i))" "te_state (tx_entries st ! i) \<noteq> TX_STATE_SUBMITTING"
    "te_next_action_tick (tx_entries st ! i) \<le> now"
  shows "te_state (tx_entries st ! i) \<noteq> TX_STATE_RETRY_BACKOFF \<and>
    (\<not> te_active (tx_entries st' ! i) \<or> te_state (tx_entries st' ! i) = TX_STATE_RETRY_BACKOFF)"
  using assms by (auto simp: scheduler_visit_def Let_def live_state_def at_entry_def split_beta split: if_splits)

lemma begin_due:
  assumes "send_begin api now random best local stack i st = (req, st')" "i < length (tx_entries st)"
    "te_active (tx_entries st ! i)" "te_state (tx_entries st ! i) \<in> {TX_STATE_QUEUED, TX_STATE_RETRY_BACKOFF, TX_STATE_CREATED}"
  shows "\<not> te_active (tx_entries st' ! i) \<or> te_state (tx_entries st' ! i) = TX_STATE_SUBMITTING"
  using assms by (auto simp: send_begin_def Let_def at_entry_def split_beta split: if_splits option.splits)

lemma serve_due:
  assumes "tx_inv st" "i < MAX_MESSAGES" "te_active (tx_entries st ! i)" "te_state (tx_entries st ! i) \<noteq> TX_STATE_SUBMITTING"
    "te_next_action_tick (tx_entries st ! i) \<le> now"
  shows "rank (tx_entries (scheduler_serve api now env i st) ! i) < rank (tx_entries st ! i)"
proof -
  obtain b st1 where v: "scheduler_visit api now i st = (b, st1)" by fastforce
  have live: "live_state (te_state (tx_entries st ! i))" and l: "i < length (tx_entries st)"
    using tx_inv_entry [OF assms(1,2)] assms by (auto simp: entry_ok_def tx_inv_def)
  show ?thesis
  proof (cases b)
    case False
    then have "tx_entries st1 ! i \<noteq> tx_entries st ! i" using visit_due [of api now i st st1, OF _ l assms(3) live assms(4,5)] v assms(3) by auto
    then show ?thesis using moved_entry [OF scheduler_visit_move [OF assms(1,2) v] assms(1,2)] v False
      by (simp add: scheduler_serve_def)
  next
    case True
    then have s: "st1 = st" "te_state (tx_entries st ! i) \<in> {TX_STATE_QUEUED, TX_STATE_RETRY_BACKOFF, TX_STATE_CREATED}"
      using v by (auto simp: scheduler_visit_def Let_def split: if_splits)
    obtain req st2 where b: "send_begin api (se_begin_tick env) (se_random env) (se_route env) (se_local env) (se_stack env) i st = (req, st2)"
      by fastforce
    have m: "st2 = st \<or> sched_move (if req = None then 0 else 1) st st2"
      using send_begin_move [OF assms(1,2) b] by auto
    have ne: "tx_entries st2 ! i \<noteq> tx_entries st ! i" using begin_due [OF b l assms(3) s(2)] assms(3) s(2) by auto
    have r2: "rank (tx_entries st2 ! i) < rank (tx_entries st ! i)" by (rule moved_entry [OF m assms(1,2) ne])
    have i2: "tx_inv st2" using m assms(1) sched_move_totals by blast
    have "rank (tx_entries (send_finish api t mid gen rid res st2) ! i) < rank (tx_entries st ! i)" for t mid gen rid res
      using send_finish_move [OF i2, of api t mid gen rid res] sched_move_entry [OF i2] r2 by (metis le_less_trans)
    then show ?thesis using r2 v b True s(1)
      by (cases req) (auto simp: scheduler_serve_def send_current_packet_def)
  qed
qed

subsection \<open>Settled messages\<close>

lemma pending_loop_sound:
  "(m, k) \<in> set (pending_loop rs s room) \<Longrightarrow> s \<le> k \<and> k - s < length rs \<and> m = pm_message (rs ! (k - s)) \<and> pending_tx m"
proof (induction rs s room rule: pending_loop.induct)
  case (2 r rs s room)
  then show ?case by (cases "k = s") (auto split: if_splits simp: Suc_diff_Suc [symmetric] nth_Cons' Suc_le_eq)
qed simp

lemma update_ok_record:
  assumes "message_store_update api slot m store = (ESP_OK, store')" "length (persisted_slots store) = MAX_MESSAGES"
  shows "0 \<le> slot \<and> nat slot < MAX_MESSAGES \<and>
    persisted_slots store' = (persisted_slots store)[nat slot := make_record m (state_for_message m)]"
  using assms(1)
  by (auto simp: message_store_update_def slot_in_range_def split: if_splits prod.splits
      elim!: write_record_cases)

lemma settled_not_pending:
  assumes "message_store_update api slot m store = (ESP_OK, store')" "length (persisted_slots store) = MAX_MESSAGES"
    "\<not> pending_tx m"
  shows "nat slot \<notin> snd ` set (message_store_copy_pending_tx n store')"
  using update_ok_record [OF assms(1,2)] assms(2,3)
  by (auto simp: message_store_copy_pending_tx_def dest!: pending_loop_sound)

lemma copied_status:
  "s \<in> {lit ''ACKED'', lit ''FAILED_TIMEOUT'', lit ''FAILED_RADIO'', lit ''FAILED_QUEUE''} \<Longrightarrow> copied 32 s = s"
proof -
  have "\<forall>s\<in>set [lit ''ACKED'', lit ''FAILED_TIMEOUT'', lit ''FAILED_RADIO'', lit ''FAILED_QUEUE'']. copied 32 s = s" by code_simp
  then show "s \<in> {lit ''ACKED'', lit ''FAILED_TIMEOUT'', lit ''FAILED_RADIO'', lit ''FAILED_QUEUE''} \<Longrightarrow> copied 32 s = s" by auto
qed

lemma settled_status:
  assumes "length b = 32" "s \<in> {lit ''ACKED'', lit ''FAILED_TIMEOUT'', lit ''FAILED_RADIO'', lit ''FAILED_QUEUE''}"
    "em_status m = copy_field b s"
  shows "\<not> pending_tx m"
proof -
  have b: "b \<noteq> []" using assms(1) by auto
  have "\<forall>s\<in>set [lit ''ACKED'', lit ''FAILED_TIMEOUT'', lit ''FAILED_RADIO'', lit ''FAILED_QUEUE''].
      s = cstr (lit ''ACKED'') \<or> take 6 s = take 6 (cstr (lit ''FAILED''))" by code_simp
  then have "s = cstr (lit ''ACKED'') \<or> take 6 s = take 6 (cstr (lit ''FAILED''))" using assms(2) by auto
  then show ?thesis using assms(1,3) b copied_status [OF assms(2)] by (auto simp: pending_tx_def streq_def strneq_def)
qed

lemma acknowledge_found:
  assumes "find_entry (tx_entries st) ident source = Some i" "\<not> str_empty source"
  defines "e \<equiv> tx_entries st ! i"
  defines "m \<equiv> (te_message e)\<lparr>em_status := copy_field (em_status (te_message e)) (lit ''ACKED''),
      em_hops := max 0 (te_remaining_hops e)\<rparr>"
  shows "tx_scheduler_acknowledge api ident (Some source) st =
    (True, st\<lparr>tx_entries := (tx_entries st)[i := e\<lparr>te_state := TX_STATE_DELIVERED, te_error := TX_ERROR_NONE, te_message := m,
         te_active := False\<rparr>],
       tx_store := if te_nvs_slot e \<ge> 0 then snd (message_store_update api (te_nvs_slot e) m (tx_store st)) else tx_store st\<rparr>)"
  using assms(1,2) by (auto simp: tx_scheduler_acknowledge_def e_def m_def at_entry_def set_status_def Let_def max_def)

subsection \<open>Resuming after a restart\<close>

definition resumed :: "u32 \<Rightarrow> u32 \<Rightarrow> emergency_message_t \<times> nat \<Rightarrow> tx_entry_t" where
  "resumed tick g p = tx_entry_zero\<lparr>te_message := fst p, te_nvs_slot := int (snd p), te_generation := g,
     te_state := TX_STATE_QUEUED, te_remaining_hops := em_hops (fst p), te_next_action_tick := tick, te_active := True\<rparr>"

lemma next_slot_append:
  "\<forall>e\<in>set es. te_active e \<Longrightarrow> next_slot (es @ replicate (Suc n) tx_entry_zero) = Some (length es)"
  by (induction es) (simp_all add: next_slot_def tx_entry_zero_def)

lemma restore_loop_spec:
  assumes "tx_entries st = es @ replicate n tx_entry_zero" "\<forall>e\<in>set es. te_active e" "length pending \<le> n"
    "restore_loop tick pending st = (c, st')"
  shows "c = length pending \<and> tx_store st' = tx_store st \<and> (\<exists>gs. length gs = length pending \<and>
    tx_entries st' = es @ map2 (resumed tick) gs pending @ replicate (n - length pending) tx_entry_zero)"
  using assms
proof (induction tick pending st arbitrary: es n c rule: restore_loop.induct)
  case (2 tick m slot pending st)
  then obtain n' where n: "n = Suc n'" by (cases n) auto
  have s: "next_slot (tx_entries st) = Some (length es)" using "2.prems"(1,2) n next_slot_append by simp
  let ?g = "fresh_generation (next_generation st)"
  let ?e = "resumed tick ?g (m, slot)"
  let ?st = "st\<lparr>tx_entries := (tx_entries st)[length es := ?e], next_generation := ?g\<rparr>"
  obtain c' where c': "restore_loop tick pending ?st = (c', st')" "c = c' + 1"
    using "2.prems"(4) s by (auto simp: Let_def resumed_def split: prod.splits)
  have e: "tx_entries ?st = (es @ [?e]) @ replicate n' tx_entry_zero" "\<forall>e\<in>set (es @ [?e]). te_active e" "length pending \<le> n'"
    using "2.prems" n by (auto simp: resumed_def)
  have ih: "c' = length pending \<and> tx_store st' = tx_store st \<and> (\<exists>gs. length gs = length pending \<and>
    tx_entries st' = (es @ [?e]) @ map2 (resumed tick) gs pending @ replicate (n' - length pending) tx_entry_zero)"
    using "2.IH" [OF s refl, where es = "es @ [?e]" and n = n' and c = c'] e c'(1) by (simp add: resumed_def)
  then obtain gs where "length gs = length pending"
    "tx_entries st' = (es @ [?e]) @ map2 (resumed tick) gs pending @ replicate (n' - length pending) tx_entry_zero" by auto
  then show ?case using ih c'(2) n by (auto intro!: exI [of _ "?g # gs"])
qed simp

lemma pending_loop_all:
  "length rs \<le> room \<Longrightarrow> pending_loop rs s room =
     map (\<lambda>(k, r). (pm_message r, k)) (filter (\<lambda>(k, r). pending_tx (pm_message r)) (enumerate s rs))"
  by (induction rs s room rule: pending_loop.induct) auto

lemma length_filter_enumerate: "length (filter (\<lambda>(k, r). P r) (enumerate s rs)) = length (filter P rs)"
  by (induction rs arbitrary: s) auto

lemma count_resumed: "length gs = length ps \<Longrightarrow> filter te_active (map2 (resumed t) gs ps) = map2 (resumed t) gs ps"
  by (auto simp: filter_id_conv resumed_def)

subsection \<open>Properties\<close>

text \<open>A scheduler with one message in progress, for the witnesses below.\<close>

definition sample_entry :: "tx_state_t \<Rightarrow> bytes \<Rightarrow> tx_entry_t" where
  "sample_entry s dest = tx_entry_zero\<lparr>te_active := True, te_state := s, te_attempts := 3, te_nvs_slot := 0,
     te_message := sample_message\<lparr>em_destination := dest\<rparr>\<rparr>"

definition sample_sched :: "tx_state_t \<Rightarrow> bytes \<Rightarrow> (bytes \<rightharpoonup> bytes) tx_sched" where
  "sample_sched s dest = \<lparr>tx_entries = sample_entry s dest # replicate 15 tx_entry_zero, next_generation = 1, tx_store = sample_store\<rparr>"

definition idle_sched :: "(bytes \<rightharpoonup> bytes) tx_sched" where
  "idle_sched = \<lparr>tx_entries = replicate 16 tx_entry_zero, next_generation = 0, tx_store = sample_store\<rparr>"

lemma zero_inactive [simp]: "\<not> te_active tx_entry_zero"
  by (simp add: tx_entry_zero_def)

lemma next_slot_idle: "next_slot (replicate 16 tx_entry_zero) = Some 0"
  using next_slot_append [of "[]" 15] by simp

lemma sample_sched_inv: "live_state s \<Longrightarrow> tx_inv (sample_sched s dest)"
  by (auto simp: tx_inv_def sample_sched_def sample_entry_def entry_ok_def TX_RETRY_MAX_ATTEMPTS_def)

lemma sample_name: "cstr (lit ''BRAVO'' @ zeros 27) = cstr (lit ''BRAVO'')"
  by code_simp

lemma sample_submit: "tx_exec map_nvs 1 0 1 (snd (tx_scheduler_enqueue map_nvs 7 sample_message 0 idle_sched))"
proof -
  let ?st = "snd (tx_scheduler_enqueue map_nvs 7 sample_message 0 idle_sched)"
  have b: "tx_scheduler_submit map_nvs 7 sample_message 0 idle_sched = (True, ?st)"
    by (simp add: tx_scheduler_enqueue_def tx_scheduler_submit_def idle_sched_def next_slot_idle Let_def)
  have n: "tx_entries ?st \<noteq> tx_entries idle_sched"
    using b
  proof (cases rule: submit_cases)
    case (taken i e)
    then have "te_active (tx_entries ?st ! 0)" by (simp add: idle_sched_def next_slot_idle)
    then show ?thesis by (metis idle_sched_def nth_replicate tx_sched.select_convs(1) zero_inactive zero_less_numeral)
  qed simp
  have "tx_exec map_nvs 0 0 0 idle_sched" by (rule tx_boot) (simp add: idle_sched_def)
  from tx_next [OF this tx_submit [OF b [folded tx_scheduler_enqueue_def]]] n show ?thesis by simp
qed

text \<open>
  C36. Retries are bounded and the scheduler settles: in every interleaving of scheduler
  visits, radio results, submissions to the radio, acknowledgements, new messages, restores
  and other tasks' use of the store, \<open>k\<close> accepted messages lead to at most \<open>3 k\<close>
  requests to the radio and at most \<open>17 k\<close> changes of the table.
\<close>

theorem tx_retries_bounded:
  "tx_exec api n r k st \<Longrightarrow> r \<le> 3 * k \<and> n \<le> 17 * k"
  using tx_exec_totals [of api n r k st] by linarith

theorem tx_retries_bounded_witness:
  "tx_exec map_nvs 1 0 1 (snd (tx_scheduler_enqueue map_nvs 7 sample_message 0 idle_sched)) \<and> (0 :: nat) \<le> 3 * 1 \<and> (1 :: nat) \<le> 17 * 1"
  using sample_submit tx_retries_bounded [OF sample_submit] by blast

text \<open>
  C37. No entry is stuck: in every reachable scheduler, visiting an entry that is due (and not
  in the middle of its hand-over to the radio) brings it strictly closer to its end, and the
  distance is never above 19, whatever the route table, the radio and the flash answer.
\<close>

theorem due_entry_progresses:
  assumes "tx_exec api n r k st" "i < MAX_MESSAGES" "te_active (tx_entries st ! i)"
    "te_state (tx_entries st ! i) \<noteq> TX_STATE_SUBMITTING" "te_next_action_tick (tx_entries st ! i) \<le> now"
  shows "rank (tx_entries (scheduler_serve api now env i st) ! i) < rank (tx_entries st ! i) \<and> rank (tx_entries st ! i) \<le> 19"
proof -
  have "rank e \<le> 19" for e by (cases "te_state e") (auto simp: rank_def budget_def)
  then show ?thesis using serve_due assms tx_exec_totals [OF assms(1)] by blast
qed

theorem due_entry_progresses_witness:
  "\<forall>env. rank (tx_entries (scheduler_serve map_nvs 7 env 0
     (snd (tx_scheduler_enqueue map_nvs 7 sample_message 0 idle_sched))) ! 0) < 16"
proof
  fix env
  let ?st = "snd (tx_scheduler_enqueue map_nvs 7 sample_message 0 idle_sched)"
  have b: "tx_scheduler_submit map_nvs 7 sample_message 0 idle_sched = (True, ?st)"
    by (simp add: tx_scheduler_enqueue_def tx_scheduler_submit_def idle_sched_def next_slot_idle Let_def)
  then obtain e where e: "tx_entries ?st ! 0 = e" "te_active e" "te_attempts e = 0" "te_state e = TX_STATE_QUEUED"
    "te_next_action_tick e = 7"
    by (cases rule: submit_cases) (auto simp: idle_sched_def next_slot_idle)
  then have "rank (tx_entries ?st ! 0) = 16" by (simp add: rank_def budget_def)
  then show "rank (tx_entries (scheduler_serve map_nvs 7 env 0 ?st) ! 0) < 16"
    using due_entry_progresses [OF sample_submit, of 0 7 env] e by simp
qed

text \<open>
  An acknowledged message is settled for good: the acknowledgement of the destination
  finds the waiting entry, marks it delivered and inactive, touches no other entry, and once
  the status is stored the slot is no longer among the messages a restart would resume.
\<close>

theorem acknowledged_message_settled:
  assumes "find_entry (tx_entries st) ident source = Some i" "\<not> str_empty source"
    "length (persisted_slots (tx_store st)) = MAX_MESSAGES" "te_nvs_slot (tx_entries st ! i) = int k"
    "length (em_status (te_message (tx_entries st ! i))) = 32"
    "fst (message_store_update api (int k)
       ((te_message (tx_entries st ! i))\<lparr>em_status := copy_field (em_status (te_message (tx_entries st ! i))) (lit ''ACKED''),
          em_hops := max 0 (te_remaining_hops (tx_entries st ! i))\<rparr>) (tx_store st)) = ESP_OK"
  shows "\<exists>st'. tx_scheduler_acknowledge api ident (Some source) st = (True, st') \<and>
    \<not> te_active (tx_entries st' ! i) \<and> te_state (tx_entries st' ! i) = TX_STATE_DELIVERED \<and>
    (\<forall>j. j \<noteq> i \<longrightarrow> tx_entries st' ! j = tx_entries st ! j) \<and>
    (\<forall>n. k \<notin> snd ` set (message_store_copy_pending_tx n (tx_store st')))"
proof -
  let ?m = "(te_message (tx_entries st ! i))\<lparr>em_status := copy_field (em_status (te_message (tx_entries st ! i))) (lit ''ACKED''),
          em_hops := max 0 (te_remaining_hops (tx_entries st ! i))\<rparr>"
  obtain store where u: "message_store_update api (int k) ?m (tx_store st) = (ESP_OK, store)"
    using assms(6) by (metis prod.collapse)
  have "\<not> pending_tx ?m" using assms(5) by (intro settled_status [where s = "lit ''ACKED''"]) auto
  from settled_not_pending [OF u assms(3) this] have p: "k \<notin> snd ` set (message_store_copy_pending_tx n store)" for n by simp
  have i: "i < length (tx_entries st)" using find_index_SomeD [OF assms(1) [unfolded find_entry_def]] by simp
  show ?thesis
    using acknowledge_found [OF assms(1,2), of api] u p i assms(4) by (simp add: exI)
qed

theorem acknowledged_message_settled_witness:
  "\<exists>st'. tx_scheduler_acknowledge map_nvs 7 (Some (lit ''BRAVO'')) (sample_sched TX_STATE_WAITING_ACK (lit ''BRAVO'' @ zeros 27)) = (True, st') \<and>
    (\<forall>n. 0 \<notin> snd ` set (message_store_copy_pending_tx n (tx_store st')))"
proof -
  let ?st = "sample_sched TX_STATE_WAITING_ACK (lit ''BRAVO'' @ zeros 27)"
  have "find_entry (tx_entries ?st) 7 (lit ''BRAVO'') = Some 0"
    using sample_name by (simp add: sample_sched_def sample_entry_def find_entry_def sample_message_def streq_def)
  moreover have "\<not> str_empty (lit ''BRAVO'')" by code_simp
  ultimately show ?thesis using acknowledged_message_settled [of ?st 7 "lit ''BRAVO''" 0 0 map_nvs]
    by (simp add: sample_sched_def sample_entry_def sample_store_eq sample_message_def message_store_update_def slot_in_range_def
      write_record_locked_def slot_key_def map_nvs_def Let_def) blast
qed

text \<open>
  Nothing pending is lost by a restart: from an empty table,
  \<open>tx_scheduler_restore_pending\<close> takes up every pending message of the store, in slot
  order, queued with its slot, its hops and no attempts used, and due at once.
\<close>

theorem restart_resumes_pending:
  assumes "tx_entries st = replicate MAX_MESSAGES tx_entry_zero" "length (persisted_slots (tx_store st)) = MAX_MESSAGES"
    "tx_scheduler_restore_pending tick st = (c, st')"
  shows "c = length (filter (\<lambda>r. pending_tx (pm_message r)) (persisted_slots (tx_store st))) \<and>
    tx_scheduler_queue_depth st' = c \<and> tx_store st' = tx_store st \<and>
    (\<forall>k<MAX_MESSAGES. pending_tx (pm_message (persisted_slots (tx_store st) ! k)) \<longrightarrow>
       (\<exists>e\<in>set (tx_entries st'). te_active e \<and> te_state e = TX_STATE_QUEUED \<and> te_attempts e = 0 \<and> te_nvs_slot e = int k \<and>
          te_message e = pm_message (persisted_slots (tx_store st) ! k) \<and>
          te_remaining_hops e = em_hops (te_message e) \<and> te_next_action_tick e = tick))"
proof -
  let ?rs = "persisted_slots (tx_store st)"
  define ps where "ps = map (\<lambda>(k, r). (pm_message r, k)) (filter (\<lambda>(k, r). pending_tx (pm_message r)) (enumerate 0 ?rs))"
  have l: "length ps = length (filter (\<lambda>r. pending_tx (pm_message r)) ?rs)"
    using length_filter_enumerate [of "\<lambda>r. pending_tx (pm_message r)" 0 ?rs] by (simp add: ps_def)
  have "restore_loop tick ps st = (c, st')"
    using assms(2,3) by (simp add: tx_scheduler_restore_pending_def message_store_copy_pending_tx_def pending_loop_all ps_def)
  moreover have "length ps \<le> 16" using l assms(2) length_filter_le [of _ ?rs] by metis
  ultimately obtain gs where r: "c = length ps" "tx_store st' = tx_store st" "length gs = length ps"
    "tx_entries st' = map2 (resumed tick) gs ps @ replicate (16 - length ps) tx_entry_zero"
    using restore_loop_spec [of st "[]" 16 ps tick c st'] assms(1) by auto
  have "\<exists>e\<in>set (tx_entries st'). te_active e \<and> te_state e = TX_STATE_QUEUED \<and> te_attempts e = 0 \<and> te_nvs_slot e = int k \<and>
          te_message e = pm_message (?rs ! k) \<and> te_remaining_hops e = em_hops (te_message e) \<and> te_next_action_tick e = tick"
    if k: "k < 16" "pending_tx (pm_message (?rs ! k))" for k
  proof -
    have "(pm_message (?rs ! k), k) \<in> set ps" using k assms(2)
      by (force simp: ps_def in_set_enumerate_eq image_iff)
    then obtain j where "j < length ps" "ps ! j = (pm_message (?rs ! k), k)" by (auto simp: in_set_conv_nth)
    then have "resumed tick (gs ! j) (pm_message (?rs ! k), k) \<in> set (tx_entries st')"
      using r(3,4) by (auto simp: set_zip intro!: image_eqI)
    then show ?thesis by (rule bexI [rotated]) (simp add: resumed_def tx_entry_zero_def)
  qed
  then show ?thesis using r l by (auto simp: tx_scheduler_queue_depth_def count_if_def count_resumed)
qed

theorem restart_resumes_pending_witness:
  "\<exists>st'. tx_scheduler_restore_pending 3 (idle_sched\<lparr>tx_store := snd (message_store_write map_nvs 0 sample_message sample_store)\<rparr>) = (1, st') \<and>
    (\<exists>e\<in>set (tx_entries st'). te_active e \<and> te_message e = sample_message)"
proof -
  let ?s = "snd (message_store_write map_nvs 0 sample_message sample_store)"
  let ?st = "idle_sched\<lparr>tx_store := ?s\<rparr>"
  have p: "persisted_slots ?s = make_record sample_message (state_for_message sample_message) # replicate 15 persisted_message_zero"
    by (rule write_ok [OF sample_ok(1) sample_write]) (simp add: sample_store_eq numeral_eq_Suc)
  have q: "pending_tx sample_message" "\<not> pending_tx (pm_message persisted_message_zero)" by code_simp+
  obtain c st' where r: "tx_scheduler_restore_pending 3 ?st = (c, st')" by fastforce
  from restart_resumes_pending [OF _ _ r] p q have
    "c = 1 \<and> (\<exists>e\<in>set (tx_entries st'). te_active e \<and> te_message e = sample_message)"
    by (fastforce simp: idle_sched_def)
  then show ?thesis using r by blast
qed

text \<open>
  A broadcast is never confirmed: no acknowledgement sent by a node (a source other
  than \<open>ALL\<close>) settles an entry addressed to \<open>ALL\<close>, and once its third attempt times out
  the entry ends as \<open>FAILED_TIMEOUT\<close>, however many nodes received it.
\<close>

theorem broadcast_never_acknowledged:
  assumes "i < length (tx_entries st)" "te_active (tx_entries st ! i)"
    "streq (em_destination (te_message (tx_entries st ! i))) (lit ''ALL'')" "\<not> streq source (lit ''ALL'')"
  shows "tx_entries (snd (tx_scheduler_acknowledge api ident (Some source) st)) ! i = tx_entries st ! i \<and>
    (te_state (tx_entries st ! i) = TX_STATE_WAITING_ACK \<and> te_attempts (tx_entries st ! i) = TX_RETRY_MAX_ATTEMPTS \<and>
     te_next_action_tick (tx_entries st ! i) \<le> now \<longrightarrow>
     te_state (tx_entries (scheduler_serve api now env i st) ! i) = TX_STATE_FAILED_TIMEOUT \<and>
     \<not> te_active (tx_entries (scheduler_serve api now env i st) ! i))"
proof -
  have "j \<noteq> i" if "find_entry (tx_entries st) ident source = Some j" for j
    using find_index_SomeD [OF that [unfolded find_entry_def]] assms(3,4) by (auto simp: streq_def)
  then have "tx_entries (snd (tx_scheduler_acknowledge api ident (Some source) st)) ! i = tx_entries st ! i"
    by (auto simp: tx_scheduler_acknowledge_def at_entry_def split_beta split: option.splits)
  then show ?thesis using assms(1,2)
    by (auto simp: scheduler_serve_def scheduler_visit_def at_entry_def split_beta Let_def finalize_failure_def)
qed

theorem broadcast_never_acknowledged_witness:
  "\<forall>env. te_state (tx_entries (scheduler_serve map_nvs 9 env 0 (sample_sched TX_STATE_WAITING_ACK (lit ''ALL'' @ zeros 29))) ! 0) =
     TX_STATE_FAILED_TIMEOUT"
proof
  fix env
  let ?st = "sample_sched TX_STATE_WAITING_ACK (lit ''ALL'' @ zeros 29)"
  have n: "streq (lit ''ALL'' @ zeros 29) (lit ''ALL'')" "\<not> streq (lit ''BRAVO'') (lit ''ALL'')" by code_simp+
  show "te_state (tx_entries (scheduler_serve map_nvs 9 env 0 ?st) ! 0) = TX_STATE_FAILED_TIMEOUT"
    using broadcast_never_acknowledged [of 0 ?st "lit ''BRAVO''" map_nvs 7 9 env] n
    by (simp add: sample_sched_def sample_entry_def tx_entry_zero_def TX_RETRY_MAX_ATTEMPTS_def)
qed
end
