(* ===== verification/Sync_Codec.thy ===== *)
theory Sync_Codec
  imports Mesh_Packet_Props Message_Store
begin

text \<open>
  The payload formats of \<open>src/mesh_control.c\<close>: the records of a SYNC_RESP, the per-source
  cursors of a SYNC_REQ and the body of an ACK, with their encoders and decoders.
\<close>

subsection \<open>SYNC_RESP records\<close>

abbreviation SYNC_RESP_RECORD_FIXED_LEN :: nat where "SYNC_RESP_RECORD_FIXED_LEN \<equiv> 10"

definition sync_response_record_fits :: "emergency_message_t \<Rightarrow> bool" where
  "sync_response_record_fits m \<longleftrightarrow>
    length (cstr (em_source m)) < 255 \<and> length (cstr (em_destination m)) < 255 \<and> length (cstr (em_type m)) < 255 \<and>
    length (cstr (em_priority m)) < 255 \<and> length (cstr (em_payload m)) < 255 \<and> em_hops m \<ge> 0 \<and> em_hops m \<le> 255"

fun sync_response_write_u8 :: "u8 \<Rightarrow> cursor \<Rightarrow> cursor option" where
  "sync_response_write_u8 value (buffer, offset) =
    (if offset \<ge> length buffer then None else Some (buffer[offset := value], offset + 1))"

fun sync_response_write_u32 :: "u32 \<Rightarrow> cursor \<Rightarrow> cursor option" where
  "sync_response_write_u32 value (buffer, offset) =
    (if offset + 4 > length buffer then None
     else Some (buffer[offset := ucast (value AND 0xFF),
                       offset + 1 := ucast (drop_bit 8 value AND 0xFF),
                       offset + 2 := ucast (drop_bit 16 value AND 0xFF),
                       offset + 3 := ucast (drop_bit 24 value AND 0xFF)], offset + 4))"

fun sync_response_write_bytes :: "bytes \<Rightarrow> nat \<Rightarrow> cursor \<Rightarrow> cursor option" where
  "sync_response_write_bytes d len (buffer, offset) =
    (if offset + len > length buffer then None
     else if len > 0 then Some (blit buffer offset (take len d), offset + len)
     else Some (buffer, offset))"

definition sync_response_record_encoded_size :: "emergency_message_t \<Rightarrow> nat" where
  "sync_response_record_encoded_size m =
    SYNC_RESP_RECORD_FIXED_LEN + length (cstr (em_source m)) + length (cstr (em_destination m)) + length (cstr (em_type m)) +
    length (cstr (em_priority m)) + length (cstr (em_payload m))"

definition sync_response_write_record :: "emergency_message_t \<Rightarrow> cursor \<Rightarrow> cursor option" where
  "sync_response_write_record m c =
    (let source_len = of_nat (length (cstr (em_source m))) :: u8;
         destination_len = of_nat (length (cstr (em_destination m))) :: u8;
         type_len = of_nat (length (cstr (em_type m))) :: u8;
         priority_len = of_nat (length (cstr (em_priority m))) :: u8;
         payload_len = of_nat (length (cstr (em_payload m))) :: u8;
         required = SYNC_RESP_RECORD_FIXED_LEN + unat source_len + unat destination_len + unat type_len +
           unat priority_len + unat payload_len
     in if snd c + required > length (fst c) \<or> \<not> sync_response_record_fits m then None
        else do {
          c \<leftarrow> sync_response_write_u32 (em_id m) c;
          c \<leftarrow> sync_response_write_u8 source_len c;
          c \<leftarrow> sync_response_write_bytes (em_source m) (unat source_len) c;
          c \<leftarrow> sync_response_write_u8 destination_len c;
          c \<leftarrow> sync_response_write_bytes (em_destination m) (unat destination_len) c;
          c \<leftarrow> sync_response_write_u8 type_len c;
          c \<leftarrow> sync_response_write_bytes (em_type m) (unat type_len) c;
          c \<leftarrow> sync_response_write_u8 priority_len c;
          c \<leftarrow> sync_response_write_bytes (em_priority m) (unat priority_len) c;
          c \<leftarrow> sync_response_write_u8 (word_of_int (em_hops m)) c;
          c \<leftarrow> sync_response_write_u8 payload_len c;
          sync_response_write_bytes (em_payload m) (unat payload_len) c
        })"

fun write_records :: "emergency_message_t list \<Rightarrow> cursor \<Rightarrow> cursor option" where
  "write_records [] c = Some c"
| "write_records (m # ms) c = Option.bind (sync_response_write_record m c) (write_records ms)"

definition mesh_control_encode_sync_response_batch :: "emergency_message_t list \<Rightarrow> bytes \<Rightarrow> (bytes \<times> nat) option" where
  "mesh_control_encode_sync_response_batch records body =
    (if length records > 255 \<or> length body < 1 then None
     else write_records records (body[0 := of_nat (length records)], 1))"

text \<open>
  Decoding. \<open>payload\<close> is the memory at the pointer: the source reads a length byte before
  it compares the offset with \<open>payload_len\<close>, so it may look at up to two bytes past the
  payload before it refuses the record.
\<close>

definition sync_read_field :: "bytes \<Rightarrow> nat \<Rightarrow> bytes \<Rightarrow> nat \<Rightarrow> (bytes \<times> nat) option" where
  "sync_read_field payload payload_len out offset =
    (let len = unat (at payload offset); offset = offset + 1
     in if len = 0 \<or> offset + len > payload_len \<or> len \<ge> length out then None
        else Some ((blit out 0 (take len (drop offset payload)))[len := 0], offset + len))"

definition sync_read_tail :: "bytes \<Rightarrow> nat \<Rightarrow> bytes \<Rightarrow> nat \<Rightarrow> (int \<times> bytes \<times> nat) option" where
  "sync_read_tail payload payload_len out offset =
    (let hops = uint (at payload offset); payload_record_len = unat (at payload (offset + 1)); offset = offset + 2
     in if offset + payload_record_len > payload_len \<or> payload_record_len \<ge> length out then None
        else Some (hops, (blit out 0 (take payload_record_len (drop offset payload)))[payload_record_len := 0],
                   offset + payload_record_len))"

definition decode_sync_record :: "bytes \<Rightarrow> nat \<Rightarrow> nat \<Rightarrow> (mesh_packet_t \<times> nat) option" where
  "decode_sync_record payload payload_len offset =
    (if offset + SYNC_RESP_RECORD_FIXED_LEN > payload_len then None
     else (let record = mesh_packet_zero;
               ident = of_le32 (at payload offset) (at payload (offset + 1)) (at payload (offset + 2)) (at payload (offset + 3))
       in do {
         (source, offset) \<leftarrow> sync_read_field payload payload_len (mp_source record) (offset + 4);
         (destination, offset) \<leftarrow> sync_read_field payload payload_len (mp_destination record) offset;
         (packet_type, offset) \<leftarrow> sync_read_field payload payload_len (mp_type record) offset;
         (priority, offset) \<leftarrow> sync_read_field payload payload_len (mp_priority record) offset;
         (hops, text, offset) \<leftarrow> sync_read_tail payload payload_len (mp_payload record) offset;
         Some (record\<lparr>mp_source := source, mp_destination := destination, mp_type := packet_type,
                mp_priority := priority, mp_payload := text, mp_valid := True, mp_id := ident, mp_hops := hops,
                mp_broadcast_destination := streq destination (lit ''ALL'')\<rparr>, offset)
       }))"

text \<open>The loop over \<open>record_count\<close> records, of which \<open>room\<close> still have a place.\<close>

fun decode_records :: "bytes \<Rightarrow> nat \<Rightarrow> nat \<Rightarrow> nat \<Rightarrow> nat \<Rightarrow> (mesh_packet_t list \<times> nat) option" where
  "decode_records payload payload_len 0 room offset = Some ([], offset)"
| "decode_records payload payload_len (Suc n) room offset =
    (if room = 0 then None
     else do {
       (record, offset) \<leftarrow> decode_sync_record payload payload_len offset;
       (records, offset) \<leftarrow> decode_records payload payload_len n (room - 1) offset;
       Some (record # records, offset)
     })"

definition mesh_control_decode_sync_response_records :: "bytes \<Rightarrow> nat \<Rightarrow> nat \<Rightarrow> mesh_packet_t list" where
  "mesh_control_decode_sync_response_records payload payload_len max_records =
    (if max_records = 0 \<or> payload_len < 1 then []
     else if at payload 0 = 0 then []
     else (case decode_records payload payload_len (unat (at payload 0)) max_records 1 of
             None \<Rightarrow> []
           | Some (records, offset) \<Rightarrow> if offset \<noteq> payload_len then [] else records))"

subsection \<open>SYNC_REQ cursors\<close>

definition later_max :: "emergency_message_t \<Rightarrow> emergency_message_t list \<Rightarrow> u32" where
  "later_max m rest =
    foldl (\<lambda>max_id c. if streq (em_source c) (em_source m) \<and> em_id c > max_id then em_id c else max_id) (em_id m) rest"

text \<open>The loop of \<open>mesh_control_send_sync_request\<close> over the snapshot.\<close>

fun cursor_loop ::
  "emergency_message_t list \<Rightarrow> emergency_message_t list \<Rightarrow> bytes \<Rightarrow> nat \<Rightarrow> nat \<Rightarrow> bytes \<times> nat \<times> nat" where
  "cursor_loop prior [] payload offset cursor_count = (payload, offset, cursor_count)"
| "cursor_loop prior (m # rest) payload offset cursor_count =
    (let source_len = length (cstr (em_source m)); max_id = later_max m rest in
     if \<not> cursor_count < 8 then (payload, offset, cursor_count)
     else if (\<exists>p\<in>set prior. streq (em_source p) (em_source m)) \<or> source_len = 0 \<or> source_len \<ge> FIELD_LEN
     then cursor_loop (prior @ [m]) rest payload offset cursor_count
     else if offset + 1 + source_len + 4 > length payload then (payload, offset, cursor_count)
     else (let payload = payload[offset := of_nat source_len];
               payload = blit payload (offset + 1) (take source_len (em_source m));
               offset = offset + 1 + source_len;
               payload = payload[offset := ucast (max_id AND 0xFF), offset + 1 := ucast (drop_bit 8 max_id AND 0xFF),
                 offset + 2 := ucast (drop_bit 16 max_id AND 0xFF), offset + 3 := ucast (drop_bit 24 max_id AND 0xFF)]
           in cursor_loop (prior @ [m]) rest payload (offset + 4) (cursor_count + 1)))"

definition sync_request_payload :: "emergency_message_t list \<Rightarrow> bytes \<times> nat" where
  "sync_request_payload snapshot =
    (case cursor_loop [] snapshot ((zeros PAYLOAD_LEN)[0 := 0]) 1 0 of (payload, offset, cursor_count) \<Rightarrow>
       (payload[0 := of_nat cursor_count], offset))"

fun cursor_scan :: "bytes \<Rightarrow> nat \<Rightarrow> bytes \<Rightarrow> nat \<Rightarrow> nat \<Rightarrow> u32" where
  "cursor_scan payload payload_len source 0 offset = 0"
| "cursor_scan payload payload_len source (Suc n) offset =
    (if offset \<ge> payload_len then 0
     else (let source_len = unat (at payload offset); offset = offset + 1 in
       if source_len = 0 \<or> offset + source_len + 4 > payload_len then 0
       else (let matches = (length (cstr source) = source_len \<and> take source_len (drop offset payload) = take source_len source);
                 offset = offset + source_len;
                 ident = of_le32 (at payload offset) (at payload (offset + 1)) (at payload (offset + 2)) (at payload (offset + 3))
             in if matches then ident else cursor_scan payload payload_len source n (offset + 4))))"

definition sync_cursor_for_source :: "bytes \<Rightarrow> nat \<Rightarrow> bytes \<Rightarrow> u32" where
  "sync_cursor_for_source payload payload_len source =
    (if payload_len < 1 then 0 else cursor_scan payload payload_len source (unat (at payload 0)) 1)"

subsection \<open>ACK\<close>

record ack_info_t =
  acknowledged_id :: u32
  acknowledged_source :: bytes

definition mesh_control_build_ack :: "mesh_packet_t \<Rightarrow> ack_info_t \<Rightarrow> ack_info_t" where
  "mesh_control_build_ack parsed ack_info =
    ack_info\<lparr>acknowledged_id := mp_id parsed, acknowledged_source := copy_field (acknowledged_source ack_info) (mp_source parsed)\<rparr>"

definition mesh_control_parse_ack :: "bytes \<Rightarrow> nat \<Rightarrow> ack_info_t option" where
  "mesh_control_parse_ack payload payload_len =
    (if payload_len < 4 + FIELD_LEN then None
     else Some \<lparr>acknowledged_id = of_le32 (at payload 0) (at payload 1) (at payload 2) (at payload 3),
                acknowledged_source = (take FIELD_LEN (drop 4 payload))[FIELD_LEN - 1 := 0]\<rparr>)"

text \<open>The payload of an ACK: the little-endian number, then the whole field buffer.\<close>

definition ack_payload :: "ack_info_t \<Rightarrow> bytes \<times> nat" where
  "ack_payload info =
    (blit (blit (zeros PAYLOAD_LEN) 0 (le32 (acknowledged_id info))) 4 (take FIELD_LEN (acknowledged_source info)), 4 + FIELD_LEN)"

subsection \<open>What the encoder writes\<close>

definition field_wire :: "bytes \<Rightarrow> bytes" where
  "field_wire b = of_nat (length (cstr b)) # cstr b"

definition record_wire :: "emergency_message_t \<Rightarrow> bytes" where
  "record_wire m = le32 (em_id m) @ field_wire (em_source m) @ field_wire (em_destination m) @ field_wire (em_type m) @
     field_wire (em_priority m) @ [word_of_int (em_hops m)] @ field_wire (em_payload m)"

lemma sync_writers:
  "sync_response_write_u8 v c = put [v] c" "sync_response_write_u32 w c = put (le32 w) c"
  "len \<le> length d \<Longrightarrow> sync_response_write_bytes d len = put (take len d)"
proof -
  show "sync_response_write_u8 v c = put [v] c" by (cases c) (simp flip: write_u8_put)
  show "sync_response_write_u32 w c = put (le32 w) c" by (cases c) (simp flip: write_u32_put add: not_less)
  show "sync_response_write_bytes d len = put (take len d)" if "len \<le> length d"
    by (rule ext) (auto simp flip: write_bytes_put [OF that])
qed

lemma take_cstr: "take (length (cstr b)) b = cstr b"
  by (metis cstr_def takeWhile_eq_take)

lemma unat_u8_small: "n < 255 \<Longrightarrow> unat (of_nat n :: u8) = n"
  by (simp add: unat_of_nat)

lemma length_record_wire: "length (record_wire m) = sync_response_record_encoded_size m"
  by (simp add: record_wire_def sync_response_record_encoded_size_def field_wire_def)

lemma write_record_eq:
  "sync_response_write_record m c = (if sync_response_record_fits m then put (record_wire m) c else None)"
proof (cases "sync_response_record_fits m")
  case True
  then have u: "unat (of_nat (length (cstr (em_source m))) :: u8) = length (cstr (em_source m))"
    "unat (of_nat (length (cstr (em_destination m))) :: u8) = length (cstr (em_destination m))"
    "unat (of_nat (length (cstr (em_type m))) :: u8) = length (cstr (em_type m))"
    "unat (of_nat (length (cstr (em_priority m))) :: u8) = length (cstr (em_priority m))"
    "unat (of_nat (length (cstr (em_payload m))) :: u8) = length (cstr (em_payload m))"
    by (simp_all only: sync_response_record_fits_def unat_u8_small)
  show ?thesis
  proof (cases "snd c + sync_response_record_encoded_size m > length (fst c)")
    case big: True
    then have "put (record_wire m) c = None" by (cases c) (simp add: put_def length_record_wire)
    then show ?thesis using True big unfolding sync_response_write_record_def Let_def u
      by (simp add: sync_response_record_encoded_size_def)
  next
    case False
    then show ?thesis using True unfolding sync_response_write_record_def Let_def u
      by (simp add: sync_response_record_encoded_size_def sync_writers length_cstr_le take_cstr put_bind put_put
          record_wire_def field_wire_def)
  qed
qed (simp add: sync_response_write_record_def Let_def)

definition batch_wire :: "emergency_message_t list \<Rightarrow> bytes" where
  "batch_wire ms = of_nat (length ms) # concat (map record_wire ms)"

lemma write_records_eq:
  assumes "snd c \<le> length (fst c)"
  shows "write_records ms c = (if \<forall>m\<in>set ms. sync_response_record_fits m then put (concat (map record_wire ms)) c else None)"
  using assms
proof (induction ms arbitrary: c)
  case Nil
  then show ?case by (cases c) (simp add: put_def blit_def)
next
  case (Cons m ms)
  show ?case
  proof (cases "put (record_wire m) c")
    case None
    then have "put (record_wire m @ concat (map record_wire ms)) c = None" by (simp flip: put_put)
    with None show ?thesis by (simp add: write_record_eq)
  next
    case (Some c')
    then have "snd c' \<le> length (fst c')" by (cases c) (auto simp: put_def blit_def split: if_splits)
    then show ?thesis using Some Cons.IH [of c'] by (simp add: write_record_eq flip: put_put)
  qed
qed

lemma encode_batch_eq:
  "mesh_control_encode_sync_response_batch ms body =
    (if length ms \<le> 255 \<and> (\<forall>m\<in>set ms. sync_response_record_fits m) \<and> length (batch_wire ms) \<le> length body
     then Some (blit body 0 (batch_wire ms), length (batch_wire ms)) else None)"
proof (cases "length ms \<le> 255 \<and> 1 \<le> length body")
  case True
  then have "Some (body[0 := of_nat (length ms)], 1) = put [of_nat (length ms)] (body, 0)"
    using blit_single [of 0 body "of_nat (length ms)"] by (simp add: put_def Suc_le_eq)
  moreover have "write_records ms (body[0 := of_nat (length ms)], 1) =
      (if \<forall>m\<in>set ms. sync_response_record_fits m then put (concat (map record_wire ms)) (body[0 := of_nat (length ms)], 1) else None)"
    using True by (intro write_records_eq) simp
  ultimately have "write_records ms (body[0 := of_nat (length ms)], 1) =
      (if \<forall>m\<in>set ms. sync_response_record_fits m then put (batch_wire ms) (body, 0) else None)"
    using put_put [of "[of_nat (length ms)]" "(body, 0)" "concat (map record_wire ms)"]
    by (simp add: batch_wire_def) (metis bind.bind_lunit)
  then show ?thesis using True by (auto simp: mesh_control_encode_sync_response_batch_def put_def)
qed (auto simp: mesh_control_encode_sync_response_batch_def batch_wire_def Suc_le_eq)

subsection \<open>What the decoder reads\<close>

lemma drop_head: "drop off p = x # r \<Longrightarrow> at p off = x \<and> drop (Suc off) p = r \<and> off < length p"
  by (metis at_def drop_eq_Nil2 hd_drop_conv_nth linorder_not_less list.distinct(1) list.sel(1,3) drop_Suc tl_drop)

text \<open>A name is read back if it is not empty and fits its buffer with a terminator.\<close>

lemma sync_read_field_wire:
  assumes "drop off p = field_wire b @ r" "off + length (field_wire b) \<le> n" "length (cstr b) < 255" "k \<le> 255"
  shows "sync_read_field p n (zeros k) off =
      (if cstr b \<noteq> [] \<and> length (cstr b) < k then Some (pad k (cstr b), off + length (field_wire b)) else None) \<and>
    drop (off + length (field_wire b)) p = r"
proof -
  have a: "at p off = of_nat (length (cstr b))" "drop (Suc off) p = cstr b @ r"
    using drop_head [of off p] assms(1) by (simp_all add: field_wire_def)
  have u: "unat (of_nat (length (cstr b)) :: u8) = length (cstr b)" using assms(3) by (simp add: unat_u8_small)
  have "drop (off + length (field_wire b)) p = drop (length (cstr b)) (drop (Suc off) p)"
    by (simp add: field_wire_def add.commute)
  then show ?thesis
    using a u assms by (simp add: sync_read_field_def Let_def field_wire_def blit_zeros_pad)
qed

text \<open>The packet a receiver reconstructs from a stored message.\<close>

definition synced_packet :: "emergency_message_t \<Rightarrow> mesh_packet_t" where
  "synced_packet m = mesh_packet_zero\<lparr>mp_valid := True, mp_id := em_id m, mp_hops := em_hops m,
     mp_source := pad 32 (cstr (em_source m)), mp_destination := pad 32 (cstr (em_destination m)),
     mp_type := pad 32 (cstr (em_type m)), mp_priority := pad 32 (cstr (em_priority m)),
     mp_payload := pad 140 (cstr (em_payload m)), mp_broadcast_destination := streq (em_destination m) (lit ''ALL'')\<rparr>"

text \<open>
  Messages a record can carry. The decoder refuses an empty source, destination, type or
  priority, which the encoder writes all the same.
\<close>

definition syncable :: "emergency_message_t \<Rightarrow> bool" where
  "syncable m \<longleftrightarrow>
    (\<forall>name\<in>{em_source m, em_destination m, em_type m, em_priority m}. cstr name \<noteq> [] \<and> length (cstr name) < FIELD_LEN) \<and>
    length (cstr (em_payload m)) < PAYLOAD_LEN"

lemma mesh_packet_zero_fields:
  "mp_source mesh_packet_zero = zeros 32" "mp_destination mesh_packet_zero = zeros 32" "mp_type mesh_packet_zero = zeros 32"
  "mp_priority mesh_packet_zero = zeros 32" "mp_payload mesh_packet_zero = zeros 140"
  by (simp_all add: mesh_packet_zero_def)

lemma drop_append_length: "drop off p = a @ r \<Longrightarrow> drop (off + length a) p = r"
  by (metis add.commute append_eq_conv_conj drop_drop)

lemma of_le32_at: "drop off p = le32 v @ r \<Longrightarrow> of_le32 (at p off) (at p (off + 1)) (at p (off + 2)) (at p (off + 3)) = v"
proof -
  assume d: "drop off p = le32 v @ r"
  then obtain a b c e where l: "le32 v = [a, b, c, e]" by (simp add: le32_def)
  have "at p off = a" "at p (off + 1) = b" "at p (off + 2) = c" "at p (off + 3) = e"
    using drop_head [of off p a] drop_head [of "Suc off" p b] drop_head [of "Suc (Suc off)" p c] drop_head [of "Suc (Suc (Suc off))" p e] d l
    by (auto simp: numeral_eq_Suc)
  then show ?thesis using l by (metis of_le32_bytes_le32 append_Nil2 of_le32_bytes_def nth_Cons_0 nth_Cons_Suc numeral_2_eq_2 numeral_3_eq_3 One_nat_def)
qed

lemma sync_read_tail_wire:
  assumes "drop off p = word_of_int h # of_nat (length l) # l @ r" "off + 2 + length l \<le> n" "length l < 255" "0 \<le> h" "h \<le> 255"
  shows "sync_read_tail p n (zeros 140) off = (if length l < 140 then Some (h, pad 140 l, off + 2 + length l) else None)"
proof -
  have "at p off = word_of_int h" "at p (off + 1) = of_nat (length l)" "drop (off + 2) p = l @ r"
    using drop_head [OF assms(1)] drop_head [of "Suc off" p "of_nat (length l)" "l @ r"] by simp_all
  moreover have "uint (word_of_int h :: u8) = h" using assms(4,5) by (simp add: uint_word_of_int take_bit_int_eq_self)
  moreover have "unat (of_nat (length l) :: u8) = length l" using assms(3) by (simp add: unat_u8_small)
  ultimately show ?thesis using assms(2,3) by (simp add: sync_read_tail_def Let_def blit_zeros_pad)
qed

lemma decode_record_wire:
  assumes "sync_response_record_fits m" "drop off p = record_wire m @ r" "off + length (record_wire m) \<le> n"
  shows "decode_sync_record p n off = (if syncable m then Some (synced_packet m, off + length (record_wire m)) else None) \<and>
    drop (off + length (record_wire m)) p = r"
proof -
  let ?S = "field_wire (em_source m)" and ?D = "field_wire (em_destination m)" and ?T = "field_wire (em_type m)"
    and ?P = "field_wire (em_priority m)" and ?L = "cstr (em_payload m)"
  have f: "length (cstr (em_source m)) < 255" "length (cstr (em_destination m)) < 255" "length (cstr (em_type m)) < 255"
    "length (cstr (em_priority m)) < 255" "length ?L < 255" "0 \<le> em_hops m" "em_hops m \<le> 255"
    using assms(1) by (simp_all add: sync_response_record_fits_def)
  have n: "length (record_wire m) = 4 + length ?S + length ?D + length ?T + length ?P + 2 + length ?L"
    by (simp add: record_wire_def field_wire_def)
  have d: "drop off p = le32 (em_id m) @ ?S @ ?D @ ?T @ ?P @ word_of_int (em_hops m) # of_nat (length ?L) # ?L @ r"
    using assms(2) by (simp add: record_wire_def field_wire_def)
  from drop_append_length [OF d] have d0: "drop (off + 4) p = ?S @ ?D @ ?T @ ?P @ word_of_int (em_hops m) # of_nat (length ?L) # ?L @ r"
    by simp
  note s = sync_read_field_wire [OF d0 _ f(1), of n 32]
  from s have d1: "drop (off + 4 + length ?S) p = ?D @ ?T @ ?P @ word_of_int (em_hops m) # of_nat (length ?L) # ?L @ r"
    using assms(3) n by simp
  note s2 = sync_read_field_wire [OF d1 _ f(2), of n 32]
  from s2 have d2: "drop (off + 4 + length ?S + length ?D) p = ?T @ ?P @ word_of_int (em_hops m) # of_nat (length ?L) # ?L @ r"
    using assms(3) n by simp
  note s3 = sync_read_field_wire [OF d2 _ f(3), of n 32]
  from s3 have d3: "drop (off + 4 + length ?S + length ?D + length ?T) p = ?P @ word_of_int (em_hops m) # of_nat (length ?L) # ?L @ r"
    using assms(3) n by simp
  note s4 = sync_read_field_wire [OF d3 _ f(4), of n 32]
  let ?o = "off + 4 + length ?S + length ?D + length ?T + length ?P"
  from s4 have d4: "drop ?o p = word_of_int (em_hops m) # of_nat (length ?L) # ?L @ r"
    using assms(3) n by simp
  note s5 = sync_read_tail_wire [OF d4 _ f(5-7), of n]
  have b: "streq (pad 32 (cstr (em_destination m))) (lit ''ALL'') = streq (em_destination m) (lit ''ALL'')"
    if "length (cstr (em_destination m)) < 32"
    using that by (simp add: streq_def cstr_pad)
  have "\<not> n < off + 10" using assms(3) n by (simp add: field_wire_def)
  then have "decode_sync_record p n off = (if syncable m then Some (synced_packet m, ?o + 2 + length ?L) else None)"
    using s s2 s3 s4 s5 b assms(3) n of_le32_at [OF d]
    by (simp add: decode_sync_record_def mesh_packet_zero_fields Let_def synced_packet_def syncable_def)
  moreover have "drop (off + length (record_wire m)) p = r" using drop_append_length [OF assms(2)] .
  ultimately show ?thesis by (simp add: n)
qed

lemma decode_records_wire:
  assumes "\<forall>m\<in>set ms. sync_response_record_fits m" "drop off p = concat (map record_wire ms) @ r"
    "off + length (concat (map record_wire ms)) \<le> n"
  shows "decode_records p n (length ms) room off =
    (if length ms \<le> room \<and> (\<forall>m\<in>set ms. syncable m)
     then Some (map synced_packet ms, off + length (concat (map record_wire ms))) else None)"
  using assms
proof (induction ms arbitrary: off room)
  case (Cons m ms)
  from Cons.prems have m: "decode_sync_record p n off = (if syncable m then Some (synced_packet m, off + length (record_wire m)) else None)"
    "drop (off + length (record_wire m)) p = concat (map record_wire ms) @ r"
    using decode_record_wire [of m off p "concat (map record_wire ms) @ r" n] by auto
  from Cons.IH [OF _ m(2), of "room - 1"] Cons.prems m show ?case by auto
qed simp

lemma decode_batch_wire:
  assumes "\<forall>m\<in>set ms. sync_response_record_fits m" "length ms \<le> 255"
  shows "mesh_control_decode_sync_response_records (batch_wire ms @ r) (length (batch_wire ms)) max_records =
    (if length ms \<le> max_records \<and> (\<forall>m\<in>set ms. syncable m) then map synced_packet ms else [])"
proof -
  let ?p = "batch_wire ms @ r"
  have z: "at ?p 0 = of_nat (length ms)" "unat (of_nat (length ms) :: u8) = length ms"
    using assms(2) by (simp_all add: batch_wire_def at_def unat_of_nat)
  have "drop 1 ?p = concat (map record_wire ms) @ r" "1 + length (concat (map record_wire ms)) \<le> length (batch_wire ms)"
    by (simp_all add: batch_wire_def)
  from decode_records_wire [OF assms(1) this] z(2) show ?thesis
    using z unat_eq_zero [of "at ?p 0"] le_zero_eq [of "length ms"]
    by (cases "max_records = 0") (auto simp: mesh_control_decode_sync_response_records_def batch_wire_def)
qed

subsection \<open>The decoder does not depend on what lies behind the payload\<close>

lemma at_cong: "take n p = take n q \<Longrightarrow> i < n \<Longrightarrow> at p i = at q i"
  by (metis at_def length_take linorder_not_less min_less_iff_conj nth_take)

lemma take_drop_cong: "take n p = take n q \<Longrightarrow> i + k \<le> n \<Longrightarrow> take k (drop i p) = take k (drop i q)"
  by (metis add.commute drop_take take_drop take_take min.absorb1)

lemma sync_read_field_cong:
  assumes "take n p = take n q"
  shows "sync_read_field p n out off = sync_read_field q n out off"
proof (cases "off < n")
  case True
  then show ?thesis using at_cong [OF assms True] take_drop_cong [OF assms] by (auto simp: sync_read_field_def Let_def)
next
  case False
  then show ?thesis by (simp add: sync_read_field_def Let_def)
qed

lemma sync_read_field_bound: "sync_read_field p n out off = Some (b, off') \<Longrightarrow> off < off' \<and> off' \<le> n"
  by (auto simp: sync_read_field_def Let_def split: if_splits)

lemma sync_read_tail_cong:
  assumes "take n p = take n q"
  shows "sync_read_tail p n out off = sync_read_tail q n out off"
proof (cases "off + 2 \<le> n")
  case True
  then show ?thesis using at_cong [OF assms, of off] at_cong [OF assms, of "off + 1"] take_drop_cong [OF assms, of "off + 2"]
    by (auto simp: sync_read_tail_def Let_def)
qed (simp add: sync_read_tail_def Let_def)

lemma decode_sync_record_cong:
  assumes "take n p = take n q"
  shows "decode_sync_record p n off = decode_sync_record q n off"
proof (cases "off + 10 > n")
  case False
  then have "at p off = at q off" "at p (off + 1) = at q (off + 1)" "at p (off + 2) = at q (off + 2)" "at p (off + 3) = at q (off + 3)"
    using at_cong [OF assms] by simp_all
  then show ?thesis
    by (simp only: decode_sync_record_def Let_def sync_read_field_cong [OF assms] sync_read_tail_cong [OF assms])
qed (simp add: decode_sync_record_def)

lemma decode_records_cong: "take n p = take n q \<Longrightarrow> decode_records p n c room off = decode_records q n c room off"
  by (induction c arbitrary: room off) (simp_all add: decode_sync_record_cong [of n p q])

lemma decode_cong:
  "take n p = take n q \<Longrightarrow> mesh_control_decode_sync_response_records p n k = mesh_control_decode_sync_response_records q n k"
  using at_cong [of n p q 0] decode_records_cong [of n p q]
  by (cases "n = 0") (simp_all add: mesh_control_decode_sync_response_records_def)

lemma decode_records_length: "decode_records p n c room off = Some (rs, off') \<Longrightarrow> length rs = c \<and> c \<le> room"
  by (induction c arbitrary: room off rs) (auto simp: Option.bind_eq_Some_conv split: if_splits, fastforce)

subsection \<open>Cursors\<close>

text \<open>The cursors a request carries, as a list of sources and numbers.\<close>

fun cursor_list :: "emergency_message_t list \<Rightarrow> emergency_message_t list \<Rightarrow> nat \<Rightarrow> nat \<Rightarrow> (bytes \<times> u32) list" where
  "cursor_list prior [] room k = []"
| "cursor_list prior (m # rest) room k =
    (if k = 0 then []
     else if (\<exists>p\<in>set prior. streq (em_source p) (em_source m)) \<or> cstr (em_source m) = [] \<or> length (cstr (em_source m)) \<ge> FIELD_LEN
     then cursor_list (prior @ [m]) rest room k
     else if room < length (cstr (em_source m)) + 5 then []
     else (cstr (em_source m), later_max m rest) #
       cursor_list (prior @ [m]) rest (room - (length (cstr (em_source m)) + 5)) (k - 1))"

definition cursor_wire :: "bytes \<times> u32 \<Rightarrow> bytes" where
  "cursor_wire c = of_nat (length (fst c)) # fst c @ le32 (snd c)"

lemma cursor_step:
  assumes "off + 1 + length (cstr src) + 4 \<le> length p"
  defines "q \<equiv> blit (p[off := of_nat (length (cstr src))]) (off + 1) (take (length (cstr src)) src)"
  defines "o' \<equiv> off + 1 + length (cstr src)"
  shows "put (cursor_wire (cstr src, v)) (p, off) =
    Some (q[o' := ucast (v AND 0xFF), o' + 1 := ucast (drop_bit 8 v AND 0xFF), o' + 2 := ucast (drop_bit 16 v AND 0xFF),
            o' + 3 := ucast (drop_bit 24 v AND 0xFF)], o' + 4)"
proof -
  let ?n = "length (cstr src)"
  have "put [of_nat ?n] (p, off) = Some (p[off := of_nat ?n], off + 1)" using assms(1) by (simp flip: write_u8_put)
  moreover have "put (cstr src) (p[off := of_nat ?n], off + 1) = Some (q, o')"
    using assms(1) by (cases "?n = 0") (auto simp: put_def q_def o'_def take_cstr blit_def)
  moreover have "length q = length p" using assms(1) by (simp add: q_def blit_def length_cstr_le min_def)
  then have "put (le32 v) (q, o') = Some (q[o' := ucast (v AND 0xFF), o' + 1 := ucast (drop_bit 8 v AND 0xFF),
      o' + 2 := ucast (drop_bit 16 v AND 0xFF), o' + 3 := ucast (drop_bit 24 v AND 0xFF)], o' + 4)"
    using assms(1) by (simp add: o'_def flip: write_u32_put)
  moreover have "put (cursor_wire (cstr src, v)) (p, off) =
      Option.bind (put [of_nat ?n] (p, off)) (\<lambda>c. Option.bind (put (cstr src) c) (put (le32 v)))"
    by (simp add: cursor_wire_def put_bind put_put)
  ultimately show ?thesis by simp
qed

lemma cursor_loop_eq:
  assumes "off \<le> length p" "cursor_loop prior ms p off cc = (p', off', cc')"
  defines "cs \<equiv> cursor_list prior ms (length p - off) (8 - cc)"
  shows "put (concat (map cursor_wire cs)) (p, off) = Some (p', off') \<and> cc' = cc + length cs"
  using assms(1,2) unfolding cs_def
proof (induction prior ms p off cc rule: cursor_loop.induct)
  case (1 prior p off cc)
  then show ?case by (simp add: put_def blit_def)
next
  case (2 prior m rest p off cc)
  let ?n = "length (cstr (em_source m))" and ?v = "later_max m rest"
  consider (full) "\<not> cc < 8" | (skip) "cc < 8" "(\<exists>p\<in>set prior. streq (em_source p) (em_source m)) \<or> ?n = 0 \<or> ?n \<ge> FIELD_LEN"
    | (big) "cc < 8" "\<not> ((\<exists>p\<in>set prior. streq (em_source p) (em_source m)) \<or> ?n = 0 \<or> ?n \<ge> FIELD_LEN)" "off + 1 + ?n + 4 > length p"
    | (fits) "cc < 8" "\<not> ((\<exists>p\<in>set prior. streq (em_source p) (em_source m)) \<or> ?n = 0 \<or> ?n \<ge> FIELD_LEN)" "off + 1 + ?n + 4 \<le> length p"
    by linarith
  then show ?case
  proof cases
    case full
    then show ?thesis using "2.prems" by (simp add: put_def blit_def)
  next
    case skip
    have l: "cursor_loop (prior @ [m]) rest p off cc = (p', off', cc')" using "2.prems"(2) skip by (auto simp: Let_def)
    have "cursor_list prior (m # rest) (length p - off) (8 - cc) = cursor_list (prior @ [m]) rest (length p - off) (8 - cc)"
      using skip by auto
    then show ?thesis using "2.IH"(1) [OF refl refl _ skip(2) "2.prems"(1) l] skip(1) by simp
  next
    case big
    then have "cursor_list prior (m # rest) (length p - off) (8 - cc) = []" by auto
    moreover have "(p', off', cc') = (p, off, cc)" using big "2.prems"(2) by (auto simp: Let_def)
    ultimately show ?thesis using "2.prems"(1) by (simp add: put_def blit_def)
  next
    case fits
    let ?q = "blit (p[off := of_nat ?n]) (off + 1) (take ?n (em_source m))"
    let ?o = "off + 1 + ?n"
    let ?r = "?q[?o := ucast (?v AND 0xFF), ?o + 1 := ucast (drop_bit 8 ?v AND 0xFF),
                 ?o + 2 := ucast (drop_bit 16 ?v AND 0xFF), ?o + 3 := ucast (drop_bit 24 ?v AND 0xFF)]"
    have s: "put (cursor_wire (cstr (em_source m), ?v)) (p, off) = Some (?r, ?o + 4)" by (rule cursor_step [OF fits(3)])
    have l: "cursor_loop (prior @ [m]) rest ?r (?o + 4) (cc + 1) = (p', off', cc')"
      using "2.prems"(2) fits by (simp add: Let_def)
    have lr: "length ?r = length p" using fits(3) by (simp add: blit_def length_cstr_le min_def)
    have c: "cursor_list prior (m # rest) (length p - off) (8 - cc) =
        (cstr (em_source m), ?v) # cursor_list (prior @ [m]) rest (length ?r - (?o + 4)) (8 - (cc + 1))"
      using fits lr by (auto simp: diff_diff_left ac_simps)
    have "put (concat (map cursor_wire (cursor_list (prior @ [m]) rest (length ?r - (?o + 4)) (8 - (cc + 1))))) (?r, ?o + 4) = Some (p', off') \<and>
        cc' = cc + 1 + length (cursor_list (prior @ [m]) rest (length ?r - (?o + 4)) (8 - (cc + 1)))"
      by (rule "2.IH"(2) [OF refl refl _ fits(2) _ refl refl refl refl _ l]) (use fits lr in auto)
    then show ?thesis using s unfolding c by (simp flip: put_put)
  qed
qed

lemma cursor_list_props:
  "\<forall>c\<in>set (cursor_list prior ms room k). fst c \<noteq> [] \<and> length (fst c) < 32 \<and> 0 \<notin> set (fst c)"
  "length (cursor_list prior ms room k) \<le> k"
  "length (concat (map cursor_wire (cursor_list prior ms room k))) \<le> room"
  by (induction prior ms room k rule: cursor_list.induct) (auto simp: cursor_wire_def)

lemma sync_request_payload_eq:
  fixes snapshot defines "cs \<equiv> cursor_list [] snapshot 139 8"
  shows "sync_request_payload snapshot =
    (blit (zeros 140) 0 (of_nat (length cs) # concat (map cursor_wire cs)), 1 + length (concat (map cursor_wire cs)))"
proof -
  obtain p off cc where l: "cursor_loop [] snapshot (zeros 140) 1 0 = (p, off, cc)" by (metis prod_cases3)
  from cursor_loop_eq [OF _ l] have e: "put (concat (map cursor_wire cs)) (zeros 140, 1) = Some (p, off)" "cc = length cs"
    by (simp_all add: cs_def)
  have z: "(zeros 140)[0 := 0] = zeros 140" by (simp add: zeros_def numeral_eq_Suc)
  have b: "1 + length (concat (map cursor_wire cs)) \<le> 140" using cursor_list_props(3) [of "[]" snapshot 139 8] by (simp add: cs_def)
  have "p[0 := of_nat cc] = blit (zeros 140) 0 (of_nat cc # concat (map cursor_wire cs))"
    using e(1) b by (auto simp: put_def blit_def zeros_def numeral_eq_Suc split: if_splits)
  then show ?thesis using l e b z by (auto simp: sync_request_payload_def put_def split: if_splits)
qed

lemma cursor_scan_wire:
  assumes "drop off p = concat (map cursor_wire cs) @ r" "off + length (concat (map cursor_wire cs)) = n"
    "\<forall>c\<in>set cs. fst c \<noteq> [] \<and> length (fst c) < 32 \<and> 0 \<notin> set (fst c)"
  shows "cursor_scan p n source (length cs) off = (case map_of cs (cstr source) of None \<Rightarrow> 0 | Some v \<Rightarrow> v)"
  using assms
proof (induction cs arbitrary: off)
  case (Cons c cs)
  obtain s v where c: "c = (s, v)" by fastforce
  have s: "s \<noteq> []" "length s < 32" "0 \<notin> set s" using Cons.prems(3) c by auto
  have d: "drop off p = of_nat (length s) # s @ le32 v @ concat (map cursor_wire cs) @ r"
    using Cons.prems(1) c by (simp add: cursor_wire_def [of "(s, v)"])
  have a: "at p off = of_nat (length s)" "drop (off + 1) p = s @ le32 v @ concat (map cursor_wire cs) @ r" "off < length p"
    using drop_head [OF d] by simp_all
  have u: "unat (of_nat (length s) :: u8) = length s" using s by (simp add: unat_u8_small)
  have d2: "drop (off + 1 + length s) p = le32 v @ concat (map cursor_wire cs) @ r" using drop_append_length [OF a(2)] by simp
  have d3: "drop (off + 1 + length s + 4) p = concat (map cursor_wire cs) @ r" using drop_append_length [OF d2] by simp
  have n: "off + 1 + length s + 4 + length (concat (map cursor_wire cs)) = n"
    using Cons.prems(2) c by (simp add: cursor_wire_def [of "(s, v)"])
  have t: "take (length s) (drop (off + 1) p) = s" using a(2) by simp
  have m: "length (cstr source) = length s \<and> s = take (length s) source \<longleftrightarrow> cstr source = s"
    using take_cstr [of source] by metis
  show ?case
  proof (cases "cstr source = s")
    case True
    then show ?thesis using a u s n t m of_le32_at [OF d2] c by (simp add: Let_def)
  next
    case False
    have "cursor_scan p n source (length cs) (off + 1 + length s + 4) = (case map_of cs (cstr source) of None \<Rightarrow> 0 | Some v \<Rightarrow> v)"
      using Cons.IH [OF d3 n] Cons.prems(3) by simp
    then show ?thesis using a u s n t m False c by (auto simp: Let_def)
  qed
qed simp

lemma foldl_max:
  fixes f :: "'a \<Rightarrow> u32" and P :: "'a \<Rightarrow> bool" and v xs
  defines "w \<equiv> foldl (\<lambda>b c. if P c \<and> f c > b then f c else b) v xs"
  shows "(w = v \<or> (\<exists>c\<in>set xs. P c \<and> f c = w)) \<and> v \<le> w \<and> (\<forall>c\<in>set xs. P c \<longrightarrow> f c \<le> w)"
  unfolding w_def
proof (induction xs arbitrary: v)
  case (Cons x xs)
  show ?case using Cons.IH [of "if P x \<and> f x > v then f x else v"] by (auto split: if_splits)
qed simp

lemma later_max_spec:
  "(later_max m rest = em_id m \<or> (\<exists>c\<in>set rest. streq (em_source c) (em_source m) \<and> em_id c = later_max m rest)) \<and>
   em_id m \<le> later_max m rest \<and> (\<forall>c\<in>set rest. streq (em_source c) (em_source m) \<longrightarrow> em_id c \<le> later_max m rest)"
  unfolding later_max_def by (rule foldl_max)

lemma cursor_list_max:
  "(s, v) \<in> set (cursor_list prior ms room k) \<Longrightarrow>
    (\<forall>p\<in>set prior. cstr (em_source p) \<noteq> s) \<and> (\<exists>m\<in>set ms. cstr (em_source m) = s \<and> em_id m = v) \<and>
    (\<forall>m\<in>set ms. cstr (em_source m) = s \<longrightarrow> em_id m \<le> v)"
proof (induction prior ms room k rule: cursor_list.induct)
  case (2 prior m rest room k)
  let ?skip = "(\<exists>p\<in>set prior. streq (em_source p) (em_source m)) \<or> cstr (em_source m) = [] \<or> length (cstr (em_source m)) \<ge> FIELD_LEN"
  have k: "k \<noteq> 0" using "2.prems" by (auto split: if_splits)
  show ?case
  proof (cases ?skip)
    case True
    then have i: "(s, v) \<in> set (cursor_list (prior @ [m]) rest room k)" using "2.prems" k by auto
    from "2.IH"(1) [OF k True i] show ?thesis by auto
  next
    case False
    then have r: "\<not> room < length (cstr (em_source m)) + 5" using "2.prems" k by (auto split: if_splits)
    then consider "s = cstr (em_source m)" "v = later_max m rest"
      | "(s, v) \<in> set (cursor_list (prior @ [m]) rest (room - (length (cstr (em_source m)) + 5)) (k - 1))"
      using "2.prems" k False by auto
    then show ?thesis
    proof cases
      case 1
      then show ?thesis using later_max_spec [of m rest] False by (auto simp: streq_def)
    next
      case 2
      from "2.IH"(2) [OF k False r 2] show ?thesis by auto
    qed
  qed
qed simp

lemma cursor_list_complete:
  assumes "\<forall>m\<in>set ms. cstr (em_source m) \<noteq> [] \<and> length (cstr (em_source m)) < 32" "length ms \<le> k"
    "(\<Sum>m\<leftarrow>ms. length (cstr (em_source m)) + 5) \<le> room" "m \<in> set ms" "\<forall>p\<in>set prior. cstr (em_source p) \<noteq> cstr (em_source m)"
  shows "cstr (em_source m) \<in> fst ` set (cursor_list prior ms room k)"
  using assms
proof (induction prior ms room k rule: cursor_list.induct)
  case (2 prior x rest room k)
  have k: "k \<noteq> 0" using "2.prems"(2) by simp
  show ?case
  proof (cases "cstr (em_source x) = cstr (em_source m)")
    case True
    then show ?thesis using "2.prems" k by (auto simp: streq_def)
  next
    case False
    then have m: "m \<in> set rest" "\<forall>p\<in>set (prior @ [x]). cstr (em_source p) \<noteq> cstr (em_source m)" using "2.prems"(4,5) by auto
    show ?thesis
    proof (cases "\<exists>p\<in>set prior. streq (em_source p) (em_source x)")
      case True
      then show ?thesis using "2.IH"(1) [OF k disjI1 [OF True]] "2.prems" m k by auto
    next
      case seen: False
      then have ok: "\<not> ((\<exists>p\<in>set prior. streq (em_source p) (em_source x)) \<or> cstr (em_source x) = [] \<or> length (cstr (em_source x)) \<ge> FIELD_LEN)"
        "\<not> room < length (cstr (em_source x)) + 5" using "2.prems"(1,3) by auto
      have "cstr (em_source m) \<in> fst ` set (cursor_list (prior @ [x]) rest (room - (length (cstr (em_source x)) + 5)) (k - 1))"
        by (rule "2.IH"(2) [OF k ok]) (use "2.prems" m in auto)
      then show ?thesis using k ok by auto
    qed
  qed
qed simp

subsection \<open>Properties\<close>

definition sync_sample :: emergency_message_t where
  "sync_sample = emergency_message_zero\<lparr>em_id := 9, em_source := pad 32 (lit ''A1''), em_destination := pad 32 (lit ''ALL''),
     em_type := pad 32 (lit ''FLOOD''), em_priority := pad 32 (lit ''LOW''), em_payload := pad 140 (lit ''hi''), em_hops := 3\<rparr>"

lemma sync_sample_ok: "syncable sync_sample" "sync_response_record_fits sync_sample"
  by code_simp+

text \<open>
  C39. A batch of synchronisation records is read back whole or not at all: for any messages
  the encoder accepts, the decoder returns exactly those messages in their order with every
  field, if the receiver has room for them and none has an empty (or overlong) source,
  destination, type or priority; one message that has, and the whole batch is lost.
\<close>

theorem sync_batch_roundtrip:
  assumes "mesh_control_encode_sync_response_batch ms body = Some (out, n)"
  shows "mesh_control_decode_sync_response_records out n max_records =
    (if length ms \<le> max_records \<and> (\<forall>m\<in>set ms. syncable m) then map synced_packet ms else [])"
proof -
  from assms have e: "\<forall>m\<in>set ms. sync_response_record_fits m" "length ms \<le> 255" "length (batch_wire ms) \<le> length body"
    "out = blit body 0 (batch_wire ms)" "n = length (batch_wire ms)"
    by (auto simp: encode_batch_eq split: if_splits)
  then have "out = batch_wire ms @ drop (length (batch_wire ms)) body" by (simp add: blit_def)
  then show ?thesis using decode_batch_wire [OF e(1,2)] e(5) by simp
qed

text \<open>A message whose text version 1 frame had an empty type field takes the other one with it.\<close>

theorem sync_batch_roundtrip_witness:
  "\<exists>out n out' n'. mesh_control_encode_sync_response_batch [sync_sample, sync_sample] (zeros 140) = Some (out, n) \<and>
     mesh_control_decode_sync_response_records out n 8 = [synced_packet sync_sample, synced_packet sync_sample] \<and>
     mesh_control_encode_sync_response_batch [sync_sample, sync_sample\<lparr>em_type := zeros 32\<rparr>] (zeros 140) = Some (out', n') \<and>
     mesh_control_decode_sync_response_records out' n' 8 = []"
proof -
  let ?bad = "sync_sample\<lparr>em_type := zeros 32\<rparr>"
  have bad: "sync_response_record_fits ?bad" "\<not> syncable ?bad" by code_simp+
  have "length (batch_wire [sync_sample, sync_sample]) \<le> 140" "length (batch_wire [sync_sample, ?bad]) \<le> 140" by code_simp+
  then obtain out n out' n' where e: "mesh_control_encode_sync_response_batch [sync_sample, sync_sample] (zeros 140) = Some (out, n)"
    "mesh_control_encode_sync_response_batch [sync_sample, ?bad] (zeros 140) = Some (out', n')"
    using sync_sample_ok bad by (simp add: encode_batch_eq)
  then show ?thesis
    using sync_batch_roundtrip [OF e(1), of 8] sync_batch_roundtrip [OF e(2), of 8] sync_sample_ok bad by simp
qed

text \<open>
  The record decoder depends on nothing but the payload: although it looks at length bytes
  before comparing the offset with the payload's end, two memories that agree on the first
  \<open>payload_len\<close> bytes decode alike, and never into more records than the caller has room for.
\<close>

theorem sync_decode_within_payload:
  assumes "take n p = take n q"
  shows "mesh_control_decode_sync_response_records p n max_records = mesh_control_decode_sync_response_records q n max_records \<and>
    length (mesh_control_decode_sync_response_records p n max_records) \<le> max_records"
proof -
  have "length (mesh_control_decode_sync_response_records p n max_records) \<le> max_records"
    by (auto simp: mesh_control_decode_sync_response_records_def split: option.splits dest: decode_records_length)
  then show ?thesis using decode_cong [OF assms] by blast
qed

theorem sync_decode_within_payload_witness:
  "mesh_control_decode_sync_response_records [1, 0, 0, 0, 0, 1, 65, 1, 66, 1, 67] 11 8 =
   mesh_control_decode_sync_response_records [1, 0, 0, 0, 0, 1, 65, 1, 66, 1, 67, 200, 7, 7] 11 8"
  using sync_decode_within_payload [of 11 "[1, 0, 0, 0, 0, 1, 65, 1, 66, 1, 67]" "[1, 0, 0, 0, 0, 1, 65, 1, 66, 1, 67, 200, 7, 7]" 8]
  by simp

text \<open>
  A synchronisation request tells the truth about what its sender holds: a cursor another
  node reads from it for a source is either 0 (no cursor) or the highest number of any message
  of that source in the sender's store, and it is that number when the store holds at most
  eight messages whose sources are named and fit.
\<close>

theorem sync_cursor_is_highest:
  assumes "sync_request_payload snapshot = (payload, n)" "c = sync_cursor_for_source payload n source"
  shows "(c \<noteq> 0 \<longrightarrow> (\<exists>m\<in>set snapshot. streq (em_source m) source \<and> em_id m = c)) \<and>
    (c \<noteq> 0 \<or> (length snapshot \<le> 8 \<and> (\<Sum>m\<leftarrow>snapshot. length (cstr (em_source m)) + 5) \<le> 139 \<and>
        (\<forall>m\<in>set snapshot. cstr (em_source m) \<noteq> [] \<and> length (cstr (em_source m)) < FIELD_LEN)) \<longrightarrow>
     (\<forall>m\<in>set snapshot. streq (em_source m) source \<longrightarrow> em_id m \<le> c))"
proof -
  define cs where "cs = cursor_list [] snapshot 139 8"
  let ?w = "concat (map cursor_wire cs)"
  have b: "1 + length ?w \<le> 140" "length cs \<le> 8" "\<forall>c\<in>set cs. fst c \<noteq> [] \<and> length (fst c) < 32 \<and> 0 \<notin> set (fst c)"
    using cursor_list_props [of "[]" snapshot 139 8] by (simp_all add: cs_def)
  have p: "payload = of_nat (length cs) # ?w @ drop (1 + length ?w) (zeros 140)" "n = 1 + length ?w"
    using assms(1) by (auto simp: sync_request_payload_eq cs_def blit_def)
  have d: "drop 1 payload = ?w @ drop (1 + length ?w) (zeros 140)" by (subst p(1)) simp
  have a: "at payload 0 = of_nat (length cs)" by (subst p(1)) (simp add: at_def)
  have u: "unat (of_nat (length cs) :: u8) = length cs" using b(2) by (simp add: unat_u8_small)
  have c: "c = (case map_of cs (cstr source) of None \<Rightarrow> 0 | Some v \<Rightarrow> v)"
    using cursor_scan_wire [OF d _ b(3), of n source] p(2) u unfolding assms(2) sync_cursor_for_source_def a by simp
  show ?thesis
  proof (cases "map_of cs (cstr source)")
    case None
    then have "cstr (em_source m) \<noteq> cstr source" if "length snapshot \<le> 8" "(\<Sum>m\<leftarrow>snapshot. length (cstr (em_source m)) + 5) \<le> 139"
      "\<forall>m\<in>set snapshot. cstr (em_source m) \<noteq> [] \<and> length (cstr (em_source m)) < 32" "m \<in> set snapshot" for m
      using cursor_list_complete [OF that(3,1,2,4), of "[]"] by (force simp: map_of_eq_None_iff cs_def)
    then show ?thesis using None c by (auto simp: streq_def)
  next
    case (Some v)
    then show ?thesis using c cursor_list_max [of "cstr source" v "[]" snapshot 139 8] map_of_SomeD [OF Some]
      by (auto simp: cs_def streq_def)
  qed
qed

theorem sync_cursor_is_highest_witness:
  "\<exists>payload n. sync_request_payload [sync_sample, sync_sample\<lparr>em_id := 4\<rparr>] = (payload, n) \<and> 9 \<le> sync_cursor_for_source payload n (lit ''A1'')"
proof -
  let ?ms = "[sync_sample, sync_sample\<lparr>em_id := 4\<rparr>]"
  obtain payload n where e: "sync_request_payload ?ms = (payload, n)" by fastforce
  have s: "streq (em_source sync_sample) (lit ''A1'')" "cstr (em_source sync_sample) \<noteq> []" "length (cstr (em_source sync_sample)) = 2"
    "em_id sync_sample = 9" by code_simp+
  from sync_cursor_is_highest [OF e refl, of "lit ''A1''"] s have "9 \<le> sync_cursor_for_source payload n (lit ''A1'')" by simp
  then show ?thesis using e by blast
qed

lemma parse_ack_payload:
  assumes "length (acknowledged_source info) = FIELD_LEN"
  shows "mesh_control_parse_ack (fst (ack_payload info) @ r) (snd (ack_payload info)) =
    Some (info\<lparr>acknowledged_source := (acknowledged_source info)[FIELD_LEN - 1 := 0]\<rparr>)"
proof -
  have p: "fst (ack_payload info) @ r = le32 (acknowledged_id info) @ acknowledged_source info @ zeros 104 @ r"
    using assms by (simp add: ack_payload_def blit_def zeros_def)
  let ?q = "fst (ack_payload info) @ r"
  have "drop 0 ?q = le32 (acknowledged_id info) @ acknowledged_source info @ zeros 104 @ r" using p by simp
  from of_le32_at [OF this] have i: "of_le32 (at ?q 0) (at ?q 1) (at ?q 2) (at ?q 3) = acknowledged_id info"
    by (simp only: add_0)
  have "take 32 (drop 4 ?q) = acknowledged_source info" unfolding p using assms by simp
  then show ?thesis using i by (simp add: mesh_control_parse_ack_def ack_payload_def)
qed

end
