(* ===== verification/Mesh_Sequence.thy ===== *)
theory Mesh_Sequence
  imports Message_Store
begin

text \<open>
  \<open>src/mesh/mesh_sequence.c\<close>: the counter that numbers every packet this node
  originates, kept in flash under \<open>packet_ctr\<close>. Receivers drop numbers they have seen
  (\<open>Replay_Protection\<close>), so the numbers must never repeat, restarts included.
\<close>

text \<open>
  The 32-bit interface of the NVS service for the namespace \<open>bems_config\<close>, a parameter.
  \<open>cfg_flash\<close> is the counter's share of the namespace, the key \<open>packet_ctr\<close>;
  \<open>cfg_erase_all\<close> is \<open>nvs_erase_all\<close> as that key sees it.
\<close>

record 'n nvs_u32_api =
  cfg_open :: "'n \<Rightarrow> bool \<Rightarrow> esp_err_t"
  nvs_get_u32 :: "'n \<Rightarrow> bytes \<Rightarrow> esp_err_t + u32"
  nvs_set_u32 :: "bytes \<Rightarrow> u32 \<Rightarrow> 'n \<Rightarrow> esp_err_t \<times> 'n"
  cfg_erase_all :: "'n \<Rightarrow> esp_err_t \<times> 'n"
  cfg_commit :: "'n \<Rightarrow> esp_err_t \<times> 'n"

record 'n sequence_state =
  sequence_counter :: u32
  sequence_loaded :: bool
  cfg_flash :: 'n

definition sequence_load_impl :: "'n nvs_u32_api \<Rightarrow> 'n sequence_state \<Rightarrow> 'n sequence_state" where
  "sequence_load_impl api st =
    (if sequence_loaded st then st
     else if cfg_open api (cfg_flash st) False \<noteq> ESP_OK then st\<lparr>sequence_loaded := True\<rparr>
     else (case nvs_get_u32 api (cfg_flash st) (lit ''packet_ctr'') of
             Inr stored \<Rightarrow> st\<lparr>sequence_counter := stored, sequence_loaded := True\<rparr>
           | Inl _ \<Rightarrow> st\<lparr>sequence_loaded := True\<rparr>))"

definition mesh_sequence_init :: "'n nvs_u32_api \<Rightarrow> 'n sequence_state \<Rightarrow> 'n sequence_state" where
  "mesh_sequence_init api st = sequence_load_impl api st"

definition mesh_sequence_next :: "'n nvs_u32_api \<Rightarrow> 'n sequence_state \<Rightarrow> u32 \<times> 'n sequence_state" where
  "mesh_sequence_next api st =
    (let st = sequence_load_impl api st; next_id = sequence_counter st + 1
     in (next_id, st\<lparr>sequence_counter := next_id\<rparr>))"

definition mesh_sequence_peek :: "'n nvs_u32_api \<Rightarrow> 'n sequence_state \<Rightarrow> u32 \<times> 'n sequence_state" where
  "mesh_sequence_peek api st = (let st = sequence_load_impl api st in (sequence_counter st, st))"

definition mesh_sequence_update :: "'n nvs_u32_api \<Rightarrow> u32 \<Rightarrow> 'n sequence_state \<Rightarrow> 'n sequence_state" where
  "mesh_sequence_update api sequence st =
    (let st = sequence_load_impl api st
     in if sequence > sequence_counter st then st\<lparr>sequence_counter := sequence\<rparr> else st)"

text \<open>The result is only logged by the source; it is returned here.\<close>

definition mesh_sequence_save :: "'n nvs_u32_api \<Rightarrow> 'n sequence_state \<Rightarrow> esp_err_t \<times> 'n sequence_state" where
  "mesh_sequence_save api st =
    (let st = sequence_load_impl api st in
     if cfg_open api (cfg_flash st) True \<noteq> ESP_OK then (cfg_open api (cfg_flash st) True, st)
     else (case nvs_set_u32 api (lit ''packet_ctr'') (sequence_counter st) (cfg_flash st) of (result, n) \<Rightarrow>
       if result \<noteq> ESP_OK then (result, st\<lparr>cfg_flash := n\<rparr>)
       else (case cfg_commit api n of (result, n) \<Rightarrow> (result, st\<lparr>cfg_flash := n\<rparr>))))"

text \<open>A restart: the statics are zero again, the flash is what was committed.\<close>

definition sequence_restart :: "'n sequence_state \<Rightarrow> 'n sequence_state" where
  "sequence_restart st = st\<lparr>sequence_counter := 0, sequence_loaded := False\<rparr>"

text \<open>
  \<open>node_config_erase\<close> erases the whole namespace, the counter's key with it, but not the
  counter in memory.
\<close>

definition erase_counter_keys :: "'n nvs_u32_api \<Rightarrow> 'n \<Rightarrow> 'n" where
  "erase_counter_keys api n = snd (cfg_commit api (snd (cfg_erase_all api n)))"

definition sequence_erase :: "'n nvs_u32_api \<Rightarrow> 'n sequence_state \<Rightarrow> 'n sequence_state" where
  "sequence_erase api st = st\<lparr>cfg_flash := erase_counter_keys api (cfg_flash st)\<rparr>"

subsection \<open>Numbers never repeat\<close>

text \<open>
  What a read of the flash finds: nothing, if the namespace cannot be opened (it does not
  exist before the first write) or the key is not in it.
\<close>

definition stored_u32 :: "'n nvs_u32_api \<Rightarrow> 'n \<Rightarrow> bytes \<Rightarrow> u32 option" where
  "stored_u32 api n k =
    (if cfg_open api n False \<noteq> ESP_OK then None
     else case nvs_get_u32 api n k of Inr v \<Rightarrow> Some v | Inl _ \<Rightarrow> None)"

text \<open>
  What the counter relies on: a committed value is what a later read returns, a write that
  fails leaves the old value or the new one, a commit changes no value; and, for what follows
  an erase, that an erase that works leaves nothing.
\<close>

definition nvs_u32_faithful :: "'n nvs_u32_api \<Rightarrow> bool" where
  "nvs_u32_faithful api \<longleftrightarrow>
    (\<forall>k v n n1 n2. nvs_set_u32 api k v n = (ESP_OK, n1) \<longrightarrow> cfg_commit api n1 = (ESP_OK, n2) \<longrightarrow> stored_u32 api n2 k = Some v) \<and>
    (\<forall>k v n. stored_u32 api (snd (nvs_set_u32 api k v n)) k \<in> {stored_u32 api n k, Some v}) \<and>
    (\<forall>k n. stored_u32 api (snd (cfg_commit api n)) k = stored_u32 api n k)"

definition nvs_u32_erases :: "'n nvs_u32_api \<Rightarrow> bool" where
  "nvs_u32_erases api \<longleftrightarrow> (\<forall>k n. fst (cfg_erase_all api n) = ESP_OK \<longrightarrow> stored_u32 api (erase_counter_keys api n) k = None)"

text \<open>
  Runs of the counter, with the numbers used since its flash was last erased, newest first: a
  number is used once it has been saved. The counter may be raised and saved, saves may fail,
  the node may restart at any point, also between drawing a number and saving it, and the
  configuration may be erased.
\<close>

inductive sequence_run :: "'n nvs_u32_api \<Rightarrow> u32 list \<Rightarrow> 'n sequence_state \<Rightarrow> bool" for api where
  run_boot: "\<not> sequence_loaded st \<Longrightarrow> sequence_run api [] st"
| run_use: "sequence_run api ids st \<Longrightarrow> fst (mesh_sequence_peek api st) \<noteq> - 1 \<Longrightarrow> mesh_sequence_next api st = (i, st1) \<Longrightarrow>
    mesh_sequence_save api st1 = (ESP_OK, st2) \<Longrightarrow> sequence_run api (i # ids) st2"
| run_drawn: "sequence_run api ids st \<Longrightarrow> fst (mesh_sequence_peek api st) \<noteq> - 1 \<Longrightarrow> mesh_sequence_next api st = (i, st') \<Longrightarrow>
    sequence_run api ids st'"
| run_save: "sequence_run api ids st \<Longrightarrow> mesh_sequence_save api st = (res, st') \<Longrightarrow> sequence_run api ids st'"
| run_update: "sequence_run api ids st \<Longrightarrow> sequence_run api ids (mesh_sequence_update api v st)"
| run_restart: "sequence_run api ids st \<Longrightarrow> sequence_run api ids (sequence_restart st)"
| run_erase: "sequence_run api ids st \<Longrightarrow> sequence_run api [] (sequence_erase api st)"

definition saved_at_least :: "'n nvs_u32_api \<Rightarrow> u32 \<Rightarrow> 'n \<Rightarrow> bool" where
  "saved_at_least api i n \<longleftrightarrow> (\<exists>v. stored_u32 api n (lit ''packet_ctr'') = Some v \<and> i \<le> v)"

definition sequence_inv :: "'n nvs_u32_api \<Rightarrow> u32 list \<Rightarrow> 'n sequence_state \<Rightarrow> bool" where
  "sequence_inv api ids st \<longleftrightarrow> sorted_wrt (>) ids \<and>
    (\<forall>i\<in>set ids. saved_at_least api i (cfg_flash st) \<and> (sequence_loaded st \<longrightarrow> i \<le> sequence_counter st))"

lemma load_stored_u32: "sequence_load_impl api st =
  (if sequence_loaded st then st
   else case stored_u32 api (cfg_flash st) (lit ''packet_ctr'') of
     Some v \<Rightarrow> st\<lparr>sequence_counter := v, sequence_loaded := True\<rparr> | None \<Rightarrow> st\<lparr>sequence_loaded := True\<rparr>)"
  by (simp add: sequence_load_impl_def stored_u32_def split: sum.splits)

lemma sequence_load_simps [simp]:
  "sequence_loaded (sequence_load_impl api st)" "cfg_flash (sequence_load_impl api st) = cfg_flash st"
  "sequence_loaded st \<Longrightarrow> sequence_load_impl api st = st"
  by (auto simp: sequence_load_impl_def split: sum.splits)

lemma sequence_load_inv:
  assumes "sequence_inv api ids st"
  shows "sequence_inv api ids (sequence_load_impl api st)"
proof (cases "sequence_loaded st")
  case False
  have "i \<le> sequence_counter (sequence_load_impl api st)" if "i \<in> set ids" for i
    using assms False that
    by (auto simp: load_stored_u32 sequence_inv_def saved_at_least_def)
  then show ?thesis using assms by (simp add: sequence_inv_def)
qed (use assms in simp)

lemma counter_grows: "(c :: u32) \<noteq> - 1 \<Longrightarrow> c < c + 1"
proof -
  assume "c \<noteq> - 1"
  then have "unat c \<noteq> 2 ^ 32 - 1" 
    using word_unat_eq_iff [of c "- 1"] by (auto simp: unsigned_minus_1_eq_mask mask_eq_exp_minus_1)
  then have "unat c + 1 < 2 ^ 32" using unsigned_less [where ?'a = nat and w = c] by simp
  then show "c < c + 1" by (simp add: word_less_nat_alt unat_plus_if')
qed

lemma sequence_save_ok:
  assumes "nvs_u32_faithful api" "sequence_loaded st" "mesh_sequence_save api st = (ESP_OK, st')"
  shows "st' = st\<lparr>cfg_flash := cfg_flash st'\<rparr> \<and> saved_at_least api (sequence_counter st) (cfg_flash st') \<and>
    stored_u32 api (cfg_flash st') (lit ''packet_ctr'') = Some (sequence_counter st)"
proof -
  obtain n1 n2 where "nvs_set_u32 api (lit ''packet_ctr'') (sequence_counter st) (cfg_flash st) = (ESP_OK, n1)"
    "cfg_commit api n1 = (ESP_OK, n2)" "st' = st\<lparr>cfg_flash := n2\<rparr>"
    using assms(2,3) by (auto simp: mesh_sequence_save_def split: if_splits prod.splits)
  then show ?thesis using assms(1) by (auto simp: nvs_u32_faithful_def saved_at_least_def)
qed

text \<open>A save, whether it works or not, keeps what was saved before.\<close>

lemma sequence_save_inv:
  assumes "nvs_u32_faithful api" "sequence_inv api ids st" "mesh_sequence_save api st = (res, st')"
  shows "sequence_inv api ids st'"
proof -
  let ?l = "sequence_load_impl api st" and ?k = "lit ''packet_ctr''"
  have l: "sequence_inv api ids ?l" by (rule sequence_load_inv [OF assms(2)])
  have "st' = ?l \<or> stored_u32 api (cfg_flash st') ?k \<in> {stored_u32 api (cfg_flash ?l) ?k, Some (sequence_counter ?l)} \<and>
      st' = ?l\<lparr>cfg_flash := cfg_flash st'\<rparr>"
    using assms(1,3) by (fastforce simp: mesh_sequence_save_def Let_def nvs_u32_faithful_def split: if_splits prod.splits
        dest: arg_cong [of _ _ snd])
  then show ?thesis
  proof
    assume a: "stored_u32 api (cfg_flash st') ?k \<in> {stored_u32 api (cfg_flash ?l) ?k, Some (sequence_counter ?l)} \<and>
      st' = ?l\<lparr>cfg_flash := cfg_flash st'\<rparr>"
    then have "sequence_counter st' = sequence_counter ?l" by (metis sequence_state.select_convs(1) sequence_state.surjective sequence_state.update_convs(3))
    with a l show ?thesis by (auto simp: sequence_inv_def saved_at_least_def)
  qed (use l in simp)
qed

lemma sequence_run_inv:
  assumes "nvs_u32_faithful api" "sequence_run api ids st"
  shows "sequence_inv api ids st"
  using assms(2)
proof induction
  case (run_use ids st i st1 st2)
  let ?l = "sequence_load_impl api st"
  have l: "sequence_inv api ids ?l" by (rule sequence_load_inv [OF run_use.IH])
  have s: "i = sequence_counter ?l + 1" "st1 = ?l\<lparr>sequence_counter := i\<rparr>" "sequence_counter ?l \<noteq> - 1"
    using run_use by (auto simp: mesh_sequence_next_def mesh_sequence_peek_def Let_def)
  then have g: "sequence_counter ?l < i" using counter_grows by simp
  have "sequence_loaded st1" using s(2) by simp
  from sequence_save_ok [OF assms(1) this run_use.hyps(4)] s(2)
  have v: "st2 = st1\<lparr>cfg_flash := cfg_flash st2\<rparr>" "stored_u32 api (cfg_flash st2) (lit ''packet_ctr'') = Some i" by auto
  have "\<forall>j\<in>set ids. j < i" using l g by (auto simp: sequence_inv_def)
  then have "\<forall>j\<in>set (i # ids). saved_at_least api j (cfg_flash st2) \<and> j \<le> i" using v(2) by (auto simp: saved_at_least_def)
  moreover have "sequence_counter st2 = i" by (subst v(1)) (simp add: s(2))
  ultimately show ?case using l \<open>\<forall>j\<in>set ids. j < i\<close> by (auto simp: sequence_inv_def)
next
  case (run_drawn ids st i st')
  let ?l = "sequence_load_impl api st"
  have l: "sequence_inv api ids ?l" by (rule sequence_load_inv [OF run_drawn.IH])
  have s: "i = sequence_counter ?l + 1" "st' = ?l\<lparr>sequence_counter := i\<rparr>" "sequence_counter ?l \<noteq> - 1"
    using run_drawn by (auto simp: mesh_sequence_next_def mesh_sequence_peek_def Let_def)
  then have "sequence_counter ?l < i" using counter_grows by simp
  then show ?case using l s(2) by (auto simp: sequence_inv_def)
next
  case (run_update ids st v)
  then show ?case using sequence_load_inv [OF run_update.IH]
    by (auto simp: mesh_sequence_update_def sequence_inv_def Let_def)
next
  case (run_save ids st res st')
  then show ?case using sequence_save_inv [OF assms(1)] by blast
qed (auto simp: sequence_inv_def sequence_restart_def)

text \<open>A flash that keeps its last value, and does not open for reading before the first; for the witnesses.\<close>

definition cell_nvs :: "u32 option nvs_u32_api" where
  "cell_nvs = \<lparr>cfg_open = (\<lambda>n write. if n = None \<and> \<not> write then ESP_ERR_NVS_NOT_FOUND else ESP_OK),
     nvs_get_u32 = (\<lambda>n _. case n of None \<Rightarrow> Inl ESP_ERR_NVS_NOT_FOUND | Some v \<Rightarrow> Inr v),
     nvs_set_u32 = (\<lambda>_ v _. (ESP_OK, Some v)), cfg_erase_all = (\<lambda>_. (ESP_OK, None)),
     cfg_commit = (\<lambda>n. (ESP_OK, n))\<rparr>"

lemma cell_nvs_faithful: "nvs_u32_faithful cell_nvs"
  by (auto simp: nvs_u32_faithful_def stored_u32_def cell_nvs_def split: option.splits)

text \<open>
  C38. Packet numbers do not repeat until the flash is erased: along every run of the counter,
  with restarts at any moment and saves that fail, each number used (drawn and saved) is
  greater than every number used since the last erase of the configuration, as long as the
  32-bit counter is not exhausted. An erase takes the counter with it
  (\<open>erased_counter_restarts\<close>).
\<close>

theorem sequence_numbers_increase:
  assumes "nvs_u32_faithful api" "sequence_run api ids st"
  shows "sorted_wrt (>) ids \<and> distinct ids"
proof -
  have s: "sorted_wrt (>) ids" using sequence_run_inv [OF assms] by (simp add: sequence_inv_def)
  then have "distinct ids" by (induction ids) auto
  with s show ?thesis ..
qed

theorem sequence_numbers_increase_witness:
  "nvs_u32_faithful cell_nvs \<and>
   sequence_run cell_nvs [2, 1] \<lparr>sequence_counter = 2, sequence_loaded = True, cfg_flash = Some 2\<rparr> \<and> distinct [2, 1 :: u32]"
proof -
  let ?s = "\<lambda>c l n. \<lparr>sequence_counter = c, sequence_loaded = l, cfg_flash = n\<rparr>"
  note defs = mesh_sequence_next_def mesh_sequence_save_def mesh_sequence_peek_def sequence_load_impl_def Let_def cell_nvs_def
  have "sequence_run cell_nvs [] (?s 0 False None)" by (rule run_boot) simp
  then have "sequence_run cell_nvs [1] (?s 1 True (Some 1))"
    by (rule run_use [where ?st1.0 = "?s 1 True None"]) (simp_all add: defs)
  then have "sequence_run cell_nvs [1] (sequence_restart (?s 1 True (Some 1)))" by (rule run_restart)
  then have r: "sequence_run cell_nvs [2, 1] (?s 2 True (Some 2))"
    by (rule run_use [where ?st1.0 = "?s 2 True (Some 1)"]) (simp_all add: defs sequence_restart_def)
  then show ?thesis using sequence_numbers_increase [OF cell_nvs_faithful r] cell_nvs_faithful by blast
qed

text \<open>
  A number that is used without being saved comes back: \<open>mesh_control_send_sync_responses\<close>
  draws its packet numbers with \<open>mesh_sequence_next\<close> alone, and after a restart the node
  numbers its next packet the same, which receivers then drop as a replay.
\<close>

theorem unsaved_number_repeats:
  assumes "nvs_u32_faithful api" "mesh_sequence_save api st = (ESP_OK, saved)"
    "mesh_sequence_next api saved = (i, used)"
  shows "fst (mesh_sequence_next api (sequence_restart used)) = i"
proof -
  let ?l = "sequence_load_impl api st"
  have "mesh_sequence_save api ?l = (ESP_OK, saved)" using assms(2) by (simp add: mesh_sequence_save_def)
  from sequence_save_ok [OF assms(1) _ this]
  have s: "saved = ?l\<lparr>cfg_flash := cfg_flash saved\<rparr>" "stored_u32 api (cfg_flash saved) (lit ''packet_ctr'') = Some (sequence_counter ?l)"
    by simp_all
  have "sequence_loaded saved" "sequence_counter saved = sequence_counter ?l" by (subst s(1), simp)+
  then show ?thesis using assms(1,3) s(2)
    by (auto simp: mesh_sequence_next_def Let_def sequence_restart_def load_stored_u32)
qed

theorem unsaved_number_repeats_witness:
  "fst (mesh_sequence_next cell_nvs (sequence_restart
     \<lparr>sequence_counter = 6, sequence_loaded = True, cfg_flash = Some 5\<rparr>)) = 6"
proof -
  note defs = mesh_sequence_next_def mesh_sequence_save_def sequence_load_impl_def Let_def cell_nvs_def
  let ?s = "\<lparr>sequence_counter = 5, sequence_loaded = True, cfg_flash = Some 5\<rparr> :: u32 option sequence_state"
  have "mesh_sequence_save cell_nvs ?s = (ESP_OK, ?s)" by (simp add: defs)
  from unsaved_number_repeats [OF cell_nvs_faithful this, of 6 "\<lparr>sequence_counter = 6, sequence_loaded = True, cfg_flash = Some 5\<rparr>"]
  show ?thesis by (simp add: defs)
qed

text \<open>
  Erasing the configuration erases the counter, which shares its namespace: the node that
  restarts after a reset numbers its packets from 1 again. A node that was given the same
  identity again is then dropped by every receiver that remembers its old numbers.
\<close>

theorem erased_counter_restarts:
  assumes "nvs_u32_erases api" "fst (cfg_erase_all api (cfg_flash st)) = ESP_OK"
  shows "fst (mesh_sequence_next api (sequence_restart (sequence_erase api st))) = 1"
  using assms by (simp add: mesh_sequence_next_def Let_def load_stored_u32 sequence_restart_def sequence_erase_def nvs_u32_erases_def)

theorem erased_counter_restarts_witness:
  "fst (mesh_sequence_next cell_nvs (sequence_restart (sequence_erase cell_nvs
     \<lparr>sequence_counter = 500, sequence_loaded = True, cfg_flash = Some 500\<rparr>))) = 1"
  by (rule erased_counter_restarts) (auto simp: nvs_u32_erases_def erase_counter_keys_def stored_u32_def cell_nvs_def)

end
