(* ===== verification/Mesh_Control.thy ===== *)
theory Mesh_Control
  imports Sync_Codec Mesh_Sequence Forwarding
begin

text \<open>
  The control half of \<open>src/mesh_control.c\<close>: the mesh clock, and the control packets a
  node originates (TIME_SYNC, SYNC_REQ, SYNC_RESP, ACK). What a function hands to
  \<open>lora_transmit_bytes\<close> is part of its result; \<open>local_id\<close> is
  \<open>node_config_get_node_id()\<close>, and each reading of the tick counter is an argument.
\<close>

definition configTICK_RATE_HZ :: u32 where "configTICK_RATE_HZ = 100"

subsection \<open>The mesh clock\<close>

record time_state =
  epoch_offset_sec :: int
  time_synced :: bool
  time_sync_distance :: u8
  last_time_sync_broadcast_tick :: u32

definition time_start :: time_state where
  "time_start = \<lparr>epoch_offset_sec = 0, time_synced = False, time_sync_distance = 0, last_time_sync_broadcast_tick = 0\<rparr>"

definition mesh_control_current_epoch_seconds :: "u32 \<Rightarrow> time_state \<Rightarrow> u32" where
  "mesh_control_current_epoch_seconds tick st = word_of_int (epoch_offset_sec st + uint (tick div configTICK_RATE_HZ))"

definition mesh_control_apply_time_sync :: "u32 \<Rightarrow> u32 \<Rightarrow> u8 \<Rightarrow> time_state \<Rightarrow> time_state" where
  "mesh_control_apply_time_sync tick epoch distance st =
    (let now_seconds = tick div configTICK_RATE_HZ
     in st\<lparr>epoch_offset_sec := uint epoch - uint now_seconds, time_synced := True, time_sync_distance := distance,
           last_time_sync_broadcast_tick := 0\<rparr>)"

definition mesh_control_is_time_synced :: "time_state \<Rightarrow> bool" where
  "mesh_control_is_time_synced st = time_synced st"

definition mesh_control_get_time_sync_distance :: "time_state \<Rightarrow> u8" where
  "mesh_control_get_time_sync_distance st = time_sync_distance st"

definition time_sync_epoch_from_payload :: "bytes \<Rightarrow> u32" where
  "time_sync_epoch_from_payload payload =
    (if strneq payload (lit ''epoch='') 6 then fst (strtoul (drop 6 payload)) else 0)"

text \<open>\<open>strstr(s, pattern)\<close>: what follows the first occurrence.\<close>

fun strstr_after :: "bytes \<Rightarrow> bytes \<Rightarrow> bytes option" where
  "strstr_after pattern [] = (if pattern = [] then Some [] else None)"
| "strstr_after pattern (c # s) =
    (if take (length pattern) (c # s) = pattern then Some (drop (length pattern) (c # s)) else strstr_after pattern s)"

definition time_sync_dist_from_payload :: "bytes \<Rightarrow> u8" where
  "time_sync_dist_from_payload payload =
    (case strstr_after (lit ''~dist='') (cstr payload) of
       None \<Rightarrow> 0
     | Some digits \<Rightarrow>
        (case strtoul digits of (distance, rest, range_error) \<Rightarrow>
           if rest = digits \<or> (rest \<noteq> [] \<and> hd rest \<noteq> 126) \<or> range_error \<or> distance > 255 then 255
           else ucast distance))"

text \<open>\<open>t1\<close> and \<open>t2\<close> are the ticks read for the comparison and on applying.\<close>

definition mesh_control_handle_time_sync_packet :: "u32 \<Rightarrow> u32 \<Rightarrow> bytes \<Rightarrow> time_state \<Rightarrow> bool \<times> time_state" where
  "mesh_control_handle_time_sync_packet t1 t2 payload st =
    (let epoch = time_sync_epoch_from_payload payload; dist = time_sync_dist_from_payload payload in
     if dist = 255 \<or> epoch < 1577836800 \<or> epoch > 4102444800 then (False, st)
     else if \<not> mesh_control_is_time_synced st then (True, mesh_control_apply_time_sync t2 epoch dist st)
     else (let local_epoch = mesh_control_current_epoch_seconds t1 st;
               offset = (if epoch > local_epoch then epoch - local_epoch else local_epoch - epoch)
           in if offset > 86400 then (False, st)
              else (True, if dist < mesh_control_get_time_sync_distance st
                          then mesh_control_apply_time_sync t2 epoch dist st else st)))"

subsection \<open>Packets a node originates\<close>

text \<open>What every control packet starts from.\<close>

definition control_packet :: "u32 \<Rightarrow> int \<Rightarrow> bytes \<Rightarrow> bytes \<Rightarrow> bytes \<Rightarrow> mesh_packet_t" where
  "control_packet ident hops local_id destination packet_type =
    (let p = mesh_packet_zero
     in p\<lparr>mp_valid := True, mp_id := ident, mp_hops := hops, mp_path_hops := 1,
          mp_source := copy_field (mp_source p) local_id,
          mp_destination := copy_field (mp_destination p) destination,
          mp_type := copy_field (mp_type p) packet_type,
          mp_priority := copy_field (mp_priority p) (lit ''NORMAL''),
          mp_relay := copy_field (mp_relay p) local_id\<rparr>)"

definition mesh_control_send_time_sync_packet ::
  "'n nvs_u32_api \<Rightarrow> bytes \<Rightarrow> u32 \<Rightarrow> u8 \<Rightarrow> u8 \<Rightarrow> 'n sequence_state \<Rightarrow> (bytes \<times> nat) option \<times> 'n sequence_state" where
  "mesh_control_send_time_sync_packet api local_id epoch distance hops seq =
    (case mesh_sequence_next api seq of (message_id, seq) \<Rightarrow>
      (let seq = snd (mesh_sequence_save api seq);
           packet = control_packet message_id (uint hops) local_id (lit ''ALL'') (lit ''TIME_SYNC'');
           payload = snprintf (zeros 64) (lit ''epoch='' @ print_dec (unat epoch) @ lit ''~dist='' @ print_dec (unat distance));
           packet = packet\<lparr>mp_payload := copy_field (mp_payload packet) payload\<rparr>
       in (build_forward_packet_v2 packet (zeros PACKET_LEN), seq)))"

text \<open>The ticks are read for the interval, for the epoch sent and for the new mark.\<close>

definition mesh_control_broadcast_time_sync_if_synced ::
  "'n nvs_u32_api \<Rightarrow> bytes \<Rightarrow> u32 \<Rightarrow> u32 \<Rightarrow> u32 \<Rightarrow> time_state \<times> 'n sequence_state \<Rightarrow>
   (bytes \<times> nat) option \<times> time_state \<times> 'n sequence_state" where
  "mesh_control_broadcast_time_sync_if_synced api local_id t1 t2 t3 st = (case st of (ts, seq) \<Rightarrow>
    if \<not> time_synced ts then (None, ts, seq)
    else if t1 - last_time_sync_broadcast_tick ts \<ge> pdMS_TO_TICKS (15 * 60 * 1000)
    then (case mesh_control_send_time_sync_packet api local_id (mesh_control_current_epoch_seconds t2 ts)
                 (time_sync_distance ts) 2 seq of (frame, seq) \<Rightarrow>
      (frame, ts\<lparr>last_time_sync_broadcast_tick := t3\<rparr>, seq))
    else (None, ts, seq))"

definition mesh_control_send_sync_request ::
  "'n nvs_u32_api \<Rightarrow> bytes \<Rightarrow> 's store_state \<Rightarrow> 'n sequence_state \<Rightarrow> (bytes \<times> nat) option \<times> 'n sequence_state" where
  "mesh_control_send_sync_request api local_id store seq =
    (let snapshot = message_store_copy_all MAX_MESSAGES store in
     case mesh_sequence_next api seq of (request_id, seq) \<Rightarrow>
      (let seq = snd (mesh_sequence_save api seq);
           (payload, offset) = sync_request_payload snapshot;
           packet = control_packet request_id 1 local_id (lit ''ALL'') (lit ''SYNC_REQ'');
           packet = packet\<lparr>mp_payload := blit (mp_payload packet) 0 (take offset payload), mp_payload_len := offset\<rparr>
       in (build_forward_packet_v2 packet (zeros PACKET_LEN), seq)))"

text \<open>The job queued for an ACK; \<open>best\<close> is \<open>route_table_get_best\<close> for its destination.\<close>

definition ack_job :: "bytes \<Rightarrow> u32 \<Rightarrow> mesh_packet_t \<Rightarrow> route_entry_t option \<Rightarrow> forward_job_t" where
  "ack_job local_id ack_id parsed best =
    (let info = mesh_control_build_ack parsed \<lparr>acknowledged_id = 0, acknowledged_source = zeros FIELD_LEN\<rparr>;
         packet = control_packet ack_id (if mp_hops parsed > 0 then mp_hops parsed else 3) local_id (mp_source parsed) (lit ''ACK'');
         packet = packet\<lparr>mp_payload := fst (ack_payload info), mp_payload_len := snd (ack_payload info)\<rparr>
     in \<lparr>fj_packet = packet, fj_rssi = 0, fj_snr = 0,
         fj_route = (case best of Some route \<Rightarrow> route | None \<Rightarrow> route_entry_zero),
         fj_route_known = (best \<noteq> None), fj_local_node_id = copy_field (zeros FIELD_LEN) local_id\<rparr>)"

definition mesh_control_send_ack_packet ::
  "'n nvs_u32_api \<Rightarrow> (forward_job_t, 'q) queue_api \<Rightarrow> bytes \<Rightarrow> u32 \<Rightarrow> route_state \<Rightarrow> mesh_packet_t \<Rightarrow>
   'n sequence_state \<times> 'q forward_state \<Rightarrow> 'n sequence_state \<times> 'q forward_state" where
  "mesh_control_send_ack_packet api queues local_id now_ms routes parsed st = (case st of (seq, fq) \<Rightarrow>
    (case mesh_sequence_next api seq of (ack_id, seq) \<Rightarrow>
      (let seq = snd (mesh_sequence_save api seq);
           destination = copy_field (zeros FIELD_LEN) (mp_source parsed);
           job = ack_job local_id ack_id parsed (route_table_get_best (Some destination) now_ms routes);
           fq = forward_queue_init queues fq
       in (seq, snd (forward_queue_enqueue queues job TX_PRIORITY_HIGH fq)))))"

subsection \<open>SYNC_RESP\<close>

definition is_private_destination_for_other_node :: "bytes \<Rightarrow> bytes \<Rightarrow> bool" where
  "is_private_destination_for_other_node destination requester \<longleftrightarrow>
    \<not> streq destination (lit ''ALL'') \<and> \<not> streq destination requester"

definition sync_wanted :: "mesh_packet_t \<Rightarrow> emergency_message_t \<Rightarrow> bool" where
  "sync_wanted request m \<longleftrightarrow>
    (streq (em_direction m) (lit ''RX'') \<or> streq (em_direction m) (lit ''TX'')) \<and>
    \<not> em_id m \<le> sync_cursor_for_source (mp_payload request) (mp_payload_len request) (em_source m) \<and>
    (streq (em_destination m) (lit ''ALL'') \<or> streq (em_destination m) (mp_source request)) \<and>
    \<not> is_private_destination_for_other_node (em_destination m) (mp_source request)"

text \<open>
  The inner loop: how many of the remaining records go into this batch, \<open>body_len\<close> being
  the size so far, and whether a record that can never fit is skipped.
\<close>

fun sync_batch :: "nat \<Rightarrow> nat \<Rightarrow> emergency_message_t list \<Rightarrow> nat \<times> bool" where
  "sync_batch batch_count body_len [] = (batch_count, False)"
| "sync_batch batch_count body_len (m # ms) =
    (let next_body_len = body_len + sync_response_record_encoded_size m in
     if batch_count + 1 > 255 then (batch_count, False)
     else if next_body_len > BEMS_MAX_PLAINTEXT \<or> next_body_len > PAYLOAD_LEN then (batch_count, batch_count = 0)
     else sync_batch (batch_count + 1) next_body_len ms)"

lemma sync_batch_count: "sync_batch n l ms = (k, skip) \<Longrightarrow> n \<le> k \<and> (n < 255 \<longrightarrow> ms \<noteq> [] \<longrightarrow> n < k \<or> k = n \<and> (n = 0 \<longrightarrow> skip))"
proof (induction n l ms rule: sync_batch.induct)
  case (2 n l m ms)
  then show ?case by (fastforce simp: Let_def split: if_splits)
qed simp

definition sync_frame :: "bytes \<Rightarrow> mesh_packet_t \<Rightarrow> u32 \<Rightarrow> emergency_message_t list \<Rightarrow> (bytes \<times> nat) option" where
  "sync_frame local_id request ident batch =
    (let packet = control_packet ident 3 local_id (mp_source request) (lit ''SYNC_RESP'') in
     case mesh_control_encode_sync_response_batch batch (zeros PAYLOAD_LEN) of
       None \<Rightarrow> None
     | Some (body, body_len) \<Rightarrow>
        build_forward_packet_v2 (packet\<lparr>mp_payload := blit (mp_payload packet) 0 (take body_len body), mp_payload_len := body_len\<rparr>)
          (zeros PACKET_LEN))"

lemma sync_batch_progress: "records \<noteq> [] \<Longrightarrow> (0, skip) = sync_batch 0 l records \<Longrightarrow> skip"
  by (metis sync_batch_count less_numeral_extra(3) zero_less_numeral)

function sync_response_loop ::
  "'n nvs_u32_api \<Rightarrow> bytes \<Rightarrow> mesh_packet_t \<Rightarrow> emergency_message_t list \<Rightarrow> 'n sequence_state \<Rightarrow>
   (bytes \<times> nat) list \<times> 'n sequence_state" where
  "sync_response_loop api local_id request records seq =
    (if records = [] then ([], seq)
     else (case mesh_sequence_next api seq of (ident, seq) \<Rightarrow>
       (case sync_batch 0 1 records of (batch_count, skip) \<Rightarrow>
         if batch_count = 0 then sync_response_loop api local_id request (if skip then drop 1 records else records) seq
         else (let (frames, seq) = sync_response_loop api local_id request (drop batch_count records) seq
               in ((case sync_frame local_id request ident (take batch_count records) of Some f \<Rightarrow> [f] | None \<Rightarrow> []) @ frames, seq)))))"
  by pat_completeness auto
termination
  by (relation "measure (\<lambda>(_, _, _, records, _). length records)") (auto dest: sync_batch_progress)

definition mesh_control_send_sync_responses ::
  "'n nvs_u32_api \<Rightarrow> bytes \<Rightarrow> 's store_state \<Rightarrow> mesh_packet_t \<Rightarrow> 'n sequence_state \<Rightarrow> (bytes \<times> nat) list \<times> 'n sequence_state" where
  "mesh_control_send_sync_responses api local_id store request seq =
    sync_response_loop api local_id request (filter (sync_wanted request) (message_store_copy_all MAX_MESSAGES store)) seq"

text \<open>
  The request queue in front of it; \<open>task_created\<close> is whether \<open>xTaskCreate\<close> leaves a
  handle.
\<close>

record 'q sync_queue_state =
  sync_response_queue :: "'q option"
  sync_response_task :: bool

definition mesh_control_enqueue_sync_response ::
  "(mesh_packet_t, 'q) queue_api \<Rightarrow> bool \<Rightarrow> mesh_packet_t \<Rightarrow> 'q sync_queue_state \<Rightarrow> 'q sync_queue_state" where
  "mesh_control_enqueue_sync_response queues task_created request st =
    (case (case sync_response_queue st of None \<Rightarrow> xQueueCreate queues | Some q \<Rightarrow> Some q) of
       None \<Rightarrow> st
     | Some q \<Rightarrow>
        (let st = st\<lparr>sync_response_queue := Some q, sync_response_task := sync_response_task st \<or> task_created\<rparr>
         in if sync_response_task st then st\<lparr>sync_response_queue := Some (snd (xQueueSend queues request q))\<rparr> else st))"

subsection \<open>The clock\<close>

text \<open>Every TIME_SYNC handled, with the ticks at which it was; what the clock went through.\<close>

fun time_run :: "(u32 \<times> u32 \<times> bytes) list \<Rightarrow> time_state \<Rightarrow> time_state list" where
  "time_run [] st = [st]"
| "time_run ((t1, t2, payload) # ps) st = st # time_run ps (snd (mesh_control_handle_time_sync_packet t1 t2 payload st))"

fun changes :: "'a list \<Rightarrow> nat" where
  "changes (a # b # xs) = (if a = b then 0 else 1) + changes (b # xs)"
| "changes xs = 0"

lemma handle_time_sync_cases:
  assumes "mesh_control_handle_time_sync_packet t1 t2 payload st = (b, st')"
  obtains (same) "st' = st"
  | (adopt) epoch dist where "b" "st' = mesh_control_apply_time_sync t2 epoch dist st" "1577836800 \<le> epoch" "epoch \<le> 4102444800"
      "time_synced st \<longrightarrow> dist < time_sync_distance st \<and>
         (let now = mesh_control_current_epoch_seconds t1 st in (if epoch > now then epoch - now else now - epoch) \<le> 86400)"
      "dist \<noteq> 255"
proof (cases "st' = st")
  case False
  let ?e = "time_sync_epoch_from_payload payload" and ?d = "time_sync_dist_from_payload payload"
  note defs = mesh_control_handle_time_sync_packet_def Let_def mesh_control_is_time_synced_def mesh_control_get_time_sync_distance_def
  have p: "?d \<noteq> 255" "1577836800 \<le> ?e" "?e \<le> 4102444800" using assms False by (auto simp: defs not_less split: if_splits)
  have a: "b" "st' = mesh_control_apply_time_sync t2 ?e ?d st" using assms False p by (auto simp: defs split: if_splits)
  have "time_synced st \<longrightarrow> ?d < time_sync_distance st \<and>
      (let now = mesh_control_current_epoch_seconds t1 st in (if ?e > now then ?e - now else now - ?e) \<le> 86400)"
    using assms False by (auto simp: defs not_less split: if_splits)
  with p a show thesis using adopt by blast
qed (rule same)

lemma current_epoch_applied: "mesh_control_current_epoch_seconds t (mesh_control_apply_time_sync t epoch dist st) = epoch"
  by (simp add: mesh_control_current_epoch_seconds_def mesh_control_apply_time_sync_def)

lemma time_run_head: "time_run ps st = st # tl (time_run ps st)"
  by (cases ps) auto

lemma time_run_changes:
  "time_synced st \<Longrightarrow> changes (time_run ps st) + unat (time_sync_distance (last (time_run ps st))) \<le> unat (time_sync_distance st) \<and>
     time_synced (last (time_run ps st))"
proof (induction ps arbitrary: st)
  case (Cons p ps)
  obtain t1 t2 payload where p: "p = (t1, t2, payload)" by (cases p)
  obtain b st' where h: "mesh_control_handle_time_sync_packet t1 t2 payload st = (b, st')" by fastforce
  have s: "time_synced st' \<and> (if st = st' then 0 else 1) + unat (time_sync_distance st') \<le> unat (time_sync_distance st)"
    using h
  proof (cases rule: handle_time_sync_cases)
    case (adopt epoch dist)
    then have "unat dist < unat (time_sync_distance st)" using Cons.prems by (simp add: word_less_nat_alt)
    then show ?thesis using adopt(2) by (auto simp: mesh_control_apply_time_sync_def)
  qed (use Cons.prems in simp)
  have "changes (time_run (p # ps) st) = (if st = st' then 0 else 1) + changes (time_run ps st')"
    using p h time_run_head [of ps st'] by (metis changes.simps(1) snd_conv time_run.simps(2))
  moreover have "last (time_run (p # ps) st) = last (time_run ps st')"
    using p h time_run_head [of ps st'] by (metis last_ConsR list.distinct(1) snd_conv time_run.simps(2))
  ultimately show ?case using Cons.IH [OF conjunct1 [OF s]] s by simp
qed simp

lemma time_run_changes_any: "changes (time_run ps st) \<le> 255"
proof (induction ps arbitrary: st)
  case (Cons p ps)
  obtain t1 t2 payload where p: "p = (t1, t2, payload)" by (cases p)
  obtain b st' where h: "mesh_control_handle_time_sync_packet t1 t2 payload st = (b, st')" by fastforce
  have c: "changes (time_run (p # ps) st) = (if st = st' then 0 else 1) + changes (time_run ps st')"
    using p h time_run_head [of ps st'] by (metis changes.simps(1) snd_conv time_run.simps(2))
  show ?case
    using h
  proof (cases rule: handle_time_sync_cases)
    case same
    then show ?thesis using c Cons.IH [of st'] by simp
  next
    case (adopt epoch dist)
    have s: "time_synced st'" "time_sync_distance st' = dist" using adopt(2) by (simp_all add: mesh_control_apply_time_sync_def)
    have "unat dist \<noteq> 255" using adopt(6) word_unat_eq_iff [of dist 255] by simp
    then have "unat dist \<le> 254" using unsigned_less [where ?'a = nat and w = dist] by simp
    then show ?thesis using c time_run_changes [OF s(1), of ps] s(2) by simp
  qed
qed simp

subsection \<open>What TIME_SYNC says\<close>

definition time_text :: "u32 \<Rightarrow> u8 \<Rightarrow> bytes" where
  "time_text epoch distance = lit ''epoch='' @ print_dec (unat epoch) @ lit ''~dist='' @ print_dec (unat distance)"

lemma strstr_after_first: "c \<notin> set a \<Longrightarrow> strstr_after (c # p) (a @ c # p @ r) = Some r"
  by (induction a) auto

lemma time_text_clean: "clean_str 64 (time_text epoch distance)" "0 \<notin> set (time_text epoch distance)"
proof -
  have l: "length (print_dec (unat epoch)) \<le> 10" "length (print_dec (unat distance)) \<le> 3"
    using unsigned_less [where ?'a = nat and w = epoch] unsigned_less [where ?'a = nat and w = distance]
    by (auto intro!: length_print_dec)
  have d: "list_all printable (print_dec n)" for n
    using print_dec_digits [of n] by (auto simp: list_all_iff printable_def isdigit_def word_le_nat_alt)
  have t: "list_all printable (lit ''epoch='')" "list_all printable (lit ''~dist='')" "length (lit ''epoch='') = 6" "length (lit ''~dist='') = 6"
    by code_simp+
  have "length (time_text epoch distance) < 64" using l t(3,4) by (simp add: time_text_def)
  moreover have "list_all printable (time_text epoch distance)" by (simp only: time_text_def list_all_append d t simp_thms)
  ultimately show c: "clean_str 64 (time_text epoch distance)" by (simp add: clean_str_def)
  show "0 \<notin> set (time_text epoch distance)" by (rule clean_str_nonzero [OF c])
qed

lemma cstr_drop: "k \<le> length (cstr b) \<Longrightarrow> cstr (drop k b) = drop k (cstr b)"
proof (induction k arbitrary: b)
  case (Suc k)
  then obtain x c where "b = x # c" "x \<noteq> 0" by (cases b) (auto simp: cstr_def split: if_splits)
  then show ?case using Suc by (simp add: cstr_def)
qed simp

lemma strtoul_cstr: "cstr s = cstr t \<Longrightarrow> strtoul s = strtoul t"
  by (simp only: strtoul_def)

lemma time_text_parsed:
  assumes "cstr b = time_text epoch distance"
  shows "time_sync_epoch_from_payload b = epoch" "time_sync_dist_from_payload b = distance"
proof -
  have f: "length (lit ''epoch='') = 6" "cstr (lit ''epoch='') = lit ''epoch=''" "lit ''~dist='' = 126 # lit ''dist=''" "126 \<notin> set (lit ''epoch='')"
    by code_simp+
  let ?r = "lit ''~dist='' @ print_dec (unat distance)"
  have z: "0 \<notin> set ?r" "0 \<notin> set (print_dec (unat epoch) @ ?r)" using time_text_clean(2) [of epoch distance] by (auto simp: time_text_def)
  have "6 \<le> length (cstr b)" using assms f(1) by (simp add: time_text_def)
  from cstr_drop [OF this] have "cstr (drop 6 b) = print_dec (unat epoch) @ ?r" using assms f(1) by (simp add: time_text_def)
  then have "strtoul (drop 6 b) = strtoul (print_dec (unat epoch) @ ?r)" using z(2) by (intro strtoul_cstr) simp
  also have "\<dots> = (of_nat (unat epoch), ?r, False)"
    using unsigned_less [where ?'a = nat and w = epoch] z(1) by (intro strtoul_print_dec) (simp_all add: f(3) isdigit_def)
  finally show "time_sync_epoch_from_payload b = epoch"
    using assms f(1,2) by (simp add: time_sync_epoch_from_payload_def strneq_def time_text_def)
  have n: "126 \<notin> set (lit ''epoch='' @ print_dec (unat epoch))"
    using f(4) print_dec_digits [of "unat epoch"] by (auto simp: isdigit_def)
  have s: "strstr_after (lit ''~dist='') (cstr b) = Some (print_dec (unat distance))"
    using strstr_after_first [OF n, of "lit ''dist=''" "print_dec (unat distance)"] assms by (simp add: time_text_def f(3))
  have d: "strtoul (print_dec (unat distance)) = (of_nat (unat distance), [], False)"
    using strtoul_print_dec [of "unat distance" "[]"] unsigned_less [where ?'a = nat and w = distance] by simp
  have "unat (ucast distance :: u32) = unat distance" by (simp add: unsigned_ucast_eq take_bit_nat_eq_self less_le_trans [OF unsigned_less])
  then have g: "\<not> (ucast distance :: u32) > 255"
    using unsigned_less [where ?'a = nat and w = distance] by (simp add: word_less_nat_alt)
  have "(of_nat (unat distance) :: u32) = ucast distance" by (rule of_nat_unat)
  then show "time_sync_dist_from_payload b = distance"
    using s d g by (simp add: time_sync_dist_from_payload_def ucast_u8_u32 print_dec_not_Nil [symmetric])
qed

text \<open>
  The mesh clock cannot be driven around: whatever TIME_SYNC packets arrive, the clock
  changes at most 255 times; each change takes an epoch between the years 2020 and 2100, and
  once the node is synchronised only from a source of strictly smaller distance and by at
  most a day.
\<close>

theorem clock_changes_bounded:
  "changes (time_run ps st) \<le> 255 \<and>
   (\<forall>t1 t2 payload. \<forall>st'. snd (mesh_control_handle_time_sync_packet t1 t2 payload st) = st' \<longrightarrow> st' \<noteq> st \<longrightarrow>
      time_synced st' \<and> 1577836800 \<le> mesh_control_current_epoch_seconds t2 st' \<and>
      mesh_control_current_epoch_seconds t2 st' \<le> 4102444800 \<and>
      (time_synced st \<longrightarrow> time_sync_distance st' < time_sync_distance st \<and>
         \<bar>uint (mesh_control_current_epoch_seconds t2 st') - uint (mesh_control_current_epoch_seconds t1 st)\<bar> \<le> 86400))"
proof (intro conjI allI impI time_run_changes_any)
  fix t1 t2 payload st'
  assume h: "snd (mesh_control_handle_time_sync_packet t1 t2 payload st) = st'" "st' \<noteq> st"
  then have h': "mesh_control_handle_time_sync_packet t1 t2 payload st =
      (fst (mesh_control_handle_time_sync_packet t1 t2 payload st), st')" by (metis prod.collapse)
  have *: "time_synced st' \<and> 1577836800 \<le> mesh_control_current_epoch_seconds t2 st' \<and>
      mesh_control_current_epoch_seconds t2 st' \<le> 4102444800 \<and>
      (time_synced st \<longrightarrow> time_sync_distance st' < time_sync_distance st \<and>
         \<bar>uint (mesh_control_current_epoch_seconds t2 st') - uint (mesh_control_current_epoch_seconds t1 st)\<bar> \<le> 86400)"
    using h'
  proof (cases rule: handle_time_sync_cases)
    case (adopt epoch dist)
    let ?n = "mesh_control_current_epoch_seconds t1 st"
    have s: "time_synced st'" "time_sync_distance st' = dist" using adopt(2) by (simp_all add: mesh_control_apply_time_sync_def)
    have "\<bar>uint epoch - uint ?n\<bar> \<le> 86400" if "(if epoch > ?n then epoch - ?n else ?n - epoch) \<le> 86400"
    proof -
      have u: "uint ((if epoch > ?n then epoch - ?n else ?n - epoch)) \<le> 86400" using that by (simp add: word_le_def)
      then show ?thesis
        by (cases "epoch > ?n") (simp_all add: word_less_def uint_sub_if' not_less split: if_splits)
    qed
    then show ?thesis using adopt(3-5) s current_epoch_applied [of t2 epoch dist st] adopt(2) by (simp add: Let_def)
  qed (use h in simp)
  show "time_synced st'" "1577836800 \<le> mesh_control_current_epoch_seconds t2 st'"
    "mesh_control_current_epoch_seconds t2 st' \<le> 4102444800" using * by auto
  show "time_sync_distance st' < time_sync_distance st"
    "\<bar>uint (mesh_control_current_epoch_seconds t2 st') - uint (mesh_control_current_epoch_seconds t1 st)\<bar> \<le> 86400"
    if "time_synced st" using * that by auto
qed

theorem clock_changes_bounded_witness:
  "changes (time_run [(100, 100, time_text 1700000000 3)] time_start) \<le> 255 \<and>
   mesh_control_current_epoch_seconds 100 (snd (mesh_control_handle_time_sync_packet 100 100 (time_text 1700000000 3) time_start)) \<le> 4102444800"
proof -
  let ?s = "snd (mesh_control_handle_time_sync_packet 100 100 (time_text 1700000000 3) time_start)"
  have "cstr (time_text 1700000000 3) = time_text 1700000000 3" by (rule clean_str_cstr [OF time_text_clean(1)])
  from time_text_parsed [OF this] have "time_synced ?s"
    by (simp add: mesh_control_handle_time_sync_packet_def mesh_control_is_time_synced_def time_start_def mesh_control_apply_time_sync_def)
  then have "?s \<noteq> time_start" by (auto simp: time_start_def)
  then show ?thesis using clock_changes_bounded [of "[(100, 100, time_text 1700000000 3)]" time_start] by blast
qed

subsection \<open>Control packets on the air\<close>

lemma control_packet_simps [simp]:
  "mp_id (control_packet i h l d t) = i" "mp_hops (control_packet i h l d t) = h" "mp_payload_len (control_packet i h l d t) = 0"
  "mp_source (control_packet i h l d t) = copy_field (zeros 32) l" "mp_destination (control_packet i h l d t) = copy_field (zeros 32) d"
  "mp_type (control_packet i h l d t) = copy_field (zeros 32) t" "mp_payload (control_packet i h l d t) = zeros 140"
  "mp_broadcast_destination (control_packet i h l d t) = False" "mp_relay (control_packet i h l d t) = copy_field (zeros 32) l"
  by (simp_all add: control_packet_def mesh_packet_zero_def Let_def)

lemma wf_control_packet: "wf_packet (control_packet i h l d t)"
  by (simp add: wf_packet_def control_packet_def mesh_packet_zero_def Let_def wf_location_def location_zero_def)

lemma control_payload_text:
  assumes "0 \<notin> set x" "length x < 140"
  shows "wf_packet ((control_packet i h l d t)\<lparr>mp_payload := pad 140 x\<rparr>)"
    "payload_bytes ((control_packet i h l d t)\<lparr>mp_payload := pad 140 x\<rparr>) = x"
  using assms wf_control_packet [of i h l d t] by (simp_all add: wf_packet_def field_def cstr_pad payload_bytes_def)

lemma control_payload_bytes:
  assumes "0 < length x" "length x < 140"
  shows "wf_packet ((control_packet i h l d t)\<lparr>mp_payload := pad 140 x, mp_payload_len := length x\<rparr>)"
    "payload_bytes ((control_packet i h l d t)\<lparr>mp_payload := pad 140 x, mp_payload_len := length x\<rparr>) = x"
proof -
  have "length (cstr (pad 140 x)) \<le> length x"
    using assms(2) by (cases "140 - length x") (auto simp: pad_def cstr_def zeros_def takeWhile_append split: if_splits intro: length_takeWhile_le)
  then show "wf_packet ((control_packet i h l d t)\<lparr>mp_payload := pad 140 x, mp_payload_len := length x\<rparr>)"
    using assms wf_control_packet [of i h l d t] by (simp add: wf_packet_def field_def)
  show "payload_bytes ((control_packet i h l d t)\<lparr>mp_payload := pad 140 x, mp_payload_len := length x\<rparr>) = x"
    using assms by (simp add: payload_bytes_def pad_def)
qed

text \<open>
  The time a node broadcasts is the time its neighbours read: the frame of
  \<open>mesh_control_send_time_sync_packet\<close> parses to a TIME_SYNC packet for all nodes, from which
  the handler extracts exactly the epoch and the distance that were sent.
\<close>

theorem time_sync_roundtrip:
  assumes "mesh_control_send_time_sync_packet api local_id epoch distance hops seq = (Some (frame, n), seq')"
  shows "\<exists>q. parse_mesh_packet_v2 (take n frame) = Some q \<and> streq (mp_type q) (lit ''TIME_SYNC'') \<and>
    streq (mp_destination q) (lit ''ALL'') \<and> mp_hops q = uint hops \<and> time_sync_epoch_from_payload (mp_payload q) = epoch \<and>
    time_sync_dist_from_payload (mp_payload q) = distance"
proof -
  let ?t = "time_text epoch distance"
  obtain i where b: "build_forward_packet_v2 ((control_packet i (uint hops) local_id (lit ''ALL'') (lit ''TIME_SYNC''))
      \<lparr>mp_payload := copy_field (zeros 140) (snprintf (zeros 64) ?t)\<rparr>) (zeros 320) = Some (frame, n)"
    using assms by (auto simp: mesh_control_send_time_sync_packet_def Let_def time_text_def split: prod.splits)
  have c: "cstr (snprintf (zeros 64) ?t) = ?t"
    using cstr_snprintf [OF time_text_clean(2), of "zeros 64" epoch distance] time_text_clean(1) [of epoch distance]
    by (simp add: clean_str_def)
  have "copied 140 (snprintf (zeros 64) ?t) = ?t"
    using time_text_clean(1) [of epoch distance] c by (subst copied_id) (auto simp: clean_str_def)
  then have f: "copy_field (zeros 140) (snprintf (zeros 64) ?t) = pad 140 ?t" by (simp add: copy_field_zeros pad_def)
  let ?p = "(control_packet i (uint hops) local_id (lit ''ALL'') (lit ''TIME_SYNC''))\<lparr>mp_payload := pad 140 ?t\<rparr>"
  have l: "length ?t < 140" using time_text_clean(1) [of epoch distance] by (simp add: clean_str_def)
  note w = control_payload_text [OF time_text_clean(2) l]
  have a: "streq (copy_field (zeros 32) (lit ''ALL'')) (lit ''ALL'')" by code_simp
  then have br: "broadcast ?p" by (simp add: broadcast_def)
  have "parse_mesh_packet_v2 (take n frame) = Some (v2_normal ?p)"
    using parse_built_v2 [OF w(1) disjI1 [OF br] b [unfolded f]] .
  moreover have "streq (copy_field (zeros 32) (type_from_u8 (type_to_u8 (copy_field (zeros 32) (lit ''TIME_SYNC''))))) (lit ''TIME_SYNC'')"
    by code_simp
  moreover have "uint (hop_byte (uint hops)) = uint hops" using unsigned_less [where ?'a = int and w = hops] by (intro hop_byte_id) auto
  moreover have "cstr (pad 140 ?t) = ?t" using time_text_clean(2) by (simp add: cstr_pad)
  ultimately show ?thesis using br a w(2) time_text_parsed by auto
qed

definition sample_seq :: "u32 option sequence_state" where
  "sample_seq = \<lparr>sequence_counter = 0, sequence_loaded = False, cfg_flash = None\<rparr>"

theorem time_sync_roundtrip_witness:
  "\<exists>frame n seq' q. mesh_control_send_time_sync_packet cell_nvs (lit ''A'') 5 1 2 sample_seq = (Some (frame, n), seq') \<and>
     parse_mesh_packet_v2 (take n frame) = Some q \<and> time_sync_epoch_from_payload (mp_payload q) = 5"
proof -
  define p where "p = (control_packet 1 2 (lit ''A'') (lit ''ALL'') (lit ''TIME_SYNC''))
      \<lparr>mp_payload := copy_field (zeros 140) (snprintf (zeros 64) (lit ''epoch='' @ print_dec (unat (5 :: u32)) @ lit ''~dist='' @ print_dec (unat (1 :: u8))))\<rparr>"
  have w: "wf_packet p" using wf_control_packet [of 1 2 "lit ''A''" "lit ''ALL''" "lit ''TIME_SYNC''"] by (simp add: p_def wf_packet_def)
  have "\<not> str_empty (mp_source p) \<and> \<not> str_empty (mp_relay p) \<and> length (v2_wire p (v2_layout_of p)) \<le> BEMS_MAX_PLAINTEXT"
    unfolding p_def by code_simp
  then obtain frame n where b: "build_forward_packet_v2 p (zeros 320) = Some (frame, n)"
    by (simp add: build_forward_packet_v2_eq [OF w] BEMS_MAX_PLAINTEXT_def)
  then have "mesh_control_send_time_sync_packet cell_nvs (lit ''A'') 5 1 2 sample_seq =
      (Some (frame, n), snd (mesh_control_send_time_sync_packet cell_nvs (lit ''A'') 5 1 2 sample_seq))"
    by (simp add: mesh_control_send_time_sync_packet_def mesh_sequence_next_def sequence_load_impl_def sample_seq_def cell_nvs_def
        Let_def p_def)
  from this time_sync_roundtrip [OF this] show ?thesis by blast
qed

text \<open>The frames that carry a batch.\<close>

lemma full_batch_refused:
  "build_forward_packet_v2 (p\<lparr>mp_payload := b, mp_payload_len := 140\<rparr>) stack = None" if "length b = 140"
  using that by (simp add: build_forward_packet_v2_def v2_plan_def require_def Let_def)

lemma sync_frame_decodes:
  assumes "sync_frame local_id request ident batch = Some (frame, n)" "\<not> str_empty (copy_field (zeros 32) (mp_source request))"
  shows "\<exists>q. parse_mesh_packet_v2 (take n frame) = Some q \<and> streq (mp_type q) (lit ''SYNC_RESP'') \<and>
    (\<forall>k. mesh_control_decode_sync_response_records (mp_payload q) (mp_payload_len q) k =
      (if length batch \<le> k \<and> (\<forall>m\<in>set batch. syncable m) then map synced_packet batch else []))"
proof -
  let ?w = "batch_wire batch"
  let ?c = "control_packet ident 3 local_id (mp_source request) (lit ''SYNC_RESP'')"
  have e: "\<forall>m\<in>set batch. sync_response_record_fits m" "length batch \<le> 255" "length ?w \<le> 140"
    "build_forward_packet_v2 (?c\<lparr>mp_payload := blit (zeros 140) 0 ?w, mp_payload_len := length ?w\<rparr>) (zeros 320) = Some (frame, n)"
    using assms(1) by (auto simp: sync_frame_def Let_def encode_batch_eq take_blit0 split: if_splits)
  have "length ?w \<noteq> 140"
  proof
    assume "length ?w = 140"
    then show False using e(4) full_batch_refused [of "blit (zeros 140) 0 ?w" ?c "zeros 320"] by (simp add: blit_def)
  qed
  then have l: "length ?w < 140" "0 < length ?w" using e(3) by (simp_all add: batch_wire_def)
  have f: "blit (zeros 140) 0 ?w = pad 140 ?w" using l(1) by (simp add: blit_def pad_def zeros_def)
  note c = control_payload_bytes [OF l(2,1), of ident 3 local_id "mp_source request" "lit ''SYNC_RESP''"]
  let ?p = "?c\<lparr>mp_payload := pad 140 ?w, mp_payload_len := length ?w\<rparr>"
  have "parse_mesh_packet_v2 (take n frame) = Some (v2_normal ?p)"
    by (rule parse_built_v2 [OF c(1) disjI2 e(4) [unfolded f]]) (use assms(2) in simp)
  moreover have "streq (copy_field (zeros 32) (type_from_u8 (type_to_u8 (copy_field (zeros 32) (lit ''SYNC_RESP''))))) (lit ''SYNC_RESP'')"
    by code_simp
  moreover have "mesh_control_decode_sync_response_records (pad 140 ?w) (length ?w) k =
      (if length batch \<le> k \<and> (\<forall>m\<in>set batch. syncable m) then map synced_packet batch else [])" for k
    using decode_batch_wire [OF e(1,2)] by (simp add: pad_def)
  ultimately show ?thesis using c(2) by auto
qed

lemma sync_response_loop_frames:
  assumes "sync_response_loop api local_id request records seq = (frames, seq')" "(frame, n) \<in> set frames"
  shows "\<exists>ident batch. batch \<noteq> [] \<and> set batch \<subseteq> set records \<and> sync_frame local_id request ident batch = Some (frame, n)"
  using assms
proof (induction api local_id request records seq arbitrary: frames seq' rule: sync_response_loop.induct)
  case (1 api local_id request records seq)
  have r: "records \<noteq> []" using "1.prems" by (auto simp: sync_response_loop.simps [of api local_id request records seq])
  obtain ident s1 where s1: "mesh_sequence_next api seq = (ident, s1)" by fastforce
  obtain k skip where b: "sync_batch 0 1 records = (k, skip)" by fastforce
  show ?case
  proof (cases "k = 0")
    case True
    then have l: "sync_response_loop api local_id request (if skip then drop 1 records else records) s1 = (frames, seq')"
      using "1.prems"(1) r s1 b by (simp add: sync_response_loop.simps [of api local_id request records seq])
    from "1.IH"(1) [OF r s1 [symmetric] b [symmetric] True l "1.prems"(2)] show ?thesis by (auto dest: in_set_dropD split: if_splits)
  next
    case False
    obtain fs s2 where l: "sync_response_loop api local_id request (drop k records) s1 = (fs, s2)" by fastforce
    then have f: "frames = (case sync_frame local_id request ident (take k records) of Some f \<Rightarrow> [f] | None \<Rightarrow> []) @ fs"
      using "1.prems"(1) r s1 b False by (simp add: sync_response_loop.simps [of api local_id request records seq])
    show ?thesis
    proof (cases "(frame, n) \<in> set fs")
      case True
      from "1.IH"(2) [OF r s1 [symmetric] b [symmetric] False l True] show ?thesis by (auto dest: in_set_dropD)
    next
      case head: False
      then have "sync_frame local_id request ident (take k records) = Some (frame, n)"
        using f "1.prems"(2) by (auto split: option.splits)
      then show ?thesis using r False by (intro exI [of _ ident] exI [of _ "take k records"]) (auto dest: in_set_takeD)
    qed
  qed
qed

text \<open>
  C40. Synchronisation is private: every frame a node transmits in answer to a SYNC_REQ of a
  named requester parses to a SYNC_RESP that carries messages of its own store, addressed to
  everyone or to the requester and newer than the requester's cursor for their source. The
  requester decodes exactly these, field by field, if it has room and every one has a source,
  destination, type and priority, and nothing of the frame otherwise.
\<close>

theorem sync_responses_private:
  assumes "mesh_control_send_sync_responses api local_id store request seq = (frames, seq')" "(frame, n) \<in> set frames"
    "\<not> str_empty (copy_field (zeros 32) (mp_source request))"
  shows "\<exists>q batch. parse_mesh_packet_v2 (take n frame) = Some q \<and> streq (mp_type q) (lit ''SYNC_RESP'') \<and> batch \<noteq> [] \<and>
    (\<forall>k. mesh_control_decode_sync_response_records (mp_payload q) (mp_payload_len q) k =
      (if length batch \<le> k \<and> (\<forall>m\<in>set batch. syncable m) then map synced_packet batch else [])) \<and>
    (\<forall>m\<in>set batch. m \<in> set (message_store_copy_all MAX_MESSAGES store) \<and>
       (streq (em_destination m) (lit ''ALL'') \<or> streq (em_destination m) (mp_source request)) \<and>
       sync_cursor_for_source (mp_payload request) (mp_payload_len request) (em_source m) < em_id m)"
proof -
  obtain ident batch where b: "batch \<noteq> []" "set batch \<subseteq> set (filter (sync_wanted request) (message_store_copy_all MAX_MESSAGES store))"
    "sync_frame local_id request ident batch = Some (frame, n)"
    using sync_response_loop_frames [OF assms(1) [unfolded mesh_control_send_sync_responses_def] assms(2)] by blast
  then have "\<forall>m\<in>set batch. m \<in> set (message_store_copy_all MAX_MESSAGES store) \<and>
       (streq (em_destination m) (lit ''ALL'') \<or> streq (em_destination m) (mp_source request)) \<and>
       sync_cursor_for_source (mp_payload request) (mp_payload_len request) (em_source m) < em_id m"
    by (auto simp: sync_wanted_def not_le)
  with sync_frame_decodes [OF b(3) assms(3)] b(1) show ?thesis by blast
qed

definition sync_stored :: emergency_message_t where
  "sync_stored = sync_sample\<lparr>em_direction := pad 8 (lit ''RX'')\<rparr>"

definition sync_store :: "unit store_state" where
  "sync_store = \<lparr>persisted_slots = [persisted_message_zero\<lparr>pm_state := 5, pm_message := sync_stored\<rparr>],
     reserved_slots = [], active_count = 1, flash = ()\<rparr>"

definition sync_asker :: mesh_packet_t where
  "sync_asker = mesh_packet_zero\<lparr>mp_source := pad 32 (lit ''B'')\<rparr>"

theorem sync_responses_private_witness:
  "\<exists>frame n q. fst (mesh_control_send_sync_responses cell_nvs (lit ''A'') sync_store sync_asker sample_seq) = [(frame, n)] \<and>
     parse_mesh_packet_v2 (take n frame) = Some q \<and> streq (mp_type q) (lit ''SYNC_RESP'')"
proof -
  have m: "syncable sync_stored" "sync_wanted sync_asker sync_stored" "sync_batch 0 1 [sync_stored] = (1, False)"
    "\<not> str_empty (copy_field (zeros 32) (mp_source sync_asker))" "sync_response_record_fits sync_stored" by code_simp+
  have c: "message_store_copy_all 16 sync_store = [sync_stored]"
    by (simp add: message_store_copy_all_def sync_store_def)
  define p where "p = (control_packet 1 3 (lit ''A'') (mp_source sync_asker) (lit ''SYNC_RESP''))
    \<lparr>mp_payload := pad 140 (batch_wire [sync_stored]), mp_payload_len := length (batch_wire [sync_stored])\<rparr>"
  have l: "length (batch_wire [sync_stored]) < 140" "0 < length (batch_wire [sync_stored])" by code_simp+
  have w: "wf_packet p" unfolding p_def by (rule control_payload_bytes(1) [OF l(2,1)])
  have "\<not> str_empty (mp_source p) \<and> \<not> str_empty (mp_relay p) \<and> length (v2_wire p (v2_layout_of p)) \<le> BEMS_MAX_PLAINTEXT"
    unfolding p_def by code_simp
  then obtain frame n where b: "build_forward_packet_v2 p (zeros 320) = Some (frame, n)"
    by (simp add: build_forward_packet_v2_eq [OF w] BEMS_MAX_PLAINTEXT_def)
  have "blit (zeros 140) 0 (batch_wire [sync_stored]) = pad 140 (batch_wire [sync_stored])"
    using l(1) by (simp add: blit_def pad_def zeros_def)
  moreover have "take (length (batch_wire [sync_stored])) (pad 140 (batch_wire [sync_stored])) = batch_wire [sync_stored]"
    by (simp add: pad_def)
  ultimately have f: "sync_frame (lit ''A'') sync_asker 1 [sync_stored] = Some (frame, n)"
    using b l m(5) by (simp add: sync_frame_def encode_batch_eq take_blit0 p_def)
  have "mesh_sequence_next cell_nvs sample_seq = (1, snd (mesh_sequence_next cell_nvs sample_seq))"
    by (simp add: mesh_sequence_next_def sequence_load_impl_def sample_seq_def cell_nvs_def Let_def)
  then have r: "fst (mesh_control_send_sync_responses cell_nvs (lit ''A'') sync_store sync_asker sample_seq) = [(frame, n)]"
    using c m f by (auto simp: mesh_control_send_sync_responses_def sync_response_loop.simps split: prod.splits)
  then have "mesh_control_send_sync_responses cell_nvs (lit ''A'') sync_store sync_asker sample_seq =
      ([(frame, n)], snd (mesh_control_send_sync_responses cell_nvs (lit ''A'') sync_store sync_asker sample_seq))" by (simp add: prod_eq_iff)
  from sync_responses_private [OF this, of frame n] m c r show ?thesis by auto
qed

end
