(* ===== verification/Index_List.thy ===== *)
theory Index_List
  imports BMesh_Prelude
begin

text \<open>
  Singly linked lists inside an array: a link is an index into the array or -1 at the end, as
  the \<open>int16_t next\<close> fields of the firmware. \<open>chain_of f h A\<close> says that the
  list from the head \<open>h\<close> along the links \<open>f\<close> ends and has exactly the
  elements \<open>A\<close>.
\<close>

fun linked :: "(nat \<Rightarrow> int) \<Rightarrow> int \<Rightarrow> nat list \<Rightarrow> bool" where
  "linked f h [] \<longleftrightarrow> h = -1"
| "linked f h (i # xs) \<longleftrightarrow> h = int i \<and> linked f (f i) xs"

definition chain_of :: "(nat \<Rightarrow> int) \<Rightarrow> int \<Rightarrow> nat set \<Rightarrow> bool" where
  "chain_of f h A \<longleftrightarrow> (\<exists>xs. linked f h xs \<and> set xs = A)"

lemma linked_unique: "linked f h xs \<Longrightarrow> linked f h ys \<Longrightarrow> xs = ys"
proof (induction xs arbitrary: h ys)
  case Nil
  then show ?case by (cases ys) auto
next
  case (Cons x xs)
  then show ?case by (cases ys) auto
qed

lemma linked_append: "linked f h (xs @ y # ys) \<Longrightarrow> linked f (int y) (y # ys)"
  by (induction xs arbitrary: h) auto

lemma linked_distinct: "linked f h xs \<Longrightarrow> distinct xs"
proof (induction xs arbitrary: h)
  case (Cons x xs)
  have "x \<notin> set xs"
  proof
    assume "x \<in> set xs"
    then obtain us vs where xs: "xs = us @ x # vs" by (auto simp: in_set_conv_decomp)
    have "linked f (f x) xs" using Cons.prems by simp
    then have "linked f (int x) (x # vs)" unfolding xs by (rule linked_append)
    with Cons.prems have "x # xs = x # vs" by (intro linked_unique) auto
    then show False using xs by (metis append_eq_append_conv2 append_self_conv2 length_Cons length_append list.inject
          add_Suc_right add_eq_self_zero nat.distinct(1) Suc_n_not_le_n add.commute le_add1)
  qed
  then show ?case using Cons by auto
qed simp

lemma linked_cong: "(\<And>i. i \<in> set xs \<Longrightarrow> f i = g i) \<Longrightarrow> linked f h xs = linked g h xs"
  by (induction xs arbitrary: h) auto

lemma chain_of_cong: "chain_of f h A \<Longrightarrow> (\<And>i. i \<in> A \<Longrightarrow> f i = g i) \<Longrightarrow> chain_of g h A"
  unfolding chain_of_def using linked_cong [of _ f g h] by blast

lemma chain_of_end [simp]: "chain_of f (-1) A \<longleftrightarrow> A = {}"
proof -
  have "linked f (-1) xs \<longleftrightarrow> xs = []" for xs by (cases xs) auto
  then show ?thesis by (auto simp: chain_of_def)
qed

lemma chain_of_empty [simp]: "chain_of f h {} \<longleftrightarrow> h = -1"
  by (auto simp: chain_of_def)

lemma chain_of_head: "chain_of f h A \<Longrightarrow> h = -1 \<and> A = {} \<or> (\<exists>i\<in>A. h = int i \<and> chain_of f (f i) (A - {i}))"
proof -
  assume "chain_of f h A"
  then obtain xs where xs: "linked f h xs" "set xs = A" by (auto simp: chain_of_def)
  show ?thesis
  proof (cases xs)
    case (Cons i ys)
    then have "set ys = A - {i}" using linked_distinct [OF xs(1)] xs(2) by auto
    then show ?thesis using Cons xs by (auto simp: chain_of_def)
  qed (use xs in auto)
qed

lemma chain_of_insert:
  assumes "chain_of f h A" "i \<notin> A" "g i = h" "\<And>j. j \<in> A \<Longrightarrow> g j = f j"
  shows "chain_of g (int i) (insert i A)"
proof -
  obtain xs where "linked f h xs" "set xs = A" using assms(1) by (auto simp: chain_of_def)
  then have "linked g (int i) (i # xs)" "set (i # xs) = insert i A"
    using assms(3,4) linked_cong [of xs g f h] by auto
  then show ?thesis unfolding chain_of_def by blast
qed

subsection \<open>A segment under construction\<close>

fun path :: "(nat \<Rightarrow> int) \<Rightarrow> nat list \<Rightarrow> bool" where
  "path f (x # y # zs) \<longleftrightarrow> f x = int y \<and> path f (y # zs)"
| "path f _ \<longleftrightarrow> True"

lemma path_snoc: "rs \<noteq> [] \<Longrightarrow> path f (rs @ [x]) \<longleftrightarrow> path f rs \<and> f (last rs) = int x"
  by (induction f rs rule: path.induct) auto

lemma path_cong: "(\<And>i. i \<in> set (butlast rs) \<Longrightarrow> f i = g i) \<Longrightarrow> path f rs = path g rs"
  by (induction f rs rule: path.induct) auto

lemma path_linked: "rs \<noteq> [] \<Longrightarrow> path f rs \<Longrightarrow> f (last rs) = -1 \<Longrightarrow> linked f (int (hd rs)) rs"
  by (induction f rs rule: path.induct) auto

end
