(* ===== verification/Dedup.thy ===== *)
theory Dedup
  imports Index_List String_Utils
begin

text \<open>
  The duplicate filter of \<open>src/mesh_protocol.c\<close>: 256 entries in one array, each in a hash
  chain, an expiry list (one per second of the last minute) and, when free, the free list, all
  threaded through the entries. The loops follow the links and end only if the links do, so
  they are partial: None is a call that never returns (with the mutex held). The file's mutex
  makes each call atomic. Clock readings are arguments.
\<close>

abbreviation MAX_SEEN_PACKETS :: nat where "MAX_SEEN_PACKETS \<equiv> 256"
abbreviation MAX_SEEN_BUCKETS :: nat where "MAX_SEEN_BUCKETS \<equiv> 64"
abbreviation DEDUP_EXPIRY_BUCKET_COUNT :: nat where "DEDUP_EXPIRY_BUCKET_COUNT \<equiv> 60"
abbreviation SEEN_PACKET_TTL_MS :: u32 where "SEEN_PACKET_TTL_MS \<equiv> 60000"
abbreviation DEDUP_EXPIRY_BUCKET_MS :: u32 where "DEDUP_EXPIRY_BUCKET_MS \<equiv> 1000"

record seen_packet_t =
  sp_id :: u32
  sp_seen_ms :: u32
  sp_source :: bytes
  sp_next_hash :: int
  sp_next_expiry :: int
  sp_expiry_bucket :: u8
  sp_active :: bool

record dedup_state =
  seen_packets :: "seen_packet_t list"
  hash_buckets :: "int list"
  expiry_wheel :: "int list"
  free_list_head :: int
  last_expiry_bucket :: u32
  dedup_initialized :: bool

text \<open>The static variables before the first call.\<close>

definition seen_packet_zero :: seen_packet_t where
  "seen_packet_zero = \<lparr>sp_id = 0, sp_seen_ms = 0, sp_source = zeros 32, sp_next_hash = 0, sp_next_expiry = 0,
     sp_expiry_bucket = 0, sp_active = False\<rparr>"

definition dedup_zero :: dedup_state where
  "dedup_zero = \<lparr>seen_packets = replicate MAX_SEEN_PACKETS seen_packet_zero, hash_buckets = replicate MAX_SEEN_BUCKETS 0,
     expiry_wheel = replicate DEDUP_EXPIRY_BUCKET_COUNT 0, free_list_head = 0, last_expiry_bucket = 0,
     dedup_initialized = False\<rparr>"

definition seen_hash :: "bytes \<Rightarrow> u32 \<Rightarrow> u32" where
  "seen_hash source ident =
    (let hash = foldl (\<lambda>hash c. (hash XOR ucast c) * 16777619) 2166136261 (cstr source);
         hash = (hash XOR ident) * 16777619
     in (hash XOR drop_bit 16 ident) * 16777619)"

definition seen_bucket_index :: "bytes \<Rightarrow> u32 \<Rightarrow> nat" where
  "seen_bucket_index source ident = unat (seen_hash source ident mod 64)"

definition seen_entry_matches :: "seen_packet_t \<Rightarrow> bytes \<Rightarrow> u32 \<Rightarrow> bool" where
  "seen_entry_matches e source ident \<longleftrightarrow> sp_id e = ident \<and> streq (sp_source e) source"

definition put_seen :: "nat \<Rightarrow> (seen_packet_t \<Rightarrow> seen_packet_t) \<Rightarrow> dedup_state \<Rightarrow> dedup_state" where
  "put_seen i f s = s\<lparr>seen_packets := (seen_packets s)[i := f (seen_packets s ! i)]\<rparr>"

subsection \<open>The hash chains\<close>

text \<open>\<open>int16_t *cursor\<close> points to a bucket or to a link.\<close>

datatype hash_cursor = Bucket nat | Next_Hash nat

fun cursor_get :: "hash_cursor \<Rightarrow> dedup_state \<Rightarrow> int" where
  "cursor_get (Bucket b) s = hash_buckets s ! b"
| "cursor_get (Next_Hash i) s = sp_next_hash (seen_packets s ! i)"

fun cursor_put :: "hash_cursor \<Rightarrow> int \<Rightarrow> dedup_state \<Rightarrow> dedup_state" where
  "cursor_put (Bucket b) v s = s\<lparr>hash_buckets := (hash_buckets s)[b := v]\<rparr>"
| "cursor_put (Next_Hash i) v s = put_seen i (\<lambda>e. e\<lparr>sp_next_hash := v\<rparr>) s"

partial_function (option) hash_unlink :: "int \<Rightarrow> hash_cursor \<Rightarrow> dedup_state \<Rightarrow> dedup_state option" where
  "hash_unlink index cursor s =
    (if cursor_get cursor s = -1 then Some s
     else if cursor_get cursor s = index
     then Some (cursor_put cursor (sp_next_hash (seen_packets s ! nat index)) s)
     else hash_unlink index (Next_Hash (nat (cursor_get cursor s))) s)"

definition remove_from_hash :: "int \<Rightarrow> dedup_state \<Rightarrow> dedup_state option" where
  "remove_from_hash index s =
    (if index < 0 \<or> index \<ge> int MAX_SEEN_PACKETS then Some s
     else (let e = seen_packets s ! nat index
           in hash_unlink index (Bucket (seen_bucket_index (sp_source e) (sp_id e))) s))"

text \<open>The walk of a chain for a match; it ends with its index, or with -1 at the end of the chain.\<close>

partial_function (option) seen_find :: "seen_packet_t list \<Rightarrow> bytes \<Rightarrow> u32 \<Rightarrow> int \<Rightarrow> int option" where
  "seen_find entries source ident index =
    (if index = -1 then Some (-1)
     else if sp_active (entries ! nat index) \<and> seen_entry_matches (entries ! nat index) source ident then Some index
     else seen_find entries source ident (sp_next_hash (entries ! nat index)))"

subsection \<open>Expiry\<close>

definition first_expiry_bucket :: "u32 \<Rightarrow> u32" where
  "first_expiry_bucket now_ms =
    (if now_ms < SEEN_PACKET_TTL_MS then 0 else (now_ms - SEEN_PACKET_TTL_MS) div DEDUP_EXPIRY_BUCKET_MS)"

text \<open>The lists as \<open>dedup_init_storage\<close> and the reset leave them.\<close>

definition dedup_lists_empty :: "dedup_state \<Rightarrow> dedup_state" where
  "dedup_lists_empty s = s\<lparr>
     seen_packets := map (\<lambda>(i, e). e\<lparr>sp_next_hash := if i < MAX_SEEN_PACKETS - 1 then int i + 1 else -1\<rparr>)
       (enumerate 0 (seen_packets s)),
     hash_buckets := replicate MAX_SEEN_BUCKETS (-1),
     expiry_wheel := replicate DEDUP_EXPIRY_BUCKET_COUNT (-1),
     free_list_head := 0\<rparr>"

definition dedup_init_storage :: "u32 \<Rightarrow> dedup_state \<Rightarrow> dedup_state" where
  "dedup_init_storage now_ms s =
    (if dedup_initialized s then s
     else (let s = s\<lparr>seen_packets := map (\<lambda>e. e\<lparr>sp_active := False, sp_next_hash := -1, sp_next_expiry := -1\<rparr>) (seen_packets s)\<rparr>
           in (dedup_lists_empty s)\<lparr>last_expiry_bucket := first_expiry_bucket now_ms, dedup_initialized := True\<rparr>))"

definition release_seen :: "int \<Rightarrow> dedup_state \<Rightarrow> dedup_state" where
  "release_seen index s =
    (put_seen (nat index) (\<lambda>e. e\<lparr>sp_active := False, sp_next_hash := free_list_head s\<rparr>) s)\<lparr>free_list_head := index\<rparr>"

text \<open>The walk along one expiry list; what it returns: the retained list and whether it is due.\<close>

partial_function (option) expire_list ::
  "u32 \<Rightarrow> u32 \<Rightarrow> int \<Rightarrow> int \<Rightarrow> int \<Rightarrow> bool \<Rightarrow> dedup_state \<Rightarrow> (int \<times> int \<times> bool \<times> dedup_state) option" where
  "expire_list now_ms expiration_bucket index retained_head retained_tail unexpired s =
    (if index = -1 then Some (retained_head, retained_tail, unexpired, s)
     else if sp_active (seen_packets s ! nat index) \<and> now_ms - sp_seen_ms (seen_packets s ! nat index) \<ge> SEEN_PACKET_TTL_MS then
       Option.bind (remove_from_hash index s) (\<lambda>s'.
         expire_list now_ms expiration_bucket (sp_next_expiry (seen_packets s ! nat index)) retained_head retained_tail unexpired
           (release_seen index s'))
     else if sp_active (seen_packets s ! nat index) then
       expire_list now_ms expiration_bucket (sp_next_expiry (seen_packets s ! nat index))
         (if retained_head = -1 then index else retained_head) index
         (unexpired \<or> sp_seen_ms (seen_packets s ! nat index) div DEDUP_EXPIRY_BUCKET_MS \<le> expiration_bucket)
         (if retained_head = -1 then s else put_seen (nat retained_tail) (\<lambda>e. e\<lparr>sp_next_expiry := index\<rparr>) s)
     else expire_list now_ms expiration_bucket (sp_next_expiry (seen_packets s ! nat index)) retained_head retained_tail unexpired s)"

text \<open>One bucket of the wheel.\<close>

definition expire_bucket :: "u32 \<Rightarrow> u32 \<Rightarrow> nat \<Rightarrow> dedup_state \<Rightarrow> (bool \<times> dedup_state) option" where
  "expire_bucket now_ms expiration_bucket wheel_index s =
    Option.bind
      (expire_list now_ms expiration_bucket (expiry_wheel s ! wheel_index) (-1) (-1) False
        (s\<lparr>expiry_wheel := (expiry_wheel s)[wheel_index := -1]\<rparr>))
      (\<lambda>(retained_head, retained_tail, unexpired, s).
         let s = (if retained_tail \<noteq> -1 then put_seen (nat retained_tail) (\<lambda>e. e\<lparr>sp_next_expiry := -1\<rparr>) s else s)
         in Some (unexpired, s\<lparr>expiry_wheel := (expiry_wheel s)[wheel_index := retained_head]\<rparr>))"

primrec expire_steps :: "u32 \<Rightarrow> u32 \<Rightarrow> nat \<Rightarrow> dedup_state \<Rightarrow> dedup_state option" where
  "expire_steps now_ms expiration_bucket 0 s = Some s"
| "expire_steps now_ms expiration_bucket (Suc steps) s =
    (if sint (expiration_bucket - last_expiry_bucket s) < 0 then Some s
     else Option.bind (expire_bucket now_ms expiration_bucket (unat (last_expiry_bucket s mod 60)) s) (\<lambda>(unexpired, s).
       if unexpired then Some s
       else expire_steps now_ms expiration_bucket steps (s\<lparr>last_expiry_bucket := last_expiry_bucket s + 1\<rparr>)))"

definition expire_current_and_prior_buckets :: "u32 \<Rightarrow> dedup_state \<Rightarrow> dedup_state option" where
  "expire_current_and_prior_buckets now_ms s =
    (if now_ms < SEEN_PACKET_TTL_MS then Some s
     else (let expiration_bucket = (now_ms - SEEN_PACKET_TTL_MS) div DEDUP_EXPIRY_BUCKET_MS;
               bucket_span = expiration_bucket - last_expiry_bucket s
           in if sint bucket_span < 0 then Some s
              else (let steps = (if bucket_span \<ge> 60 then 60 else unat (bucket_span + 1));
                        s = (if bucket_span \<ge> 60 then s\<lparr>last_expiry_bucket := expiration_bucket - 60 + 1\<rparr> else s)
                    in expire_steps now_ms expiration_bucket steps s)))"

subsection \<open>The operations\<close>

definition alloc_entry :: "dedup_state \<Rightarrow> int \<times> dedup_state" where
  "alloc_entry s =
    (if free_list_head s = -1 then (-1, s)
     else (free_list_head s, s\<lparr>free_list_head := sp_next_hash (seen_packets s ! nat (free_list_head s))\<rparr>))"

definition insert_entry :: "int \<Rightarrow> bytes \<Rightarrow> u32 \<Rightarrow> u32 \<Rightarrow> dedup_state \<Rightarrow> dedup_state" where
  "insert_entry index source ident now_ms s =
    (let bucket = seen_bucket_index source ident;
         expiry_bucket = (ucast (now_ms div DEDUP_EXPIRY_BUCKET_MS mod 60) :: u8)
     in (put_seen (nat index) (\<lambda>e. e\<lparr>sp_id := ident, sp_seen_ms := now_ms, sp_source := copy_field (sp_source e) source,
            sp_expiry_bucket := expiry_bucket, sp_active := True,
            sp_next_hash := hash_buckets s ! bucket, sp_next_expiry := expiry_wheel s ! unat expiry_bucket\<rparr>) s)
          \<lparr>hash_buckets := (hash_buckets s)[bucket := index],
           expiry_wheel := (expiry_wheel s)[unat expiry_bucket := index]\<rparr>)"

text \<open>\<open>init_ms\<close> is the clock inside \<open>dedup_init_storage\<close>, on the first call.\<close>

definition packet_seen :: "u32 \<Rightarrow> u32 \<Rightarrow> bytes \<Rightarrow> u32 \<Rightarrow> dedup_state \<Rightarrow> (bool \<times> dedup_state) option" where
  "packet_seen now_ms init_ms source ident s = do {
     s \<leftarrow> expire_current_and_prior_buckets now_ms (dedup_init_storage init_ms s);
     index \<leftarrow> seen_find (seen_packets s) source ident (hash_buckets s ! seen_bucket_index source ident);
     Some (index \<noteq> -1, s)
   }"

definition remember_packet :: "u32 \<Rightarrow> u32 \<Rightarrow> bytes \<Rightarrow> u32 \<Rightarrow> dedup_state \<Rightarrow> dedup_state option" where
  "remember_packet now_ms init_ms source ident s = do {
     s \<leftarrow> expire_current_and_prior_buckets now_ms (dedup_init_storage init_ms s);
     index \<leftarrow> seen_find (seen_packets s) source ident (hash_buckets s ! seen_bucket_index source ident);
     if index \<noteq> -1 then Some s
     else (let (slot_index, s') = alloc_entry s
           in if slot_index = -1 then Some s' else Some (insert_entry slot_index source ident now_ms s'))
   }"

definition deduplication_debug_reset_for_test :: "u32 \<Rightarrow> u32 \<Rightarrow> dedup_state \<Rightarrow> dedup_state" where
  "deduplication_debug_reset_for_test init_ms now_ms s =
    (let s = dedup_init_storage init_ms s
     in (dedup_lists_empty (s\<lparr>seen_packets := map (\<lambda>_. seen_packet_zero) (seen_packets s)\<rparr>))
          \<lparr>last_expiry_bucket := first_expiry_bucket now_ms\<rparr>)"

definition deduplication_debug_set_seen_tick_for_test ::
  "u32 \<Rightarrow> bytes \<Rightarrow> u32 \<Rightarrow> u32 \<Rightarrow> dedup_state \<Rightarrow> dedup_state option" where
  "deduplication_debug_set_seen_tick_for_test init_ms source ident seen_ms s = do {
     let s = dedup_init_storage init_ms s;
     index \<leftarrow> seen_find (seen_packets s) source ident (hash_buckets s ! seen_bucket_index source ident);
     Some (if index = -1 then s else put_seen (nat index) (\<lambda>e. e\<lparr>sp_seen_ms := seen_ms\<rparr>) s)
   }"

subsection \<open>The links are sound\<close>

definition next_hashes :: "dedup_state \<Rightarrow> nat \<Rightarrow> int" where
  "next_hashes s i = sp_next_hash (seen_packets s ! i)"

definition next_expiries :: "dedup_state \<Rightarrow> nat \<Rightarrow> int" where
  "next_expiries s i = sp_next_expiry (seen_packets s ! i)"

definition in_use :: "dedup_state \<Rightarrow> nat set" where
  "in_use s = {i. i < MAX_SEEN_PACKETS \<and> sp_active (seen_packets s ! i)}"

definition entry_bucket :: "dedup_state \<Rightarrow> nat \<Rightarrow> nat" where
  "entry_bucket s i = seen_bucket_index (sp_source (seen_packets s ! i)) (sp_id (seen_packets s ! i))"

definition entry_second :: "dedup_state \<Rightarrow> nat \<Rightarrow> nat" where
  "entry_second s i = unat (sp_seen_ms (seen_packets s ! i)) div 1000"

definition hash_ok :: "dedup_state \<Rightarrow> bool" where
  "hash_ok s \<longleftrightarrow> length (seen_packets s) = MAX_SEEN_PACKETS \<and> length (hash_buckets s) = MAX_SEEN_BUCKETS \<and>
    (\<forall>b<MAX_SEEN_BUCKETS. chain_of (next_hashes s) (hash_buckets s ! b) {i \<in> in_use s. entry_bucket s i = b}) \<and>
    chain_of (next_hashes s) (free_list_head s) ({..<MAX_SEEN_PACKETS} - in_use s)"

definition wheel_ok :: "dedup_state \<Rightarrow> bool" where
  "wheel_ok s \<longleftrightarrow> length (expiry_wheel s) = DEDUP_EXPIRY_BUCKET_COUNT \<and>
    (\<forall>w<DEDUP_EXPIRY_BUCKET_COUNT. chain_of (next_expiries s) (expiry_wheel s ! w) {i \<in> in_use s. entry_second s i mod 60 = w})"

text \<open>
  What an entry stands for, and how one state follows another: the entries \<open>X\<close> were
  given up, the others stand for what they did.
\<close>

definition same_entry :: "seen_packet_t \<Rightarrow> seen_packet_t \<Rightarrow> bool" where
  "same_entry e e' \<longleftrightarrow> sp_id e' = sp_id e \<and> sp_seen_ms e' = sp_seen_ms e \<and> sp_source e' = sp_source e"

definition kept :: "nat set \<Rightarrow> dedup_state \<Rightarrow> dedup_state \<Rightarrow> bool" where
  "kept X s s' \<longleftrightarrow> (\<forall>i. same_entry (seen_packets s ! i) (seen_packets s' ! i)) \<and> in_use s' = in_use s - X \<and>
    last_expiry_bucket s' = last_expiry_bucket s \<and> dedup_initialized s' = dedup_initialized s"

lemma put_seen_simps [simp]:
  "hash_buckets (put_seen i f s) = hash_buckets s" "expiry_wheel (put_seen i f s) = expiry_wheel s"
  "free_list_head (put_seen i f s) = free_list_head s" "last_expiry_bucket (put_seen i f s) = last_expiry_bucket s"
  "dedup_initialized (put_seen i f s) = dedup_initialized s" "length (seen_packets (put_seen i f s)) = length (seen_packets s)"
  "i < length (seen_packets s) \<Longrightarrow> seen_packets (put_seen i f s) ! j = (if j = i then f (seen_packets s ! i) else seen_packets s ! j)"
  by (simp_all add: put_seen_def)

lemma cursor_put_simps [simp]:
  "expiry_wheel (cursor_put c v s) = expiry_wheel s" "free_list_head (cursor_put c v s) = free_list_head s"
  "last_expiry_bucket (cursor_put c v s) = last_expiry_bucket s" "dedup_initialized (cursor_put c v s) = dedup_initialized s"
  "length (seen_packets (cursor_put c v s)) = length (seen_packets s)" "length (hash_buckets (cursor_put c v s)) = length (hash_buckets s)"
  by (cases c; simp)+

text \<open>The cell of a cursor exists.\<close>

fun cursor_ok :: "hash_cursor \<Rightarrow> dedup_state \<Rightarrow> bool" where
  "cursor_ok (Bucket b) s \<longleftrightarrow> b < length (hash_buckets s)"
| "cursor_ok (Next_Hash i) s \<longleftrightarrow> i < length (seen_packets s)"

lemma next_hashes_put:
  "cursor_ok c s \<Longrightarrow> next_hashes (cursor_put c v s) i = (if c = Next_Hash i then v else next_hashes s i)"
  by (cases c) (auto simp: next_hashes_def)

lemma cursor_get_next: "cursor_get (Next_Hash i) s = next_hashes s i"
  by (simp add: next_hashes_def)

declare cursor_get.simps(2) [simp del]
declare cursor_get_next [simp]

lemma cursor_get_put: "cursor_ok c s \<Longrightarrow> cursor_ok c' s \<Longrightarrow> cursor_get c (cursor_put c' v s) = (if c = c' then v else cursor_get c s)"
  by (cases c; cases c'; simp add: next_hashes_def)

text \<open>Unlinking an element of a chain through the cell that points to it.\<close>

lemma hash_unlink_chain:
  assumes "linked (next_hashes s) (cursor_get c s) xs" "i \<in> set xs" "set xs \<subseteq> {..<length (seen_packets s)}" "cursor_ok c s"
    "\<And>k. c = Next_Hash k \<Longrightarrow> k \<notin> set xs"
  shows "\<exists>c'. hash_unlink (int i) c s = Some (cursor_put c' (next_hashes s i) s) \<and> cursor_ok c' s \<and>
    (c' = c \<or> (\<exists>k\<in>set xs - {i}. c' = Next_Hash k)) \<and>
    linked (next_hashes (cursor_put c' (next_hashes s i) s)) (cursor_get c (cursor_put c' (next_hashes s i) s)) (remove1 i xs)"
  using assms
proof (induction xs arbitrary: c)
  case (Cons x ys)
  have d: "distinct (x # ys)" by (rule linked_distinct [OF Cons.prems(1)])
  show ?case
  proof (cases "x = i")
    case True
    let ?s = "cursor_put c (next_hashes s i) s"
    have "hash_unlink (int i) c s = Some ?s"
      using Cons.prems True by (subst hash_unlink.simps) (simp add: next_hashes_def)
    moreover have "linked (next_hashes ?s) (next_hashes s i) ys = linked (next_hashes s) (next_hashes s i) ys"
      using Cons.prems(4,5) by (intro linked_cong) (auto simp: next_hashes_put)
    ultimately show ?thesis using Cons.prems True by (intro exI [of _ c]) (simp add: cursor_get_put)
  next
    case False
    obtain c' where c': "hash_unlink (int i) (Next_Hash x) s = Some (cursor_put c' (next_hashes s i) s)" "cursor_ok c' s"
      "c' = Next_Hash x \<or> (\<exists>k\<in>set ys - {i}. c' = Next_Hash k)"
      "linked (next_hashes (cursor_put c' (next_hashes s i) s)) (cursor_get (Next_Hash x) (cursor_put c' (next_hashes s i) s)) (remove1 i ys)"
    proof -
      have "linked (next_hashes s) (cursor_get (Next_Hash x) s) ys" using Cons.prems(1) by simp
      moreover have "i \<in> set ys" "set ys \<subseteq> {..<length (seen_packets s)}" "cursor_ok (Next_Hash x) s"
        "\<And>k. Next_Hash x = Next_Hash k \<Longrightarrow> k \<notin> set ys" using Cons.prems False d by auto
      ultimately show thesis using Cons.IH [of "Next_Hash x"] that by blast
    qed
    have "c \<noteq> c'" using c'(3) Cons.prems(5) by auto
    then have "cursor_get c (cursor_put c' (next_hashes s i) s) = int x" using c'(2) Cons.prems by (simp add: cursor_get_put)
    moreover have "hash_unlink (int i) c s = hash_unlink (int i) (Next_Hash x) s"
      using Cons.prems(1) False by (subst hash_unlink.simps) simp
    ultimately show ?thesis using c' False by (intro exI [of _ c']) auto
  qed
qed simp


lemma seen_bucket_index_less: "seen_bucket_index source ident < MAX_SEEN_BUCKETS"
  by (simp add: seen_bucket_index_def unat_mod)

lemma entry_bucket_less [simp]: "entry_bucket s i < MAX_SEEN_BUCKETS"
  by (simp only: entry_bucket_def seen_bucket_index_less)

lemma in_use_less: "i \<in> in_use s \<Longrightarrow> i < MAX_SEEN_PACKETS"
  by (simp add: in_use_def)

lemma cursor_put_entry:
  "cursor_ok c s \<Longrightarrow> seen_packets (cursor_put c v s) ! j =
    (if c = Next_Hash j then (seen_packets s ! j)\<lparr>sp_next_hash := v\<rparr> else seen_packets s ! j)"
  by (cases c) auto

lemma hash_ok_sizes: "hash_ok s \<Longrightarrow> length (seen_packets s) = MAX_SEEN_PACKETS" "hash_ok s \<Longrightarrow> length (hash_buckets s) = MAX_SEEN_BUCKETS"
  by (simp_all add: hash_ok_def)

lemma hash_ok_bucket:
  "hash_ok s \<Longrightarrow> b < MAX_SEEN_BUCKETS \<Longrightarrow> chain_of (next_hashes s) (hash_buckets s ! b) {i \<in> in_use s. entry_bucket s i = b}"
  by (simp only: hash_ok_def)

lemma hash_ok_free: "hash_ok s \<Longrightarrow> chain_of (next_hashes s) (free_list_head s) ({..<MAX_SEEN_PACKETS} - in_use s)"
  by (simp only: hash_ok_def)

lemma remove_from_hash_entry:
  assumes "hash_ok s" "i \<in> in_use s"
  defines "C \<equiv> {j \<in> in_use s. entry_bucket s j = entry_bucket s i}"
  obtains c' where "remove_from_hash (int i) s = Some (cursor_put c' (next_hashes s i) s)" "cursor_ok c' s"
    "c' = Bucket (entry_bucket s i) \<or> (\<exists>k\<in>C - {i}. c' = Next_Hash k)"
    "chain_of (next_hashes (cursor_put c' (next_hashes s i) s)) (hash_buckets (cursor_put c' (next_hashes s i) s) ! entry_bucket s i) (C - {i})"
proof -
  obtain xs where xs: "linked (next_hashes s) (cursor_get (Bucket (entry_bucket s i)) s) xs" "set xs = C"
    using hash_ok_bucket [OF assms(1), of "entry_bucket s i"] by (auto simp: chain_of_def C_def)
  have r: "set (remove1 i xs) = C - {i}" using xs linked_distinct [OF xs(1)] by simp
  have "i \<in> set xs" "set xs \<subseteq> {..<length (seen_packets s)}" "cursor_ok (Bucket (entry_bucket s i)) s"
    using assms xs(2) by (auto simp: C_def hash_ok_sizes in_use_less)
  from hash_unlink_chain [OF xs(1) this] obtain c' where
    c': "hash_unlink (int i) (Bucket (entry_bucket s i)) s = Some (cursor_put c' (next_hashes s i) s)" "cursor_ok c' s"
      "c' = Bucket (entry_bucket s i) \<or> (\<exists>k\<in>C - {i}. c' = Next_Hash k)"
      "linked (next_hashes (cursor_put c' (next_hashes s i) s)) (hash_buckets (cursor_put c' (next_hashes s i) s) ! entry_bucket s i) (remove1 i xs)"
    using xs(2) by auto
  show thesis
    by (rule that [OF _ c'(2,3)]) (use c'(1,4) r in_use_less [OF assms(2)] in \<open>auto simp: remove_from_hash_def Let_def entry_bucket_def chain_of_def\<close>)
qed

lemma remove_release:
  assumes "hash_ok s" "i \<in> in_use s"
  obtains s' where "remove_from_hash (int i) s = Some s'" "hash_ok (release_seen (int i) s')" "kept {i} s (release_seen (int i) s')"
    "next_expiries (release_seen (int i) s') = next_expiries s" "expiry_wheel (release_seen (int i) s') = expiry_wheel s"
proof -
  let ?C = "\<lambda>b. {j \<in> in_use s. entry_bucket s j = b}"
  obtain c' where c': "remove_from_hash (int i) s = Some (cursor_put c' (next_hashes s i) s)" "cursor_ok c' s"
    "c' = Bucket (entry_bucket s i) \<or> (\<exists>k\<in>?C (entry_bucket s i) - {i}. c' = Next_Hash k)"
    "chain_of (next_hashes (cursor_put c' (next_hashes s i) s)) (hash_buckets (cursor_put c' (next_hashes s i) s) ! entry_bucket s i)
      (?C (entry_bucket s i) - {i})"
    by (rule remove_from_hash_entry [OF assms])
  define s' where "s' = cursor_put c' (next_hashes s i) s"
  define r where "r = release_seen (int i) s'"
  have i: "i < length (seen_packets s)" using assms by (simp add: hash_ok_sizes in_use_less)
  have e: "seen_packets r ! j = (seen_packets s ! j)\<lparr>sp_next_hash := next_hashes r j, sp_active := sp_active (seen_packets s ! j) \<and> j \<noteq> i\<rparr>" for j
    using i c'(2) by (simp add: r_def s'_def release_seen_def cursor_put_entry next_hashes_def)
  have nh: "next_hashes r j = (if j = i then free_list_head s else next_hashes s' j)" for j
    using i by (simp add: r_def s'_def release_seen_def next_hashes_def)
  have u: "in_use r = in_use s - {i}" by (auto simp: in_use_def e)
  have b: "entry_bucket r = entry_bucket s" by (simp add: entry_bucket_def [abs_def] e)
  have z: "length (seen_packets r) = length (seen_packets s)" "hash_buckets r = hash_buckets s'" "free_list_head r = int i"
    "length (hash_buckets s') = length (hash_buckets s)"
    by (simp_all add: r_def s'_def release_seen_def)
  have away: "next_hashes s' j = next_hashes s j" if "j \<notin> ?C (entry_bucket s i)" for j
    using c'(2,3) that by (auto simp: s'_def next_hashes_put)
  have "chain_of (next_hashes r) (hash_buckets r ! k) {j \<in> in_use r. entry_bucket r j = k}" if k: "k < MAX_SEEN_BUCKETS" for k
  proof (cases "k = entry_bucket s i")
    case True
    have "{j \<in> in_use r. entry_bucket r j = k} = ?C k - {i}" by (auto simp: u b)
    moreover have "chain_of (next_hashes r) (hash_buckets s' ! entry_bucket s i) (?C (entry_bucket s i) - {i})"
      by (rule chain_of_cong [OF c'(4) [folded s'_def]]) (simp add: nh)
    ultimately show ?thesis using True by (simp add: z)
  next
    case False
    have "hash_buckets s' ! k = hash_buckets s ! k" using c'(3) False by (auto simp: s'_def)
    moreover have "{j \<in> in_use r. entry_bucket r j = k} = ?C k" using False by (auto simp: u b)
    moreover have "chain_of (next_hashes r) (hash_buckets s ! k) (?C k)"
      by (rule chain_of_cong [OF hash_ok_bucket [OF assms(1) k]]) (use False in \<open>auto simp: nh away\<close>)
    ultimately show ?thesis by (simp add: z)
  qed
  moreover have "chain_of (next_hashes r) (int i) (insert i ({..<MAX_SEEN_PACKETS} - in_use s))"
    by (rule chain_of_insert [OF hash_ok_free [OF assms(1)]]) (use assms(2) in \<open>auto simp: nh away\<close>)
  moreover have "insert i ({..<MAX_SEEN_PACKETS} - in_use s) = {..<MAX_SEEN_PACKETS} - in_use r"
    using in_use_less [OF assms(2)] by (auto simp: u)
  ultimately have "hash_ok r" using assms(1) by (simp add: hash_ok_def z)
  moreover have "kept {i} s r" by (simp add: kept_def same_entry_def e u) (simp add: r_def s'_def release_seen_def)
  moreover have "next_expiries r = next_expiries s" by (simp add: next_expiries_def [abs_def] e)
  moreover have "expiry_wheel r = expiry_wheel s" by (simp add: r_def s'_def release_seen_def)
  ultimately show thesis using that [of s'] c'(1) by (simp add: r_def s'_def)
qed


subsection \<open>Expiring one list\<close>

definition expired :: "u32 \<Rightarrow> dedup_state \<Rightarrow> nat \<Rightarrow> bool" where
  "expired now_ms s i \<longleftrightarrow> now_ms - sp_seen_ms (seen_packets s ! i) \<ge> SEEN_PACKET_TTL_MS"

definition due :: "u32 \<Rightarrow> dedup_state \<Rightarrow> nat \<Rightarrow> bool" where
  "due expiration_bucket s i \<longleftrightarrow> sp_seen_ms (seen_packets s ! i) div DEDUP_EXPIRY_BUCKET_MS \<le> expiration_bucket"

definition first_of :: "nat list \<Rightarrow> int" where
  "first_of rs = (if rs = [] then -1 else int (hd rs))"

definition last_of :: "nat list \<Rightarrow> int" where
  "last_of rs = (if rs = [] then -1 else int (last rs))"

lemma kept_refl: "kept {} s s"
  by (simp add: kept_def same_entry_def)

lemma kept_trans: "kept X s s' \<Longrightarrow> kept Y s' s'' \<Longrightarrow> kept (X \<union> Y) s s''"
  by (auto simp: kept_def same_entry_def)

lemma kept_same:
  assumes "kept X s s'"
  shows "sp_seen_ms (seen_packets s' ! i) = sp_seen_ms (seen_packets s ! i)" "expired now_ms s' i = expired now_ms s i"
    "due eb s' i = due eb s i" "in_use s' = in_use s - X" "entry_second s' i = entry_second s i" "entry_bucket s' i = entry_bucket s i"
    "last_expiry_bucket s' = last_expiry_bucket s" "dedup_initialized s' = dedup_initialized s"
  using assms by (simp_all add: kept_def same_entry_def expired_def due_def entry_second_def entry_bucket_def)

lemma last_not_butlast: "distinct rs \<Longrightarrow> rs \<noteq> [] \<Longrightarrow> last rs \<notin> set (butlast rs)"
  by (induction rs rule: rev_induct) auto

lemma put_expiry_link:
  fixes v :: int
  assumes "t < length (seen_packets s)"
  defines "s' \<equiv> put_seen t (\<lambda>e. e\<lparr>sp_next_expiry := v\<rparr>) s"
  shows "kept {} s s'" "hash_ok s' = hash_ok s" "next_expiries s' = (next_expiries s)(t := v)" "expiry_wheel s' = expiry_wheel s"
proof -
  have e: "seen_packets s' ! j = (seen_packets s ! j)\<lparr>sp_next_expiry := if j = t then v else next_expiries s j\<rparr>" for j
    using assms(1) by (simp add: s'_def next_expiries_def)
  have u: "in_use s' = in_use s" by (auto simp: in_use_def e)
  show "kept {} s s'" by (simp add: kept_def same_entry_def e u) (simp add: s'_def)
  have "next_hashes s' = next_hashes s" "entry_bucket s' = entry_bucket s"
    by (simp_all add: next_hashes_def [abs_def] entry_bucket_def [abs_def] e)
  then show "hash_ok s' = hash_ok s" by (simp add: hash_ok_def u) (simp add: s'_def)
  show "next_expiries s' = (next_expiries s)(t := v)"
    using assms(1) by (auto simp: next_expiries_def s'_def)
  show "expiry_wheel s' = expiry_wheel s" by (simp add: s'_def)
qed

lemma expire_list_spec:
  assumes "linked (next_expiries s) index xs" "hash_ok s" "set xs \<subseteq> in_use s" "set rs \<subseteq> in_use s" "distinct (rs @ xs)" "path (next_expiries s) rs"
  shows "\<exists>s'. expire_list now_ms eb index (first_of rs) (last_of rs) u s =
      Some (first_of (rs @ filter (\<lambda>i. \<not> expired now_ms s i) xs), last_of (rs @ filter (\<lambda>i. \<not> expired now_ms s i) xs),
        u \<or> (\<exists>i\<in>set xs. \<not> expired now_ms s i \<and> due eb s i), s') \<and>
    hash_ok s' \<and> kept {i \<in> set xs. expired now_ms s i} s s' \<and> path (next_expiries s') (rs @ filter (\<lambda>i. \<not> expired now_ms s i) xs) \<and>
    expiry_wheel s' = expiry_wheel s \<and> (\<forall>j. j \<notin> set rs \<union> set xs \<longrightarrow> next_expiries s' j = next_expiries s j)"
  using assms
proof (induction xs arbitrary: index rs u s)
  case Nil
  then show ?case using kept_refl [of s] by (subst expire_list.simps) simp
next
  case (Cons i xs)
  let ?f = "\<lambda>s. filter (\<lambda>i. \<not> expired now_ms s i) xs"
  have i: "index = int i" "i \<in> in_use s" "i < length (seen_packets s)" "sp_active (seen_packets s ! i)"
    using Cons.prems by (auto simp: in_use_def hash_ok_sizes)
  have n: "sp_next_expiry (seen_packets s ! i) = next_expiries s i" by (simp add: next_expiries_def)
  show ?case
  proof (cases "expired now_ms s i")
    case True
    obtain s1 where s1: "remove_from_hash (int i) s = Some s1" "hash_ok (release_seen (int i) s1)" "kept {i} s (release_seen (int i) s1)"
      "next_expiries (release_seen (int i) s1) = next_expiries s" "expiry_wheel (release_seen (int i) s1) = expiry_wheel s"
      by (rule remove_release [OF Cons.prems(2) i(2)])
    let ?r = "release_seen (int i) s1"
    note k = kept_same [OF s1(3)]
    obtain s' where s': "expire_list now_ms eb (next_expiries s i) (first_of rs) (last_of rs) u ?r =
        Some (first_of (rs @ ?f s), last_of (rs @ ?f s), u \<or> (\<exists>i\<in>set xs. \<not> expired now_ms s i \<and> due eb s i), s')"
      "hash_ok s'" "kept {i \<in> set xs. expired now_ms s i} ?r s'" "path (next_expiries s') (rs @ ?f s)"
      "expiry_wheel s' = expiry_wheel s" "\<forall>j. j \<notin> set rs \<union> set xs \<longrightarrow> next_expiries s' j = next_expiries s j"
      using Cons.IH [of ?r "next_expiries s i" rs u] Cons.prems s1 by (auto simp: k)
    have "expire_list now_ms eb index (first_of rs) (last_of rs) u s = expire_list now_ms eb (next_expiries s i) (first_of rs) (last_of rs) u ?r"
      using True i s1(1) by (subst expire_list.simps) (simp add: expired_def n)
    moreover have "kept ({i} \<union> {i \<in> set xs. expired now_ms s i}) s s'" by (rule kept_trans [OF s1(3) s'(3)])
    moreover have "{i} \<union> {i \<in> set xs. expired now_ms s i} = {j \<in> set (i # xs). expired now_ms s j}" using True by auto
    ultimately show ?thesis using s' True by (intro exI [of _ s']) simp
  next
    case False
    define r where "r = (if rs = [] then s else put_seen (last rs) (\<lambda>e. e\<lparr>sp_next_expiry := int i\<rparr>) s)"
    have lr: "rs \<noteq> [] \<Longrightarrow> last rs < length (seen_packets s)" "rs \<noteq> [] \<Longrightarrow> last rs \<in> set rs"
      using subsetD [OF Cons.prems(4), of "last rs"] in_use_less [of "last rs" s] by (simp_all add: hash_ok_sizes [OF Cons.prems(2)])
    have off: "last rs \<notin> set xs" if "rs \<noteq> []" using Cons.prems(5) last_in_set [OF that] by (meson disjoint_iff distinct_append list.set_intros(2))
    have r: "kept {} s r" "hash_ok r" "next_expiries r = (if rs = [] then next_expiries s else (next_expiries s)(last rs := int i))"
      "expiry_wheel r = expiry_wheel s"
      using put_expiry_link [of "last rs" s "int i"] lr(1) Cons.prems(2) by (auto simp: r_def kept_refl)
    note k = kept_same [OF r(1)]
    have p: "path (next_expiries r) (rs @ [i])"
    proof (cases "rs = []")
      case False
      have "last rs \<notin> set (butlast rs)" using Cons.prems(5) False by (simp add: last_not_butlast)
      then have "path (next_expiries r) rs = path (next_expiries s) rs" using False by (intro path_cong) (auto simp: r(3))
      then show ?thesis using False Cons.prems(6) by (simp add: path_snoc r(3))
    qed simp
    have "linked (next_expiries r) (next_expiries s i) xs = linked (next_expiries s) (next_expiries s i) xs"
      using off by (intro linked_cong) (auto simp: r(3))
    then have l: "linked (next_expiries r) (next_expiries s i) xs" using Cons.prems(1) by simp
    obtain s' where s': "expire_list now_ms eb (next_expiries s i) (first_of (rs @ [i])) (last_of (rs @ [i])) (u \<or> due eb s i) r =
        Some (first_of (rs @ i # ?f s), last_of (rs @ i # ?f s), (u \<or> due eb s i) \<or> (\<exists>i\<in>set xs. \<not> expired now_ms s i \<and> due eb s i), s')"
      "hash_ok s'" "kept {i \<in> set xs. expired now_ms s i} r s'" "path (next_expiries s') (rs @ i # ?f s)"
      "expiry_wheel s' = expiry_wheel s" "\<forall>j. j \<notin> set (rs @ [i]) \<union> set xs \<longrightarrow> next_expiries s' j = next_expiries r j"
      using Cons.IH [OF l r(2) _ _ _ p, of "u \<or> due eb s i"] Cons.prems i(2) r(4) by (auto simp: k)
    have "expire_list now_ms eb index (first_of rs) (last_of rs) u s =
        expire_list now_ms eb (next_expiries s i) (first_of (rs @ [i])) (last_of (rs @ [i])) (u \<or> due eb s i) r"
      using False i by (subst expire_list.simps) (auto simp: expired_def n r_def due_def first_of_def last_of_def)
    moreover have "kept ({} \<union> {i \<in> set xs. expired now_ms s i}) s s'" by (rule kept_trans [OF r(1) s'(3)])
    moreover have "{j \<in> set (i # xs). expired now_ms s j} = {i \<in> set xs. expired now_ms s i}" using False by auto
    moreover have "next_expiries s' j = next_expiries s j" if "j \<notin> set rs \<union> set (i # xs)" for j
      using s'(6) that lr(2) by (auto simp: r(3))
    ultimately show ?thesis using s' False by (intro exI [of _ s']) auto
  qed
qed


lemma wheel_update:
  "seen_packets (s\<lparr>expiry_wheel := w\<rparr>) = seen_packets s" "kept {} s (s\<lparr>expiry_wheel := w\<rparr>)"
  "hash_ok (s\<lparr>expiry_wheel := w\<rparr>) = hash_ok s" "next_expiries (s\<lparr>expiry_wheel := w\<rparr>) = next_expiries s"
  by (simp_all add: kept_def same_entry_def hash_ok_def in_use_def next_hashes_def [abs_def] next_expiries_def [abs_def] entry_bucket_def)

text \<open>Closing the retained list.\<close>

lemma close_list:
  assumes "path (next_expiries s) rs" "set rs \<subseteq> in_use s" "distinct rs" "hash_ok s"
  defines "s' \<equiv> (if last_of rs \<noteq> -1 then put_seen (nat (last_of rs)) (\<lambda>e. e\<lparr>sp_next_expiry := -1\<rparr>) s else s)"
  shows "linked (next_expiries s') (first_of rs) rs" "kept {} s s'" "hash_ok s'" "expiry_wheel s' = expiry_wheel s"
    "j \<notin> set rs \<Longrightarrow> next_expiries s' j = next_expiries s j"
proof -
  have "linked (next_expiries s') (first_of rs) rs \<and> kept {} s s' \<and> hash_ok s' \<and> expiry_wheel s' = expiry_wheel s \<and>
    (j \<notin> set rs \<longrightarrow> next_expiries s' j = next_expiries s j)"
  proof (cases "rs = []")
    case True
    then show ?thesis
      using assms(4) by (simp add: s'_def last_of_def first_of_def kept_refl)
  next
    case False
    have t: "last rs < length (seen_packets s)" using subsetD [OF assms(2) last_in_set [OF False]] assms(4) by (simp add: in_use_less hash_ok_sizes)
    have s': "s' = put_seen (last rs) (\<lambda>e. e\<lparr>sp_next_expiry := -1\<rparr>) s" using False by (simp add: s'_def last_of_def)
    note p = put_expiry_link [OF t, of "-1", folded s']
    have "last rs \<notin> set (butlast rs)" by (rule last_not_butlast [OF assms(3) False])
    then have "path (next_expiries s') rs = path (next_expiries s) rs" by (intro path_cong) (auto simp: p(3))
    then have "linked (next_expiries s') (first_of rs) rs" using False assms(1) by (simp add: first_of_def path_linked p(3))
    moreover have "next_expiries s' j = next_expiries s j" if "j \<notin> set rs" using that last_in_set [OF False] by (auto simp: p(3))
    ultimately show ?thesis using p(1,2,4) assms(4) by blast
  qed
  then show "linked (next_expiries s') (first_of rs) rs" "kept {} s s'" "hash_ok s'" "expiry_wheel s' = expiry_wheel s"
    "j \<notin> set rs \<Longrightarrow> next_expiries s' j = next_expiries s j" by simp_all
qed

lemma expire_bucket_spec:
  assumes "hash_ok s" "wheel_ok s" "w < DEDUP_EXPIRY_BUCKET_COUNT"
  obtains u s' where "expire_bucket now_ms eb w s = Some (u, s')" "hash_ok s'" "wheel_ok s'"
    "kept {i \<in> in_use s. entry_second s i mod 60 = w \<and> expired now_ms s i} s s'"
    "u \<longleftrightarrow> (\<exists>i\<in>in_use s. entry_second s i mod 60 = w \<and> \<not> expired now_ms s i \<and> due eb s i)"
proof -
  let ?W = "\<lambda>w. {i \<in> in_use s. entry_second s i mod 60 = w}" and ?X = "{i \<in> in_use s. entry_second s i mod 60 = w \<and> expired now_ms s i}"
  define s0 where "s0 = s\<lparr>expiry_wheel := (expiry_wheel s)[w := -1]\<rparr>"
  note z = wheel_update [where s = s and w = "(expiry_wheel s)[w := -1]", folded s0_def]
  note k0 = kept_same [OF z(2)]
  obtain xs where xs: "linked (next_expiries s) (expiry_wheel s ! w) xs" "set xs = ?W w"
    using assms(2,3) by (auto simp: wheel_ok_def chain_of_def)
  define rs where "rs = filter (\<lambda>i. \<not> expired now_ms s i) xs"
  have d: "distinct xs" by (rule linked_distinct [OF xs(1)])
  obtain s1 where s1: "expire_list now_ms eb (expiry_wheel s ! w) (-1) (-1) False s0 =
      Some (first_of rs, last_of rs, (\<exists>i\<in>set xs. \<not> expired now_ms s i \<and> due eb s i), s1)"
    "hash_ok s1" "kept {i \<in> set xs. expired now_ms s i} s0 s1" "path (next_expiries s1) rs"
    "expiry_wheel s1 = expiry_wheel s0" "\<And>j. j \<notin> set xs \<Longrightarrow> next_expiries s1 j = next_expiries s j"
    using expire_list_spec [of s0 "expiry_wheel s ! w" xs "[]" now_ms eb False] xs d assms(1) z
    by (auto simp: k0 rs_def first_of_def last_of_def)
  have k1: "kept ?X s s1" using kept_trans [OF z(2) s1(3)] by (simp add: xs(2) conj_assoc)
  have rs: "set rs \<subseteq> in_use s1" "distinct rs" "set rs = ?W w - ?X" using d by (auto simp: rs_def xs(2) kept_same [OF k1])
  define s2 where "s2 = (if last_of rs \<noteq> -1 then put_seen (nat (last_of rs)) (\<lambda>e. e\<lparr>sp_next_expiry := -1\<rparr>) s1 else s1)"
  note c = close_list [OF s1(4) rs(1,2) s1(2), folded s2_def]
  define s3 where "s3 = s2\<lparr>expiry_wheel := (expiry_wheel s2)[w := first_of rs]\<rparr>"
  note y = wheel_update [where s = s2 and w = "(expiry_wheel s2)[w := first_of rs]", folded s3_def]
  have k3: "kept ?X s s3" using kept_trans [OF kept_trans [OF k1 c(2)] y(2)] by simp
  have l: "length (expiry_wheel s) = 60" using assms(2) by (simp add: wheel_ok_def)
  have wheel3: "expiry_wheel s3 = (expiry_wheel s)[w := first_of rs]" by (simp add: s3_def c(4) s1(5) s0_def)
  have "chain_of (next_expiries s3) (expiry_wheel s3 ! v) {i \<in> in_use s3. entry_second s3 i mod 60 = v}" if v: "v < 60" for v
  proof (cases "v = w")
    case True
    have "{i \<in> in_use s3. entry_second s3 i mod 60 = v} = set rs" using True by (auto simp: kept_same [OF k3] rs(3))
    then show ?thesis using c(1) True l assms(3) by (auto simp: wheel3 y(4) chain_of_def)
  next
    case False
    have "chain_of (next_expiries s) (expiry_wheel s ! v) (?W v)" using assms(2) v by (simp add: wheel_ok_def)
    then have "chain_of (next_expiries s3) (expiry_wheel s ! v) (?W v)"
      by (rule chain_of_cong) (use False in \<open>auto simp: y(4) c(5) rs(3) s1(6) xs(2)\<close>)
    moreover have "{i \<in> in_use s3. entry_second s3 i mod 60 = v} = ?W v" using False by (auto simp: kept_same [OF k3])
    ultimately show ?thesis using False by (simp add: wheel3)
  qed
  then have "wheel_ok s3" using l by (simp add: wheel_ok_def wheel3)
  moreover have "expire_bucket now_ms eb w s = Some (\<exists>i\<in>set xs. \<not> expired now_ms s i \<and> due eb s i, s3)"
    using s1(1) by (simp add: expire_bucket_def s0_def [symmetric] s2_def [symmetric] s3_def [symmetric] Let_def)
  ultimately show thesis using that k3 c(3) y(3) by (auto simp: xs(2))
qed

end
