(* ===== verification/Dedup_Props.thy ===== *)
theory Dedup_Props
  imports Dedup
begin

text \<open>
  What the duplicate filter promises. Its specification is a set of packets with the time they
  were remembered: an entry counts for 60 seconds, and at most 256 are kept. The linked lists
  implement it as long as sources are printable strings and the 32-bit millisecond clock
  has not wrapped around; outside these bounds they do not.
\<close>

subsection \<open>Expiry by the wheel\<close>

definition follows :: "nat set \<Rightarrow> dedup_state \<Rightarrow> dedup_state \<Rightarrow> bool" where
  "follows X s s' \<longleftrightarrow> (\<forall>i. same_entry (seen_packets s ! i) (seen_packets s' ! i)) \<and> in_use s' = in_use s - X \<and>
    dedup_initialized s' = dedup_initialized s"

lemma kept_follows: "kept X s s' \<Longrightarrow> follows X s s'"
  by (simp add: kept_def follows_def)

lemma follows_trans: "follows X s s' \<Longrightarrow> follows Y s' s'' \<Longrightarrow> follows (X \<union> Y) s s''"
  by (auto simp: follows_def same_entry_def)

lemma follows_refl: "follows {} s s"
  by (simp add: follows_def same_entry_def)

lemma follows_same:
  assumes "follows X s s'"
  shows "expired now_ms s' i = expired now_ms s i" "entry_second s' i = entry_second s i" "in_use s' = in_use s - X"
    "sp_seen_ms (seen_packets s' ! i) = sp_seen_ms (seen_packets s ! i)" "sp_id (seen_packets s' ! i) = sp_id (seen_packets s ! i)"
    "sp_source (seen_packets s' ! i) = sp_source (seen_packets s ! i)" "dedup_initialized s' = dedup_initialized s"
  using assms by (simp_all add: follows_def same_entry_def expired_def entry_second_def)

lemma last_update:
  "follows X s (s'\<lparr>last_expiry_bucket := l\<rparr>) = follows X s s'" "follows X (s\<lparr>last_expiry_bucket := l\<rparr>) s' = follows X s s'" "hash_ok (s\<lparr>last_expiry_bucket := l\<rparr>) = hash_ok s"
  "wheel_ok (s\<lparr>last_expiry_bucket := l\<rparr>) = wheel_ok s" "in_use (s\<lparr>last_expiry_bucket := l\<rparr>) = in_use s"
  "expired now_ms (s\<lparr>last_expiry_bucket := l\<rparr>) = expired now_ms s" "entry_second (s\<lparr>last_expiry_bucket := l\<rparr>) = entry_second s"
  by (simp_all add: follows_def hash_ok_def wheel_ok_def in_use_def expired_def [abs_def] entry_second_def [abs_def]
      next_hashes_def [abs_def] next_expiries_def [abs_def] entry_bucket_def)

text \<open>The seconds of the entries and of the clock.\<close>

definition cutoff :: "u32 \<Rightarrow> nat" where
  "cutoff now_ms = (unat now_ms - 60000) div 1000"

lemma unat_cutoff: "SEEN_PACKET_TTL_MS \<le> now_ms \<Longrightarrow> unat ((now_ms - SEEN_PACKET_TTL_MS) div DEDUP_EXPIRY_BUCKET_MS) = cutoff now_ms"
  by (simp add: cutoff_def unat_div unat_sub)

lemma expired_nat:
  "sp_seen_ms (seen_packets s ! i) \<le> now_ms \<Longrightarrow>
   expired now_ms s i \<longleftrightarrow> 60000 + unat (sp_seen_ms (seen_packets s ! i)) \<le> unat now_ms"
  by (auto simp: expired_def word_le_nat_alt unat_sub)

lemma expired_second:
  assumes "sp_seen_ms (seen_packets s ! i) \<le> now_ms" "SEEN_PACKET_TTL_MS \<le> now_ms"
  shows "expired now_ms s i \<Longrightarrow> entry_second s i \<le> cutoff now_ms" "\<not> expired now_ms s i \<Longrightarrow> cutoff now_ms \<le> entry_second s i"
  using assms by (auto simp: expired_nat entry_second_def cutoff_def word_le_nat_alt intro!: div_le_mono)

lemma due_nat: "due eb s i \<longleftrightarrow> entry_second s i \<le> unat eb"
  by (simp add: due_def entry_second_def word_le_nat_alt unat_div)

lemma sint_diff: "unat (x :: u32) < 2 ^ 31 \<Longrightarrow> unat y < 2 ^ 31 \<Longrightarrow> sint (x - y) < 0 \<longleftrightarrow> unat x < unat y"
proof -
  assume a: "unat x < 2 ^ 31" "unat y < 2 ^ 31"
  have u: "uint x = int (unat x)" "uint y = int (unat y)" by simp_all
  have "int (unat x) < int (2 ^ 31)" "int (unat y) < int (2 ^ 31)" using a by (simp_all only: of_nat_less_iff)
  then have "uint x < 2 ^ 31" "uint y < 2 ^ 31" by simp_all
  moreover have "0 \<le> uint x" "0 \<le> uint y" by simp_all
  ultimately have r: "- (2 ^ 31) \<le> uint x - uint y" "uint x - uint y < 2 ^ 31" by (linarith, linarith)
  have e: "x - y = word_of_int (uint x - uint y)" by simp
  have "sint (x - y) = signed_take_bit 31 (uint x - uint y)" unfolding e signed_of_int by simp
  also have "\<dots> = uint x - uint y" by (rule signed_take_bit_int_eq_self [OF r])
  finally show ?thesis using u by linarith
qed


lemma wheel_step:
  assumes "e mod 60 = l mod (60 :: nat)" "l \<le> e" "e < l + 60"
  shows "e = l"
proof (rule ccontr)
  assume "e \<noteq> l"
  then have "60 \<le> e - l" using assms(1,2) by (intro dvd_imp_le) (simp_all add: mod_eq_dvd_iff_nat)
  then show False using assms(2,3) by simp
qed

lemma expire_steps_spec:
  assumes "hash_ok s" "wheel_ok s" "SEEN_PACKET_TTL_MS \<le> now_ms" "unat eb = cutoff now_ms"
    "\<And>i. i \<in> in_use s \<Longrightarrow> sp_seen_ms (seen_packets s ! i) \<le> now_ms" "unat (last_expiry_bucket s) + n = unat eb + 1" "n \<le> 60"
    "\<And>i. i \<in> in_use s \<Longrightarrow> expired now_ms s i \<Longrightarrow> \<exists>k. unat (last_expiry_bucket s) \<le> k \<and> k \<le> unat eb \<and> entry_second s i mod 60 = k mod 60"
    "\<And>i. i \<in> in_use s \<Longrightarrow> \<not> expired now_ms s i \<Longrightarrow> unat (last_expiry_bucket s) \<le> entry_second s i"
  shows "\<exists>s'. expire_steps now_ms eb n s = Some s' \<and> hash_ok s' \<and> wheel_ok s' \<and> follows {i \<in> in_use s. expired now_ms s i} s s' \<and>
    unat (last_expiry_bucket s') \<le> unat eb + 1 \<and> (\<forall>i\<in>in_use s'. unat (last_expiry_bucket s') \<le> entry_second s' i)"
  using assms
proof (induction n arbitrary: s)
  case 0
  have none: "\<not> expired now_ms s i" if "i \<in> in_use s" for i
  proof
    assume "expired now_ms s i"
    from "0.prems"(8) [OF that this] "0.prems"(6) show False by auto
  qed
  then have "{i \<in> in_use s. expired now_ms s i} = {}" by blast
  then have "follows {i \<in> in_use s. expired now_ms s i} s s" using follows_refl [of s] by (simp only:)
  moreover have "unat (last_expiry_bucket s) \<le> entry_second s i" if "i \<in> in_use s" for i by (rule "0.prems"(9) [OF that none [OF that]])
  ultimately show ?case using "0.prems"(1,2,6) by simp
next
  case (Suc n)
  let ?L = "unat (last_expiry_bucket s)" and ?E = "unat eb"
  let ?w = "unat (last_expiry_bucket s mod 60)"
  have w: "?w = ?L mod 60" "?w < 60" by (simp_all add: unat_mod)
  have le: "?L \<le> ?E" "?E < ?L + 60" using Suc.prems(6,7) by auto
  have small: "?E < 2 ^ 31" using unsigned_less [where ?'a = nat and w = now_ms] by (simp add: Suc.prems(4) cutoff_def)
  have go: "\<not> sint (eb - last_expiry_bucket s) < 0" using small le by (simp add: sint_diff)
  obtain u s1 where s1: "expire_bucket now_ms eb ?w s = Some (u, s1)" "hash_ok s1" "wheel_ok s1"
    "kept {i \<in> in_use s. entry_second s i mod 60 = ?w \<and> expired now_ms s i} s s1"
    "u \<longleftrightarrow> (\<exists>i\<in>in_use s. entry_second s i mod 60 = ?w \<and> \<not> expired now_ms s i \<and> due eb s i)"
    by (rule expire_bucket_spec [OF Suc.prems(1,2) w(2)])
  note f = kept_follows [OF s1(4)] and k = kept_same [OF s1(4)]
  have fresh: "?E \<le> entry_second s i" if "i \<in> in_use s" "\<not> expired now_ms s i" for i
    using expired_second(2) [OF Suc.prems(5) [OF that(1)] Suc.prems(3) that(2)] Suc.prems(4) by simp
  show ?case
  proof (cases u)
    case True
    then obtain i where "i \<in> in_use s" "entry_second s i mod 60 = ?w" "\<not> expired now_ms s i" "entry_second s i \<le> ?E"
      using s1(5) by (auto simp: due_nat)
    then have "?E mod 60 = ?L mod 60" using fresh [of i] w by simp
    then have L: "?E = ?L" by (rule wheel_step) (use le in auto)
    then have "entry_second s i mod 60 = ?w" if "i \<in> in_use s" "expired now_ms s i" for i
      using Suc.prems(8) [OF that] w by auto
    then have "{i \<in> in_use s. entry_second s i mod 60 = ?w \<and> expired now_ms s i} = {i \<in> in_use s. expired now_ms s i}" by auto
    then show ?thesis using go s1 True f L fresh by (auto simp: k)
  next
    case False
    let ?s = "s1\<lparr>last_expiry_bucket := last_expiry_bucket s1 + 1\<rparr>"
    have l: "unat (last_expiry_bucket s + 1) = ?L + 1"
      using small le by (simp add: unat_word_ariths)
    have "\<exists>k. ?L + 1 \<le> k \<and> k \<le> ?E \<and> entry_second s i mod 60 = k mod 60"
      if i: "i \<in> in_use s" "expired now_ms s i" "entry_second s i mod 60 \<noteq> ?w" for i
    proof -
      obtain k where "?L \<le> k" "k \<le> ?E" "entry_second s i mod 60 = k mod 60" using Suc.prems(8) [OF i(1,2)] by blast
      then show ?thesis using i(3) w by (intro exI [of _ k]) (cases "k = ?L", auto)
    qed
    moreover have "?L + 1 \<le> entry_second s i" if i: "i \<in> in_use s" "\<not> expired now_ms s i" for i
    proof (rule ccontr)
      assume "\<not> ?thesis"
      then have "entry_second s i = ?E" "?E = ?L" using fresh [OF i] le by auto
      then show False using s1(5) False i w by (auto simp: due_nat)
    qed
    ultimately have "\<exists>s'. expire_steps now_ms eb n ?s = Some s' \<and> hash_ok s' \<and> wheel_ok s' \<and> follows {i \<in> in_use ?s. expired now_ms ?s i} ?s s' \<and>
      unat (last_expiry_bucket s') \<le> ?E + 1 \<and> (\<forall>i\<in>in_use s'. unat (last_expiry_bucket s') \<le> entry_second s' i)"
      using s1(2,3) Suc.prems(3-7) l by (intro Suc.IH) (auto simp: last_update k)
    moreover have "{i \<in> in_use ?s. expired now_ms ?s i} = {i \<in> in_use s1. expired now_ms s i}" by (simp add: last_update k)
    ultimately have "\<exists>s'. expire_steps now_ms eb n ?s = Some s' \<and> hash_ok s' \<and> wheel_ok s' \<and>
      follows {i \<in> in_use s1. expired now_ms s i} s1 s' \<and>
      unat (last_expiry_bucket s') \<le> ?E + 1 \<and> (\<forall>i\<in>in_use s'. unat (last_expiry_bucket s') \<le> entry_second s' i)"
      by (simp only: last_update)
    then obtain s' where s': "expire_steps now_ms eb n ?s = Some s'" "hash_ok s'" "wheel_ok s'" "follows {i \<in> in_use s1. expired now_ms s i} s1 s'"
      "unat (last_expiry_bucket s') \<le> ?E + 1" "\<forall>i\<in>in_use s'. unat (last_expiry_bucket s') \<le> entry_second s' i"
      by blast
    have "{i \<in> in_use s. entry_second s i mod 60 = ?w \<and> expired now_ms s i} \<union> {i \<in> in_use s1. expired now_ms s i} = {i \<in> in_use s. expired now_ms s i}"
      by (auto simp: k)
    then have "follows {i \<in> in_use s. expired now_ms s i} s s'" using follows_trans [OF f s'(4)] by simp
    then show ?thesis using go s1(1) False s' by auto
  qed
qed


subsection \<open>The specification\<close>

type_synonym packet_key = "bytes \<times> u32"

definition seen_window :: "nat \<Rightarrow> (packet_key \<times> nat) set \<Rightarrow> (packet_key \<times> nat) set" where
  "seen_window now M = {(k, t) \<in> M. now < t + 60000}"

definition spec_seen :: "nat \<Rightarrow> packet_key \<Rightarrow> (packet_key \<times> nat) set \<Rightarrow> bool" where
  "spec_seen now k M \<longleftrightarrow> k \<in> fst ` seen_window now M"

definition spec_remember :: "nat \<Rightarrow> packet_key \<Rightarrow> (packet_key \<times> nat) set \<Rightarrow> (packet_key \<times> nat) set" where
  "spec_remember now k M =
    (if spec_seen now k M \<or> card (seen_window now M) = MAX_SEEN_PACKETS then seen_window now M
     else insert (k, now) (seen_window now M))"

text \<open>The packets the entries stand for.\<close>

definition seen_key :: "dedup_state \<Rightarrow> nat \<Rightarrow> packet_key" where
  "seen_key s i = (cstr (sp_source (seen_packets s ! i)), sp_id (seen_packets s ! i))"

definition live :: "dedup_state \<Rightarrow> (packet_key \<times> nat) set" where
  "live s = (\<lambda>i. (seen_key s i, unat (sp_seen_ms (seen_packets s ! i)))) ` in_use s"

definition dedup_inv :: "nat \<Rightarrow> dedup_state \<Rightarrow> bool" where
  "dedup_inv t s \<longleftrightarrow> hash_ok s \<and> wheel_ok s \<and> dedup_initialized s \<and> (\<forall>i<MAX_SEEN_PACKETS. length (sp_source (seen_packets s ! i)) = 32) \<and>
    inj_on (seen_key s) (in_use s) \<and> unat (last_expiry_bucket s) \<le> t div 1000 \<and>
    (\<forall>i\<in>in_use s. unat (last_expiry_bucket s) \<le> entry_second s i \<and> unat (sp_seen_ms (seen_packets s ! i)) \<le> t)"

lemma follows_live:
  assumes "follows X s s'"
  shows "live s' = (\<lambda>i. (seen_key s i, unat (sp_seen_ms (seen_packets s ! i)))) ` (in_use s - X)" "seen_key s' = seen_key s"
  by (simp_all add: live_def seen_key_def [abs_def] follows_same [OF assms])

lemma live_window:
  assumes "\<And>i. i \<in> in_use s \<Longrightarrow> sp_seen_ms (seen_packets s ! i) \<le> now_ms"
  shows "seen_window (unat now_ms) (live s) =
    (\<lambda>i. (seen_key s i, unat (sp_seen_ms (seen_packets s ! i)))) ` (in_use s - {i \<in> in_use s. expired now_ms s i})"
  using assms by (auto simp: seen_window_def live_def expired_nat)

lemma dedup_inv_later: "dedup_inv t s \<Longrightarrow> t \<le> t' \<Longrightarrow> dedup_inv t' s"
  using div_le_mono [of t t' 1000] by (fastforce simp: dedup_inv_def)

lemma dedup_inv_time: "dedup_inv t s \<Longrightarrow> t \<le> unat now_ms \<Longrightarrow> i \<in> in_use s \<Longrightarrow> sp_seen_ms (seen_packets s ! i) \<le> now_ms"
  by (fastforce simp: dedup_inv_def word_le_nat_alt)

lemma nothing_expired:
  assumes "dedup_inv t s" "t \<le> unat now_ms" "\<And>i. i \<in> in_use s \<Longrightarrow> \<not> expired now_ms s i"
  shows "dedup_inv (unat now_ms) s" "live s = seen_window (unat now_ms) (live s)"
proof -
  show "dedup_inv (unat now_ms) s" by (rule dedup_inv_later [OF assms(1,2)])
  have "in_use s - {i \<in> in_use s. expired now_ms s i} = in_use s" using assms(3) by blast
  then show "live s = seen_window (unat now_ms) (live s)"
    using live_window [OF dedup_inv_time [OF assms(1,2)]] by (simp add: live_def)
qed

text \<open>The seconds that the wheel goes through.\<close>

lemma wheel_span:
  assumes "e \<le> E" "l \<le> e"
  shows "\<exists>k. (if 60 \<le> E - l then E - 59 else l) \<le> k \<and> k \<le> (E :: nat) \<and> e mod 60 = k mod 60"
proof (cases "60 \<le> E - l")
  case True
  have "60 * ((E - e) div 60) + (E - e) mod 60 = E - e" "(E - e) mod 60 < 60" by simp_all
  then have "e + 60 * ((E - e) div 60) \<le> E" "E - 59 \<le> e + 60 * ((E - e) div 60)" using assms(1) by linarith+
  then show ?thesis using True by (intro exI [of _ "e + 60 * ((E - e) div 60)"]) simp
qed (use assms in auto)

lemma expire_spec:
  assumes "dedup_inv t s" "t \<le> unat now_ms"
  obtains s' where "expire_current_and_prior_buckets now_ms s = Some s'" "dedup_inv (unat now_ms) s'"
    "live s' = seen_window (unat now_ms) (live s)"
proof (cases "now_ms < SEEN_PACKET_TTL_MS")
  case True
  have "\<not> expired now_ms s i" if "i \<in> in_use s" for i
    using True dedup_inv_time [OF assms that] by (simp add: expired_nat word_less_nat_alt)
  from nothing_expired [OF assms this] show thesis
    using True by (intro that [of s]) (simp_all add: expire_current_and_prior_buckets_def)
next
  case False
  then have ttl: "SEEN_PACKET_TTL_MS \<le> now_ms" by simp
  define eb where "eb = (now_ms - SEEN_PACKET_TTL_MS) div DEDUP_EXPIRY_BUCKET_MS"
  define L E where "L = unat (last_expiry_bucket s)" and "E = unat eb"
  have E: "E = cutoff now_ms" by (simp only: E_def eb_def unat_cutoff [OF ttl])
  have now: "unat now_ms < 4294967296" using unsigned_less [where ?'a = nat and w = now_ms] by simp
  have inv: "hash_ok s" "wheel_ok s" "L \<le> unat now_ms div 1000" "\<And>i. i \<in> in_use s \<Longrightarrow> L \<le> entry_second s i"
    using dedup_inv_later [OF assms] by (auto simp: dedup_inv_def L_def)
  have small: "E < 2 ^ 31" "L < 2 ^ 31" using now inv(3) by (simp_all add: E cutoff_def)
  note seen = dedup_inv_time [OF assms]
  show thesis
  proof (cases "E < L")
    case True
    have "\<not> expired now_ms s i" if "i \<in> in_use s" for i
      using expired_second(1) [OF seen [OF that] ttl] inv(4) [OF that] True E by auto
    from nothing_expired [OF assms this] show thesis
      using True small ttl by (intro that [of s])
        (simp_all add: expire_current_and_prior_buckets_def eb_def [symmetric] Let_def sint_diff L_def E_def)
  next
    case False
    then have LE: "L \<le> E" by simp
    have span: "unat (eb - last_expiry_bucket s) = E - L" using LE by (simp add: unat_sub word_le_nat_alt L_def E_def)
    have wide: "60 \<le> eb - last_expiry_bucket s \<longleftrightarrow> 60 \<le> E - L" by (simp add: word_le_nat_alt span)
    define s0 where "s0 = (if 60 \<le> E - L then s\<lparr>last_expiry_bucket := eb - 60 + 1\<rparr> else s)"
    define n where "n = (if 60 \<le> E - L then 60 else E - L + 1)"
    have l0: "unat (last_expiry_bucket s0) = (if 60 \<le> E - L then E - 59 else L)"
    proof (cases "60 \<le> E - L")
      case True
      then have "unat (eb - 59) = E - 59" by (subst unat_sub) (simp_all add: word_le_nat_alt E_def)
      then show ?thesis using True by (simp add: s0_def)
    qed (simp add: s0_def L_def)
    have "unat (eb - last_expiry_bucket s + 1) = E - L + 1" if "\<not> 60 \<le> E - L"
      using span that by (simp add: unat_word_ariths)
    then have run: "expire_current_and_prior_buckets now_ms s = expire_steps now_ms eb n s0"
      using ttl LE small wide by (auto simp: expire_current_and_prior_buckets_def eb_def [symmetric] Let_def sint_diff
          L_def E_def n_def s0_def not_le)
    have s0: "hash_ok s0" "wheel_ok s0" "follows {} s s0"
      using inv(1,2) follows_refl [of s] by (simp_all add: s0_def last_update)
    note k0 = follows_same [OF s0(3)]
    have "\<exists>s'. expire_steps now_ms eb n s0 = Some s' \<and> hash_ok s' \<and> wheel_ok s' \<and> follows {i \<in> in_use s0. expired now_ms s0 i} s0 s' \<and>
      unat (last_expiry_bucket s') \<le> unat eb + 1 \<and> (\<forall>i\<in>in_use s'. unat (last_expiry_bucket s') \<le> entry_second s' i)"
    proof (rule expire_steps_spec [OF s0(1,2) ttl])
      show "unat eb = cutoff now_ms" using E by (simp add: E_def)
      show "unat (last_expiry_bucket s0) + n = unat eb + 1" using LE by (auto simp: l0 n_def E_def)
      show "n \<le> 60" by (simp add: n_def)
      fix i assume i: "i \<in> in_use s0"
      then have "i \<in> in_use s" by (simp add: k0)
      note i' = this seen [OF this] inv(4) [OF this]
      show "sp_seen_ms (seen_packets s0 ! i) \<le> now_ms" using i' by (simp add: k0)
      show "\<exists>k. unat (last_expiry_bucket s0) \<le> k \<and> k \<le> unat eb \<and> entry_second s0 i mod 60 = k mod 60" if "expired now_ms s0 i"
        using wheel_span [OF _ i'(3), of E] expired_second(1) [OF i'(2) ttl] that E unfolding l0 k0 E_def [symmetric] by simp
      show "unat (last_expiry_bucket s0) \<le> entry_second s0 i" if "\<not> expired now_ms s0 i"
        using i'(3) expired_second(2) [OF i'(2) ttl] that E LE by (auto simp: l0 k0)
    qed
    then obtain s' where s': "expire_steps now_ms eb n s0 = Some s'" "hash_ok s'" "wheel_ok s'" "follows {i \<in> in_use s. expired now_ms s i} s s'"
      "unat (last_expiry_bucket s') \<le> E + 1" "\<And>i. i \<in> in_use s' \<Longrightarrow> unat (last_expiry_bucket s') \<le> entry_second s' i"
      using follows_trans [OF s0(3)] by (auto simp: k0 E_def)
    note k = follows_same [OF s'(4)] follows_live [OF s'(4)]
    have "unat (last_expiry_bucket s') \<le> unat now_ms div 1000" using s'(5) ttl by (simp add: E cutoff_def word_le_nat_alt)
    then have "dedup_inv (unat now_ms) s'"
      using dedup_inv_later [OF assms] s'(2,3,6) by (auto simp: dedup_inv_def k intro: inj_on_subset)
    then show thesis using that [of s'] run s'(1) live_window [OF seen] by (simp add: k)
  qed
qed


subsection \<open>Looking up and inserting\<close>

lemma seen_find_chain:
  "linked (\<lambda>i. sp_next_hash (entries ! i)) h xs \<Longrightarrow>
   \<exists>r. seen_find entries source ident h = Some r \<and>
     (r \<noteq> -1 \<longleftrightarrow> (\<exists>i\<in>set xs. sp_active (entries ! i) \<and> seen_entry_matches (entries ! i) source ident))"
proof (induction xs arbitrary: h)
  case Nil
  then show ?case by (subst seen_find.simps) simp
next
  case (Cons i xs)
  show ?case
  proof (cases "sp_active (entries ! i) \<and> seen_entry_matches (entries ! i) source ident")
    case True
    then show ?thesis using Cons.prems by (subst seen_find.simps) simp
  next
    case False
    then have "seen_find entries source ident h = seen_find entries source ident (sp_next_hash (entries ! i))"
      using Cons.prems by (subst seen_find.simps) auto
    then show ?thesis using Cons.IH [of "sp_next_hash (entries ! i)"] Cons.prems False by auto
  qed
qed

lemma matches_key: "seen_entry_matches (seen_packets s ! i) source ident \<longleftrightarrow> seen_key s i = (cstr source, ident)"
  by (auto simp: seen_entry_matches_def seen_key_def streq_def)

lemma matches_bucket: "seen_key s i = (cstr source, ident) \<Longrightarrow> entry_bucket s i = seen_bucket_index source ident"
  by (simp add: seen_key_def entry_bucket_def seen_bucket_index_def seen_hash_def)

lemma seen_find_spec:
  assumes "hash_ok s"
  obtains r where "seen_find (seen_packets s) source ident (hash_buckets s ! seen_bucket_index source ident) = Some r"
    "r \<noteq> -1 \<longleftrightarrow> (cstr source, ident) \<in> fst ` live s"
proof -
  let ?b = "seen_bucket_index source ident"
  obtain xs where xs: "linked (next_hashes s) (hash_buckets s ! ?b) xs" "set xs = {i \<in> in_use s. entry_bucket s i = ?b}"
    using hash_ok_bucket [OF assms seen_bucket_index_less [of source ident]] unfolding chain_of_def by blast
  have "(\<exists>i\<in>set xs. sp_active (seen_packets s ! i) \<and> seen_entry_matches (seen_packets s ! i) source ident) \<longleftrightarrow> (cstr source, ident) \<in> fst ` live s"
    by (auto simp: xs(2) matches_key matches_bucket live_def image_iff in_use_def)
  then show thesis using seen_find_chain [of "seen_packets s" _ xs source ident] xs(1) that by (auto simp: next_hashes_def [abs_def])
qed

lemma alloc_entry_spec:
  assumes "hash_ok s" "alloc_entry s = (index, s')"
  shows "index = -1 \<and> s' = s \<and> in_use s = {..<MAX_SEEN_PACKETS} \<or>
    (\<exists>i<MAX_SEEN_PACKETS. i \<notin> in_use s \<and> index = int i \<and> s' = s\<lparr>free_list_head := next_hashes s i\<rparr> \<and>
      chain_of (next_hashes s) (next_hashes s i) ({..<MAX_SEEN_PACKETS} - in_use s - {i}))"
proof -
  from chain_of_head [OF hash_ok_free [OF assms(1)]] show ?thesis
  proof
    assume "free_list_head s = -1 \<and> {..<MAX_SEEN_PACKETS} - in_use s = {}"
    then show ?thesis using assms(2) in_use_less by (auto simp: alloc_entry_def)
  next
    assume "\<exists>i\<in>{..<MAX_SEEN_PACKETS} - in_use s. free_list_head s = int i \<and>
      chain_of (next_hashes s) (next_hashes s i) ({..<MAX_SEEN_PACKETS} - in_use s - {i})"
    then show ?thesis using assms(2) by (auto simp: alloc_entry_def next_hashes_def)
  qed
qed


lemma seen_bucket_index_cstr: "cstr a = cstr b \<Longrightarrow> seen_bucket_index a ident = seen_bucket_index b ident"
  by (simp add: seen_bucket_index_def seen_hash_def)

text \<open>A new element at the head of one list of a family.\<close>

lemma family_insert:
  assumes "\<And>k. k < n \<Longrightarrow> chain_of f (hs ! k) {j \<in> A. c j = k}" "length hs = n" "i \<notin> A" "k < n"
    "\<And>j. c' j = (if j = i then b else c j)" "\<And>j. f' j = (if j = i then hs ! b else f j)"
  shows "chain_of f' (hs[b := int i] ! k) {j \<in> insert i A. c' j = k}"
proof (cases "k = b")
  case True
  have "chain_of f' (int i) (insert i {j \<in> A. c j = k})"
    by (rule chain_of_insert [OF assms(1) [OF assms(4)]]) (use assms(3,6) True in auto)
  moreover have "{j \<in> insert i A. c' j = k} = insert i {j \<in> A. c j = k}" using True assms(3,5) by auto
  ultimately show ?thesis using True assms(2,4) by simp
next
  case False
  have "chain_of f' (hs ! k) {j \<in> A. c j = k}"
    by (rule chain_of_cong [OF assms(1) [OF assms(4)]]) (use assms(3,6) in auto)
  moreover have "{j \<in> insert i A. c' j = k} = {j \<in> A. c j = k}" using False assms(3,5) by auto
  ultimately show ?thesis using False by simp
qed

lemma insert_entry_spec:
  assumes inv: "dedup_inv (unat now_ms) s" and i: "i < MAX_SEEN_PACKETS" "i \<notin> in_use s"
    and free: "chain_of (next_hashes s) (next_hashes s i) ({..<MAX_SEEN_PACKETS} - in_use s - {i})"
    and clean: "copied 32 source = cstr source" and new: "(cstr source, ident) \<notin> fst ` live s"
  defines "s' \<equiv> insert_entry (int i) source ident now_ms (s\<lparr>free_list_head := next_hashes s i\<rparr>)"
  shows "dedup_inv (unat now_ms) s'" "live s' = insert ((cstr source, ident), unat now_ms) (live s)"
proof -
  let ?b = "seen_bucket_index source ident" and ?w = "unat now_ms div 1000 mod 60"
  have ok: "hash_ok s" "wheel_ok s" "length (seen_packets s) = 256" "length (hash_buckets s) = 64" "length (expiry_wheel s) = 60"
    "length (sp_source (seen_packets s ! i)) = 32"
    using inv i(1) by (simp_all add: dedup_inv_def hash_ok_sizes wheel_ok_def)
  have w: "unat (ucast (now_ms div DEDUP_EXPIRY_BUCKET_MS mod 60) :: u8) = ?w"
    by (simp add: unsigned_ucast_eq unat_mod unat_div take_bit_eq_mod)
  define e where "e = (seen_packets s ! i)\<lparr>sp_id := ident, sp_seen_ms := now_ms, sp_source := copy_field (sp_source (seen_packets s ! i)) source,
    sp_expiry_bucket := ucast (now_ms div DEDUP_EXPIRY_BUCKET_MS mod 60), sp_active := True, sp_next_hash := hash_buckets s ! ?b,
    sp_next_expiry := expiry_wheel s ! ?w\<rparr>"
  have s': "seen_packets s' = (seen_packets s)[i := e]" "hash_buckets s' = (hash_buckets s)[?b := int i]"
    "expiry_wheel s' = (expiry_wheel s)[?w := int i]" "free_list_head s' = next_hashes s i"
    "last_expiry_bucket s' = last_expiry_bucket s" "dedup_initialized s' = dedup_initialized s"
    by (simp_all add: s'_def insert_entry_def put_seen_def Let_def e_def w)
  have nth: "seen_packets s' ! j = (if j = i then e else seen_packets s ! j)" for j using i(1) ok(3) by (simp add: s'(1))
  have src: "cstr (sp_source e) = cstr source" "length (sp_source e) = 32" "sp_seen_ms e = now_ms"
    using ok(6) clean by (auto simp: e_def)
  have u: "in_use s' = insert i (in_use s)" using i(1) by (auto simp: in_use_def nth e_def)
  have key: "seen_key s' j = (if j = i then (cstr source, ident) else seen_key s j)" for j by (simp add: seen_key_def nth src) (simp add: e_def)
  have b: "entry_bucket s' j = (if j = i then ?b else entry_bucket s j)" for j
    using seen_bucket_index_cstr [OF src(1)] by (simp add: entry_bucket_def nth) (simp add: e_def)
  have sec: "entry_second s' j = (if j = i then unat now_ms div 1000 else entry_second s j)" for j by (simp add: entry_second_def nth e_def)
  have nh: "next_hashes s' j = (if j = i then hash_buckets s ! ?b else next_hashes s j)" for j by (simp add: next_hashes_def nth e_def)
  have ne: "next_expiries s' j = (if j = i then expiry_wheel s ! ?w else next_expiries s j)" for j by (simp add: next_expiries_def nth e_def)
  have "chain_of (next_hashes s') (hash_buckets s' ! k) {j \<in> in_use s'. entry_bucket s' j = k}" if k: "k < 64" for k
    unfolding s'(2) u by (rule family_insert [OF hash_ok_bucket [OF ok(1)] ok(4) i(2) k]) (simp_all add: b nh)
  moreover have "chain_of (next_hashes s') (free_list_head s') ({..<256} - in_use s')"
  proof -
    have "{..<256} - in_use s' = {..<256} - in_use s - {i}" by (auto simp: u)
    moreover have "chain_of (next_hashes s') (next_hashes s i) ({..<256} - in_use s - {i})" by (rule chain_of_cong [OF free]) (auto simp: nh)
    ultimately show ?thesis by (simp add: s'(4))
  qed
  ultimately have hash: "hash_ok s'" using ok by (simp add: hash_ok_def s'(1,2))
  have chain: "chain_of (next_expiries s) (expiry_wheel s ! k) {j \<in> in_use s. entry_second s j mod 60 = k}" if "k < 60" for k
    using ok(2) that by (simp add: wheel_ok_def)
  have "chain_of (next_expiries s') (expiry_wheel s' ! k) {j \<in> in_use s'. entry_second s' j mod 60 = k}" if k: "k < 60" for k
    unfolding s'(3) u by (rule family_insert [OF chain ok(5) i(2) k]) (simp_all add: sec ne)
  then have wheel: "wheel_ok s'" using ok(5) by (simp add: wheel_ok_def s'(3))
  have seen: "sp_seen_ms (seen_packets s' ! j) = (if j = i then now_ms else sp_seen_ms (seen_packets s ! j))" for j by (simp add: nth e_def)
  show live: "live s' = insert ((cstr source, ident), unat now_ms) (live s)"
    using i(2) by (auto simp: live_def u key seen image_iff)
  have "inj_on (seen_key s) (in_use s)" using inv by (simp add: dedup_inv_def)
  then have "inj_on (seen_key s') (in_use s')" using new i(2) by (auto simp: inj_on_def u key live_def image_iff)
  then show "dedup_inv (unat now_ms) s'"
    using inv hash wheel i(2) by (auto simp: dedup_inv_def s'(5,6) nth src u sec seen)
qed


subsection \<open>The operations implement the specification\<close>

lemma linked_upt: "k < n \<Longrightarrow> (\<And>i. i < n \<Longrightarrow> f i = (if i < n - 1 then int i + 1 else -1)) \<Longrightarrow> linked f (int k) [k..<n]"
proof (induction "n - k" arbitrary: k)
  case (Suc d)
  show ?case
  proof (cases "Suc k = n")
    case True
    then show ?thesis using Suc.prems by (simp add: upt_rec)
  next
    case False
    then have "linked f (int (Suc k)) [Suc k..<n]" using Suc by (intro Suc.hyps(1)) auto
    moreover have "f k = int (Suc k)" using Suc.prems False by simp
    ultimately show ?thesis using Suc.prems(1) by (simp add: upt_conv_Cons)
  qed
qed simp

lemma dedup_start:
  assumes "unat init_ms < unat now_ms + 60000"
  shows "dedup_inv (unat now_ms) (dedup_init_storage init_ms dedup_zero)" "live (dedup_init_storage init_ms dedup_zero) = {}"
proof -
  let ?s = "dedup_init_storage init_ms dedup_zero"
  have e: "seen_packets ?s ! i = seen_packet_zero\<lparr>sp_next_hash := if i < 255 then int i + 1 else -1, sp_next_expiry := -1\<rparr>" if "i < 256" for i
    using that by (simp add: dedup_init_storage_def dedup_lists_empty_def dedup_zero_def Let_def nth_enumerate_eq seen_packet_zero_def)
  have z: "length (seen_packets ?s) = 256" "hash_buckets ?s = replicate 64 (-1)" "expiry_wheel ?s = replicate 60 (-1)" "free_list_head ?s = 0"
    "last_expiry_bucket ?s = first_expiry_bucket init_ms" "dedup_initialized ?s"
    by (simp_all add: dedup_init_storage_def dedup_lists_empty_def dedup_zero_def Let_def)
  have u: "in_use ?s = {}" using e by (auto simp: in_use_def seen_packet_zero_def)
  have "linked (next_hashes ?s) (int 0) [0..<256]" by (rule linked_upt) (simp_all add: next_hashes_def e)
  then have "chain_of (next_hashes ?s) 0 {..<256}" by (auto simp: chain_of_def lessThan_atLeast0)
  then have "hash_ok ?s" "wheel_ok ?s" by (simp_all add: hash_ok_def wheel_ok_def u z)
  moreover have "unat (first_expiry_bucket init_ms) \<le> unat now_ms div 1000"
    using assms by (auto simp: first_expiry_bucket_def not_less unat_cutoff cutoff_def word_le_nat_alt intro!: div_le_mono)
  ultimately show "dedup_inv (unat now_ms) ?s" using e by (simp add: dedup_inv_def z u seen_packet_zero_def)
  show "live ?s = {}" by (simp add: live_def u)
qed

lemma init_idem: "dedup_init_storage a (dedup_init_storage b s) = dedup_init_storage b s" "dedup_initialized s \<Longrightarrow> dedup_init_storage a s = s"
  by (simp_all add: dedup_init_storage_def Let_def)

text \<open>A state that stands for \<open>M\<close>, at a time not before \<open>t\<close>; before the first call, the zeroed statics.\<close>

definition dedup_rel :: "nat \<Rightarrow> dedup_state \<Rightarrow> (packet_key \<times> nat) set \<Rightarrow> bool" where
  "dedup_rel t s M \<longleftrightarrow> s = dedup_zero \<and> M = {} \<or> dedup_inv t s \<and> live s = M"

lemma expire_rel:
  assumes "dedup_rel t s M" "t \<le> unat now_ms" "unat init_ms < unat now_ms + 60000"
  obtains s' where "expire_current_and_prior_buckets now_ms (dedup_init_storage init_ms s) = Some s'" "dedup_inv (unat now_ms) s'"
    "live s' = seen_window (unat now_ms) M"
proof -
  obtain t' where t': "t' \<le> unat now_ms" "dedup_inv t' (dedup_init_storage init_ms s)" "live (dedup_init_storage init_ms s) = M"
    using assms dedup_start [OF assms(3)] by (cases "s = dedup_zero \<and> M = {}") (auto simp: dedup_rel_def dedup_inv_def init_idem)
  show thesis using expire_spec [OF t'(2,1)] t'(3) that by blast
qed

lemma packet_seen_rel:
  assumes "dedup_rel t s M" "t \<le> unat now_ms" "unat init_ms < unat now_ms + 60000"
  shows "\<exists>s'. packet_seen now_ms init_ms source ident s = Some (spec_seen (unat now_ms) (cstr source, ident) M, s') \<and>
    dedup_rel (unat now_ms) s' (seen_window (unat now_ms) M)"
proof -
  obtain s' where s': "expire_current_and_prior_buckets now_ms (dedup_init_storage init_ms s) = Some s'" "dedup_inv (unat now_ms) s'"
    "live s' = seen_window (unat now_ms) M" by (rule expire_rel [OF assms])
  have "hash_ok s'" using s'(2) by (simp add: dedup_inv_def)
  then obtain r where "seen_find (seen_packets s') source ident (hash_buckets s' ! seen_bucket_index source ident) = Some r"
    "r \<noteq> -1 \<longleftrightarrow> (cstr source, ident) \<in> fst ` live s'" by (rule seen_find_spec)
  then show ?thesis using s' by (auto simp: packet_seen_def spec_seen_def dedup_rel_def)
qed

lemma card_live: "dedup_inv t s \<Longrightarrow> card (live s) = MAX_SEEN_PACKETS \<longleftrightarrow> in_use s = {..<MAX_SEEN_PACKETS}"
proof -
  assume "dedup_inv t s"
  then have "card (live s) = card (in_use s)" unfolding live_def
    by (intro card_image) (auto simp: dedup_inv_def inj_on_def)
  moreover have "in_use s \<subseteq> {..<MAX_SEEN_PACKETS}" using in_use_less by blast
  then have "card (in_use s) = card {..<MAX_SEEN_PACKETS} \<longleftrightarrow> in_use s = {..<MAX_SEEN_PACKETS}"
    using card_subset_eq [of "{..<MAX_SEEN_PACKETS}" "in_use s"] by (metis finite_lessThan)
  ultimately show ?thesis by (simp only: card_lessThan)
qed

lemma remember_packet_rel:
  assumes "dedup_rel t s M" "t \<le> unat now_ms" "unat init_ms < unat now_ms + 60000" "copied 32 source = cstr source"
  shows "\<exists>s'. remember_packet now_ms init_ms source ident s = Some s' \<and>
    dedup_rel (unat now_ms) s' (spec_remember (unat now_ms) (cstr source, ident) M)"
proof -
  obtain s' where s': "expire_current_and_prior_buckets now_ms (dedup_init_storage init_ms s) = Some s'" "dedup_inv (unat now_ms) s'"
    "live s' = seen_window (unat now_ms) M" by (rule expire_rel [OF assms(1-3)])
  have h: "hash_ok s'" using s'(2) by (simp add: dedup_inv_def)
  then obtain r where r: "seen_find (seen_packets s') source ident (hash_buckets s' ! seen_bucket_index source ident) = Some r"
    "r \<noteq> -1 \<longleftrightarrow> (cstr source, ident) \<in> fst ` live s'" by (rule seen_find_spec)
  obtain i s1 where a: "alloc_entry s' = (i, s1)" by (cases "alloc_entry s'")
  show ?thesis
  proof (cases "(cstr source, ident) \<in> fst ` live s'")
    case True
    then show ?thesis using s' r by (auto simp: remember_packet_def spec_remember_def spec_seen_def dedup_rel_def)
  next
    case False
    from alloc_entry_spec [OF h a] show ?thesis
    proof (elim disjE exE conjE)
      assume "i = -1" "s1 = s'" "in_use s' = {..<MAX_SEEN_PACKETS}"
      then show ?thesis using s' r a False card_live [OF s'(2)]
        by (auto simp: remember_packet_def spec_remember_def spec_seen_def dedup_rel_def)
    next
      fix k assume k: "k < MAX_SEEN_PACKETS" "k \<notin> in_use s'" "i = int k" "s1 = s'\<lparr>free_list_head := next_hashes s' k\<rparr>"
        "chain_of (next_hashes s') (next_hashes s' k) ({..<MAX_SEEN_PACKETS} - in_use s' - {k})"
      have "in_use s' \<noteq> {..<MAX_SEEN_PACKETS}" using k(1,2) by blast
      then show ?thesis using s' r a False k(3,4) card_live [OF s'(2)] insert_entry_spec [OF s'(2) k(1,2,5) assms(4) False]
        by (auto simp: remember_packet_def spec_remember_def spec_seen_def dedup_rel_def)
    qed
  qed
qed


text \<open>A sequence of calls, and what the specification answers.\<close>

datatype dedup_op = Is_Seen (op_now: u32) (op_init: u32) (op_source: bytes) (op_ident: u32) | Remember (op_now: u32) (op_init: u32) (op_source: bytes) (op_ident: u32)

fun dedup_run :: "dedup_op list \<Rightarrow> dedup_state \<Rightarrow> (bool list \<times> dedup_state) option" where
  "dedup_run [] s = Some ([], s)"
| "dedup_run (Is_Seen now_ms init_ms source ident # ops) s = do {
     (seen, s) \<leftarrow> packet_seen now_ms init_ms source ident s;
     (answers, s) \<leftarrow> dedup_run ops s;
     Some (seen # answers, s)
   }"
| "dedup_run (Remember now_ms init_ms source ident # ops) s = do {
     s \<leftarrow> remember_packet now_ms init_ms source ident s;
     dedup_run ops s
   }"

fun spec_run :: "dedup_op list \<Rightarrow> (packet_key \<times> nat) set \<Rightarrow> bool list \<times> (packet_key \<times> nat) set" where
  "spec_run [] M = ([], M)"
| "spec_run (Is_Seen now_ms init_ms source ident # ops) M =
    (case spec_run ops (seen_window (unat now_ms) M) of (answers, M') \<Rightarrow> (spec_seen (unat now_ms) (cstr source, ident) M # answers, M'))"
| "spec_run (Remember now_ms init_ms source ident # ops) M = spec_run ops (spec_remember (unat now_ms) (cstr source, ident) M)"

text \<open>
  The clock does not go back, the first call reads it a second time within a minute, and
  sources are printable strings that fit their field.
\<close>

fun calls_ok :: "nat \<Rightarrow> dedup_op list \<Rightarrow> bool" where
  "calls_ok t [] \<longleftrightarrow> True"
| "calls_ok t (call # ops) \<longleftrightarrow> t \<le> unat (op_now call) \<and> unat (op_init call) < unat (op_now call) + 60000 \<and>
    copied 32 (op_source call) = cstr (op_source call) \<and> calls_ok (unat (op_now call)) ops"

lemma dedup_run_rel:
  "dedup_rel t s M \<Longrightarrow> calls_ok t ops \<Longrightarrow> \<exists>s'. dedup_run ops s = Some (fst (spec_run ops M), s')"
proof (induction ops arbitrary: t s M)
  case (Cons call ops)
  have c: "t \<le> unat (op_now call)" "unat (op_init call) < unat (op_now call) + 60000" "copied 32 (op_source call) = cstr (op_source call)"
    "calls_ok (unat (op_now call)) ops" using Cons.prems(2) by simp_all
  show ?case
  proof (cases call)
    case (Is_Seen now_ms init_ms source ident)
    with packet_seen_rel [OF Cons.prems(1) c(1,2), of source ident] obtain s' where
      s': "packet_seen now_ms init_ms source ident s = Some (spec_seen (unat now_ms) (cstr source, ident) M, s')"
        "dedup_rel (unat now_ms) s' (seen_window (unat now_ms) M)" by auto
    then show ?thesis using Cons.IH [OF s'(2)] c(4) Is_Seen by (auto split: prod.split)
  next
    case (Remember now_ms init_ms source ident)
    with remember_packet_rel [OF Cons.prems(1) c(1-3), of ident] obtain s' where
      s': "remember_packet now_ms init_ms source ident s = Some s'" "dedup_rel (unat now_ms) s' (spec_remember (unat now_ms) (cstr source, ident) M)" by auto
    then show ?thesis using Cons.IH [OF s'(2)] c(4) Remember by auto
  qed
qed simp

text \<open>
  C13. The linked lists of the duplicate filter implement a 60-second window as long as the sources
  are printable and fit the field and the 32-bit clock neither runs backwards nor wraps around
  (\<open>calls_ok\<close>): from the zeroed statics, however such calls of \<open>packet_seen\<close> and
  \<open>remember_packet\<close> follow one another, every call returns, and every answer is the one of a
  set that forgets a packet after 60 seconds and takes no 257th. Both conditions matter:
  \<open>unprintable_source_hangs\<close> and \<open>wrapped_clock_stops_expiry\<close> show what happens without
  them.
\<close>

theorem dedup_refines_window:
  assumes "calls_ok 0 ops"
  shows "\<exists>s'. dedup_run ops dedup_zero = Some (fst (spec_run ops {}), s')"
  using dedup_run_rel [OF _ assms] by (simp add: dedup_rel_def)

theorem dedup_refines_window_witness:
  "\<exists>s'. dedup_run [Remember 5 5 (lit ''N1'') 7, Is_Seen 9 9 (lit ''N1'') 7, Is_Seen 60005 60005 (lit ''N1'') 7] dedup_zero = Some ([True, False], s')"
proof -
  have "calls_ok 0 [Remember 5 5 (lit ''N1'') 7, Is_Seen 9 9 (lit ''N1'') 7, Is_Seen 60005 60005 (lit ''N1'') 7]"
    by (simp add: lit_def copied_def cstr_Cons printable_def)
  from dedup_refines_window [OF this] show ?thesis
    by (simp add: spec_remember_def spec_seen_def seen_window_def)
qed

subsection \<open>Outside the bounds\<close>

lemma self_loop_diverges:
  assumes "sp_next_hash (entries ! i) = int i" "\<not> (sp_active (entries ! i) \<and> seen_entry_matches (entries ! i) source ident)"
  shows "seen_find entries source ident (int i) = None"
proof -
  have "seen_find en so idn h = Some r \<Longrightarrow> \<not> (en = entries \<and> so = source \<and> idn = ident \<and> h = int i)" for en so idn h r
    by (rule seen_find.raw_induct [where P = "\<lambda>en so idn h r. \<not> (en = entries \<and> so = source \<and> idn = ident \<and> h = int i)"])
      (use assms in \<open>fastforce split: if_splits\<close>)
  then show ?thesis by (metis option.exhaust)
qed

declare seen_find.simps [code] hash_unlink.simps [code] expire_list.simps [code]

text \<open>
  The filter after the first packet, and after it expired: its entry is removed from the chain
  its stored source belongs to, and stays in the chain it was put into.
\<close>

definition fresh_filter :: dedup_state where
  "fresh_filter = dedup_init_storage 1000 dedup_zero"

lemma fresh_filter_simps:
  "hash_buckets fresh_filter = replicate 64 (-1)" "expiry_wheel fresh_filter = replicate 60 (-1)" "free_list_head fresh_filter = 0"
  "last_expiry_bucket fresh_filter = 0" "dedup_initialized fresh_filter" "length (seen_packets fresh_filter) = 256"
  "i < 256 \<Longrightarrow> seen_packets fresh_filter ! i = seen_packet_zero\<lparr>sp_next_hash := if i < 255 then int i + 1 else -1, sp_next_expiry := -1\<rparr>"
  by (simp_all add: fresh_filter_def dedup_init_storage_def dedup_lists_empty_def dedup_zero_def first_expiry_bucket_def Let_def
      nth_enumerate_eq seen_packet_zero_def)

lemma expire_bucket_empty:
  "expiry_wheel s ! w = -1 \<Longrightarrow> expire_bucket now_ms eb w s = Some (False, s)"
  by (subst expire_bucket_def, subst expire_list.simps) (simp, metis list_update_id dedup_state.surjective dedup_state.update_convs(3))

lemma hash_unlink_empty: "hash_buckets s ! b = -1 \<Longrightarrow> hash_unlink index (Bucket b) s = Some s"
  by (subst hash_unlink.simps) simp

text \<open>The walk along entries that are not in use, to the end of their list.\<close>

lemma seen_find_idle:
  assumes "linked (\<lambda>i. sp_next_hash (es ! i)) h xs" "\<forall>i\<in>set xs. \<not> sp_active (es ! i)"
  shows "seen_find es source ident h = Some (-1)"
  using assms
proof (induction xs arbitrary: h)
  case Nil
  then show ?case by (subst seen_find.simps) simp
next
  case (Cons x xs)
  then show ?case by (subst seen_find.simps) auto
qed

lemma idle_filter_find:
  assumes "length es = 256" "\<And>i. i < 256 \<Longrightarrow> \<not> sp_active (es ! i) \<and> sp_next_hash (es ! i) = (if i < 255 then int i + 1 else -1)" "k < 256"
  shows "seen_find es source ident (int k) = Some (-1)"
proof (rule seen_find_idle)
  show "linked (\<lambda>i. sp_next_hash (es ! i)) (int k) [k..<256]" by (rule linked_upt [OF assms(3)]) (use assms(2) in auto)
qed (use assms(2) in auto)

text \<open>The first packet.\<close>

definition first_remembered :: "bytes \<Rightarrow> u32 \<Rightarrow> dedup_state" where
  "first_remembered source ident = insert_entry 0 source ident 1000 (fresh_filter\<lparr>free_list_head := 1\<rparr>)"

lemma first_remember: "remember_packet 1000 1000 source ident dedup_zero = Some (first_remembered source ident)"
proof -
  have "expire_current_and_prior_buckets 1000 fresh_filter = Some fresh_filter"
    by (simp add: expire_current_and_prior_buckets_def)
  moreover have "seen_find (seen_packets fresh_filter) source ident (-1) = Some (-1)" by (subst seen_find.simps) simp
  ultimately show ?thesis
    using fresh_filter_simps(7) [of 0]
    by (simp add: remember_packet_def flip: fresh_filter_def)
      (simp add: fresh_filter_simps seen_bucket_index_less alloc_entry_def first_remembered_def)
qed

lemma expire_steps_idle:
  "unat (last_expiry_bucket s) = a \<Longrightarrow> a + n \<le> 11 \<Longrightarrow> \<forall>w\<in>{a..<a + n}. expiry_wheel s ! w = -1 \<Longrightarrow>
   expire_steps now_ms 10 n s = Some (s\<lparr>last_expiry_bucket := last_expiry_bucket s + of_nat n\<rparr>)"
proof (induction n arbitrary: a s)
  case (Suc n)
  have "\<not> sint (10 - last_expiry_bucket s) < 0" using Suc.prems by (subst sint_diff) auto
  moreover have "unat (last_expiry_bucket s mod 60) = a" using Suc.prems by (simp add: unat_mod)
  moreover have "expire_bucket now_ms 10 a s = Some (False, s)" using Suc.prems(3) by (intro expire_bucket_empty) auto
  moreover have "unat (last_expiry_bucket s + 1) = Suc a" using Suc.prems by (subst unat_plus_simple [THEN iffD1]) (auto simp: word_le_nat_alt unat_word_ariths)
  then have "expire_steps now_ms 10 n (s\<lparr>last_expiry_bucket := last_expiry_bucket s + 1\<rparr>) =
      Some (s\<lparr>last_expiry_bucket := last_expiry_bucket s + 1 + of_nat n\<rparr>)"
    using Suc.IH [of "s\<lparr>last_expiry_bucket := last_expiry_bucket s + 1\<rparr>" "Suc a"] Suc.prems by simp
  ultimately show ?case by (simp add: add.assoc)
qed simp

lemma first_remembered_simps:
  "hash_buckets (first_remembered source ident) = (replicate 64 (-1))[seen_bucket_index source ident := 0]"
  "expiry_wheel (first_remembered source ident) = (replicate 60 (-1))[1 := 0]" "free_list_head (first_remembered source ident) = 1"
  "last_expiry_bucket (first_remembered source ident) = 0" "dedup_initialized (first_remembered source ident)"
  "length (seen_packets (first_remembered source ident)) = 256"
  "sp_active (seen_packets (first_remembered source ident) ! 0)" "sp_seen_ms (seen_packets (first_remembered source ident) ! 0) = 1000"
  "sp_id (seen_packets (first_remembered source ident) ! 0) = ident" "sp_next_expiry (seen_packets (first_remembered source ident) ! 0) = -1"
  "cstr (sp_source (seen_packets (first_remembered source ident) ! 0)) = copied 32 source"
  "length (sp_source (seen_packets (first_remembered source ident) ! 0)) = 32"
  "0 < i \<Longrightarrow> i < 256 \<Longrightarrow> seen_packets (first_remembered source ident) ! i = seen_packets fresh_filter ! i"
  using seen_bucket_index_less [of source ident]
  by (simp_all add: first_remembered_def insert_entry_def put_seen_def Let_def fresh_filter_simps seen_packet_zero_def)

text \<open>The filter when that packet has expired.\<close>

definition first_expired :: "bytes \<Rightarrow> u32 \<Rightarrow> dedup_state" where
  "first_expired source ident =
    (release_seen 0 ((first_remembered source ident)\<lparr>expiry_wheel := replicate 60 (-1)\<rparr>))\<lparr>last_expiry_bucket := 11\<rparr>"

lemma first_expires:
  assumes "seen_bucket_index (copied 32 source) ident \<noteq> seen_bucket_index source ident"
  shows "expire_current_and_prior_buckets 70000 (first_remembered source ident) = Some (first_expired source ident)"
proof -
  let ?s = "first_remembered source ident"
  let ?t = "?s\<lparr>last_expiry_bucket := 1, expiry_wheel := replicate 60 (-1)\<rparr>"
  let ?b = "seen_bucket_index (sp_source (seen_packets ?s ! 0)) ident"
  have w: "(replicate 60 (-1 :: int))[1 := 0, 1 := -1] = replicate 60 (-1)" by (simp add: list_update_same_conv)
  have "?b = seen_bucket_index (copied 32 source) ident"
    by (rule seen_bucket_index_cstr) (simp add: first_remembered_simps)
  then have "hash_buckets ?t ! ?b = -1" using assms seen_bucket_index_less [of "copied 32 source" ident]
    by (simp add: first_remembered_simps)
  then have "remove_from_hash 0 ?t = Some ?t"
    by (simp add: remove_from_hash_def first_remembered_simps(9) Let_def) (rule hash_unlink_empty, simp)
  then have "expire_list 70000 10 0 (-1) (-1) False ?t = Some (-1, -1, False, release_seen 0 ?t)"
    by (subst expire_list.simps) (simp add: first_remembered_simps, subst expire_list.simps, simp)
  then have 1: "expire_bucket 70000 10 1 (?s\<lparr>last_expiry_bucket := 1\<rparr>) = Some (False, release_seen 0 ?t)"
  proof -
    have "expiry_wheel (?s\<lparr>last_expiry_bucket := 1\<rparr>) ! 1 = 0"
      "(?s\<lparr>last_expiry_bucket := 1\<rparr>)\<lparr>expiry_wheel := (expiry_wheel (?s\<lparr>last_expiry_bucket := 1\<rparr>))[1 := -1]\<rparr> = ?t"
      using w by (simp_all add: first_remembered_simps(2))
    moreover have "(release_seen 0 ?t)\<lparr>expiry_wheel := (expiry_wheel (release_seen 0 ?t))[1 := -1]\<rparr> = release_seen 0 ?t"
      by (simp add: release_seen_def put_seen_def list_update_same_conv)
    ultimately show ?thesis using \<open>expire_list _ _ _ _ _ _ ?t = _\<close>
      unfolding expire_bucket_def by (simp only: bind.bind_lunit Let_def prod.case) simp
  qed
  define r where "r = release_seen 0 ?t"
  have r: "last_expiry_bucket r = 1" "expiry_wheel r = replicate 60 (-1)" by (simp_all add: r_def release_seen_def)
  have n: "\<not> sint (10 - 1 :: u32) < 0" "\<not> sint (10 - 0 :: u32) < 0" using sint_diff [of 10 1] sint_diff [of 10 0] by simp_all
  have "expire_steps 70000 10 9 (r\<lparr>last_expiry_bucket := 2\<rparr>) = Some (r\<lparr>last_expiry_bucket := 11\<rparr>)"
    using expire_steps_idle [of "r\<lparr>last_expiry_bucket := 2\<rparr>" 2 9 70000] by (simp add: r(2))
  then have "expire_steps 70000 10 (Suc 9) (?s\<lparr>last_expiry_bucket := 1\<rparr>) = Some (r\<lparr>last_expiry_bucket := 11\<rparr>)"
    using n(1) 1 r(1) by (subst expire_steps.simps(2)) (simp flip: r_def)
  moreover have "expire_bucket 70000 10 0 ?s = Some (False, ?s)" by (rule expire_bucket_empty) (simp add: first_remembered_simps)
  ultimately have "expire_steps 70000 10 (Suc (Suc 9)) ?s = Some (r\<lparr>last_expiry_bucket := 11\<rparr>)"
    using n(2) by (subst expire_steps.simps(2)) (simp add: first_remembered_simps(4))
  moreover have "r\<lparr>last_expiry_bucket := 11\<rparr> = first_expired source ident"
    by (simp add: r_def first_expired_def release_seen_def put_seen_def)
  ultimately show ?thesis
    by (simp add: expire_current_and_prior_buckets_def first_remembered_simps(4) Let_def)
qed

text \<open>The walk for the packet now follows the stale link of its bucket into the free list, and finds nothing.\<close>

lemma first_expired_simps:
  "hash_buckets (first_expired source ident) = (replicate 64 (-1))[seen_bucket_index source ident := 0]"
  "free_list_head (first_expired source ident) = 0" "last_expiry_bucket (first_expired source ident) = 11"
  "dedup_initialized (first_expired source ident)" "length (seen_packets (first_expired source ident)) = 256"
  "length (sp_source (seen_packets (first_expired source ident) ! 0)) = 32"
  "i < 256 \<Longrightarrow> \<not> sp_active (seen_packets (first_expired source ident) ! i) \<and>
     sp_next_hash (seen_packets (first_expired source ident) ! i) = (if i < 255 then int i + 1 else -1)"
  using fresh_filter_simps(7) [of i]
  by (simp_all add: first_expired_def release_seen_def first_remembered_simps)
    (cases "i = 0", simp_all add: first_remembered_simps seen_packet_zero_def)

definition remembered_again :: "bytes \<Rightarrow> u32 \<Rightarrow> dedup_state" where
  "remembered_again source ident = insert_entry 0 source ident 70000 ((first_expired source ident)\<lparr>free_list_head := 1\<rparr>)"

lemma second_remember:
  assumes "seen_bucket_index (copied 32 source) ident \<noteq> seen_bucket_index source ident"
  shows "remember_packet 70000 70000 source ident (first_remembered source ident) = Some (remembered_again source ident)"
proof -
  let ?s = "first_expired source ident"
  have "hash_buckets ?s ! seen_bucket_index source ident = int 0"
    using seen_bucket_index_less [of source ident] by (simp add: first_expired_simps(1))
  moreover have "seen_find (seen_packets ?s) source ident (int 0) = Some (-1)"
    by (rule idle_filter_find) (use first_expired_simps(5,7) in auto)
  moreover have "sp_next_hash (seen_packets ?s ! 0) = 1" using first_expired_simps(7) [of 0 source ident] by simp
  ultimately show ?thesis
    by (simp add: remember_packet_def init_idem first_remembered_simps(5) first_expires [OF assms] alloc_entry_def first_expired_simps(2)
        remembered_again_def)
qed

lemma remembered_again_simps:
  "hash_buckets (remembered_again source ident) ! seen_bucket_index source ident = 0"
  "sp_next_hash (seen_packets (remembered_again source ident) ! 0) = 0"
  "cstr (sp_source (seen_packets (remembered_again source ident) ! 0)) = copied 32 source"
  "last_expiry_bucket (remembered_again source ident) = 11" "dedup_initialized (remembered_again source ident)"
proof -
  have l: "length (sp_source (seen_packets (first_expired source ident) ! 0)) = 32" by (rule first_expired_simps(6))
  then have "sp_source (seen_packets (first_expired source ident) ! 0) \<noteq> []" by auto
  then show "cstr (sp_source (seen_packets (remembered_again source ident) ! 0)) = copied 32 source"
    using l by (simp add: remembered_again_def insert_entry_def put_seen_def Let_def first_expired_simps)
qed (use seen_bucket_index_less [of source ident] in
    \<open>simp_all add: remembered_again_def insert_entry_def put_seen_def Let_def first_expired_simps\<close>)

text \<open>
  C32. A packet whose source the filter changes can stop a node: its entry is hashed under the
  source as received but stored, and later removed, under the filtered one. For any source and
  number where the two fall into different buckets, remembering the packet twice, the second
  time after it expired, links the entry to itself, and the next look at the packet never
  returns, with the mutex held.
\<close>

theorem unprintable_source_hangs:
  assumes "seen_bucket_index (copied 32 source) ident \<noteq> seen_bucket_index source ident"
  shows "\<exists>s t. remember_packet 1000 1000 source ident dedup_zero = Some s \<and> remember_packet 70000 70000 source ident s = Some t \<and>
    hash_buckets t ! seen_bucket_index source ident = 0 \<and> sp_next_hash (seen_packets t ! 0) = 0 \<and>
    packet_seen 70100 70100 source ident t = None \<and> remember_packet 70100 70100 source ident t = None"
proof -
  let ?t = "remembered_again source ident"
  have "cstr source \<noteq> copied 32 source"
    using assms seen_bucket_index_cstr [of source "copied 32 source" ident] by auto
  then have "seen_find (seen_packets ?t) source ident (int 0) = None"
    by (intro self_loop_diverges) (auto simp: remembered_again_simps seen_entry_matches_def streq_def)
  moreover have "expire_current_and_prior_buckets 70100 ?t = Some ?t"
    by (simp add: expire_current_and_prior_buckets_def remembered_again_simps(4))
  ultimately have "packet_seen 70100 70100 source ident ?t = None" "remember_packet 70100 70100 source ident ?t = None"
    by (simp_all add: packet_seen_def remember_packet_def init_idem remembered_again_simps)
  then show ?thesis using first_remember second_remember [OF assms] remembered_again_simps by blast
qed

theorem unprintable_source_hangs_witness:
  "\<exists>s t. remember_packet 1000 1000 [1, 0] 1 dedup_zero = Some s \<and> remember_packet 70000 70000 [1, 0] 1 s = Some t \<and>
    remember_packet 70100 70100 [1, 0] 1 t = None"
proof -
  have "seen_bucket_index (copied 32 [1, 0]) 1 \<noteq> seen_bucket_index [1, 0] 1" by code_simp
  from unprintable_source_hangs [OF this] show ?thesis by blast
qed

text \<open>
  Once the clock is behind the wheel, as it is for the 49 days after its 32 bits wrapped
  around, nothing expires.
\<close>

lemma wrapped_clock_stops_expiry:
  assumes "SEEN_PACKET_TTL_MS \<le> now_ms" "cutoff now_ms < unat (last_expiry_bucket s)" "unat (last_expiry_bucket s) < 2 ^ 31"
  shows "expire_current_and_prior_buckets now_ms s = Some s"
  using assms by (auto simp: expire_current_and_prior_buckets_def Let_def not_less sint_diff unat_cutoff)

end
