(* ===== verification/Replay_Protection.thy ===== *)
theory Replay_Protection
  imports Slot_Table Mesh_Packet
begin

text \<open>
  \<open>src/mesh/replay_protection.c\<close>: per source the highest sequence number seen and a
  32-bit window of the numbers below it. The static table is the state; the mutex makes
  \<open>replay_protection_accept\<close> one atomic step, and its guards for a missing mutex or
  a NULL source are never taken (the only caller passes a packet's own field).
\<close>

abbreviation REPLAY_SOURCE_TABLE_SIZE :: nat where "REPLAY_SOURCE_TABLE_SIZE \<equiv> 32"
definition REPLAY_WINDOW_SIZE :: u32 where "REPLAY_WINDOW_SIZE = 32"

record replay_source_state_t =
  rs_active :: bool
  rs_source :: bytes
  rs_highest_sequence :: u32
  rs_window_bits :: u32
  rs_last_activity_ticks :: u32

type_synonym replay_table = "replay_source_state_t list"

definition reset_entry :: replay_source_state_t where
  "reset_entry = \<lparr>rs_active = False, rs_source = zeros FIELD_LEN, rs_highest_sequence = 0,
     rs_window_bits = 0, rs_last_activity_ticks = 0\<rparr>"

definition sequence_is_newer :: "u32 \<Rightarrow> u32 \<Rightarrow> bool" where
  "sequence_is_newer a b \<longleftrightarrow> a \<noteq> b \<and> a - b < 0x80000000"

definition sequence_is_older :: "u32 \<Rightarrow> u32 \<Rightarrow> bool" where
  "sequence_is_older a b = sequence_is_newer b a"

definition find_source_index :: "replay_table \<Rightarrow> bytes \<Rightarrow> nat option" where
  "find_source_index replay_sources source =
    find_index (\<lambda>e. rs_active e \<and> streq (rs_source e) source) replay_sources"

text \<open>The loop over the table; \<open>oldest\<close> is None while \<open>oldest_index < 0\<close>.\<close>

fun allocate_loop :: "u32 \<Rightarrow> replay_table \<Rightarrow> nat \<Rightarrow> (nat \<times> replay_source_state_t) option \<Rightarrow> nat option" where
  "allocate_loop now_ticks [] i oldest = map_option fst oldest"
| "allocate_loop now_ticks (e # es) i oldest =
    (if \<not> rs_active e then Some i
     else allocate_loop now_ticks es (Suc i)
       (case oldest of
          None \<Rightarrow> Some (i, e)
        | Some (j, o') \<Rightarrow>
            if now_ticks - rs_last_activity_ticks e > now_ticks - rs_last_activity_ticks o'
            then Some (i, e) else oldest))"

definition allocate_source_index :: "u32 \<Rightarrow> replay_table \<Rightarrow> nat option" where
  "allocate_source_index now_ticks replay_sources = allocate_loop now_ticks replay_sources 0 None"

definition accept_new_sequence ::
  "replay_source_state_t \<Rightarrow> u32 \<Rightarrow> u32 \<Rightarrow> bool \<times> replay_source_state_t" where
  "accept_new_sequence state sequence now_ticks =
    (let delta = sequence - rs_highest_sequence state in
     if delta = 0 then (False, state)
     else if delta < 0x80000000 then
       (let state = (if delta \<ge> REPLAY_WINDOW_SIZE
          then state\<lparr>rs_highest_sequence := sequence, rs_window_bits := 1\<rparr>
          else state\<lparr>rs_window_bits := push_bit (unat delta) (rs_window_bits state) OR 1,
                     rs_highest_sequence := sequence\<rparr>)
        in (True, state\<lparr>rs_last_activity_ticks := now_ticks\<rparr>))
     else (False, state))"

definition accept_older_sequence ::
  "replay_source_state_t \<Rightarrow> u32 \<Rightarrow> u32 \<Rightarrow> bool \<times> replay_source_state_t" where
  "accept_older_sequence state sequence now_ticks =
    (let diff = rs_highest_sequence state - sequence in
     if diff \<ge> REPLAY_WINDOW_SIZE then (False, state)
     else (let mask = push_bit (unat diff) 1 in
       if rs_window_bits state AND mask \<noteq> 0 then (False, state)
       else (True, state\<lparr>rs_window_bits := rs_window_bits state OR mask, rs_last_activity_ticks := now_ticks\<rparr>)))"

definition replay_update ::
  "replay_source_state_t \<Rightarrow> u32 \<Rightarrow> u32 \<Rightarrow> bool \<times> replay_source_state_t" where
  "replay_update state sequence now_ticks =
    (let (accepted, state) =
       (if sequence_is_newer sequence (rs_highest_sequence state)
        then accept_new_sequence state sequence now_ticks
        else if sequence_is_older sequence (rs_highest_sequence state)
        then accept_older_sequence state sequence now_ticks
        else (False, state))
     in (accepted, if accepted then state\<lparr>rs_last_activity_ticks := now_ticks\<rparr> else state))"

definition replay_protection_accept ::
  "bytes \<Rightarrow> u32 \<Rightarrow> u32 \<Rightarrow> replay_table \<Rightarrow> bool \<times> replay_table" where
  "replay_protection_accept source sequence now_ticks replay_sources =
    (if str_empty source then (False, replay_sources)
     else case find_source_index replay_sources source of
       None \<Rightarrow>
         (case allocate_source_index now_ticks replay_sources of
            None \<Rightarrow> (False, replay_sources)
          | Some index \<Rightarrow> (True, replay_sources[index :=
              reset_entry\<lparr>rs_active := True, rs_source := copy_field (rs_source reset_entry) source,
                rs_highest_sequence := sequence, rs_window_bits := 1, rs_last_activity_ticks := now_ticks\<rparr>]))
     | Some index \<Rightarrow>
         (let (accepted, state) = replay_update (replay_sources ! index) sequence now_ticks
          in (accepted, replay_sources[index := state])))"

definition replay_protection_reset :: "replay_table \<Rightarrow> replay_table" where
  "replay_protection_reset replay_sources = map (\<lambda>_. reset_entry) replay_sources"

text \<open>The table at start-up: static storage is zero.\<close>

definition replay_start :: replay_table where
  "replay_start = replicate REPLAY_SOURCE_TABLE_SIZE reset_entry"

subsection \<open>The window\<close>

definition window_set :: "replay_source_state_t \<Rightarrow> u32 set" where
  "window_set e = {a. rs_highest_sequence e - a < REPLAY_WINDOW_SIZE \<and>
     bit (rs_window_bits e) (unat (rs_highest_sequence e - a))}"

definition window_accept :: "u32 \<times> u32 set \<Rightarrow> u32 \<Rightarrow> bool \<times> u32 \<times> u32 set" where
  "window_accept hw s = (case hw of (h, w) \<Rightarrow>
    if sequence_is_newer s h then (True, s, {a \<in> insert s w. s - a < REPLAY_WINDOW_SIZE})
    else if s \<notin> w \<and> h - s < REPLAY_WINDOW_SIZE then (True, h, insert s w)
    else (False, h, w))"

definition abs_window :: "replay_source_state_t \<Rightarrow> u32 \<times> u32 set" where
  "abs_window e = (rs_highest_sequence e, window_set e)"

lemma bit_push_or1: "bit (push_bit d w OR 1 :: u32) i \<longleftrightarrow> i < 32 \<and> (i = 0 \<or> d \<le> i \<and> bit w (i - d))"
  by (auto simp: bit_simps bit_1_iff)

lemma bit_or_mask: "d < 32 \<Longrightarrow> bit (w OR 2 ^ d :: u32) i \<longleftrightarrow> bit w i \<or> i = d"
  by (auto simp: bit_simps)

lemma and_mask_zero: "(w :: u32) AND 2 ^ d = 0 \<longleftrightarrow> \<not> bit w d"
  by (simp add: bit_iff_and_push_bit_not_eq_0)

definition window_ok :: "replay_source_state_t \<Rightarrow> bool" where
  "window_ok e \<longleftrightarrow> bit (rs_window_bits e) 0"

lemma window_less: "(x :: u32) < REPLAY_WINDOW_SIZE \<longleftrightarrow> unat x < 32"
  by (simp add: REPLAY_WINDOW_SIZE_def word_less_nat_alt)

lemma in_window_set:
  "a \<in> window_set e \<longleftrightarrow> unat (rs_highest_sequence e - a) < 32 \<and>
     bit (rs_window_bits e) (unat (rs_highest_sequence e - a))"
  by (simp add: window_set_def window_less)

text \<open>Moving the window up by \<open>d\<close>: what is at distance \<open>x\<close> from the new top.\<close>

lemma unat_shift:
  fixes x d :: u32
  assumes "unat d < 2 ^ 31"
  shows "unat (x - d) < 32 \<and> unat x < 32 \<longleftrightarrow> unat d \<le> unat x \<and> unat x < 32"
    "unat d \<le> unat x \<Longrightarrow> unat (x - d) = unat x - unat d"
proof -
  have x: "unat x < 2 ^ 32" using unsigned_less [of x] by simp
  show "unat d \<le> unat x \<Longrightarrow> unat (x - d) = unat x - unat d" by (simp add: unat_sub_if' word_le_nat_alt)
  then show "unat (x - d) < 32 \<and> unat x < 32 \<longleftrightarrow> unat d \<le> unat x \<and> unat x < 32"
    using assms by (cases "unat d \<le> unat x") (auto simp: unat_sub_if')
qed

lemma window_set_newer:
  assumes "sequence_is_newer s (rs_highest_sequence e)" "s - rs_highest_sequence e = d"
    and "rs_highest_sequence e' = s"
    and "rs_window_bits e' = (if 32 \<le> unat d then 1 else push_bit (unat d) (rs_window_bits e) OR 1)"
  shows "window_set e' = {a \<in> insert s (window_set e). s - a < REPLAY_WINDOW_SIZE}"
proof (rule set_eqI)
  fix a
  have d: "unat d < 2 ^ 31" using assms(1,2) by (auto simp: sequence_is_newer_def word_less_nat_alt)
  define x where "x = s - a"
  have h: "rs_highest_sequence e - a = x - d" using assms(2) by (auto simp: x_def)
  have x0: "unat x = 0 \<longleftrightarrow> a = s" by (auto simp: x_def unat_eq_zero)
  have "a \<in> window_set e' \<longleftrightarrow> unat x < 32 \<and> (unat x = 0 \<or> unat d \<le> unat x \<and> bit (rs_window_bits e) (unat x - unat d))"
    using assms(3,4) by (auto simp: in_window_set x_def bit_push_or1 bit_1_iff)
  also have "\<dots> \<longleftrightarrow> unat x < 32 \<and> (a = s \<or> a \<in> window_set e)"
    using unat_shift [OF d, of x] by (auto simp: in_window_set h x0)
  finally show "a \<in> window_set e' \<longleftrightarrow> a \<in> {a \<in> insert s (window_set e). s - a < REPLAY_WINDOW_SIZE}"
    by (auto simp: window_less x_def)
qed

lemma window_set_older:
  assumes "unat (rs_highest_sequence e - s) < 32" "rs_highest_sequence e' = rs_highest_sequence e"
    and "rs_window_bits e' = rs_window_bits e OR push_bit (unat (rs_highest_sequence e - s)) 1"
  shows "window_set e' = insert s (window_set e)"
proof (rule set_eqI)
  fix a
  have "unat (rs_highest_sequence e - a) = unat (rs_highest_sequence e - s) \<longleftrightarrow> a = s"
    by (simp flip: word_unat_eq_iff)
  then show "a \<in> window_set e' \<longleftrightarrow> a \<in> insert s (window_set e)"
    using assms by (auto simp: in_window_set bit_or_mask)
qed

lemma replay_update_window:
  assumes "window_ok e" "replay_update e s now = (acc, e')"
  shows "(acc, abs_window e') = window_accept (abs_window e) s"
    "window_ok e'" "rs_active e' = rs_active e" "rs_source e' = rs_source e"
    "acc \<Longrightarrow> rs_last_activity_ticks e' = now" "\<not> acc \<Longrightarrow> e' = e"
proof -
  let ?h = "rs_highest_sequence e"
  have "((acc, abs_window e') = window_accept (abs_window e) s) \<and> window_ok e' \<and>
    rs_active e' = rs_active e \<and> rs_source e' = rs_source e \<and>
    (acc \<longrightarrow> rs_last_activity_ticks e' = now) \<and> (\<not> acc \<longrightarrow> e' = e)"
  proof (cases "sequence_is_newer s ?h")
    case True
    let ?b = "if 32 \<le> unat (s - ?h) then 1 else push_bit (unat (s - ?h)) (rs_window_bits e) OR 1"
    have u: "acc" "e' = e\<lparr>rs_highest_sequence := s, rs_window_bits := ?b, rs_last_activity_ticks := now\<rparr>"
      using True assms(2)
      by (auto simp: replay_update_def accept_new_sequence_def sequence_is_newer_def Let_def
          REPLAY_WINDOW_SIZE_def word_le_nat_alt split: if_splits)
    show ?thesis
      using True u window_set_newer [OF True refl, of e'] bit_push_or1 [of _ _ 0]
      by (auto simp: abs_window_def window_accept_def window_ok_def)
  next
    case False
    show ?thesis
    proof (cases "s = ?h")
      case True
      then have "?h \<in> window_set e" using assms(1) by (simp add: in_window_set window_ok_def)
      with True False assms show ?thesis
        by (auto simp: replay_update_def sequence_is_older_def sequence_is_newer_def abs_window_def window_accept_def)
    next
      case ne: False
      show ?thesis
      proof (cases "unat (?h - s) < 32")
        case True
        then have older: "sequence_is_older s ?h"
          using ne by (simp add: sequence_is_older_def sequence_is_newer_def word_less_nat_alt)
        have mem: "s \<in> window_set e \<longleftrightarrow> bit (rs_window_bits e) (unat (?h - s))"
          using True by (simp add: in_window_set)
        have "replay_update e s now = (if s \<in> window_set e then (False, e)
           else (True, e\<lparr>rs_window_bits := rs_window_bits e OR push_bit (unat (?h - s)) 1, rs_last_activity_ticks := now\<rparr>))"
          using False older True
          by (simp add: replay_update_def accept_older_sequence_def Let_def and_mask_zero mem window_less
              flip: not_less)
        with assms True False show ?thesis
          using window_set_older [OF True, of e']
          by (auto simp: abs_window_def window_accept_def window_less window_ok_def bit_or_mask split: if_splits)
      next
        case far: False
        then have "replay_update e s now = (False, e)"
          using False by (simp add: replay_update_def accept_older_sequence_def Let_def window_less flip: not_less)
        with assms far False show ?thesis by (auto simp: abs_window_def window_accept_def window_less)
      qed
    qed
  qed
  then show "(acc, abs_window e') = window_accept (abs_window e) s"
    "window_ok e'" "rs_active e' = rs_active e" "rs_source e' = rs_source e"
    "acc \<Longrightarrow> rs_last_activity_ticks e' = now" "\<not> acc \<Longrightarrow> e' = e" by blast+
qed

subsection \<open>The table\<close>

definition replay_key :: "replay_source_state_t \<Rightarrow> bytes" where
  "replay_key e = cstr (rs_source e)"

definition replay_slots :: "replay_table \<Rightarrow> replay_source_state_t option list" where
  "replay_slots tbl = map (\<lambda>e. if rs_active e then Some e else None) tbl"

definition replay_lookup :: "replay_table \<Rightarrow> bytes \<Rightarrow> replay_source_state_t option" where
  "replay_lookup tbl = slot_lookup replay_key (replay_slots tbl)"

definition replay_inv :: "replay_table \<Rightarrow> bool" where
  "replay_inv tbl \<longleftrightarrow> length tbl = REPLAY_SOURCE_TABLE_SIZE \<and> unique_keys replay_key (replay_slots tbl) \<and>
    (\<forall>e\<in>set tbl. rs_active e \<longrightarrow> window_ok e)"

definition replay_fresh :: "bytes \<Rightarrow> u32 \<Rightarrow> u32 \<Rightarrow> replay_source_state_t" where
  "replay_fresh source sequence now =
     \<lparr>rs_active = True, rs_source = copy_field (zeros FIELD_LEN) source, rs_highest_sequence = sequence,
      rs_window_bits = 1, rs_last_activity_ticks = now\<rparr>"

lemma find_source_slots:
  assumes "cstr k = k"
  shows "find_source_index tbl k = find_index (holds replay_key k) (replay_slots tbl)"
proof -
  have "(\<lambda>e. rs_active e \<and> streq (rs_source e) k) = (\<lambda>e. holds replay_key k (if rs_active e then Some e else None))"
    using assms by (auto simp: streq_def replay_key_def)
  then show ?thesis by (simp add: find_source_index_def replay_slots_def find_index_map)
qed

lemma allocate_loop_inactive:
  "find_index (\<lambda>e. \<not> rs_active e) es = Some j \<Longrightarrow> allocate_loop now es i oldest = Some (i + j)"
  by (induction es arbitrary: i j oldest) (auto split: if_splits)

lemma allocate_loop_oldest:
  assumes "\<forall>e\<in>set es. rs_active e" "tbl = pre @ es" "i = length pre"
    and "case oldest of None \<Rightarrow> pre = [] | Some (j, e) \<Rightarrow> j < i \<and> tbl ! j = e \<and>
      (\<forall>m<i. now - rs_last_activity_ticks (tbl ! m) \<le> now - rs_last_activity_ticks e)"
    and "tbl \<noteq> []"
  shows "\<exists>j<length tbl. allocate_loop now es i oldest = Some j \<and>
    (\<forall>m<length tbl. now - rs_last_activity_ticks (tbl ! m) \<le> now - rs_last_activity_ticks (tbl ! j))"
  using assms
proof (induction es arbitrary: i oldest pre)
  case Nil
  then show ?case by (auto split: option.splits)
next
  case (Cons e es)
  let ?o = "case oldest of None \<Rightarrow> Some (i, e) | Some (j, o') \<Rightarrow>
    if now - rs_last_activity_ticks e > now - rs_last_activity_ticks o' then Some (i, e) else oldest"
  have e: "tbl ! i = e" using Cons.prems(2,3) by simp
  have "case ?o of None \<Rightarrow> pre @ [e] = [] | Some (j, e') \<Rightarrow> j < Suc i \<and> tbl ! j = e' \<and>
      (\<forall>m<Suc i. now - rs_last_activity_ticks (tbl ! m) \<le> now - rs_last_activity_ticks e')"
    using Cons.prems(3,4) e by (auto simp: less_Suc_eq split: option.splits)
  then have "\<exists>j<length tbl. allocate_loop now es (Suc i) ?o = Some j \<and>
    (\<forall>m<length tbl. now - rs_last_activity_ticks (tbl ! m) \<le> now - rs_last_activity_ticks (tbl ! j))"
    using Cons.prems by (intro Cons.IH [of "pre @ [e]"]) simp_all
  then show ?case using Cons.prems(1) by simp
qed

lemma allocate_source_index_spec:
  assumes "tbl \<noteq> []"
  obtains j where "allocate_source_index now tbl = Some j" "j < length tbl"
    "\<not> rs_active (tbl ! j) \<or> (\<forall>e\<in>set tbl. rs_active e) \<and>
       (\<forall>m<length tbl. now - rs_last_activity_ticks (tbl ! m) \<le> now - rs_last_activity_ticks (tbl ! j))"
proof (cases "find_index (\<lambda>e. \<not> rs_active e) tbl")
  case None
  then have all: "\<forall>e\<in>set tbl. rs_active e" by simp
  then show ?thesis
    using allocate_loop_oldest [of tbl tbl "[]" 0 now None] assms that unfolding allocate_source_index_def by auto
next
  case (Some j)
  from find_index_SomeD [OF this] allocate_loop_inactive [OF Some, of now 0 None] show ?thesis
    by (intro that [of j]) (auto simp: allocate_source_index_def)
qed

lemma length_replay_slots [simp]: "length (replay_slots tbl) = length tbl"
  by (simp add: replay_slots_def)

lemma replay_slots_update: "rs_active e \<Longrightarrow> replay_slots (tbl[i := e]) = (replay_slots tbl)[i := Some e]"
  by (simp add: replay_slots_def map_update)

lemma accept_step:
  assumes "replay_inv tbl" "node_id k"
  obtains i e' where "placed replay_key (replay_slots tbl) i k" "i < length tbl"
    "replay_key e' = k" "rs_active e'" "window_ok e'"
    "replay_protection_accept k sequence now tbl =
      (case replay_lookup tbl k of None \<Rightarrow> True | Some e \<Rightarrow> fst (replay_update e sequence now), tbl[i := e'])"
    "e' = (case replay_lookup tbl k of None \<Rightarrow> replay_fresh k sequence now
                                     | Some e \<Rightarrow> snd (replay_update e sequence now))"
proof (cases "find_index (holds replay_key k) (replay_slots tbl)")
  case None
  have lk: "replay_lookup tbl k = None" unfolding replay_lookup_def slot_lookup_def None by simp
  have ne: "\<not> str_empty k" using assms(2) by (simp add: str_empty_def node_id_def)
  have "tbl \<noteq> []" using assms(1) by (auto simp: replay_inv_def)
  then obtain j where j: "allocate_source_index now tbl = Some j" "j < length tbl"
    "\<not> rs_active (tbl ! j) \<or> (\<forall>e\<in>set tbl. rs_active e)"
    by (rule allocate_source_index_spec) blast
  have p: "placed replay_key (replay_slots tbl) j k"
    using j(2,3) lk by (auto simp: placed_def replay_lookup_def replay_slots_def)
  have f: "find_source_index tbl k = None" unfolding find_source_slots [OF node_id_cstr [OF assms(2)]] by (rule None)
  show ?thesis
    by (rule that [OF p j(2), of "replay_fresh k sequence now"])
     (use assms(2) ne f j(1) lk in \<open>simp_all add: replay_protection_accept_def replay_fresh_def reset_entry_def
        replay_key_def window_ok_def\<close>)
next
  case (Some j)
  from find_index_SomeD [OF Some] have j: "j < length tbl" "holds replay_key k (replay_slots tbl ! j)" by auto
  then have e: "rs_active (tbl ! j)" "replay_key (tbl ! j) = k" "replay_slots tbl ! j = Some (tbl ! j)"
    by (auto simp: replay_slots_def split: if_splits)
  have lk: "replay_lookup tbl k = Some (tbl ! j)" using Some e by (simp add: replay_lookup_def slot_lookup_def)
  have p: "placed replay_key (replay_slots tbl) j k" using j lk by (simp add: placed_def replay_lookup_def)
  have ne: "\<not> str_empty k" using assms(2) by (simp add: str_empty_def node_id_def)
  have ok: "window_ok (tbl ! j)" using assms(1) j(1) e(1) by (simp add: replay_inv_def)
  have f: "find_source_index tbl k = Some j" using Some assms(2) find_source_slots [of k tbl] by simp
  obtain acc e' where u: "replay_update (tbl ! j) sequence now = (acc, e')" by fastforce
  note w = replay_update_window [OF ok u]
  show ?thesis
    by (rule that [OF p j(1), of e'])
     (use w e ne f u lk in \<open>simp_all add: replay_protection_accept_def replay_key_def\<close>)
qed

lemma replay_accept_laws:
  assumes "replay_inv tbl" "node_id k" and tbl'_def: "tbl' = snd (replay_protection_accept k sequence now tbl)"
  shows "replay_inv tbl'"
    "replay_lookup tbl k \<noteq> None \<or> card (dom (replay_lookup tbl)) < REPLAY_SOURCE_TABLE_SIZE \<Longrightarrow>
      replay_lookup tbl' = (replay_lookup tbl)(k \<mapsto>
        (case replay_lookup tbl k of None \<Rightarrow> replay_fresh k sequence now | Some e \<Rightarrow> snd (replay_update e sequence now)))"
    "replay_lookup tbl k = None \<Longrightarrow> card (dom (replay_lookup tbl)) = REPLAY_SOURCE_TABLE_SIZE \<Longrightarrow>
      \<exists>w\<in>dom (replay_lookup tbl). \<exists>e. replay_lookup tbl' = (replay_lookup tbl)(w := None, k \<mapsto> e)"
proof -
  have u: "unique_keys replay_key (replay_slots tbl)" "length tbl = 32" using assms(1) by (simp_all add: replay_inv_def)
  obtain i e' where
    p: "placed replay_key (replay_slots tbl) i k" and i: "i < length tbl"
    and e: "replay_key e' = k" "rs_active e'" "window_ok e'"
    and acc: "replay_protection_accept k sequence now tbl =
      (case replay_lookup tbl k of None \<Rightarrow> True | Some e \<Rightarrow> fst (replay_update e sequence now), tbl[i := e'])"
    and e': "e' = (case replay_lookup tbl k of None \<Rightarrow> replay_fresh k sequence now
                                     | Some e \<Rightarrow> snd (replay_update e sequence now))"
    by (rule accept_step [OF assms(1,2)])
  have t: "tbl' = tbl[i := e']" "replay_slots tbl' = (replay_slots tbl)[i := Some e']"
    using acc e(2) by (simp_all add: tbl'_def replay_slots_update)
  have p': "placed replay_key (replay_slots tbl) i (replay_key e')" using p e(1) by simp
  show "replay_inv tbl'"
    using assms(1) placed_unique [OF u(1) p'] t e by (auto simp: replay_inv_def dest: set_list_update_cases)
  show "replay_lookup tbl' = (replay_lookup tbl)(k \<mapsto>
      (case replay_lookup tbl k of None \<Rightarrow> replay_fresh k sequence now | Some e \<Rightarrow> snd (replay_update e sequence now)))"
    if "replay_lookup tbl k \<noteq> None \<or> card (dom (replay_lookup tbl)) < REPLAY_SOURCE_TABLE_SIZE"
    using placed_lookup [OF u(1) p'] that u(2) e(1) t(2) unfolding replay_lookup_def e' by simp
  show "\<exists>w\<in>dom (replay_lookup tbl). \<exists>e. replay_lookup tbl' = (replay_lookup tbl)(w := None, k \<mapsto> e)"
    if "replay_lookup tbl k = None" "card (dom (replay_lookup tbl)) = REPLAY_SOURCE_TABLE_SIZE"
    using placed_evicts [OF u(1) p'] that u(2) e(1) t(2) unfolding replay_lookup_def by auto
qed

interpretation replay: bounded_table replay_inv replay_lookup
  "\<lambda>k (sequence, now) tbl. snd (replay_protection_accept k sequence now tbl)" node_id REPLAY_SOURCE_TABLE_SIZE
proof (unfold_locales; (simp only: split_paired_all split_beta fst_conv snd_conv)?)
  show "finite (dom (replay_lookup s)) \<and> card (dom (replay_lookup s)) \<le> REPLAY_SOURCE_TABLE_SIZE"
    if "replay_inv s" for s
    using card_dom_slot_lookup [of replay_key "replay_slots s"] that count_if_le [of _ "replay_slots s"]
    by (auto simp: replay_inv_def replay_lookup_def)
qed (use replay_accept_laws [OF _ _ refl] in \<open>auto simp: domIff split_beta\<close>)

lemma replay_start_inv: "replay_inv replay_start" "replay_lookup replay_start = Map.empty"
proof -
  have s: "replay_slots replay_start = replicate 32 None"
    by (simp add: replay_slots_def replay_start_def reset_entry_def)
  show "replay_inv replay_start"
    unfolding replay_inv_def s by (auto simp: replay_start_def reset_entry_def unique_keys_def)
  show "replay_lookup replay_start = Map.empty"
    unfolding replay_lookup_def s by (intro ext) (simp add: slot_lookup_None)
qed

subsection \<open>At most once\<close>

text \<open>The packets accepted from a sequence of arrivals (source, sequence number, time).\<close>

fun replay_run :: "(bytes \<times> u32 \<times> u32) list \<Rightarrow> replay_table \<Rightarrow> (bytes \<times> u32) list" where
  "replay_run [] tbl = []"
| "replay_run ((source, sequence, now) # arrivals) tbl =
    (case replay_protection_accept source sequence now tbl of
       (accepted, tbl') \<Rightarrow> (if accepted then [(source, sequence)] else []) @ replay_run arrivals tbl')"

text \<open>
  Sequence numbers on an arc of half the circle that starts at \<open>b\<close> are ordered by
  their distance from \<open>b\<close>, and the code's comparison is that order.
\<close>

lemma arc_diff:
  fixes a c b :: u32
  assumes "unat (a - b) \<le> unat (c - b)"
  shows "unat (c - a) = unat (c - b) - unat (a - b)"
proof -
  have "unat ((c - b) - (a - b)) = unat (c - b) - unat (a - b)"
    using assms by (subst unat_sub_if') simp
  moreover have "(c - b) - (a - b) = c - a" by simp
  ultimately show ?thesis by (simp only:)
qed

lemma arc_newer:
  fixes a c b :: u32
  assumes "unat (a - b) < 2 ^ 31" "unat (c - b) < 2 ^ 31"
  shows "sequence_is_newer c a \<longleftrightarrow> unat (a - b) < unat (c - b)"
proof (cases "unat (a - b) \<le> unat (c - b)")
  case True
  have "unat (c - a) = 0 \<longleftrightarrow> c = a" by (auto simp: unat_eq_zero)
  then show ?thesis using arc_diff [OF True] assms True by (auto simp: sequence_is_newer_def word_less_nat_alt)
next
  case False
  have "unat ((c - b) - (a - b)) = unat (c - b) + 2 ^ 32 - unat (a - b)"
    using False by (subst unat_sub_if') simp
  moreover have "(c - b) - (a - b) = c - a" by simp
  ultimately have "unat (c - a) = unat (c - b) + 2 ^ 32 - unat (a - b)" by (simp only:)
  then show ?thesis using False assms by (auto simp: sequence_is_newer_def word_less_nat_alt)
qed

text \<open>What the window remembers of the set \<open>A\<close> of numbers accepted so far.\<close>

definition remembers :: "u32 \<Rightarrow> u32 \<times> u32 set \<Rightarrow> u32 set \<Rightarrow> bool" where
  "remembers b hw A \<longleftrightarrow> unat (fst hw - b) < 2 ^ 31 \<and>
    (\<forall>a\<in>A. unat (a - b) \<le> unat (fst hw - b) \<and> (unat (fst hw - a) < 32 \<longrightarrow> a \<in> snd hw))"

lemma window_accept_fresh:
  assumes "remembers b hw A" "unat (s - b) < 2 ^ 31" "window_accept hw s = (acc, hw')"
  shows "acc \<Longrightarrow> s \<notin> A" "remembers b hw' (if acc then insert s A else A)"
proof -
  obtain h w where hw: "hw = (h, w)" by (cases hw)
  have A: "\<forall>a\<in>A. unat (a - b) \<le> unat (h - b) \<and> (unat (h - a) < 32 \<longrightarrow> a \<in> w)" and hb: "unat (h - b) < 2 ^ 31"
    using assms(1) by (auto simp: remembers_def hw)
  have "(acc \<longrightarrow> s \<notin> A) \<and> remembers b hw' (if acc then insert s A else A)"
  proof (cases "sequence_is_newer s h")
    case True
    then have lt: "unat (h - b) < unat (s - b)" using arc_newer [OF hb assms(2)] by simp
    have r: "acc" "hw' = (s, {a \<in> insert s w. unat (s - a) < 32})"
      using assms(3) True by (auto simp: window_accept_def hw window_less)
    have "a \<in> w" if "a \<in> A" "unat (s - a) < 32" for a
    proof -
      have "unat (a - b) \<le> unat (h - b)" using A that(1) by blast
      then have "unat (h - a) < 32" using arc_diff [of a b h] arc_diff [of a b s] lt that(2) by linarith
      then show ?thesis using A that(1) by blast
    qed
    with A lt r assms(2) show ?thesis by (fastforce simp: remembers_def)
  next
    case False
    then have le: "unat (s - b) \<le> unat (h - b)" using arc_newer [OF hb assms(2)] by simp
    then show ?thesis
      using assms(3) False A hb by (auto simp: window_accept_def hw window_less remembers_def split: if_splits)
  qed
  then show "acc \<Longrightarrow> s \<notin> A" "remembers b hw' (if acc then insert s A else A)" by blast+
qed

definition table_remembers :: "(bytes \<Rightarrow> u32) \<Rightarrow> replay_table \<Rightarrow> (bytes \<times> u32) set \<Rightarrow> bool" where
  "table_remembers base tbl A \<longleftrightarrow>
    (\<forall>k. (case replay_lookup tbl k of
       None \<Rightarrow> (\<forall>s. (k, s) \<notin> A)
     | Some e \<Rightarrow> remembers (base k) (abs_window e) {s. (k, s) \<in> A}))"

lemma replay_lookup_ok: "replay_inv tbl \<Longrightarrow> replay_lookup tbl k = Some e \<Longrightarrow> window_ok e"
proof -
  assume a: "replay_inv tbl" "replay_lookup tbl k = Some e"
  then have "\<exists>i<length tbl. replay_slots tbl ! i = Some e"
    using slot_lookup_Some [of replay_key "replay_slots tbl" k e] by (auto simp: replay_inv_def replay_lookup_def)
  then show ?thesis using a(1) by (auto simp: replay_slots_def replay_inv_def split: if_splits)
qed

lemma accept_remembers:
  assumes "replay_inv tbl" "node_id k" "table_remembers base tbl A" "unat (s - base k) < 2 ^ 31"
    and room: "replay_lookup tbl k \<noteq> None \<or> card (dom (replay_lookup tbl)) < REPLAY_SOURCE_TABLE_SIZE"
    and acc: "replay_protection_accept k s now tbl = (acc, tbl')"
  shows "acc \<Longrightarrow> (k, s) \<notin> A" "table_remembers base tbl' (if acc then insert (k, s) A else A)"
proof -
  obtain i e' where
    e: "replay_protection_accept k s now tbl =
      (case replay_lookup tbl k of None \<Rightarrow> True | Some e \<Rightarrow> fst (replay_update e s now), tbl[i := e'])"
    by (rule accept_step [OF assms(1,2)])
  have l: "replay_lookup tbl' = (replay_lookup tbl)(k \<mapsto>
      (case replay_lookup tbl k of None \<Rightarrow> replay_fresh k s now | Some e \<Rightarrow> snd (replay_update e s now)))"
    using replay_accept_laws(2) [OF assms(1,2) refl, of s now] room acc by simp
  have new: "(k', s') \<notin> A" if "replay_lookup tbl k' = None" for k' s'
    using assms(3) [unfolded table_remembers_def, rule_format, of k'] that by simp
  have "(acc \<longrightarrow> (k, s) \<notin> A) \<and> table_remembers base tbl' (if acc then insert (k, s) A else A)"
  proof (cases "replay_lookup tbl k")
    case None
    have w: "abs_window (replay_fresh k s now) = (s, {s})"
      by (auto simp: abs_window_def replay_fresh_def in_window_set bit_1_iff unat_eq_zero)
    have "acc" using e acc None by simp
    moreover have "remembers (base k) (s, {s}) {s'. (k, s') \<in> insert (k, s) A}"
      using new [OF None] assms(4) by (auto simp: remembers_def)
    ultimately show ?thesis
      using assms(3) None l w new by (auto simp: table_remembers_def split: option.splits)
  next
    case (Some e0)
    obtain e1 where u: "replay_update e0 s now = (acc, e1)" using e acc Some by (cases "replay_update e0 s now") auto
    note w = replay_update_window(1) [OF replay_lookup_ok [OF assms(1) Some] u]
    have r0: "remembers (base k) (abs_window e0) {s. (k, s) \<in> A}"
      using assms(3) Some by (auto simp: table_remembers_def split: option.splits)
    note f = window_accept_fresh [OF r0 assms(4) w [symmetric]]
    have "{s'. (k, s') \<in> (if acc then insert (k, s) A else A)} =
        (if acc then insert s {s'. (k, s') \<in> A} else {s'. (k, s') \<in> A})" by auto
    with f l u Some assms(3) new show ?thesis by (auto simp: table_remembers_def split: option.splits)
  qed
  then show "acc \<Longrightarrow> (k, s) \<notin> A" "table_remembers base tbl' (if acc then insert (k, s) A else A)" by blast+
qed

lemma replay_run_distinct:
  assumes "replay_inv tbl" "table_remembers base tbl A"
    "\<forall>(k, s, now)\<in>set arrivals. node_id k \<and> unat (s - base k) < 2 ^ 31"
    "card (dom (replay_lookup tbl) \<union> fst ` set arrivals) \<le> REPLAY_SOURCE_TABLE_SIZE"
  shows "distinct (replay_run arrivals tbl) \<and> set (replay_run arrivals tbl) \<inter> A = {}"
  using assms
proof (induction arrivals arbitrary: tbl A)
  case (Cons x arrivals)
  obtain k s now where x: "x = (k, s, now)" by (cases x)
  obtain acc tbl' where acc: "replay_protection_accept k s now tbl = (acc, tbl')" by fastforce
  have k: "node_id k" "unat (s - base k) < 2 ^ 31" using Cons.prems(3) x by auto
  have fin: "finite (dom (replay_lookup tbl))" using replay.bounded [OF Cons.prems(1)] by blast
  have "card (insert k (dom (replay_lookup tbl))) \<le> card (dom (replay_lookup tbl) \<union> fst ` set (x # arrivals))"
    using fin x by (intro card_mono) auto
  with Cons.prems(4) have c: "card (insert k (dom (replay_lookup tbl))) \<le> REPLAY_SOURCE_TABLE_SIZE" by simp
  have d: "dom (replay_lookup tbl') = insert k (dom (replay_lookup tbl))"
    using replay.puts_room [OF Cons.prems(1), of "[(k, s, now)]"] k(1) acc c by auto
  have room: "replay_lookup tbl k \<noteq> None \<or> card (dom (replay_lookup tbl)) < REPLAY_SOURCE_TABLE_SIZE"
    using c fin by (cases "replay_lookup tbl k") (auto simp: domIff)
  note step = accept_remembers [OF Cons.prems(1) k(1) Cons.prems(2) k(2) room acc]
  have inv: "replay_inv tbl'" using replay_accept_laws(1) [OF Cons.prems(1) k(1) refl, of s now] acc by simp
  have "dom (replay_lookup tbl') \<union> fst ` set arrivals = dom (replay_lookup tbl) \<union> fst ` set (x # arrivals)"
    using d x by auto
  then have "distinct (replay_run arrivals tbl') \<and>
      set (replay_run arrivals tbl') \<inter> (if acc then insert (k, s) A else A) = {}"
    using Cons.prems inv step(2) by (intro Cons.IH) auto
  then show ?case using step(1) by (auto simp: x acc)
qed simp

lemma clean_str_list: "clean_str n s \<longleftrightarrow> length s < n \<and> (\<forall>c\<in>set s. 32 \<le> c \<and> c \<le> 126)"
  by (simp add: clean_str_def list_all_iff printable_def)

subsection \<open>Properties\<close>

text \<open>
  C9. At most once, for printable sources: as long as every source is a printable node identifier
  of at most 31 characters (\<open>node_id\<close>), no more sources arrive than the table has entries,
  and the sequence numbers of each source stay within half the number circle, no packet (source,
  sequence number) is accepted twice, in whatever order and however often packets arrive. For
  a source that is not printable it fails: \<open>replay_unprintable_accepted_twice\<close>.
\<close>

theorem replay_at_most_once:
  assumes "\<forall>(k, s, now)\<in>set arrivals. node_id k \<and> unat (s - base k) < 2 ^ 31"
    and "card (fst ` set arrivals) \<le> REPLAY_SOURCE_TABLE_SIZE"
  shows "distinct (replay_run arrivals replay_start)"
proof -
  have "table_remembers base replay_start {}" by (simp add: table_remembers_def replay_start_inv)
  with replay_run_distinct [OF replay_start_inv(1) _ assms(1), of "{}"] assms(2)
  show ?thesis by (simp add: replay_start_inv)
qed

theorem replay_at_most_once_witness:
  "distinct (replay_run
     [(lit ''A'', 7, 0), (lit ''A'', 9, 1), (lit ''B'', 7, 2), (lit ''A'', 8, 3), (lit ''A'', 7, 4), (lit ''A'', 8, 5)]
     replay_start)"
  by (rule replay_at_most_once [of _ "\<lambda>_. 0"]) (simp_all add: node_id_def clean_str_list lit_def card_insert_if)

text \<open>
  C18. The bit window refines the set of recently accepted numbers: for a source with a printable
  identifier that already has an entry in the table, the decision and the new state are those of
  \<open>window_accept\<close> (a newer number is accepted and forgets what falls out of the window; an
  older one is accepted iff it is inside the window and not yet in it), and such a call touches
  the entry of no other source. (A source without an entry is another matter: when the table
  is full it takes the oldest one, \<open>replay_evicts_oldest\<close>.)
\<close>

theorem replay_accept_refines_window:
  assumes "replay_inv tbl" "node_id k" "replay_lookup tbl k = Some e"
    and "replay_protection_accept k s now tbl = (acc, tbl')"
  shows "\<exists>e'. replay_lookup tbl' = (replay_lookup tbl)(k \<mapsto> e') \<and> (acc, abs_window e') = window_accept (abs_window e) s"
proof -
  obtain acc' e' where u: "replay_update e s now = (acc', e')" by fastforce
  obtain i e'' where e: "replay_protection_accept k s now tbl =
      (case replay_lookup tbl k of None \<Rightarrow> True | Some e \<Rightarrow> fst (replay_update e s now), tbl[i := e''])"
    by (rule accept_step [OF assms(1,2)])
  then have "acc = acc'" using assms(3,4) u by simp
  moreover have "replay_lookup tbl' = (replay_lookup tbl)(k \<mapsto> e')"
    using replay_accept_laws(2) [OF assms(1,2) refl, of s now] assms(3,4) u by simp
  ultimately show ?thesis using replay_update_window(1) [OF replay_lookup_ok [OF assms(1,3)] u] by blast
qed

definition sample_replay :: replay_table where
  "sample_replay = snd (replay_protection_accept (lit ''A'') 7 0 replay_start)"

theorem replay_accept_refines_window_witness:
  "\<exists>e'. replay_lookup (snd (replay_protection_accept (lit ''A'') 9 1 sample_replay)) =
      (replay_lookup sample_replay)(lit ''A'' \<mapsto> e') \<and>
    (True, abs_window e') = window_accept (abs_window (replay_fresh (lit ''A'') 7 0)) 9"
proof (rule replay_accept_refines_window)
  have n: "node_id (lit ''A'')" by (simp add: node_id_def clean_str_list lit_def)
  then show "node_id (lit ''A'')" .
  show "replay_inv sample_replay"
    unfolding sample_replay_def using replay_accept_laws(1) [OF replay_start_inv(1) n refl] .
  show "replay_lookup sample_replay (lit ''A'') = Some (replay_fresh (lit ''A'') 7 0)" by code_simp
  have "fst (replay_protection_accept (lit ''A'') 9 1 sample_replay)" by code_simp
  then show "replay_protection_accept (lit ''A'') 9 1 sample_replay =
    (True, snd (replay_protection_accept (lit ''A'') 9 1 sample_replay))" by (simp add: prod_eq_iff)
qed

text \<open>
  The entry a full table gives up for a new source is one whose last activity is longest
  ago, and a table with a free slot gives up none.
\<close>

theorem replay_evicts_oldest:
  assumes "replay_inv tbl"
  shows "\<exists>j<length tbl. allocate_source_index now tbl = Some j \<and>
    (\<not> rs_active (tbl ! j) \<or> (\<forall>e\<in>set tbl. rs_active e \<and>
       now - rs_last_activity_ticks e \<le> now - rs_last_activity_ticks (tbl ! j)))"
proof -
  have "tbl \<noteq> []" using assms by (auto simp: replay_inv_def)
  then show ?thesis
    by (rule allocate_source_index_spec [of tbl now]) (metis in_set_conv_nth)
qed

theorem replay_evicts_oldest_witness:
  "\<exists>j<length replay_start. allocate_source_index 5 replay_start = Some j \<and>
    (\<not> rs_active (replay_start ! j) \<or> (\<forall>e\<in>set replay_start. rs_active e \<and>
       5 - rs_last_activity_ticks e \<le> 5 - rs_last_activity_ticks (replay_start ! j)))"
  by (rule replay_evicts_oldest [OF replay_start_inv(1)])

text \<open>
  Defect: the table stores a filtered copy of the source but is searched with the raw
  text, so a source id with a byte outside printable ASCII is never found again and the same
  packet is accepted twice.
\<close>

theorem replay_unprintable_accepted_twice:
  "replay_run [([1, 65, 0], 7, 0), ([1, 65, 0], 7, 1)] replay_start = [([1, 65, 0], 7), ([1, 65, 0], 7)]"
  by code_simp

end
