(* ===== verification/Roster.thy ===== *)
theory Roster
  imports Slot_Table Mesh_Packet
begin

text \<open>
  \<open>src/roster.c\<close>: the nodes heard, with their location, signal and time. The static
  array and its count are the state; \<open>now_ms()\<close> is an argument and the mutex makes
  each operation one atomic step.
\<close>

abbreviation MAX_ROSTER_ENTRIES :: nat where "MAX_ROSTER_ENTRIES \<equiv> 32"
definition ROSTER_STALE_MS :: u32 where "ROSTER_STALE_MS = 300000"

record roster_entry_t =
  ro_node_id :: bytes
  ro_location :: location_info_t
  ro_last_seen_epoch :: u32
  ro_last_seen_tick_ms :: u32
  ro_last_rssi :: int
  ro_last_snr :: int
  ro_online :: bool
  ro_learned_passively :: bool

record roster_state =
  roster :: "roster_entry_t list"
  roster_count :: nat

definition roster_entry_zero :: roster_entry_t where
  "roster_entry_zero = \<lparr>ro_node_id = zeros FIELD_LEN, ro_location = location_zero, ro_last_seen_epoch = 0,
     ro_last_seen_tick_ms = 0, ro_last_rssi = 0, ro_last_snr = 0, ro_online = False, ro_learned_passively = False\<rparr>"

definition find_roster_index :: "roster_state \<Rightarrow> bytes \<Rightarrow> nat option" where
  "find_roster_index st ident = find_index (\<lambda>e. streq (ro_node_id e) ident) (take (roster_count st) (roster st))"

definition refresh_online_state :: "roster_entry_t \<Rightarrow> u32 \<Rightarrow> roster_entry_t" where
  "refresh_online_state entry now = entry\<lparr>ro_online := now - ro_last_seen_tick_ms entry < ROSTER_STALE_MS\<rparr>"

definition roster_is_stale_locked :: "roster_state \<Rightarrow> bytes \<Rightarrow> u32 \<Rightarrow> bool" where
  "roster_is_stale_locked st ident now =
    (case find_roster_index st ident of
       None \<Rightarrow> True
     | Some index \<Rightarrow> now - ro_last_seen_tick_ms (roster st ! index) \<ge> ROSTER_STALE_MS)"

text \<open>The slot for a new node, and the count after taking it.\<close>

definition roster_slot :: "roster_state \<Rightarrow> u32 \<Rightarrow> nat \<times> nat" where
  "roster_slot st now =
    (if roster_count st < MAX_ROSTER_ENTRIES then (roster_count st, roster_count st + 1)
     else (oldest_index (\<lambda>i. now - ro_last_seen_tick_ms (roster st ! i)) (roster_count st), roster_count st))"

definition roster_fill ::
  "roster_entry_t \<Rightarrow> bytes \<Rightarrow> location_info_t option \<Rightarrow> u32 \<Rightarrow> int \<Rightarrow> int \<Rightarrow> u32 \<Rightarrow> roster_entry_t" where
  "roster_fill e ident location epoch_seconds rssi snr now =
    refresh_online_state
      (e\<lparr>ro_node_id := copy_field (ro_node_id e) ident,
         ro_location := (case location of Some l \<Rightarrow> l | None \<Rightarrow> location_zero),
         ro_last_seen_epoch := epoch_seconds, ro_last_seen_tick_ms := now,
         ro_last_rssi := rssi, ro_last_snr := snr, ro_learned_passively := True\<rparr>) now"

definition roster_touch ::
  "bytes option \<Rightarrow> location_info_t option \<Rightarrow> u32 \<Rightarrow> int \<Rightarrow> int \<Rightarrow> u32 \<Rightarrow> roster_state \<Rightarrow> roster_state" where
  "roster_touch ident location epoch_seconds rssi snr now st =
    (case ident of None \<Rightarrow> st | Some ident \<Rightarrow>
       if str_empty ident then st
       else (let (index, count) =
               (case find_roster_index st ident of Some index \<Rightarrow> (index, roster_count st) | None \<Rightarrow> roster_slot st now)
             in st\<lparr>roster := (roster st)[index := roster_fill (roster st ! index) ident location epoch_seconds rssi snr now],
                   roster_count := count\<rparr>))"

definition roster_mark_active :: "bytes option \<Rightarrow> roster_state \<Rightarrow> roster_state" where
  "roster_mark_active ident st =
    (case ident of None \<Rightarrow> st | Some ident \<Rightarrow>
       if str_empty ident then st
       else (case find_roster_index st ident of
         None \<Rightarrow> st
       | Some index \<Rightarrow> st\<lparr>roster := (roster st)[index := (roster st ! index)\<lparr>ro_learned_passively := False\<rparr>]\<rparr>))"

definition roster_is_stale_at :: "bytes option \<Rightarrow> u32 \<Rightarrow> roster_state \<Rightarrow> bool" where
  "roster_is_stale_at ident now st =
    (case ident of None \<Rightarrow> True | Some ident \<Rightarrow> if str_empty ident then True else roster_is_stale_locked st ident now)"

text \<open>The loop of the snapshot reads the table while it updates it.\<close>

fun roster_snapshot_loop :: "nat \<Rightarrow> nat \<Rightarrow> u32 \<Rightarrow> roster_state \<Rightarrow> roster_state" where
  "roster_snapshot_loop 0 i now st = st"
| "roster_snapshot_loop (Suc n) i now st =
    roster_snapshot_loop n (Suc i) now
      (st\<lparr>roster := (roster st)[i := (roster st ! i)\<lparr>ro_online := \<not> roster_is_stale_locked st (ro_node_id (roster st ! i)) now\<rparr>]\<rparr>)"

definition roster_get_snapshot :: "nat \<Rightarrow> u32 \<Rightarrow> roster_state \<Rightarrow> roster_entry_t list \<times> roster_state" where
  "roster_get_snapshot out_capacity now st =
    (if out_capacity = 0 then ([], st)
     else (let count = min (roster_count st) out_capacity;
               st = roster_snapshot_loop count 0 now st
           in (take count (roster st), st)))"

definition roster_start :: roster_state where
  "roster_start = \<lparr>roster = replicate MAX_ROSTER_ENTRIES roster_entry_zero, roster_count = 0\<rparr>"

subsection \<open>The roster as a map\<close>

definition roster_key :: "roster_entry_t \<Rightarrow> bytes" where
  "roster_key e = cstr (ro_node_id e)"

definition roster_slots :: "roster_state \<Rightarrow> roster_entry_t option list" where
  "roster_slots st = counted_slots MAX_ROSTER_ENTRIES (roster st) (roster_count st)"

definition roster_find :: "roster_state \<Rightarrow> bytes \<Rightarrow> roster_entry_t option" where
  "roster_find st = slot_lookup roster_key (roster_slots st)"

definition roster_inv :: "roster_state \<Rightarrow> bool" where
  "roster_inv st \<longleftrightarrow> length (roster st) = MAX_ROSTER_ENTRIES \<and> roster_count st \<le> MAX_ROSTER_ENTRIES \<and>
     unique_keys roster_key (roster_slots st) \<and> (\<forall>e\<in>set (roster st). length (ro_node_id e) = FIELD_LEN)"

lemma find_roster_slots:
  "cstr k = k \<Longrightarrow> find_roster_index st k = find_index (holds roster_key k) (roster_slots st)"
  by (simp add: find_roster_index_def roster_slots_def find_counted_slots streq_def roster_key_def)

lemma roster_fill_key:
  "node_id k \<Longrightarrow> length (ro_node_id e) = 32 \<Longrightarrow> roster_key (roster_fill e k l ep r s now) = k"
  "length (ro_node_id (roster_fill e k l ep r s now)) = length (ro_node_id e)"
  "ro_last_seen_tick_ms (roster_fill e k l ep r s now) = now"
  by (auto simp: roster_fill_def roster_key_def refresh_online_state_def)

lemma touch_step:
  assumes "roster_inv st" "node_id k"
  obtains i where "placed roster_key (roster_slots st) i k" "i < MAX_ROSTER_ENTRIES" "i \<le> roster_count st"
    "roster_touch (Some k) l ep r s now st =
      st\<lparr>roster := (roster st)[i := roster_fill (roster st ! i) k l ep r s now],
         roster_count := max (roster_count st) (Suc i)\<rparr>"
proof (cases "find_index (holds roster_key k) (roster_slots st)")
  case None
  have s: "length (roster st) = 32" "roster_count st \<le> 32" using assms(1) by (auto simp: roster_inv_def)
  have f: "find_roster_index st k = None" unfolding find_roster_slots [OF node_id_cstr [OF assms(2)]] by (rule None)
  have lk: "roster_find st k = None" unfolding roster_find_def slot_lookup_def None by simp
  let ?o = "oldest_index (\<lambda>i. now - ro_last_seen_tick_ms (roster st ! i)) 32"
  let ?i = "if roster_count st < 32 then roster_count st else ?o"
  have o: "?o < 32" by (rule oldest_index_spec) simp
  have i: "?i < 32" "?i \<le> roster_count st" "roster_slot st now = (?i, max (roster_count st) (Suc ?i))"
    using o s(2) by (auto simp: roster_slot_def max_def)
  have p: "placed roster_key (roster_slots st) ?i k"
    using s o lk unfolding roster_slots_def roster_find_def by (intro placed_counted [of _ _ _ _ _ _ ?o]) simp_all
  show ?thesis using that [OF p i(1,2)] f i(3) assms(2) by (simp add: roster_touch_def)
next
  case (Some j)
  have s: "length (roster st) = 32" "roster_count st \<le> 32" using assms(1) by (auto simp: roster_inv_def)
  note j = counted_found [OF s Some [unfolded roster_slots_def]]
  have "max (roster_count st) (Suc j) = roster_count st" using j(1) by simp
  then show ?thesis
    using that [of j] j s Some find_roster_slots [OF node_id_cstr [OF assms(2)], of st] assms(2)
    by (simp add: roster_touch_def roster_slots_def)
qed

lemma touch_laws:
  assumes "roster_inv st" "node_id k" and st': "st' = roster_touch (Some k) l ep r s now st"
  shows "roster_inv st'"
    "roster_find st k \<noteq> None \<or> card (dom (roster_find st)) < MAX_ROSTER_ENTRIES \<Longrightarrow>
      \<exists>e. roster_find st' = (roster_find st)(k \<mapsto> e)"
    "roster_find st k = None \<Longrightarrow> card (dom (roster_find st)) = MAX_ROSTER_ENTRIES \<Longrightarrow>
      \<exists>w\<in>dom (roster_find st). \<exists>e. roster_find st' = (roster_find st)(w := None, k \<mapsto> e)"
    "\<exists>e. roster_find st' k = Some e \<and> ro_last_seen_tick_ms e = now"
proof -
  obtain i where p: "placed roster_key (roster_slots st) i k" and i: "i < 32" "i \<le> roster_count st"
    and l: "roster_touch (Some k) l ep r s now st =
      st\<lparr>roster := (roster st)[i := roster_fill (roster st ! i) k l ep r s now],
         roster_count := max (roster_count st) (Suc i)\<rparr>"
    by (rule touch_step [OF assms(1,2)])
  let ?e = "roster_fill (roster st ! i) k l ep r s now"
  have z: "length (roster st) = 32" "roster_count st \<le> 32" "unique_keys roster_key (roster_slots st)"
    "length (roster_slots st) = 32" "length (ro_node_id (roster st ! i)) = 32"
    using assms(1) i by (auto simp: roster_inv_def roster_slots_def)
  have sl: "roster_slots st' = (roster_slots st)[i := Some ?e]"
    using counted_slots_write [OF z(1,2) i] by (simp add: st' l roster_slots_def)
  have key: "roster_key ?e = k" using z(5) assms(2) by (simp add: roster_fill_key)
  have p': "placed roster_key (roster_slots st) i (roster_key ?e)" using p key by simp
  note u = placed_unique [OF z(3) p']
  show "roster_inv st'"
    using assms(1) z i u sl by (auto simp: roster_inv_def st' l roster_fill_key dest: set_list_update_cases)
  show "\<exists>e. roster_find st' = (roster_find st)(k \<mapsto> e)"
    if "roster_find st k \<noteq> None \<or> card (dom (roster_find st)) < MAX_ROSTER_ENTRIES"
    using placed_lookup [OF z(3) p'] that z(4) key sl unfolding roster_find_def by auto
  show "\<exists>w\<in>dom (roster_find st). \<exists>e. roster_find st' = (roster_find st)(w := None, k \<mapsto> e)"
    if "roster_find st k = None" "card (dom (roster_find st)) = MAX_ROSTER_ENTRIES"
    using placed_evicts [OF z(3) p'] that z(4) key sl unfolding roster_find_def by auto
  show "\<exists>e. roster_find st' k = Some e \<and> ro_last_seen_tick_ms e = now"
    using slot_lookup_Some [OF u, of k ?e] i z key sl unfolding roster_find_def
    by (intro exI [of _ ?e]) (auto simp: roster_fill_key)
qed

interpretation nodes: bounded_table roster_inv roster_find
  "\<lambda>k (l, ep, r, s, now). roster_touch (Some k) l ep r s now" node_id MAX_ROSTER_ENTRIES
proof
  show "finite (dom (roster_find s)) \<and> card (dom (roster_find s)) \<le> MAX_ROSTER_ENTRIES"
    if "roster_inv s" for s
    using card_dom_slot_lookup [of roster_key "roster_slots s"] that count_if_le [of _ "roster_slots s"]
    by (auto simp: roster_inv_def roster_find_def roster_slots_def)
qed (use touch_laws(1-3) [OF _ _ refl] in \<open>auto simp: domIff split: prod.split\<close>)

lemma roster_start_inv: "roster_inv roster_start" "roster_find roster_start = Map.empty"
proof -
  have s: "roster_slots roster_start = replicate 32 None"
    by (simp add: roster_slots_def counted_slots_def roster_start_def)
  show "roster_inv roster_start"
    unfolding roster_inv_def s by (auto simp: roster_start_def roster_entry_zero_def unique_keys_def)
  show "roster_find roster_start = Map.empty"
    unfolding roster_find_def s by (intro ext) (simp add: slot_lookup_None)
qed

lemma roster_stale_find:
  assumes "roster_inv st" "cstr k = k"
  shows "roster_is_stale_locked st k now =
    (case roster_find st k of None \<Rightarrow> True | Some e \<Rightarrow> \<not> now - ro_last_seen_tick_ms e < ROSTER_STALE_MS)"
proof (cases "find_index (holds roster_key k) (roster_slots st)")
  case None
  have "find_roster_index st k = None" unfolding find_roster_slots [OF assms(2)] by (rule None)
  moreover have "roster_find st k = None" unfolding roster_find_def slot_lookup_def None by simp
  ultimately show ?thesis by (simp add: roster_is_stale_locked_def)
next
  case (Some j)
  have s: "length (roster st) = 32" "roster_count st \<le> 32" using assms(1) by (auto simp: roster_inv_def)
  note j = counted_found [OF s Some [unfolded roster_slots_def]]
  have "find_roster_index st k = Some j" using Some find_roster_slots [OF assms(2)] by simp
  with j show ?thesis by (simp add: roster_is_stale_locked_def roster_find_def roster_slots_def not_less)
qed

text \<open>The search depends on the ids only, and finds each entry under its own id.\<close>

lemma find_roster_index_ids:
  "map ro_node_id (roster st') = map ro_node_id (roster st) \<Longrightarrow> roster_count st' = roster_count st \<Longrightarrow>
   find_roster_index st' k = find_roster_index st k"
proof -
  assume ids: "map ro_node_id (roster st') = map ro_node_id (roster st)" "roster_count st' = roster_count st"
  have "find_roster_index s k = find_index (\<lambda>x. streq x k) (take (roster_count s) (map ro_node_id (roster s)))" for s
    by (simp add: find_roster_index_def take_map find_index_map)
  then show ?thesis by (simp add: ids)
qed

lemma find_roster_self:
  assumes "roster_inv st" "i < roster_count st"
  shows "find_roster_index st (ro_node_id (roster st ! i)) = Some i"
  unfolding find_roster_index_def
proof (rule find_index_unique)
  have s: "length (roster st) = 32" "roster_count st \<le> 32" "unique_keys roster_key (roster_slots st)"
    using assms(1) by (auto simp: roster_inv_def)
  show "i < length (take (roster_count st) (roster st))" using s assms(2) by simp
  show "streq (ro_node_id (take (roster_count st) (roster st) ! i)) (ro_node_id (roster st ! i))"
    using assms(2) by (simp add: streq_def)
  fix j assume "j < length (take (roster_count st) (roster st))"
    "streq (ro_node_id (take (roster_count st) (roster st) ! j)) (ro_node_id (roster st ! i))"
  then have j: "j < roster_count st" "roster_key (roster st ! j) = roster_key (roster st ! i)"
    by (auto simp: streq_def roster_key_def)
  have "roster_slots st ! m = Some (roster st ! m)" "m < 32" if "m < roster_count st" for m
    using s that by (auto simp: roster_slots_def counted_slots_nth)
  then show "j = i"
    using unique_keysD [OF s(3), of j i "roster_key (roster st ! i)"] j assms(2) s by (simp add: roster_slots_def)
qed

lemma roster_snapshot_loop_spec:
  assumes "roster_inv st" "i + n \<le> roster_count st" "roster_count st' = roster_count st"
    "roster st' = map (\<lambda>e. refresh_online_state e now) (take i (roster st)) @ drop i (roster st)"
  shows "roster_snapshot_loop n i now st' = st'\<lparr>roster :=
    map (\<lambda>e. refresh_online_state e now) (take (i + n) (roster st)) @ drop (i + n) (roster st)\<rparr>"
  using assms(2-4)
proof (induction n arbitrary: i st')
  case (Suc n)
  let ?f = "\<lambda>e. refresh_online_state e now"
  have len: "roster_count st \<le> 32" "length (roster st) = 32" using assms(1) by (auto simp: roster_inv_def)
  have i: "i < roster_count st" "i < length (roster st)" using Suc.prems(1) len by auto
  have nth: "roster st' ! i = roster st ! i" using Suc.prems(3) i by (simp add: nth_append)
  have "map ro_node_id (roster st') = map ro_node_id (take i (roster st) @ drop i (roster st))"
    unfolding Suc.prems(3) map_append by (simp add: refresh_online_state_def)
  then have "find_roster_index st' (ro_node_id (roster st ! i)) = Some i"
    using find_roster_index_ids [of st' st] Suc.prems(2) find_roster_self [OF assms(1) i(1)] by simp
  then have upd: "(roster st' ! i)\<lparr>ro_online := \<not> roster_is_stale_locked st' (ro_node_id (roster st' ! i)) now\<rparr> = ?f (roster st ! i)"
    by (simp add: nth roster_is_stale_locked_def refresh_online_state_def not_le)
  have new: "(roster st')[i := ?f (roster st ! i)] = map ?f (take (Suc i) (roster st)) @ drop (Suc i) (roster st)"
    using i(2) unfolding Suc.prems(3) by (simp add: list_update_append take_Suc_conv_app_nth upd_conv_take_nth_drop)
  have "roster_snapshot_loop (Suc n) i now st' =
      roster_snapshot_loop n (Suc i) now (st'\<lparr>roster := (roster st')[i := ?f (roster st ! i)]\<rparr>)"
    by (simp only: roster_snapshot_loop.simps upd)
  also have "\<dots> = st'\<lparr>roster := map ?f (take (i + Suc n) (roster st)) @ drop (i + Suc n) (roster st)\<rparr>"
    using Suc.IH [of "Suc i" "st'\<lparr>roster := (roster st')[i := ?f (roster st ! i)]\<rparr>"] Suc.prems(1,2) new by simp
  finally show ?case .
qed simp

subsection \<open>Properties\<close>

text \<open>
  A node that was just heard is not stale: after \<open>roster_touch\<close> at time \<open>now\<close>,
  \<open>roster_is_stale_at\<close> answers false until exactly \<open>ROSTER_STALE_MS\<close> later,
  across the wrap of the clock and whatever the roster held.
\<close>

theorem roster_touched_until_stale:
  assumes "roster_inv st" "node_id k"
  shows "roster_is_stale_at (Some k) now' (roster_touch (Some k) l ep r s now st) \<longleftrightarrow> \<not> now' - now < ROSTER_STALE_MS"
  using touch_laws(4) [OF assms refl, of l ep r s now] roster_stale_find [OF touch_laws(1) [OF assms refl] node_id_cstr [OF assms(2)]]
    assms(2)
  by (auto simp: roster_is_stale_at_def)

theorem roster_touched_until_stale_witness:
  "roster_is_stale_at (Some (lit ''N'')) 299994 (roster_touch (Some (lit ''N'')) None 0 (- 80) 7 4294967290 roster_start) \<longleftrightarrow>
   \<not> (299994 - 4294967290 :: u32) < ROSTER_STALE_MS"
  by (rule roster_touched_until_stale [OF roster_start_inv(1)]) code_simp

text \<open>
  The snapshot shows the first entries of the roster, as many as fit, each unchanged but
  for its online flag, which says whether it was heard within \<open>ROSTER_STALE_MS\<close>; the
  roster itself changes in those flags only.
\<close>

theorem roster_snapshot_spec:
  assumes "roster_inv st"
  shows "roster_get_snapshot cap now st =
    (let n = min (roster_count st) cap; shown = map (\<lambda>e. refresh_online_state e now) (take n (roster st))
     in (shown, st\<lparr>roster := shown @ drop n (roster st)\<rparr>))"
proof (cases "cap = 0")
  case False
  have "length (roster st) = 32" "roster_count st \<le> 32" using assms by (auto simp: roster_inv_def)
  then show ?thesis
    using False roster_snapshot_loop_spec [OF assms, of 0 "min (roster_count st) cap" st now]
    by (simp add: roster_get_snapshot_def Let_def)
qed (simp add: roster_get_snapshot_def Let_def)

theorem roster_snapshot_spec_witness:
  "fst (roster_get_snapshot 4 300010 (roster_touch (Some (lit ''N'')) None 0 (- 80) 7 5 roster_start)) =
   map (\<lambda>e. refresh_online_state e 300010) (take 1 (roster (roster_touch (Some (lit ''N'')) None 0 (- 80) 7 5 roster_start)))"
proof -
  have n: "node_id (lit ''N'')" by code_simp
  have "roster_count (roster_touch (Some (lit ''N'')) None 0 (- 80) 7 5 roster_start) = 1" by code_simp
  then show ?thesis
    by (subst roster_snapshot_spec [OF touch_laws(1) [OF roster_start_inv(1) n refl]]) (simp add: Let_def)
qed
end
