(* ===== verification/App_Runtime.thy ===== *)
theory App_Runtime
  imports Tx_Scheduler_Props Mesh_Control Bems_Crypto Dedup_Props Replay_Protection Roster
begin

text \<open>
  \<open>src/app/app_runtime.c\<close>: the node put together. A node is the record of the state of all
  components; the radio task's handler \<open>lora_handle_rx_packet\<close> decrypts, parses and
  dispatches a frame, \<open>queue_message\<close> takes a message from the portal, and
  \<open>app_runtime_start\<close> brings the state up. Outside services and every reading of the
  clock are arguments. The handler is partial because the duplicate filter is: None is a
  call that never returns.
\<close>

abbreviation DEFAULT_HOPS :: int where "DEFAULT_HOPS \<equiv> 3"

record ('n, 'c, 'q, 'r) node =
  my_node_id :: bytes
  duplicate_node_id_warning :: bool
  replay_sources :: replay_table
  seen_filter :: dedup_state
  routes :: route_state
  known_nodes :: roster_state
  scheduler :: "'n tx_sched"
  forwarder :: "'q forward_state"
  sequence :: "'c sequence_state"
  mesh_clock :: time_state
  sync_requests :: "'r sync_queue_state"

record ('n, 'c, 'q, 'r, 'k, 'o) services =
  sv_store :: "'n nvs_api"
  sv_cfg :: "'c nvs_u32_api"
  sv_jobs :: "(forward_job_t, 'q) queue_api"
  sv_requests :: "(mesh_packet_t, 'r) queue_api"
  sv_task_created :: bool
  sv_psa :: "('k, 'o) psa_api"
  sv_config :: crypto_config

text \<open>The readings of the clock in one call of the handler, in ticks or milliseconds.\<close>

record rx_reads =
  rd_ticks :: u32
  rd_dedup_ms :: u32
  rd_dedup_init_ms :: u32
  rd_learn_ms :: u32
  rd_route_ms :: u32
  rd_ack_ms :: u32
  rd_sync_ticks :: "u32 \<times> u32"
  rd_store :: "nat \<Rightarrow> u32 \<times> u32"

subsection \<open>Storing what was received\<close>

definition print_int :: "int \<Rightarrow> bytes" where
  "print_int i = (if i < 0 then 45 # print_dec (nat (- i)) else print_dec (nat i))"

text \<open>\<open>stored_epoch\<close>; \<open>tick\<close> is read only when the clock is set.\<close>

definition stamp :: "u32 \<Rightarrow> time_state \<Rightarrow> u32" where
  "stamp tick clock = (if mesh_control_is_time_synced clock then mesh_control_current_epoch_seconds tick clock else 0)"

definition received_message :: "u32 \<Rightarrow> u32 \<Rightarrow> bytes \<Rightarrow> mesh_packet_t \<Rightarrow> int \<Rightarrow> int \<Rightarrow> emergency_message_t" where
  "received_message ident epoch packet parsed rssi snr =
    (let m = emergency_message_zero;
         valid = mp_valid parsed;
         m = m\<lparr>em_id := ident,
            em_direction := copy_field (em_direction m) (lit ''RX''),
            em_source := copy_field (em_source m) (if valid then mp_source parsed else lit ''UNKNOWN''),
            em_destination := copy_field (em_destination m) (if valid then mp_destination parsed else lit ''UNKNOWN''),
            em_type := copy_field (em_type m) (if valid then mp_type parsed else lit ''RECEIVED''),
            em_priority := copy_field (em_priority m) (if valid then mp_priority parsed else lit ''NORMAL''),
            em_payload := copy_field (em_payload m) (if valid then mp_payload parsed else packet)\<rparr>;
         m = (if valid
           then m\<lparr>em_origin_location := mp_location parsed,
                  em_thread_key := compute_thread_key (em_thread_key m) (mp_source parsed) (mp_destination parsed),
                  em_rssi := rssi, em_snr := snr, em_hops := mp_hops parsed\<rparr>
           else m\<lparr>em_thread_key := copy_field (em_thread_key m) (lit ''UNKNOWN''), em_rssi := rssi, em_snr := snr, em_hops := 0\<rparr>)
     in m\<lparr>em_status := copy_field (em_status m) (lit ''RECEIVED''), em_stored_epoch := epoch,
          em_packet := snprintf (em_packet m)
            (lit ''RSSI='' @ print_int rssi @ lit '' SNR='' @ print_int snr @ lit '' | '' @ take 250 (cstr packet))\<rparr>)"

text \<open>\<open>message_store_allocate\<close> and \<open>message_store_write\<close> on the store of the scheduler.\<close>

definition keep_message :: "'n nvs_api \<Rightarrow> emergency_message_t \<Rightarrow> 'n tx_sched \<Rightarrow> 'n tx_sched" where
  "keep_message api m st =
    (case message_store_allocate api (tx_store st) of
       (None, store) \<Rightarrow> st\<lparr>tx_store := store\<rparr>
     | (Some slot, store) \<Rightarrow> st\<lparr>tx_store := snd (message_store_write api (int slot) m store)\<rparr>)"

definition store_received_packet ::
  "('n, 'c, 'q, 'r, 'k, 'o) services \<Rightarrow> u32 \<times> u32 \<Rightarrow> bytes \<Rightarrow> mesh_packet_t \<Rightarrow> int \<Rightarrow> int \<Rightarrow> ('n, 'c, 'q, 'r) node \<Rightarrow> ('n, 'c, 'q, 'r) node" where
  "store_received_packet sv reads packet parsed rssi snr nd =
    (let (ident, sq) = (if mp_valid parsed then (mp_id parsed, sequence nd)
           else (case mesh_sequence_next (sv_cfg sv) (sequence nd) of (ident, sq) \<Rightarrow> (ident, snd (mesh_sequence_save (sv_cfg sv) sq))));
         nd = nd\<lparr>sequence := sq\<rparr>;
         epoch = stamp (fst reads) (mesh_clock nd);
         m = received_message ident epoch packet parsed rssi snr;
         nd = (if mp_valid parsed
           then nd\<lparr>known_nodes := roster_touch (Some (mp_source parsed)) (Some (mp_location parsed)) epoch rssi snr (snd reads) (known_nodes nd)\<rparr>
           else nd)
     in if mp_valid parsed \<and> (streq (mp_source parsed) (my_node_id nd) \<or> streq (mp_destination parsed) (my_node_id nd))
        then nd\<lparr>scheduler := keep_message (sv_store sv) m (scheduler nd)\<rparr>
        else nd)"

subsection \<open>Dispatch\<close>

text \<open>The records of a SYNC_RESP; \<open>i\<close> counts them.\<close>

fun rx_sync_records ::
  "('n, 'c, 'q, 'r, 'k, 'o) services \<Rightarrow> rx_reads \<Rightarrow> int \<Rightarrow> int \<Rightarrow> nat \<Rightarrow> mesh_packet_t list \<Rightarrow> ('n, 'c, 'q, 'r) node \<Rightarrow> ('n, 'c, 'q, 'r) node" where
  "rx_sync_records sv rd rssi snr i [] nd = nd"
| "rx_sync_records sv rd rssi snr i (p # ps) nd =
    (case replay_protection_accept (mp_source p) (mp_id p) (rd_ticks rd) (replay_sources nd) of
       (fresh, tbl) \<Rightarrow>
         (let nd = nd\<lparr>replay_sources := tbl\<rparr>;
              nd = (if fresh then store_received_packet sv (rd_store rd i) (mp_payload p) p rssi snr nd else nd)
          in rx_sync_records sv rd rssi snr (Suc i) ps nd))"

definition rx_ack :: "('n, 'c, 'q, 'r, 'k, 'o) services \<Rightarrow> mesh_packet_t \<Rightarrow> ('n, 'c, 'q, 'r) node \<Rightarrow> ('n, 'c, 'q, 'r) node" where
  "rx_ack sv parsed nd =
    (let nd = (if \<not> streq (mp_source parsed) (my_node_id nd) then nd\<lparr>duplicate_node_id_warning := True\<rparr> else nd)
     in case mesh_control_parse_ack (mp_payload parsed) (mp_payload_len parsed) of
          None \<Rightarrow> nd
        | Some ack_info \<Rightarrow>
            if acknowledged_id ack_info \<noteq> 0 \<and> streq (acknowledged_source ack_info) (mp_source parsed) \<and>
               streq (mp_destination parsed) (my_node_id nd)
            then nd\<lparr>scheduler := snd (tx_scheduler_acknowledge (sv_store sv) (acknowledged_id ack_info) (Some (mp_source parsed)) (scheduler nd))\<rparr>
            else nd)"

definition rx_send_ack ::
  "('n, 'c, 'q, 'r, 'k, 'o) services \<Rightarrow> rx_reads \<Rightarrow> mesh_packet_t \<Rightarrow> ('n, 'c, 'q, 'r) node \<Rightarrow> ('n, 'c, 'q, 'r) node" where
  "rx_send_ack sv rd parsed nd =
    (case mesh_control_send_ack_packet (sv_cfg sv) (sv_jobs sv) (my_node_id nd) (rd_ack_ms rd) (routes nd) parsed (sequence nd, forwarder nd) of
       (sq, fw) \<Rightarrow> nd\<lparr>sequence := sq, forwarder := fw\<rparr>)"

definition rx_forward ::
  "('n, 'c, 'q, 'r, 'k, 'o) services \<Rightarrow> rx_reads \<Rightarrow> mesh_packet_t \<Rightarrow> int \<Rightarrow> int \<Rightarrow> ('n, 'c, 'q, 'r) node \<Rightarrow> ('n, 'c, 'q, 'r) node" where
  "rx_forward sv rd parsed rssi snr nd =
    (let is_broadcast = streq (mp_destination parsed) (lit ''ALL'');
         is_for_me = streq (mp_destination parsed) (my_node_id nd);
         control = mesh_control_is_control_packet_type (mp_type parsed);
         best = (if \<not> is_broadcast \<and> \<not> is_for_me \<and> \<not> control
           then route_table_get_best (Some (mp_destination parsed)) (rd_route_ms rd) (routes nd) else None)
     in if mp_hops parsed > 0 \<and> \<not> is_for_me \<and> (\<not> control \<or> streq (mp_type parsed) (lit ''ACK''))
        then nd\<lparr>forwarder := snd (forward_queue_enqueue (sv_jobs sv) (relay_job parsed rssi snr best (my_node_id nd))
               (forward_priority_for_packet parsed) (forwarder nd))\<rparr>
        else nd)"

text \<open>A packet that is neither a SYNC nor a TIME_SYNC packet.\<close>

definition rx_message ::
  "('n, 'c, 'q, 'r, 'k, 'o) services \<Rightarrow> rx_reads \<Rightarrow> bytes \<Rightarrow> mesh_packet_t \<Rightarrow> int \<Rightarrow> int \<Rightarrow> ('n, 'c, 'q, 'r) node \<Rightarrow> ('n, 'c, 'q, 'r) node" where
  "rx_message sv rd decrypted parsed rssi snr nd =
    (let is_broadcast = streq (mp_destination parsed) (lit ''ALL'');
         is_for_me = streq (mp_destination parsed) (my_node_id nd);
         is_ack = streq (mp_type parsed) (lit ''ACK'');
         nd = (if is_broadcast \<or> is_for_me then store_received_packet sv (rd_store rd 0) decrypted parsed rssi snr nd else nd);
         nd = (if is_for_me \<and> \<not> is_ack then rx_send_ack sv rd parsed nd else nd);
         nd = (if is_ack \<and> is_for_me then rx_ack sv parsed nd else nd)
     in rx_forward sv rd parsed rssi snr nd)"

text \<open>A packet of another node that the replay window lets through.\<close>

definition rx_accepted ::
  "('n, 'c, 'q, 'r, 'k, 'o) services \<Rightarrow> rx_reads \<Rightarrow> bytes \<Rightarrow> mesh_packet_t \<Rightarrow> int \<Rightarrow> int \<Rightarrow> ('n, 'c, 'q, 'r) node \<Rightarrow> ('n, 'c, 'q, 'r) node option" where
  "rx_accepted sv rd decrypted parsed rssi snr nd =
    (case remember_packet (rd_dedup_ms rd) (rd_dedup_init_ms rd) (mp_source parsed) (mp_id parsed) (seen_filter nd) of
       None \<Rightarrow> None
     | Some seen \<Rightarrow>
        (let nd = nd\<lparr>seen_filter := seen,
                     routes := route_table_learn (Some (mp_source parsed)) (Some (mp_relay parsed)) (mp_path_hops parsed) rssi (rd_learn_ms rd) (routes nd)\<rparr>
         in Some
          (if streq (mp_type parsed) (lit ''SYNC_REQ'') then
             nd\<lparr>sync_requests := mesh_control_enqueue_sync_response (sv_requests sv) (sv_task_created sv) parsed (sync_requests nd)\<rparr>
           else if streq (mp_type parsed) (lit ''SYNC_RESP'') then
             (let nd = rx_sync_records sv rd rssi snr 0 (mesh_control_decode_sync_response_records (mp_payload parsed) (mp_payload_len parsed) 8) nd
              in if streq (mp_destination parsed) (my_node_id nd) \<and> \<not> streq (mp_source parsed) (my_node_id nd)
                 then nd\<lparr>duplicate_node_id_warning := True\<rparr> else nd)
           else if streq (mp_type parsed) (lit ''TIME_SYNC'') then
             nd\<lparr>mesh_clock := snd (mesh_control_handle_time_sync_packet (fst (rd_sync_ticks rd)) (snd (rd_sync_ticks rd)) (mp_payload parsed) (mesh_clock nd))\<rparr>
           else rx_message sv rd decrypted parsed rssi snr nd)))"

text \<open>
  \<open>stack\<close> is the uninitialised buffer \<open>decrypted_packet\<close>; \<open>payload\<close> is the list of the
  \<open>length\<close> bytes received.
\<close>

definition rx_parse :: "bytes \<Rightarrow> nat \<Rightarrow> bytes \<times> mesh_packet_t option" where
  "rx_parse decrypted len =
    (if mesh_packet_is_v2 (take len decrypted) then (decrypted, parse_mesh_packet_v2 (take len decrypted))
     else (decrypted[len := 0], parse_mesh_packet (decrypted[len := 0])))"

definition rx_packet ::
  "('n, 'c, 'q, 'r, 'k, 'o) services \<Rightarrow> rx_reads \<Rightarrow> bytes \<Rightarrow> mesh_packet_t \<Rightarrow> int \<Rightarrow> int \<Rightarrow> ('n, 'c, 'q, 'r) node \<Rightarrow> ('n, 'c, 'q, 'r) node option" where
  "rx_packet sv rd decrypted parsed rssi snr nd =
    (let from_self = streq (mp_source parsed) (my_node_id nd) in
     case replay_protection_accept (mp_source parsed) (mp_id parsed) (rd_ticks rd) (replay_sources nd) of
       (replay_allowed, tbl) \<Rightarrow>
         (let nd = nd\<lparr>replay_sources := tbl\<rparr> in
          if \<not> from_self \<and> replay_allowed then rx_accepted sv rd decrypted parsed rssi snr nd
          else if from_self then Some (store_received_packet sv (rd_store rd 0) decrypted mesh_packet_zero rssi snr nd)
          else Some nd))"

definition lora_handle_rx_packet ::
  "('n, 'c, 'q, 'r, 'k, 'o) services \<Rightarrow> rx_reads \<Rightarrow> bytes \<Rightarrow> bytes \<Rightarrow> int \<Rightarrow> int \<Rightarrow> ('n, 'c, 'q, 'r) node \<Rightarrow> ('n, 'c, 'q, 'r) node option" where
  "lora_handle_rx_packet sv rd stack payload rssi snr nd =
    (case bems_decrypt_frame_bytes (sv_psa sv) (sv_config sv) payload stack of
       None \<Rightarrow> Some nd
     | Some (plain, len) \<Rightarrow>
        (case rx_parse plain len of
           (decrypted, None) \<Rightarrow> Some nd
         | (decrypted, Some parsed) \<Rightarrow> rx_packet sv rd decrypted parsed rssi snr nd))"

subsection \<open>Sending and starting\<close>

definition outgoing_message :: "bytes \<Rightarrow> u32 \<Rightarrow> u32 \<Rightarrow> location_info_t \<Rightarrow> bytes \<Rightarrow> bytes \<Rightarrow> bytes \<Rightarrow> bytes \<Rightarrow> emergency_message_t" where
  "outgoing_message local_id ident epoch location destination type priority payload =
    (let m = emergency_message_zero;
         m = m\<lparr>em_id := ident,
            em_direction := copy_field (em_direction m) (lit ''TX''),
            em_source := copy_field (em_source m) local_id,
            em_destination := copy_field (em_destination m) destination,
            em_type := copy_field (em_type m) type,
            em_priority := copy_field (em_priority m) priority,
            em_payload := copy_field (em_payload m) payload,
            em_hops := DEFAULT_HOPS,
            em_status := copy_field (em_status m) (lit ''PENDING''),
            em_stored_epoch := epoch\<rparr>
     in m\<lparr>em_thread_key := compute_thread_key (em_thread_key m) (em_source m) (em_destination m),
          em_origin_location := location,
          em_packet := snprintf (em_packet m) (lit ''TX '' @ cstr (em_source m) @ lit '' -> '' @ cstr (em_destination m) @
            lit '' type='' @ cstr (em_type m) @ lit '' priority='' @ cstr (em_priority m))\<rparr>)"

text \<open>\<open>t1\<close> is the tick for the epoch, \<open>t2\<close> the one \<open>tx_scheduler_submit\<close> reads.\<close>

definition queue_message ::
  "('n, 'c, 'q, 'r, 'k, 'o) services \<Rightarrow> u32 \<Rightarrow> u32 \<Rightarrow> location_info_t \<Rightarrow> bytes \<Rightarrow> bytes \<Rightarrow> bytes \<Rightarrow> bytes \<Rightarrow>
   ('n, 'c, 'q, 'r) node \<Rightarrow> ('n, 'c, 'q, 'r) node" where
  "queue_message sv t1 t2 location destination type priority payload nd =
    (case mesh_sequence_next (sv_cfg sv) (sequence nd) of (ident, sq) \<Rightarrow>
      (let m = outgoing_message (my_node_id nd) ident (stamp t1 (mesh_clock nd)) location destination type priority payload;
           nd = nd\<lparr>sequence := snd (mesh_sequence_save (sv_cfg sv) sq)\<rparr>
       in case message_store_allocate (sv_store sv) (tx_store (scheduler nd)) of
            (None, store) \<Rightarrow> nd\<lparr>scheduler := (scheduler nd)\<lparr>tx_store := store\<rparr>\<rparr>
          | (Some slot, store) \<Rightarrow>
             (case message_store_write (sv_store sv) (int slot) m store of (result, store) \<Rightarrow>
               (let st = (scheduler nd)\<lparr>tx_store := store\<rparr> in
                if result \<noteq> ESP_OK then nd\<lparr>scheduler := st\<rparr>
                else (case tx_scheduler_submit (sv_store sv) t2 m (int slot) st of
                  (True, st) \<Rightarrow> nd\<lparr>scheduler := st\<rparr>
                | (False, st) \<Rightarrow>
                   nd\<lparr>scheduler := st\<lparr>tx_store := snd (message_store_update (sv_store sv) (int slot)
                     (m\<lparr>em_status := copy_field (em_status m) (lit ''FAILED'')\<rparr>) (tx_store st))\<rparr>\<rparr>)))))"

text \<open>\<open>%02X\<close> of a byte.\<close>

definition hex_upper :: "u8 \<Rightarrow> bytes" where
  "hex_upper b = (let digit = (\<lambda>n :: nat. of_nat (if n < 10 then 48 + n else 55 + n)) in [digit (unat b div 16), digit (unat b mod 16)])"

text \<open>The node id and the name of the access point; \<open>stored\<close> is the id of the configuration.\<close>

definition boot_identity :: "u8 \<Rightarrow> u8 \<Rightarrow> bytes \<Rightarrow> bytes \<times> bytes" where
  "boot_identity mac4 mac5 stored =
    (let ident = snprintf (zeros FIELD_LEN) (lit ''NODE'' @ hex_upper mac4 @ hex_upper mac5);
         ap_ssid = snprintf (zeros FIELD_LEN) (lit ''BarangayMesh-SETUP-'' @ hex_upper mac4 @ hex_upper mac5);
         ident = (if str_empty stored then ident else copy_field ident stored)
     in (ident, snprintf ap_ssid (lit ''BarangayMesh-'' @ take (FIELD_LEN - 14) (cstr ident))))"

text \<open>What \<open>app_runtime_start\<close> does to the state of the node, in its order.\<close>

definition app_runtime_start ::
  "('n, 'c, 'q, 'r, 'k, 'o) services \<Rightarrow> u8 \<Rightarrow> u8 \<Rightarrow> bytes \<Rightarrow> u32 \<Rightarrow> ('n, 'c, 'q, 'r) node \<Rightarrow> ('n, 'c, 'q, 'r) node" where
  "app_runtime_start sv mac4 mac5 stored tick nd =
    (let nd = nd\<lparr>sequence := mesh_sequence_init (sv_cfg sv) (sequence nd), replay_sources := replay_protection_reset (replay_sources nd),
                 my_node_id := fst (boot_identity mac4 mac5 stored)\<rparr>;
         st = (scheduler nd)\<lparr>tx_store := message_store_load_messages_from_nvs (sv_store sv) (Some (my_node_id nd)) (tx_store (scheduler nd))\<rparr>
     in nd\<lparr>scheduler := snd (tx_scheduler_restore_pending tick st), forwarder := forward_queue_init (sv_jobs sv) (forwarder nd)\<rparr>)"

end
