(* ===== verification/Node_Config.thy ===== *)
theory Node_Config
  imports Bems_Crypto Message_Store Mesh_Packet Mesh_Sequence
begin

text \<open>
  \<open>src/node_config.c\<close>: the configuration of the node, its identity and their copy in
  flash. The flash service is a parameter, \<open>config_nvs\<close>; \<open>esp_random\<close> is a function
  from the number of the call to its answer. The mutex guards single critical sections and
  is left out. The static \<open>copy_field\<close> of the file is the one of \<open>String_Utils\<close>.
\<close>

record node_config_t =
  nc_configured :: bool
  nc_node_id :: bytes
  nc_node_name :: bytes
  nc_node_role :: bytes
  nc_location :: location_info_t
  nc_default_destination :: bytes
  nc_default_priority :: bytes
  nc_ap_password :: bytes
  nc_web_pin :: bytes
  nc_duress_pin :: bytes
  nc_network_key :: bytes

text \<open>A static or a \<open>= {0}\<close> configuration.\<close>

definition node_config_zero :: node_config_t where
  "node_config_zero = \<lparr>nc_configured = False, nc_node_id = zeros FIELD_LEN, nc_node_name = zeros FIELD_LEN,
     nc_node_role = zeros FIELD_LEN, nc_location = location_zero, nc_default_destination = zeros FIELD_LEN,
     nc_default_priority = zeros FIELD_LEN, nc_ap_password = zeros FIELD_LEN, nc_web_pin = zeros FIELD_LEN,
     nc_duress_pin = zeros FIELD_LEN, nc_network_key = zeros FIELD_LEN\<rparr>"

text \<open>
  The NVS interface for the namespace \<open>bems_config\<close>: opening it for writing, reading a
  byte, reading a string into a buffer of the given size (the string without its NUL, or an
  error that leaves the buffer alone), and the writing calls, which return the new state of
  the flash also when they fail.
\<close>

record 'n config_nvs =
  cn_open :: "'n \<Rightarrow> esp_err_t"
  cn_get_u8 :: "'n \<Rightarrow> bytes \<Rightarrow> esp_err_t + u8"
  cn_get_str :: "'n \<Rightarrow> bytes \<Rightarrow> nat \<Rightarrow> esp_err_t + bytes"
  cn_set_u8 :: "bytes \<Rightarrow> u8 \<Rightarrow> 'n \<Rightarrow> esp_err_t \<times> 'n"
  cn_set_str :: "bytes \<Rightarrow> bytes \<Rightarrow> 'n \<Rightarrow> esp_err_t \<times> 'n"
  cn_erase_key :: "bytes \<Rightarrow> 'n \<Rightarrow> esp_err_t \<times> 'n"
  cn_erase_all :: "'n \<Rightarrow> esp_err_t \<times> 'n"
  cn_commit :: "'n \<Rightarrow> esp_err_t \<times> 'n"

record 'n config_state =
  node_config :: node_config_t
  identity :: bytes
  config_flash :: 'n

subsection \<open>Text\<close>

definition toupper :: "u8 \<Rightarrow> u8" where
  "toupper c = (if 97 \<le> c \<and> c \<le> 122 then c - 32 else c)"

definition node_config_copy_node_id :: "bytes \<Rightarrow> bytes \<Rightarrow> bytes" where
  "node_config_copy_node_id destination source =
    (if length destination = 0 then destination
     else copy_loop (\<lambda>c. if isalnum c \<or> c = 45 \<or> c = 95 then Some (toupper c) else None) destination source 0)"

definition hex_digit :: "u8 \<Rightarrow> u8" where
  "hex_digit v = lit ''0123456789ABCDEF'' ! unat v"

fun random_hex_loop :: "(nat \<Rightarrow> u32) \<Rightarrow> bytes \<Rightarrow> nat \<Rightarrow> bytes" where
  "random_hex_loop esp_random destination 0 = destination"
| "random_hex_loop esp_random destination (Suc i) =
    (let destination = random_hex_loop esp_random destination i; v = ucast (esp_random i) :: u8
     in destination[i * 2 := hex_digit (drop_bit 4 v), i * 2 + 1 := hex_digit (v AND 0x0F)])"

definition random_hex_string :: "(nat \<Rightarrow> u32) \<Rightarrow> bytes \<Rightarrow> nat \<Rightarrow> bytes" where
  "random_hex_string esp_random destination n =
    (let required = n * 2 + 1 in
     if length destination = 0 then destination
     else if length destination < required then destination[0 := 0]
     else (random_hex_loop esp_random destination n)[n * 2 := 0])"

subsection \<open>State\<close>

definition node_config_is_provisioned :: "'n config_state \<Rightarrow> bool" where
  "node_config_is_provisioned st \<longleftrightarrow> nc_configured (node_config st) \<and>
     at (nc_web_pin (node_config st)) 0 \<noteq> 0 \<and> at (nc_network_key (node_config st)) 0 \<noteq> 0"

definition node_config_set_identity :: "bytes \<Rightarrow> 'n config_state \<Rightarrow> 'n config_state" where
  "node_config_set_identity ident st = st\<lparr>identity := copy_field (identity st) ident\<rparr>"

definition config_defaults :: "bytes \<Rightarrow> node_config_t \<Rightarrow> node_config_t" where
  "config_defaults ident c =
    c\<lparr>nc_configured := False,
      nc_node_id := copy_field (nc_node_id c) ident,
      nc_node_name := copy_field (nc_node_name c) (lit ''Unconfigured Node''),
      nc_node_role := copy_field (nc_node_role c) (lit ''relay-only''),
      nc_location := \<lparr>sitio = copy_field (sitio (nc_location c)) [],
        barangay = copy_field (barangay (nc_location c)) (lit ''Unknown''),
        municipality = copy_field (municipality (nc_location c)) []\<rparr>,
      nc_default_destination := copy_field (nc_default_destination c) (lit ''BRGY001''),
      nc_default_priority := copy_field (nc_default_priority c) (lit ''NORMAL''),
      nc_ap_password := copy_field (nc_ap_password c) [],
      nc_web_pin := copy_field (nc_web_pin c) [],
      nc_duress_pin := (nc_duress_pin c)[0 := 0],
      nc_network_key := copy_field (nc_network_key c) []\<rparr>"

definition node_config_set_defaults :: "'n config_state \<Rightarrow> 'n config_state" where
  "node_config_set_defaults st = st\<lparr>node_config := config_defaults (identity st) (node_config st)\<rparr>"

subsection \<open>Saving\<close>

text \<open>The chain \<open>if (result == ESP_OK) result = ...\<close>: the first failing call ends it.\<close>

fun nvs_chain :: "('n \<Rightarrow> esp_err_t \<times> 'n) list \<Rightarrow> 'n \<Rightarrow> esp_err_t \<times> 'n" where
  "nvs_chain [] n = (ESP_OK, n)"
| "nvs_chain (step # steps) n = (case step n of (result, n) \<Rightarrow> if result = ESP_OK then nvs_chain steps n else (result, n))"

definition save_steps :: "'n config_nvs \<Rightarrow> node_config_t \<Rightarrow> ('n \<Rightarrow> esp_err_t \<times> 'n) list" where
  "save_steps api config =
    [cn_set_u8 api (lit ''configured'') (if nc_configured config then 1 else 0),
     cn_set_str api (lit ''node_id'') (cstr (nc_node_id config)),
     cn_set_str api (lit ''node_name'') (cstr (nc_node_name config)),
     cn_set_str api (lit ''node_role'') (cstr (nc_node_role config)),
     cn_set_str api (lit ''sitio'') (cstr (sitio (nc_location config))),
     cn_set_str api (lit ''barangay'') (cstr (barangay (nc_location config))),
     cn_set_str api (lit ''municipality'') (cstr (municipality (nc_location config))),
     cn_set_str api (lit ''default_dest'') (cstr (nc_default_destination config)),
     cn_set_str api (lit ''default_priority'') (cstr (nc_default_priority config)),
     cn_set_str api (lit ''ap_password'') (cstr (nc_ap_password config)),
     cn_set_str api (lit ''web_pin'') (cstr (nc_web_pin config)),
     cn_set_str api (lit ''duress_pin'') (cstr (nc_duress_pin config)),
     cn_set_str api (lit ''network_key'') (cstr (nc_network_key config)),
     cn_erase_key api (lit ''location''),
     cn_commit api]"

definition node_config_save :: "'n config_nvs \<Rightarrow> node_config_t option \<Rightarrow> 'n config_state \<Rightarrow> esp_err_t \<times> 'n config_state" where
  "node_config_save api config st =
    (case config of
       None \<Rightarrow> (ESP_ERR_INVALID_ARG, st)
     | Some config \<Rightarrow>
        if nc_configured config \<and> (at (nc_node_id config) 0 = 0 \<or> at (nc_web_pin config) 0 = 0 \<or>
             at (nc_network_key config) 0 = 0 \<or> at (nc_ap_password config) 0 = 0)
        then (ESP_ERR_INVALID_ARG, st)
        else if cn_open api (config_flash st) \<noteq> ESP_OK then (cn_open api (config_flash st), st)
        else (case nvs_chain (save_steps api config) (config_flash st) of (result, n) \<Rightarrow>
          if result = ESP_OK
          then (result, st\<lparr>config_flash := n, node_config := config,
                  identity := (if at (nc_node_id config) 0 \<noteq> 0 then copy_field (identity st) (nc_node_id config)
                               else identity st)\<rparr>)
          else (result, st\<lparr>config_flash := n\<rparr>)))"

text \<open>
  The namespace \<open>bems_config\<close>: the configuration, the stored messages
  (\<open>message_store.c\<close>) and the packet counter (\<open>mesh_sequence.c\<close>) are kept in it under
  keys of their own. \<open>nvs_erase_all\<close> erases all of them; their copies in memory stay.
\<close>

record ('f, 'n, 'c) bems_namespace =
  ns_config :: 'f
  ns_messages :: 'n
  ns_counter :: 'c

definition node_config_erase ::
  "'f config_nvs \<Rightarrow> 'n nvs_api \<Rightarrow> 'c nvs_u32_api \<Rightarrow> ('f, 'n, 'c) bems_namespace \<Rightarrow> ('f, 'n, 'c) bems_namespace" where
  "node_config_erase api store counter ns =
    (if cn_open api (ns_config ns) = ESP_OK
     then \<lparr>ns_config = snd (cn_commit api (snd (cn_erase_all api (ns_config ns)))),
           ns_messages = erase_message_keys store (ns_messages ns),
           ns_counter = erase_counter_keys counter (ns_counter ns)\<rparr>
     else ns)"

text \<open>The configuration's share of it.\<close>

definition config_erased :: "'n config_nvs \<Rightarrow> 'n config_state \<Rightarrow> 'n config_state" where
  "config_erased api st =
    (if cn_open api (config_flash st) = ESP_OK
     then st\<lparr>config_flash := snd (cn_commit api (snd (cn_erase_all api (config_flash st))))\<rparr>
     else st)"

lemma config_erase_flash: "ns_config ns = config_flash st \<Longrightarrow>
    st\<lparr>config_flash := ns_config (node_config_erase api store counter ns)\<rparr> = config_erased api st"
  by (simp add: node_config_erase_def config_erased_def)

subsection \<open>Loading\<close>

text \<open>\<open>nvs_get_str\<close> into a buffer of the caller.\<close>

definition get_str_into :: "'n config_nvs \<Rightarrow> 'n \<Rightarrow> string \<Rightarrow> bytes \<Rightarrow> esp_err_t \<times> bytes" where
  "get_str_into api n key buf =
    (case cn_get_str api n (lit key) (length buf) of
       Inl e \<Rightarrow> (e, buf)
     | Inr s \<Rightarrow> (ESP_OK, blit buf 0 (s @ [0])))"

text \<open>The block of reads between \<open>nvs_open\<close> and \<open>nvs_close\<close>: the plain fields, then the location.\<close>

definition load_fields :: "'n config_nvs \<Rightarrow> 'n \<Rightarrow> node_config_t \<Rightarrow> node_config_t" where
  "load_fields api n c =
    c\<lparr>nc_node_id := snd (get_str_into api n ''node_id'' (nc_node_id c)),
      nc_node_name := snd (get_str_into api n ''node_name'' (nc_node_name c)),
      nc_node_role := snd (get_str_into api n ''node_role'' (nc_node_role c)),
      nc_default_destination := snd (get_str_into api n ''default_dest'' (nc_default_destination c)),
      nc_default_priority := snd (get_str_into api n ''default_priority'' (nc_default_priority c)),
      nc_ap_password := snd (get_str_into api n ''ap_password'' (nc_ap_password c)),
      nc_web_pin := snd (get_str_into api n ''web_pin'' (nc_web_pin c)),
      nc_duress_pin := snd (get_str_into api n ''duress_pin'' (nc_duress_pin c)),
      nc_network_key := snd (get_str_into api n ''network_key'' (nc_network_key c))\<rparr>"

definition load_or_empty :: "'n config_nvs \<Rightarrow> 'n \<Rightarrow> string \<Rightarrow> bytes \<Rightarrow> bytes" where
  "load_or_empty api n key buf = (case get_str_into api n key buf of (r, b) \<Rightarrow> if r \<noteq> ESP_OK then copy_field b [] else b)"

definition load_barangay :: "'n config_nvs \<Rightarrow> 'n \<Rightarrow> location_info_t \<Rightarrow> bool \<times> location_info_t" where
  "load_barangay api n loc =
    (case get_str_into api n ''barangay'' (barangay loc) of (r, b) \<Rightarrow>
       if r \<noteq> ESP_OK then
         (case get_str_into api n ''location'' (zeros FIELD_LEN) of (r, legacy_location) \<Rightarrow>
            if r = ESP_OK \<and> at legacy_location 0 \<noteq> 0 then (True, location_decode (Some legacy_location))
            else (False, loc\<lparr>barangay := copy_field b (lit ''Unknown'')\<rparr>))
       else (False, loc\<lparr>barangay := b\<rparr>))"

definition load_location :: "'n config_nvs \<Rightarrow> 'n \<Rightarrow> location_info_t \<Rightarrow> bool \<times> location_info_t" where
  "load_location api n loc =
    (let loc = loc\<lparr>sitio := load_or_empty api n ''sitio'' (sitio loc)\<rparr>;
         (migrated_location, loc) = load_barangay api n loc
     in (migrated_location, loc\<lparr>municipality := load_or_empty api n ''municipality'' (municipality loc)\<rparr>))"

text \<open>Everything after \<open>nvs_close\<close> up to the check of the stored credentials.\<close>

definition load_fixups :: "(nat \<Rightarrow> u32) \<Rightarrow> (nat \<Rightarrow> u32) \<Rightarrow> node_config_t \<Rightarrow> node_config_t" where
  "load_fixups rand_ap rand_duress c =
    c\<lparr>nc_web_pin := (if at (nc_web_pin c) 0 = 0 then copy_field (nc_web_pin c) [] else nc_web_pin c),
      nc_ap_password :=
        (let ap_password = (if at (nc_ap_password c) 0 = 0 then copy_field (nc_ap_password c) [] else nc_ap_password c)
         in if \<not> nc_configured c \<and> strlen ap_password < 8 then random_hex_string rand_ap ap_password 8 else ap_password),
      nc_network_key := (if at (nc_network_key c) 0 = 0 then copy_field (nc_network_key c) [] else nc_network_key c),
      nc_duress_pin := (if at (nc_duress_pin c) 0 = 0 then random_hex_string rand_duress (nc_duress_pin c) 4 else nc_duress_pin c),
      nc_node_role := (if at (nc_node_role c) 0 = 0 then copy_field (nc_node_role c) (lit ''relay-only'') else nc_node_role c),
      nc_default_priority := (if at (nc_default_priority c) 0 = 0
        then copy_field (nc_default_priority c) (lit ''NORMAL'') else nc_default_priority c)\<rparr>"

definition weak_credentials :: "node_config_t \<Rightarrow> bool" where
  "weak_credentials c \<longleftrightarrow> strlen (nc_ap_password c) < 8 \<or> strlen (nc_web_pin c) < 8 \<or> strlen (nc_network_key c) < 16 \<or>
     streq (nc_web_pin c) (lit ''123456789'') \<or> streq (nc_ap_password c) (lit ''123456789'') \<or>
     streq (nc_network_key c) (lit ''CHANGEME1234567'') \<or> streq (nc_network_key c) (lit ''CHANGEME12345678'')"

definition reject_weak :: "node_config_t \<Rightarrow> node_config_t" where
  "reject_weak c = (if nc_configured c \<and> weak_credentials c then c\<lparr>nc_configured := False\<rparr> else c)"

text \<open>A stored identity replaces the one derived from the MAC address, or the other way round.\<close>

definition adopt_identity :: "bytes \<Rightarrow> node_config_t \<Rightarrow> node_config_t \<times> bytes" where
  "adopt_identity ident c =
    (if at (nc_node_id c) 0 \<noteq> 0 then (c, copy_field ident (nc_node_id c))
     else (c\<lparr>nc_node_id := copy_field (nc_node_id c) ident\<rparr>, ident))"

text \<open>Everything between a successful \<open>nvs_open\<close> and the final save of a migrated location.\<close>

definition load_stored ::
  "'n config_nvs \<Rightarrow> (nat \<Rightarrow> u32) \<Rightarrow> (nat \<Rightarrow> u32) \<Rightarrow> 'n \<Rightarrow> bytes \<Rightarrow> node_config_t \<Rightarrow> bool \<times> node_config_t \<times> bytes" where
  "load_stored api rand_ap rand_duress n ident c =
    (let configured = (case cn_get_u8 api n (lit ''configured'') of Inl _ \<Rightarrow> 0 | Inr v \<Rightarrow> v);
         c = load_fields api n c;
         (migrated_location, loc) = load_location api n (nc_location c);
         (c, ident) = adopt_identity ident (c\<lparr>nc_location := loc, nc_configured := (configured = 1)\<rparr>)
     in (migrated_location, reject_weak (load_fixups rand_ap rand_duress c), ident))"

text \<open>\<open>rand_ap\<close> and \<open>rand_duress\<close> answer the \<open>esp_random\<close> calls of the two random strings.\<close>

definition node_config_load :: "'n config_nvs \<Rightarrow> (nat \<Rightarrow> u32) \<Rightarrow> (nat \<Rightarrow> u32) \<Rightarrow> 'n config_state \<Rightarrow> 'n config_state" where
  "node_config_load api rand_ap rand_duress st =
    (let st = node_config_set_defaults st;
         c = node_config st;
         c = c\<lparr>nc_node_id := (nc_node_id c)[0 := 0]\<rparr> in
     if cn_open api (config_flash st) \<noteq> ESP_OK
     then st\<lparr>node_config := c\<lparr>nc_ap_password := random_hex_string rand_ap (nc_ap_password c) 8\<rparr>\<rparr>
     else (case load_stored api rand_ap rand_duress (config_flash st) (identity st) c of
       (migrated_location, c, ident) \<Rightarrow>
         (let st = st\<lparr>node_config := c, identity := ident\<rparr>
          in if migrated_location then snd (node_config_save api (Some c) st) else st)))"

text \<open>What the frame crypto reads of the configuration.\<close>

definition crypto_config_of :: "'n config_state \<Rightarrow> crypto_config" where
  "crypto_config_of st = \<lparr>network_key = nc_network_key (node_config st), provisioned = node_config_is_provisioned st\<rparr>"

subsection \<open>Lemmas\<close>

definition wf_node_config :: "node_config_t \<Rightarrow> bool" where
  "wf_node_config c \<longleftrightarrow> field FIELD_LEN (nc_node_id c) \<and> field FIELD_LEN (nc_node_name c) \<and> field FIELD_LEN (nc_node_role c) \<and>
     wf_location (nc_location c) \<and> field FIELD_LEN (nc_default_destination c) \<and> field FIELD_LEN (nc_default_priority c) \<and>
     field FIELD_LEN (nc_ap_password c) \<and> field FIELD_LEN (nc_web_pin c) \<and> field FIELD_LEN (nc_duress_pin c) \<and>
     field FIELD_LEN (nc_network_key c)"

definition wf_config_state :: "'n config_state \<Rightarrow> bool" where
  "wf_config_state st \<longleftrightarrow> wf_node_config (node_config st) \<and> field FIELD_LEN (identity st)"

text \<open>
  The documented behaviour of NVS the proofs use. Keys have at most 15 characters
  (\<open>ESP_ERR_NVS_KEY_TOO_LONG\<close> otherwise). A call for one key leaves the strings under the
  other keys as they are, and committing changes none; erasing creates none. A byte that was
  written is read back. A string is delivered only if it fits the buffer with its terminator.
\<close>

definition nvs_key_limit :: "'n config_nvs \<Rightarrow> bool" where
  "nvs_key_limit api \<longleftrightarrow> (\<forall>k v n. 15 < length k \<longrightarrow> fst (cn_set_str api k v n) \<noteq> ESP_OK)"

definition nvs_keys_separate :: "'n config_nvs \<Rightarrow> bool" where
  "nvs_keys_separate api \<longleftrightarrow>
    (\<forall>k v n k' size. k' \<noteq> k \<longrightarrow> cn_get_str api (snd (cn_set_str api k v n)) k' size = cn_get_str api n k' size) \<and>
    (\<forall>k v n k' size. k' \<noteq> k \<longrightarrow> cn_get_str api (snd (cn_set_u8 api k v n)) k' size = cn_get_str api n k' size) \<and>
    (\<forall>n k size. cn_get_str api (snd (cn_commit api n)) k size = cn_get_str api n k size) \<and>
    (\<forall>n k size s. cn_get_str api (snd (cn_erase_all api n)) k size = Inr s \<longrightarrow> cn_get_str api n k size = Inr s)"

definition nvs_bytes_kept :: "'n config_nvs \<Rightarrow> bool" where
  "nvs_bytes_kept api \<longleftrightarrow>
    (\<forall>k v n n'. cn_set_u8 api k v n = (ESP_OK, n') \<longrightarrow> cn_get_u8 api n' k = Inr v) \<and>
    (\<forall>k v n k'. k' \<noteq> k \<longrightarrow> cn_get_u8 api (snd (cn_set_str api k v n)) k' = cn_get_u8 api n k')"

definition nvs_strings_fit :: "'n config_nvs \<Rightarrow> bool" where
  "nvs_strings_fit api \<longleftrightarrow> (\<forall>n k size s. cn_get_str api n k size = Inr s \<longrightarrow> length s < size \<and> 0 \<notin> set s)"

lemma length_random_hex_loop [simp]: "length (random_hex_loop r b n) = length b"
  by (induction n) (simp_all add: Let_def)

lemma hex_digit_nonzero: "v < 16 \<Longrightarrow> hex_digit v \<noteq> 0"
proof -
  assume "v < 16"
  then have "unat v < 16" by (simp add: word_less_nat_alt)
  moreover have "\<forall>i < 16. lit ''0123456789ABCDEF'' ! i \<noteq> 0" by code_simp
  ultimately show ?thesis by (simp add: hex_digit_def)
qed

lemma nibbles_small: "drop_bit 4 (v :: u8) < 16" "v AND 0x0F < 16"
proof -
  have "unat (drop_bit 4 v) < 16"
    using unsigned_less [where ?'a = nat and w = v] by (simp add: unsigned_drop_bit_eq drop_bit_eq_div [where ?'a = nat] take_bit_eq_mod [where ?'a = nat])
  then show "drop_bit 4 v < 16" by (simp add: word_less_nat_alt)
  have "v AND 0x0F = v mod 16" using take_bit_eq_mask [of 4 v] by (simp add: take_bit_eq_mod mask_eq_exp_minus_1)
  also have "unat (v mod 16) < 16" by (simp only: unat_mod) simp
  finally show "v AND 0x0F < 16" by (simp add: word_less_nat_alt)
qed

lemma random_hex_loop_nonzero: "2 * n \<le> length b \<Longrightarrow> i < 2 * n \<Longrightarrow> random_hex_loop r b n ! i \<noteq> 0"
proof (induction n)
  case (Suc n)
  consider "i < 2 * n" | "i = 2 * n" | "i = Suc (2 * n)" using Suc.prems by fastforce
  then show ?case
    by cases (use Suc in \<open>auto simp: Let_def nth_list_update mult.commute hex_digit_nonzero nibbles_small\<close>)
qed simp

lemma cstr_prefix: "k < length b \<Longrightarrow> \<forall>i < k. b ! i \<noteq> 0 \<Longrightarrow> cstr (b[k := 0]) = take k b"
proof -
  assume k: "k < length b" "\<forall>i < k. b ! i \<noteq> 0"
  then have "0 \<notin> set (take k b)" by (auto simp: in_set_conv_nth)
  with k(1) show ?thesis by (simp add: upd_conv_take_nth_drop)
qed

lemma strlen_random_hex: "2 * n < length b \<Longrightarrow> strlen (random_hex_string r b n) = 2 * n"
proof -
  assume n: "2 * n < length b"
  have "\<forall>i < n * 2. random_hex_loop r b n ! i \<noteq> 0" using random_hex_loop_nonzero [of n b _ r] n by simp
  from cstr_prefix [OF _ this] n have "cstr ((random_hex_loop r b n)[n * 2 := 0]) = take (n * 2) (random_hex_loop r b n)" by simp
  moreover have "b \<noteq> []" using n by auto
  ultimately show ?thesis using n by (simp add: random_hex_string_def strlen_def)
qed

lemma field_random_hex [simp]: "field FIELD_LEN b \<Longrightarrow> n \<le> 15 \<Longrightarrow> field FIELD_LEN (random_hex_string r b n)"
  using strlen_random_hex [of n b r] by (auto simp: field_def strlen_def) (simp add: random_hex_string_def)

lemma field_get_str [simp]: "nvs_strings_fit api \<Longrightarrow> field m b \<Longrightarrow> field m (snd (get_str_into api n k b))"
proof -
  assume a: "nvs_strings_fit api" "field m b"
  show ?thesis
  proof (cases "cn_get_str api n (lit k) (length b)")
    case (Inr s)
    with a(1) have s: "length s < length b" "0 \<notin> set s" unfolding nvs_strings_fit_def by blast+
    have "blit b 0 (s @ [0]) = s @ 0 # drop (Suc (length s)) b" by (simp add: blit_def)
    with a(2) s Inr show ?thesis by (simp add: get_str_into_def field_def)
  qed (use a(2) in \<open>simp add: get_str_into_def\<close>)
qed

lemma field_get_str2: "nvs_strings_fit api \<Longrightarrow> get_str_into api n k b = (r, b') \<Longrightarrow> field m b \<Longrightarrow> field m b'"
  using field_get_str [of api m b n k] by simp

lemma field_first_zero [simp]: "field n b \<Longrightarrow> 0 < n \<Longrightarrow> field n (b[0 := 0])"
  by (rule field_terminated) (auto simp: field_def)

lemma nvs_chain_append:
  "nvs_chain (a @ b) n = (case nvs_chain a n of (result, n) \<Rightarrow> if result = ESP_OK then nvs_chain b n else (result, n))"
  by (induction a n rule: nvs_chain.induct) (auto split: prod.splits)

lemma nvs_chain_keeps:
  "(\<And>s n. s \<in> set steps \<Longrightarrow> P n \<Longrightarrow> P (snd (s n))) \<Longrightarrow> P n \<Longrightarrow> P (snd (nvs_chain steps n))"
proof (induction steps n rule: nvs_chain.induct)
  case (2 step steps n)
  obtain r m where s: "step n = (r, m)" by (cases "step n")
  have "P m" using 2(2) [of step n] 2(3) s by simp
  then show ?case using 2(1) [OF s [symmetric], of ] 2(2) s by simp
qed simp

text \<open>The chain of a save ends, at the latest, with the key of 16 characters.\<close>

lemma save_chain_fails:
  assumes "nvs_key_limit api"
  shows "nvs_chain (save_steps api c) n = nvs_chain (take 9 (save_steps api c)) n"
    and "fst (nvs_chain (save_steps api c) n) \<noteq> ESP_OK"
proof -
  have "take 9 (save_steps api c) = take 8 (save_steps api c) @ [cn_set_str api (lit ''default_priority'') (cstr (nc_default_priority c))]"
    by (simp add: save_steps_def)
  moreover have "fst (cn_set_str api (lit ''default_priority'') v m) \<noteq> ESP_OK" for v m
    using assms by (simp add: nvs_key_limit_def)
  ultimately have f: "fst (nvs_chain (take 9 (save_steps api c)) n) \<noteq> ESP_OK"
    by (auto simp: nvs_chain_append split: prod.splits) (metis fst_conv)+
  have "nvs_chain (save_steps api c) n = nvs_chain (take 9 (save_steps api c) @ drop 9 (save_steps api c)) n" by simp
  also have "\<dots> = nvs_chain (take 9 (save_steps api c)) n"
    unfolding nvs_chain_append using f by (simp add: case_prod_unfold)
  finally show "nvs_chain (save_steps api c) n = nvs_chain (take 9 (save_steps api c)) n" .
  with f show "fst (nvs_chain (save_steps api c) n) \<noteq> ESP_OK" by simp
qed

definition unset :: "'n config_nvs \<Rightarrow> string \<Rightarrow> 'n \<Rightarrow> bool" where
  "unset api k n \<longleftrightarrow> (\<forall>size s. cn_get_str api n (lit k) size \<noteq> Inr s)"

lemma nvs_keys_separateD:
  assumes "nvs_keys_separate api"
  shows "k' \<noteq> k \<Longrightarrow> cn_get_str api (snd (cn_set_str api k v n)) k' sz = cn_get_str api n k' sz"
    and "k' \<noteq> k \<Longrightarrow> cn_get_str api (snd (cn_set_u8 api k u n)) k' sz = cn_get_str api n k' sz"
    and "cn_get_str api (snd (cn_commit api n)) k sz = cn_get_str api n k sz"
    and "cn_get_str api (snd (cn_erase_all api n)) k sz = Inr s \<Longrightarrow> cn_get_str api n k sz = Inr s"
  using assms unfolding nvs_keys_separate_def by blast+

text \<open>The keys written before the chain ends.\<close>

abbreviation early_keys :: "string list" where
  "early_keys \<equiv> [''configured'', ''node_id'', ''node_name'', ''node_role'', ''sitio'', ''barangay'', ''municipality'',
     ''default_dest'', ''default_priority'']"

lemma late_keys:
  "list_all (\<lambda>k. lit ''network_key'' \<noteq> lit k) early_keys" "list_all (\<lambda>k. lit ''ap_password'' \<noteq> lit k) early_keys"
  "list_all (\<lambda>k. lit ''configured'' \<noteq> lit k) (tl early_keys)"
  by code_simp+

lemma save_keeps_unset:
  assumes "nvs_key_limit api" "nvs_keys_separate api" "list_all (\<lambda>k. lit key \<noteq> lit k) early_keys" "unset api key n"
  shows "unset api key (snd (nvs_chain (save_steps api c) n))"
  unfolding save_chain_fails(1) [OF assms(1)]
proof (rule nvs_chain_keeps)
  fix step m assume s: "step \<in> set (take 9 (save_steps api c))" and m: "unset api key m"
  have str: "unset api key (snd (cn_set_str api k v m))" if "lit key \<noteq> k" for k v
    using m by (simp add: unset_def nvs_keys_separateD(1) [OF assms(2)] that)
  have u8: "unset api key (snd (cn_set_u8 api k v m))" if "lit key \<noteq> k" for k v
    using m by (simp add: unset_def nvs_keys_separateD(2) [OF assms(2)] that)
  have "list_all (\<lambda>step. unset api key (snd (step m))) (take 9 (save_steps api c))"
    using assms(3) by (simp add: save_steps_def str u8)
  with s show "unset api key (snd (step m))" by (simp only: list_all_iff)
qed (rule assms(4))

subsection \<open>What loading establishes\<close>

lemma wf_config_zero [simp]: "wf_node_config node_config_zero"
  by (simp add: wf_node_config_def node_config_zero_def wf_location_def location_zero_def)

lemma wf_config_defaults: "wf_node_config c \<Longrightarrow> wf_node_config (config_defaults ident c)"
  by (simp add: wf_node_config_def config_defaults_def wf_location_def field_length)

lemma wf_set_defaults: "wf_config_state st \<Longrightarrow> wf_config_state (node_config_set_defaults st)"
  by (simp add: wf_config_state_def node_config_set_defaults_def wf_config_defaults)

lemma wf_load_fields: "nvs_strings_fit api \<Longrightarrow> wf_node_config c \<Longrightarrow> wf_node_config (load_fields api n c)"
  by (simp add: wf_node_config_def load_fields_def)

lemma field_load_or_empty [simp]: "nvs_strings_fit api \<Longrightarrow> field m b \<Longrightarrow> 0 < m \<Longrightarrow> field m (load_or_empty api n k b)"
  by (auto simp: load_or_empty_def field_length dest: field_get_str2 split: prod.splits)

lemma wf_load_barangay: "nvs_strings_fit api \<Longrightarrow> wf_location loc \<Longrightarrow> wf_location (snd (load_barangay api n loc))"
  by (auto simp: load_barangay_def wf_location_def field_length wf_location_decode [unfolded wf_location_def]
      dest: field_get_str2 split: prod.splits)

lemma wf_load_location: "nvs_strings_fit api \<Longrightarrow> wf_location loc \<Longrightarrow> wf_location (snd (load_location api n loc))"
  using wf_load_barangay [of api "loc\<lparr>sitio := load_or_empty api n ''sitio'' (sitio loc)\<rparr>" n]
  by (auto simp: load_location_def Let_def wf_location_def split: prod.splits)

lemma load_fixups_simps [simp]:
  "nc_configured (load_fixups ra rd c) = nc_configured c"
  "cstr (nc_web_pin (load_fixups ra rd c)) = cstr (nc_web_pin c)"
  "cstr (nc_network_key (load_fixups ra rd c)) = cstr (nc_network_key c)"
  by (simp_all add: load_fixups_def Let_def str_empty_conv [symmetric] str_empty_def)

lemma load_fixups_ap:
  assumes "field FIELD_LEN (nc_ap_password c)" "\<not> nc_configured c"
  shows "8 \<le> strlen (nc_ap_password (load_fixups ra rd c))"
  using assms strlen_random_hex [of 8 "nc_ap_password c" ra] strlen_random_hex [of 8 "copy_field (nc_ap_password c) []" ra]
  by (auto simp: load_fixups_def Let_def field_length)

lemma wf_load_fixups: "wf_node_config c \<Longrightarrow> wf_node_config (load_fixups ra rd c)"
  by (simp add: wf_node_config_def load_fixups_def Let_def field_length)

lemma node_config_save_simps:
  "node_config (snd (node_config_save api (Some c) st)) = (if fst (node_config_save api (Some c) st) = ESP_OK then c else node_config st)"
  "fst (node_config_save api (Some c) st) \<noteq> ESP_OK \<Longrightarrow> identity (snd (node_config_save api (Some c) st)) = identity st"
  by (auto simp: node_config_save_def split: prod.splits)

lemma wf_node_config_save:
  "wf_config_state st \<Longrightarrow> wf_node_config c \<Longrightarrow> wf_config_state (snd (node_config_save api (Some c) st))"
  by (auto simp: node_config_save_def wf_config_state_def field_length split: prod.splits)

lemma reject_weak_simps [simp]:
  "nc_ap_password (reject_weak c) = nc_ap_password c" "nc_web_pin (reject_weak c) = nc_web_pin c"
  "nc_network_key (reject_weak c) = nc_network_key c" "wf_node_config (reject_weak c) = wf_node_config c"
  by (simp_all add: reject_weak_def wf_node_config_def)

lemma reject_weak_strong: "nc_configured (reject_weak c) \<Longrightarrow> \<not> weak_credentials (reject_weak c)"
  by (auto simp: reject_weak_def split: if_splits)

lemma wf_adopt_identity:
  "adopt_identity ident c = (c', ident') \<Longrightarrow> wf_node_config c \<Longrightarrow> field FIELD_LEN ident \<Longrightarrow> wf_node_config c' \<and> field FIELD_LEN ident'"
  by (auto simp: adopt_identity_def wf_node_config_def field_length split: if_splits)

lemma adopt_identity_simps:
  "adopt_identity ident c = (c', ident') \<Longrightarrow> nc_configured c' = nc_configured c \<and> nc_ap_password c' = nc_ap_password c \<and>
     nc_web_pin c' = nc_web_pin c \<and> nc_network_key c' = nc_network_key c"
  by (auto simp: adopt_identity_def split: if_splits)

lemma load_stored_cases:
  assumes "load_stored api ra rd n ident c = (mig, c', ident')"
  obtains loc e where "load_location api n (nc_location (load_fields api n c)) = (mig, loc)"
    "adopt_identity ident ((load_fields api n c)\<lparr>nc_location := loc,
       nc_configured := ((case cn_get_u8 api n (lit ''configured'') of Inl _ \<Rightarrow> 0 | Inr v \<Rightarrow> v) = 1)\<rparr>) = (e, ident')"
    "c' = reject_weak (load_fixups ra rd e)"
  using assms by (auto simp: load_stored_def Let_def split: prod.splits)

lemma wf_load_stored:
  assumes "nvs_strings_fit api" "wf_node_config c" "field FIELD_LEN ident" "load_stored api ra rd n ident c = (mig, c', ident')"
  shows "wf_node_config c' \<and> field FIELD_LEN ident' \<and> (nc_configured c' \<longrightarrow> \<not> weak_credentials c') \<and>
    (cn_get_u8 api n (lit ''configured'') \<noteq> Inr 1 \<longrightarrow> 8 \<le> strlen (nc_ap_password c'))"
proof -
  obtain loc e where loc: "load_location api n (nc_location (load_fields api n c)) = (mig, loc)"
    and e: "adopt_identity ident ((load_fields api n c)\<lparr>nc_location := loc,
       nc_configured := ((case cn_get_u8 api n (lit ''configured'') of Inl _ \<Rightarrow> 0 | Inr v \<Rightarrow> v) = 1)\<rparr>) = (e, ident')"
    and c': "c' = reject_weak (load_fixups ra rd e)"
    using load_stored_cases [OF assms(4)] by metis
  have lf: "wf_node_config (load_fields api n c)" using assms by (simp add: wf_load_fields)
  then have "wf_location loc" using wf_load_location [OF assms(1), of "nc_location (load_fields api n c)" n] loc
    by (simp add: wf_node_config_def)
  with lf have d: "wf_node_config ((load_fields api n c)\<lparr>nc_location := loc, nc_configured := b\<rparr>)" for b
    by (simp add: wf_node_config_def)
  note wf = wf_adopt_identity [OF e d assms(3)]
  have "8 \<le> strlen (nc_ap_password c')" if "cn_get_u8 api n (lit ''configured'') \<noteq> Inr 1"
  proof -
    have "\<not> nc_configured e" using adopt_identity_simps [OF e] that by (auto split: sum.splits)
    with wf show ?thesis using load_fixups_ap [of e ra rd] by (simp add: c' wf_node_config_def)
  qed
  with wf show ?thesis by (auto simp: c' wf_load_fixups dest: reject_weak_strong)
qed

lemma wf_reset_id: "wf_node_config c \<Longrightarrow> wf_node_config (c\<lparr>nc_node_id := (nc_node_id c)[0 := 0]\<rparr>)"
  by (simp add: wf_node_config_def)

end
