(* ===== verification/Http_Auth.thy ===== *)
theory Http_Auth
  imports App_Runtime Node_Config
begin

text \<open>
  \<open>src/network/http_request.c\<close> and \<open>src/http/http_auth.c\<close>: reading the body of a
  request, the portal's single session and the login. The HTTP server is a parameter: a
  request holds what the server answers to the calls made on it, and a handler returns its
  result with the list of the calls it made on the response, in order. Ticks are those of
  the 100 Hz clock, as \<open>uint32_t\<close>.
\<close>

datatype http_method = HTTP_GET | HTTP_POST

text \<open>The calls on a response; \<open>Esp_Restart\<close> is the end of a handler that restarts the node.\<close>

datatype http_event =
    Set_Status bytes | Set_Type bytes | Set_Hdr bytes bytes | Send bytes | Send_Chunk bytes | Esp_Restart

type_synonym http_trace = "http_event list"

text \<open>
  \<open>rq_cookie\<close> is the value of the Cookie header, if there is one; \<open>rq_chunks\<close> the
  data the successive calls of \<open>httpd_req_recv\<close> find (none, or an empty piece, is a
  result \<open><= 0\<close>); \<open>rq_result\<close> what \<open>httpd_resp_send\<close> or
  \<open>httpd_resp_send_chunk\<close> answers as the last call of a trace.
\<close>

record http_request =
  rq_uri :: bytes
  rq_method :: http_method
  rq_cookie :: "bytes option"
  rq_content_len :: nat
  rq_chunks :: "bytes list"
  rq_result :: "http_trace \<Rightarrow> esp_err_t"

definition httpd_resp_send :: "http_request \<Rightarrow> bytes \<Rightarrow> http_trace \<Rightarrow> esp_err_t \<times> http_trace" where
  "httpd_resp_send request body tr = (let tr = tr @ [Send body] in (rq_result request tr, tr))"

definition httpd_resp_send_chunk :: "http_request \<Rightarrow> bytes \<Rightarrow> http_trace \<Rightarrow> esp_err_t \<times> http_trace" where
  "httpd_resp_send_chunk request body tr = (let tr = tr @ [Send_Chunk body] in (rq_result request tr, tr))"

subsection \<open>The body of a request\<close>

text \<open>\<open>len\<close> is \<open>content_len\<close>, \<open>received\<close> the number of bytes so far.\<close>

fun recv_loop :: "nat \<Rightarrow> bytes list \<Rightarrow> bytes \<Rightarrow> nat \<Rightarrow> (bytes \<times> nat) option" where
  "recv_loop len [] buffer received = (if received < len then None else Some (buffer, received))"
| "recv_loop len (c # cs) buffer received =
    (if received < len then
       (let piece = take (len - received) c in
        if piece = [] then None
        else recv_loop len cs (blit buffer received piece) (received + length piece))
     else Some (buffer, received))"

definition http_read_body_checked ::
  "http_request \<Rightarrow> bytes \<Rightarrow> http_trace \<Rightarrow> esp_err_t \<times> bytes \<times> http_trace" where
  "http_read_body_checked req buffer tr =
    (if length buffer = 0 then (ESP_ERR_INVALID_ARG, buffer, tr)
     else if rq_content_len req \<ge> length buffer then
       (ESP_ERR_INVALID_SIZE, buffer,
        snd (httpd_resp_send req (lit ''Request body too large'') (tr @ [Set_Status (lit ''413 Payload Too Large'')])))
     else (case recv_loop (rq_content_len req) (rq_chunks req) (zeros (length buffer)) 0 of
             None \<Rightarrow> (ESP_FAIL, zeros (length buffer), tr)
           | Some (buffer, received) \<Rightarrow> (ESP_OK, buffer[received := 0], tr)))"

subsection \<open>The session\<close>

abbreviation SESSION_TOKEN_LEN :: nat where "SESSION_TOKEN_LEN \<equiv> 17"

definition SESSION_COOKIE_NAME :: bytes where "SESSION_COOKIE_NAME = lit ''BMESH_SESSION''"

text \<open>\<open>pdMS_TO_TICKS(SESSION_IDLE_TIMEOUT_MS)\<close>.\<close>

definition SESSION_IDLE_TICKS :: u32 where "SESSION_IDLE_TICKS = 90000"

record auth_state =
  session_token :: bytes
  session_last_activity_tick :: u32
  last_login_attempt_tick :: u32
  failed_login_count :: u8

text \<open>\<open>strstr\<close> from a position of the string on.\<close>

definition strstr_from :: "bytes \<Rightarrow> nat \<Rightarrow> bytes \<Rightarrow> nat option" where
  "strstr_from s pos pat =
    find (\<lambda>i. take (length pat) (drop i s) = pat) [pos..<Suc (length s)]"

definition occurs_at :: "bytes \<Rightarrow> bytes \<Rightarrow> nat \<Rightarrow> bool" where
  "occurs_at pat s i \<longleftrightarrow> i \<le> length s \<and> take (length pat) (drop i s) = pat"

lemma strstr_from_Some: "strstr_from s pos pat = Some p \<Longrightarrow> pos \<le> p \<and> occurs_at pat s p \<and> (\<forall>j. pos \<le> j \<and> j < p \<longrightarrow> \<not> occurs_at pat s j)"
proof -
  assume a: "strstr_from s pos pat = Some p"
  then obtain i where i: "i < Suc (length s) - pos" "p = pos + i" "take (length pat) (drop p s) = pat"
    "\<forall>j<i. take (length pat) (drop (pos + j) s) \<noteq> pat"
    by (auto simp: strstr_from_def find_Some_iff simp del: upt_Suc)
  have "\<not> occurs_at pat s j" if "pos \<le> j" "j < p" for j
    using i(2,4) that by (auto simp: occurs_at_def dest: spec [of _ "j - pos"])
  with i show ?thesis by (auto simp: occurs_at_def)
qed

lemma strstr_from_None: "strstr_from s pos pat = None \<Longrightarrow> pos \<le> j \<Longrightarrow> \<not> occurs_at pat s j"
  by (auto simp: strstr_from_def find_None_iff occurs_at_def simp del: upt_Suc)

lemma occurs_at_bound: "occurs_at pat s i \<Longrightarrow> i + length pat \<le> length s"
proof -
  assume a: "occurs_at pat s i"
  then have "length pat = min (length pat) (length s - i)"
    unfolding occurs_at_def by (metis length_take length_drop min.commute)
  moreover have "i \<le> length s" using a by (simp add: occurs_at_def)
  ultimately show ?thesis by (auto simp: min_def split: if_splits)
qed

lemma occurs_at_nth: "occurs_at pat s i \<Longrightarrow> k < length pat \<Longrightarrow> s ! (i + k) = pat ! k"
proof -
  assume a: "occurs_at pat s i" "k < length pat"
  then have "pat ! k = take (length pat) (drop i s) ! k" by (simp add: occurs_at_def)
  with a occurs_at_bound [OF a(1)] show ?thesis by simp
qed

lemma cookie_name_nonempty [simp]: "SESSION_COOKIE_NAME \<noteq> []" "length SESSION_COOKIE_NAME = 13"
  by (simp_all add: SESSION_COOKIE_NAME_def lit_def)

text \<open>One place where the cookie's name was found; \<open>59\<close> is the semicolon, \<open>61\<close> the equals sign.\<close>

definition cookie_hit :: "bytes \<Rightarrow> bytes \<Rightarrow> nat \<Rightarrow> bool" where
  "cookie_hit token cookie p \<longleftrightarrow>
    (let name_len = length SESSION_COOKIE_NAME; after = at cookie (p + name_len + SESSION_TOKEN_LEN) in
     (p = 0 \<or> at cookie (p - 1) = 59 \<or> at cookie (p - 1) = 32) \<and>
     strneq (drop (p + name_len) cookie) [61] 1 \<and>
     strneq (drop (p + name_len + 1) cookie) token (SESSION_TOKEN_LEN - 1) \<and>
     (after = 59 \<or> after = 0 \<or> after = 32))"

function cookie_loop :: "bytes \<Rightarrow> bytes \<Rightarrow> nat \<Rightarrow> bool" where
  "cookie_loop token cookie pos =
    (case strstr_from cookie pos SESSION_COOKIE_NAME of
       None \<Rightarrow> False
     | Some p \<Rightarrow> if cookie_hit token cookie p then True else cookie_loop token cookie (p + length SESSION_COOKIE_NAME))"
  by pat_completeness auto
termination
  by (relation "measure (\<lambda>(t, c, pos). length c - pos)") (auto dest!: strstr_from_Some occurs_at_bound)

declare cookie_loop.simps [simp del]

text \<open>The argument is a terminated buffer; the scan sees its string.\<close>

definition cookie_has_session :: "bytes \<Rightarrow> bytes \<Rightarrow> bool" where
  "cookie_has_session token cookie = cookie_loop token (cstr cookie) 0"

definition send_session_expired :: "http_request \<Rightarrow> http_trace \<Rightarrow> esp_err_t \<times> http_trace" where
  "send_session_expired request tr =
    httpd_resp_send request (lit ''{\"error\":\"session expired, please reload\"}'')
      (tr @ [Set_Status (lit ''401 Unauthorized''), Set_Type (lit ''application/json''), Set_Hdr (lit ''Cache-Control'') (lit ''no-store'')])"

text \<open>\<open>%08lX\<close>.\<close>

definition hex8 :: "u32 \<Rightarrow> bytes" where
  "hex8 v = hex_upper (ucast (drop_bit 24 v)) @ hex_upper (ucast (drop_bit 16 v)) @ hex_upper (ucast (drop_bit 8 v)) @ hex_upper (ucast v)"

definition http_auth_init :: "u32 \<Rightarrow> u32 \<Rightarrow> u32 \<Rightarrow> auth_state \<Rightarrow> auth_state" where
  "http_auth_init random_a random_b tick st =
    st\<lparr>session_token := snprintf (session_token st) (hex8 random_a @ hex8 random_b), session_last_activity_tick := tick\<rparr>"

text \<open>
  \<open>httpd_req_get_hdr_value_str\<close> fails when the header is missing or does not fit the 128
  bytes with its terminator.
\<close>

definition http_auth_request_has_session :: "bool \<Rightarrow> u32 \<Rightarrow> http_request \<Rightarrow> auth_state \<Rightarrow> bool \<times> auth_state" where
  "http_auth_request_has_session configured now request st =
    (if \<not> configured then (True, st)
     else (case rq_cookie request of
       None \<Rightarrow> (False, st)
     | Some v \<Rightarrow>
        if length (cstr v) \<ge> 128 then (False, st)
        else (let cookie = blit (zeros 128) 0 (cstr v) in
          if strlen cookie \<ge> 127 then (False, st)
          else if \<not> cookie_has_session (session_token st) cookie then (False, st)
          else if now - session_last_activity_tick st > SESSION_IDLE_TICKS then (False, st)
          else (True, st\<lparr>session_last_activity_tick := now\<rparr>))))"

definition http_auth_send_redirect :: "http_request \<Rightarrow> bytes \<Rightarrow> http_trace \<Rightarrow> esp_err_t \<times> http_trace" where
  "http_auth_send_redirect request location tr =
    (ESP_OK, snd (httpd_resp_send request [] (tr @ [Set_Status (lit ''302 Found''), Set_Hdr (lit ''Location'') location])))"

definition http_auth_require_session ::
  "bool \<Rightarrow> u32 \<Rightarrow> http_request \<Rightarrow> auth_state \<Rightarrow> http_trace \<Rightarrow> esp_err_t \<times> auth_state \<times> http_trace" where
  "http_auth_require_session configured now request st tr =
    (case http_auth_request_has_session configured now request st of (has_session, st) \<Rightarrow>
       if has_session then (ESP_OK, st, tr)
       else if strneq (rq_uri request) (lit ''/api/'') 5 \<or> rq_method request = HTTP_POST
       then (case send_session_expired request tr of (result, tr) \<Rightarrow> (result, st, tr))
       else (case http_auth_send_redirect request (lit ''/'') tr of (result, tr) \<Rightarrow> (result, st, tr)))"

subsection \<open>Login and logout\<close>

definition backoff_seconds :: "u8 \<Rightarrow> u8" where
  "backoff_seconds failed = min failed 6 * push_bit (unat (min failed 4) - 1) 1"

text \<open>
  \<open>send_file\<close> is the portal's \<open>send_portal_file\<close>; \<open>now\<close> the tick at the start, \<open>now2\<close>
  the one after a successful login.
\<close>

definition http_auth_login_handler ::
  "bool \<Rightarrow> bytes option \<Rightarrow> (http_request \<Rightarrow> bytes \<Rightarrow> http_trace \<Rightarrow> esp_err_t \<times> http_trace) \<Rightarrow> u32 \<Rightarrow> u32 \<Rightarrow>
   http_request \<Rightarrow> auth_state \<Rightarrow> esp_err_t \<times> auth_state \<times> http_trace" where
  "http_auth_login_handler configured web_pin send_file now now2 request st =
    (let respond = (\<lambda>st (result, tr). (result, st, tr)) in
     if \<not> configured then respond st (http_auth_send_redirect request (lit ''/setup'') [])
     else if failed_login_count st > 0 \<and>
          now - last_login_attempt_tick st < 100 * ucast (backoff_seconds (failed_login_count st))
     then respond st (httpd_resp_send request
            (lit ''<!doctype html><html><body><h2>Slow down.</h2><p>Too many login attempts.</p></body></html>'')
            [Set_Status (lit ''429 Too Many Requests''), Set_Type (lit ''text/html'')])
     else
       (let st = st\<lparr>last_login_attempt_tick := now\<rparr> in
        case http_read_body_checked request (zeros 96) [] of (result, body, tr) \<Rightarrow>
        if result \<noteq> ESP_OK then (ESP_FAIL, st, tr)
        else
          (let pin = snd (form_value body (lit ''pin'') (zeros FIELD_LEN)) in
           case web_pin of
             Some web_pin \<Rightarrow>
               if at web_pin 0 = 0 \<or> \<not> constant_time_equal pin web_pin FIELD_LEN
               then respond (st\<lparr>failed_login_count := failed_login_count st + 1\<rparr>)
                      (send_file request (lit ''login.html'') (tr @ [Set_Status (lit ''403 Forbidden'')]))
               else
                 (let cookie = snprintf (zeros 80) (SESSION_COOKIE_NAME @ lit ''='' @ cstr (session_token st) @
                        lit ''; Path=/; HttpOnly; SameSite=Lax'')
                  in respond (st\<lparr>failed_login_count := 0, session_last_activity_tick := now2\<rparr>)
                       (http_auth_send_redirect request (lit ''/'') (tr @ [Set_Hdr (lit ''Set-Cookie'') (cstr cookie)])))
           | None \<Rightarrow> respond (st\<lparr>failed_login_count := failed_login_count st + 1\<rparr>)
                      (send_file request (lit ''login.html'') (tr @ [Set_Status (lit ''403 Forbidden'')])))))"

definition http_auth_logout_handler ::
  "bool \<Rightarrow> u32 \<Rightarrow> u32 \<Rightarrow> http_request \<Rightarrow> auth_state \<Rightarrow> esp_err_t \<times> auth_state \<times> http_trace" where
  "http_auth_logout_handler configured a b request st =
    (if \<not> configured then (case http_auth_send_redirect request (lit ''/setup'') [] of (result, tr) \<Rightarrow> (result, st, tr))
     else (case http_auth_send_redirect request (lit ''/login-page'')
               [Set_Hdr (lit ''Set-Cookie'') (lit ''BMESH_SESSION=; Path=/; Max-Age=0; HttpOnly; SameSite=Lax'')] of (result, tr) \<Rightarrow>
       (result, st\<lparr>session_token := snprintf (session_token st) (hex8 a @ hex8 b), session_last_activity_tick := 0\<rparr>, tr)))"

subsection \<open>The scan finds every session cookie\<close>

text \<open>The name of the cookie does not overlap itself: its first letter occurs once.\<close>

lemma cookie_name_no_overlap:
  assumes "occurs_at SESSION_COOKIE_NAME s p" "occurs_at SESSION_COOKIE_NAME s q" "p < q"
  shows "p + 13 \<le> q"
proof (rule ccontr)
  assume "\<not> p + 13 \<le> q"
  then obtain k where k: "q = p + k" "0 < k" "k < 13" using assms(3) by (metis less_imp_add_positive add.commute nat_add_left_cancel_less not_le)
  have "list_all (\<lambda>k. SESSION_COOKIE_NAME ! k \<noteq> SESSION_COOKIE_NAME ! 0) [1..<13]" by code_simp
  then have "SESSION_COOKIE_NAME ! k \<noteq> SESSION_COOKIE_NAME ! 0" using k by (simp add: list_all_iff)
  with occurs_at_nth [OF assms(1), of k] occurs_at_nth [OF assms(2), of 0] k show False by simp
qed

lemma cookie_loop_iff:
  "cookie_loop token cookie pos \<longleftrightarrow> (\<exists>p\<ge>pos. occurs_at SESSION_COOKIE_NAME cookie p \<and> cookie_hit token cookie p)"
proof (induction token cookie pos rule: cookie_loop.induct)
  case (1 token cookie pos)
  show ?case
  proof (cases "strstr_from cookie pos SESSION_COOKIE_NAME")
    case None
    then show ?thesis using strstr_from_None [OF None] by (subst cookie_loop.simps) auto
  next
    case (Some p)
    note p = strstr_from_Some [OF Some]
    show ?thesis
    proof (cases "cookie_hit token cookie p")
      case True
      with Some p show ?thesis by (subst cookie_loop.simps) auto
    next
      case False
      have "p + 13 \<le> q" if "pos \<le> q" "occurs_at SESSION_COOKIE_NAME cookie q" "cookie_hit token cookie q" for q
        using p that False cookie_name_no_overlap [of cookie p q] by (metis linorder_neqE_nat)
      moreover have "cookie_loop token cookie pos = cookie_loop token cookie (p + 13)"
        using Some False by (subst cookie_loop.simps) simp
      ultimately show ?thesis using "1.IH" [OF Some False] p by (metis cookie_name_nonempty(2) le_trans trans_le_add1)
    qed
  qed
qed

text \<open>A cookie header that carries the session: the pair stands between separators.\<close>

definition carries_session :: "bytes \<Rightarrow> bytes \<Rightarrow> bool" where
  "carries_session token v \<longleftrightarrow> (\<exists>pre post. v = pre @ SESSION_COOKIE_NAME @ [61] @ token @ post \<and>
     (pre = [] \<or> last pre = 59 \<or> last pre = 32) \<and> (post = [] \<or> hd post = 59 \<or> hd post = 32))"

lemma nul_free_drop: "0 \<notin> set v \<Longrightarrow> cstr (drop k v) = drop k v"
  by (meson cstr_id in_set_dropD)

lemma cookie_hit_iff:
  assumes v: "0 \<notin> set v" and t: "length (cstr token) = 16" and p: "occurs_at SESSION_COOKIE_NAME v p"
  shows "cookie_hit token v p \<longleftrightarrow> (p = 0 \<or> v ! (p - 1) = 59 \<or> v ! (p - 1) = 32) \<and>
    take 17 (drop (p + 13) v) = 61 # cstr token \<and> (length v = p + 30 \<or> v ! (p + 30) = 59 \<or> v ! (p + 30) = 32)"
proof -
  note b = occurs_at_bound [OF p]
  have "at v (p - 1) = v ! (p - 1)" if "p \<noteq> 0" using b that by (simp add: at_def)
  moreover have "take 1 (drop (p + 13) v) = [61] \<and> take 16 (drop (p + 14) v) = cstr token \<longleftrightarrow> take 17 (drop (p + 13) v) = 61 # cstr token"
  proof -
    have "drop (p + 14) v = drop 1 (drop (p + 13) v)" by (simp add: add.commute)
    then show ?thesis by (cases "drop (p + 13) v") auto
  qed
  moreover have "at v (p + 30) = 59 \<or> at v (p + 30) = 0 \<or> at v (p + 30) = 32 \<longleftrightarrow> length v = p + 30 \<or> v ! (p + 30) = 59 \<or> v ! (p + 30) = 32"
    if "take 17 (drop (p + 13) v) = 61 # cstr token"
  proof -
    have "length (take 17 (drop (p + 13) v)) = 17" using that t by simp
    then have "p + 30 \<le> length v" by simp
    moreover have "v ! (p + 30) \<noteq> 0" if "p + 30 < length v" using v that by (metis nth_mem)
    ultimately show ?thesis by (auto simp: at_def)
  qed
  moreover have "cookie_hit token v p \<longleftrightarrow> (p = 0 \<or> at v (p - 1) = 59 \<or> at v (p - 1) = 32) \<and>
      (take 1 (drop (p + 13) v) = [61] \<and> take 16 (drop (p + 14) v) = cstr token) \<and>
      (at v (p + 30) = 59 \<or> at v (p + 30) = 0 \<or> at v (p + 30) = 32)"
  proof -
    have s: "strneq (drop (p + 13) v) [61] 1 \<longleftrightarrow> take 1 (drop (p + 13) v) = [61]"
      "strneq (drop (p + 14) v) token 16 \<longleftrightarrow> take 16 (drop (p + 14) v) = cstr token"
      using t by (simp_all add: strneq_def nul_free_drop [OF v])
    show ?thesis unfolding s [symmetric] by (simp add: cookie_hit_def Let_def add_ac)
  qed
  ultimately show ?thesis by (cases "p = 0") (simp_all, blast+)
qed

lemma cookie_has_session_iff:
  assumes "0 \<notin> set v" "length (cstr token) = 16"
  shows "cookie_has_session token v \<longleftrightarrow> carries_session (cstr token) v"
proof
  assume "cookie_has_session token v"
  then obtain p where p: "occurs_at SESSION_COOKIE_NAME v p" "cookie_hit token v p"
    using assms(1) by (auto simp: cookie_has_session_def cookie_loop_iff)
  note h = p(2) [unfolded cookie_hit_iff [OF assms p(1)]]
  note b = occurs_at_bound [OF p(1)]
  have "v = take p v @ take 13 (drop p v) @ take 17 (drop (p + 13) v) @ drop (p + 30) v"
  proof -
    have "drop (p + 13) v = drop 13 (drop p v)" "drop (p + 30) v = drop 17 (drop (p + 13) v)" by (simp_all add: add.commute)
    then show ?thesis by (metis append_take_drop_id)
  qed
  then have e: "v = take p v @ SESSION_COOKIE_NAME @ [61] @ cstr token @ drop (p + 30) v"
    using h p(1) by (simp add: occurs_at_def)
  have "take p v = [] \<or> last (take p v) = v ! (p - 1)"
    using b by (cases "p = 0"; cases v) (auto simp: last_conv_nth)
  then have pre: "take p v = [] \<or> last (take p v) = 59 \<or> last (take p v) = 32" using h by fastforce
  have "drop (p + 30) v = [] \<or> hd (drop (p + 30) v) = v ! (p + 30)"
    by (cases "p + 30 < length v") (auto simp: hd_drop_conv_nth)
  then have "drop (p + 30) v = [] \<or> hd (drop (p + 30) v) = 59 \<or> hd (drop (p + 30) v) = 32" using h by fastforce
  with e pre show "carries_session (cstr token) v" unfolding carries_session_def by blast
next
  assume "carries_session (cstr token) v"
  then obtain pre post where v: "v = pre @ SESSION_COOKIE_NAME @ [61] @ cstr token @ post"
    and pre: "pre = [] \<or> last pre = 59 \<or> last pre = 32" and post: "post = [] \<or> hd post = 59 \<or> hd post = 32"
    by (auto simp: carries_session_def)
  have o: "occurs_at SESSION_COOKIE_NAME v (length pre)" by (simp add: occurs_at_def v)
  have "pre = [] \<or> v ! (length pre - 1) = last pre" by (cases pre rule: rev_cases) (auto simp: v nth_append)
  moreover have "post = [] \<or> v ! (length pre + 30) = hd post"
    using assms(2) by (cases post) (auto simp: v nth_append)
  ultimately have "cookie_hit token v (length pre)"
    unfolding cookie_hit_iff [OF assms o] using pre post assms(2) by (auto simp: v)
  with o assms(1) show "cookie_has_session token v" by (auto simp: cookie_has_session_def cookie_loop_iff)
qed

subsection \<open>The body\<close>

lemma blit_blit: "received \<le> length buf \<Longrightarrow> blit (blit buf received a) (received + length a) d = blit buf received (a @ d)"
  by (simp add: blit_def add_ac)

lemma recv_loop_spec:
  assumes "[] \<notin> set cs" "received \<le> len" "len - received \<le> length (concat cs)" "len < length buffer"
  shows "recv_loop len cs buffer received = Some (blit buffer received (take (len - received) (concat cs)), len)"
  using assms
proof (induction len cs buffer received rule: recv_loop.induct)
  case (1 len buffer received)
  then show ?case by (simp add: blit_def)
next
  case (2 len c cs buffer received)
  show ?case
  proof (cases "received < len")
    case False
    with 2 show ?thesis by (simp add: blit_def)
  next
    case True
    let ?piece = "take (len - received) c"
    have c: "?piece \<noteq> []" "length ?piece \<le> len - received" using 2(2) True by auto
    have rest: "len - received - length ?piece = (if len - received \<le> length c then 0 else len - received - length c)" by auto
    have IH: "recv_loop len cs (blit buffer received ?piece) (received + length ?piece) =
        Some (blit (blit buffer received ?piece) (received + length ?piece) (take (len - (received + length ?piece)) (concat cs)), len)"
      using 2(1) [OF True refl c(1)] 2(2-) True c(2) rest by (auto simp: Let_def split: if_splits)
    have "take (len - received) (concat (c # cs)) = ?piece @ take (len - (received + length ?piece)) (concat cs)"
      by (auto simp: min_def)
    moreover have "blit (blit buffer received ?piece) (received + length ?piece) d = blit buffer received (?piece @ d)" for d
      using 2(5) True by (intro blit_blit) simp
    ultimately show ?thesis using True c IH by (simp add: Let_def)
  qed
qed

lemma read_body_spec:
  assumes "[] \<notin> set (rq_chunks req)" "rq_content_len req \<le> length (concat (rq_chunks req))" "rq_content_len req < length buffer"
  shows "http_read_body_checked req buffer tr = (ESP_OK, pad (length buffer) (take (rq_content_len req) (concat (rq_chunks req))), tr)"
proof -
  let ?b = "take (rq_content_len req) (concat (rq_chunks req))"
  have "length ?b = rq_content_len req" using assms(2) by simp
  then have "(blit (zeros (length buffer)) 0 ?b)[rq_content_len req := 0] = pad (length buffer) ?b"
    using blit_zeros_pad [of ?b "length buffer"] assms(3) by simp
  moreover have "\<not> length buffer \<le> rq_content_len req" "buffer \<noteq> []" using assms(3) by auto
  ultimately show ?thesis
    using assms recv_loop_spec [of "rq_chunks req" 0 "rq_content_len req" "zeros (length buffer)"]
    by (simp add: http_read_body_checked_def)
qed

text \<open>A request whose whole body \<open>b\<close> arrives and fits a buffer of \<open>n\<close> bytes.\<close>

definition body_arrives :: "nat \<Rightarrow> bytes \<Rightarrow> http_request \<Rightarrow> bool" where
  "body_arrives n b req \<longleftrightarrow> [] \<notin> set (rq_chunks req) \<and> rq_content_len req \<le> length (concat (rq_chunks req)) \<and>
     b = take (rq_content_len req) (concat (rq_chunks req)) \<and> length b < n \<and> 0 \<notin> set b"

lemma body_arrives_read:
  "body_arrives n b req \<Longrightarrow> http_read_body_checked req (zeros n) tr = (ESP_OK, pad n b, tr)"
  by (auto simp: body_arrives_def read_body_spec)

lemma cstr_body: "body_arrives n b req \<Longrightarrow> cstr (pad n b) = b"
  unfolding body_arrives_def by (metis cstr_pad)

lemma form_value_body:
  assumes "body_arrives n b req" "0 \<notin> set key" "38 \<notin> set key" "0 < length buf"
  shows "form_value (pad n b) key buf = (case form_lookup b key of None \<Rightarrow> (False, buf) | Some v \<Rightarrow> (True, form_store buf v))"
  unfolding form_value_def cstr_body [OF assms(1)] using assms by (intro form_value_loop_spec) (auto simp: body_arrives_def)

lemma length_form_store: "0 < length buf \<Longrightarrow> length (form_store buf v) = length buf"
proof -
  assume b: "0 < length buf"
  let ?raw = "take (length buf - 1) v"
  have "length ?raw < length buf" using b by (cases buf) simp_all
  then have u: "length (?raw @ 0 # drop (Suc (length ?raw)) buf) = length buf" and "length (url_decoded ?raw) < length buf"
    using length_url_decoded [of ?raw] by (simp_all del: length_take)
  then show ?thesis unfolding form_store_def Let_def length_append list.size length_drop u [unfolded length_append list.size length_drop] by simp
qed

end
