(* ===== verification/Json_Writer.thy ===== *)
theory Json_Writer
  imports Http_Auth "HOL-Library.Sublist"
begin

text \<open>
  \<open>src/utils/json_utils.c\<close> and \<open>src/json/json_writer.c\<close>: escaping a C string for
  JSON into a bounded buffer, and the chunks a message is sent in.
\<close>

subsection \<open>Escaping\<close>

definition json_append :: "bytes \<Rightarrow> nat \<Rightarrow> bytes \<Rightarrow> bytes \<times> nat" where
  "json_append destination used text =
    (if used + length text \<ge> length destination then (destination, used)
     else (blit destination used text, used + length text))"

text \<open>The text appended for one character: the cases of the \<open>switch\<close>.\<close>

definition json_escape_char :: "u8 \<Rightarrow> bytes" where
  "json_escape_char c =
    (if c = 34 then [92, 34]
     else if c = 92 then [92, 92]
     else if c = 8 then [92, 98]
     else if c = 12 then [92, 102]
     else if c = 10 then [92, 110]
     else if c = 13 then [92, 114]
     else if c = 9 then [92, 116]
     else if c < 0x20 \<or> c \<ge> 0x7f then [92, 117, 48, 48, hex_digit (drop_bit 4 c), hex_digit (c AND 0x0f)]
     else [c])"

fun json_escape_loop :: "bytes \<Rightarrow> nat \<Rightarrow> bytes \<Rightarrow> bytes" where
  "json_escape_loop destination used [] = destination[used := 0]"
| "json_escape_loop destination used (c # source) =
    (if c = 0 then destination[used := 0]
     else (case json_append destination used (json_escape_char c) of (destination, used) \<Rightarrow>
       if used + 1 \<ge> length destination then destination[used := 0]
       else json_escape_loop destination used source))"

definition json_escape_string :: "bytes \<Rightarrow> bytes option \<Rightarrow> bytes" where
  "json_escape_string destination source =
    (if length destination = 0 then destination
     else (case source of None \<Rightarrow> destination[0 := 0] | Some source \<Rightarrow> json_escape_loop destination 0 source))"

subsection \<open>What a JSON reader sees\<close>

text \<open>Reading the inside of a JSON string: characters and the escapes above; None is not well formed.\<close>

definition json_simple_escape :: "u8 \<Rightarrow> u8 option" where
  "json_simple_escape e = map_of [(34, 34), (92, 92), (47, 47), (98, 8), (102, 12), (110, 10), (114, 13), (116, 9)] e"

fun json_unescape :: "bytes \<Rightarrow> bytes option" where
  "json_unescape [] = Some []"
| "json_unescape (c # s) =
    (if c = 92 then
       (case s of
          [] \<Rightarrow> None
        | e # r \<Rightarrow>
           if e = 117 then
             (case r of
                a # b # h # l # r' \<Rightarrow>
                  if a = 48 \<and> b = 48 \<and> isxdigit h \<and> isxdigit l then map_option (Cons (hex_byte h l)) (json_unescape r') else None
              | _ \<Rightarrow> None)
           else (case json_simple_escape e of None \<Rightarrow> None | Some v \<Rightarrow> map_option (Cons v) (json_unescape r)))
     else if c = 34 \<or> c < 32 then None
     else map_option (Cons c) (json_unescape s))"

text \<open>What an escape writes is read back, whatever follows.\<close>

lemma hex_digit_read: "v < 16 \<Longrightarrow> isxdigit (hex_digit v) \<and> hex_value (hex_digit v) = uint v"
proof -
  assume "v < 16"
  then have "unat v \<in> set [0..<16]" by (simp add: word_less_nat_alt)
  moreover have "list_all (\<lambda>n. isxdigit (hex_digit (of_nat n)) \<and> hex_value (hex_digit (of_nat n)) = int n) [0..<16]" by code_simp
  ultimately have "isxdigit (hex_digit (of_nat (unat v))) \<and> hex_value (hex_digit (of_nat (unat v))) = int (unat v)"
    unfolding list_all_iff by blast
  then show ?thesis by simp
qed

lemma nibbles_join: "push_bit 4 (uint (drop_bit 4 (c :: u8))) OR uint (c AND 0x0f) = uint c"
proof -
  have "c AND 0x0f = take_bit 4 c" by (simp add: take_bit_eq_mask mask_eq_exp_minus_1)
  then show ?thesis
    by (simp only: unsigned_drop_bit_eq unsigned_take_bit_eq) (rule bit_eqI, auto simp: bit_simps dest: bit_imp_le_length)
qed

lemma hex_digits_read:
  "isxdigit (hex_digit (drop_bit 4 c)) \<and> isxdigit (hex_digit (c AND 0x0f)) \<and> hex_byte (hex_digit (drop_bit 4 c)) (hex_digit (c AND 0x0f)) = c"
  using hex_digit_read [OF nibbles_small(1), of c] hex_digit_read [OF nibbles_small(2), of c] nibbles_join [of c]
  by (simp add: hex_byte_def)

lemma escape_char_read: "json_unescape (json_escape_char c @ s) = map_option (Cons c) (json_unescape s)"
  using hex_digits_read [of c] by (auto simp: json_escape_char_def json_simple_escape_def)

lemma escape_char_nonzero: "c \<noteq> 0 \<Longrightarrow> 0 \<notin> set (json_escape_char c)"
  using hex_digit_nonzero [OF nibbles_small(1), of c] hex_digit_nonzero [OF nibbles_small(2), of c]
  by (auto simp: json_escape_char_def)

lemma escape_char_length: "0 < length (json_escape_char c)" "length (json_escape_char c) \<le> 6"
  by (simp_all add: json_escape_char_def)

text \<open>The characters whose escape the loop keeps, \<open>used\<close> bytes being taken of \<open>n\<close>.\<close>

fun json_kept :: "nat \<Rightarrow> nat \<Rightarrow> bytes \<Rightarrow> bytes" where
  "json_kept n used [] = []"
| "json_kept n used (c # s) =
    (let l = length (json_escape_char c) in
     if used + l \<ge> n then (if used + 1 \<ge> n then [] else json_kept n used s)
     else c # (if used + l + 1 \<ge> n then [] else json_kept n (used + l) s))"

lemma json_kept_subseq: "subseq (json_kept n used s) s"
  by (induction n used s rule: json_kept.induct) (auto simp: Let_def)

lemma json_kept_all: "used + 6 * length s < n \<Longrightarrow> json_kept n used s = s"
proof (induction n used s rule: json_kept.induct)
  case (2 n used c s)
  have l: "length (json_escape_char c) \<le> 6" by (rule escape_char_length)
  show ?case
  proof (cases "s = []")
    case True
    with 2(3) l show ?thesis by (simp add: Let_def)
  next
    case False
    then have "6 \<le> 6 * length s" by (cases s) auto
    then have "\<not> n \<le> used + length (json_escape_char c)" "\<not> n \<le> used + length (json_escape_char c) + 1"
      "used + length (json_escape_char c) + 6 * length s < n" using 2(3) l by auto
    with 2(2) show ?thesis by (simp add: Let_def)
  qed
qed simp

lemma json_escape_loop_spec:
  assumes "used < length dst" "0 \<notin> set s" "0 \<notin> set (take used dst)"
  shows "cstr (json_escape_loop dst used s) = take used dst @ concat (map json_escape_char (json_kept (length dst) used s))"
  using assms
proof (induction dst used s rule: json_escape_loop.induct)
  case (1 dst used)
  then show ?case by (simp add: upd_conv_take_nth_drop)
next
  case (2 dst used c s)
  let ?e = "json_escape_char c"
  show ?case
  proof (cases "used + length ?e \<ge> length dst")
    case True
    then show ?thesis
      using 2(1) [of dst used] 2(2-) by (auto simp: json_append_def Let_def upd_conv_take_nth_drop)
  next
    case False
    let ?d = "blit dst used ?e"
    have t: "take (used + length ?e) ?d = take used dst @ ?e" "length ?d = length dst"
      using False 2(2) by (simp_all add: blit_def)
    have z: "0 \<notin> set (take used dst @ ?e)" using 2(3,4) escape_char_nonzero [of c] by auto
    have "cstr (?d[used + length ?e := 0]) = take used dst @ ?e"
      using cstr_append0 [OF z] False t by (simp add: upd_conv_take_nth_drop)
    then show ?thesis
      using 2(1) [of ?d "used + length ?e"] 2(3) False t z by (auto simp: json_append_def Let_def)
  qed
qed

lemma json_escape_string_spec:
  assumes "0 < length dst"
  shows "cstr (json_escape_string dst (Some src)) = concat (map json_escape_char (json_kept (length dst) 0 (cstr src)))"
proof -
  have "json_escape_loop dst used src = json_escape_loop dst used (cstr src)" for used
    by (induction dst used src rule: json_escape_loop.induct) (auto simp: cstr_Cons split: prod.splits)
  then show ?thesis using assms json_escape_loop_spec [of 0 dst "cstr src"] by (auto simp: json_escape_string_def)
qed

lemma json_unescape_concat: "json_unescape (concat (map json_escape_char t)) = Some t"
  by (induction t) (simp_all add: escape_char_read)

subsection \<open>A message in chunks\<close>

text \<open>An escaped copy in a fresh buffer of \<open>n\<close> bytes, as the text that is sent.\<close>

definition escaped :: "nat \<Rightarrow> bytes \<Rightarrow> bytes" where
  "escaped n source = cstr (json_escape_string (zeros n) (Some source))"

text \<open>
  The chunks of \<open>write_message_json_chunk\<close> in their order; the buffers of the numbers hold
  every value.
\<close>

definition message_chunks :: "emergency_message_t \<Rightarrow> bool \<Rightarrow> bytes list" where
  "message_chunks m first =
    [if first then [] else lit '','',
     lit ''{\"id\":'', print_dec (unat (em_id m)),
     lit '',\"direction\":\"'', escaped (FIELD_LEN * 6 + 1) (em_direction m),
     lit ''\",\"source\":\"'', escaped (FIELD_LEN * 6 + 1) (em_source m),
     lit ''\",\"destination\":\"'', escaped (FIELD_LEN * 6 + 1) (em_destination m),
     lit ''\",\"type\":\"'', escaped (FIELD_LEN * 6 + 1) (em_type m),
     lit ''\",\"priority\":\"'', escaped (FIELD_LEN * 6 + 1) (em_priority m),
     lit ''\",\"payload\":\"'', escaped (PAYLOAD_LEN * 6 + 1) (em_payload m),
     lit ''\",\"packet\":\"'', escaped (PACKET_LEN * 6 + 1) (em_packet m),
     lit ''\",\"thread_key\":\"'', escaped (FIELD_LEN * 6 + 1) (em_thread_key m),
     lit ''\",\"status\":\"'', escaped (FIELD_LEN * 6 + 1) (em_status m),
     lit ''\",\"rssi\":'', print_int (em_rssi m),
     lit '',\"snr\":'', print_int (em_snr m),
     lit '',\"hops\":'', print_int (em_hops m),
     lit '',\"stored_epoch\":'', print_dec (unat (em_stored_epoch m)),
     lit '',\"location\":{\"sitio\":\"'', escaped (SITIO_LEN * 6 + 1) (sitio (em_origin_location m)),
     lit ''\",\"barangay\":\"'', escaped (BARANGAY_LEN * 6 + 1) (barangay (em_origin_location m)),
     lit ''\",\"municipality\":\"'', escaped (MUNICIPALITY_LEN * 6 + 1) (municipality (em_origin_location m)),
     lit ''\"}}'']"

text \<open>Each chunk is followed by \<open>if (chunk_result != ESP_OK) return\<close>.\<close>

fun send_all :: "http_request \<Rightarrow> bytes list \<Rightarrow> http_trace \<Rightarrow> esp_err_t \<times> http_trace" where
  "send_all request [] tr = (ESP_OK, tr)"
| "send_all request (c # cs) tr =
    (case httpd_resp_send_chunk request c tr of (chunk_result, tr) \<Rightarrow>
       if chunk_result \<noteq> ESP_OK then (chunk_result, tr) else send_all request cs tr)"

definition write_message_json_chunk :: "http_request \<Rightarrow> emergency_message_t \<Rightarrow> bool \<Rightarrow> http_trace \<Rightarrow> http_trace" where
  "write_message_json_chunk request m first tr = snd (send_all request (message_chunks m first) tr)"

subsection \<open>What a client receives\<close>

text \<open>
  The body of a chunked response: the data of its chunks up to the first empty one, which
  ends the body (RFC 9112, section 7.1; \<open>httpd_resp_send_chunk\<close> with length 0).
\<close>

fun chunked_body :: "http_trace \<Rightarrow> bytes" where
  "chunked_body [] = []"
| "chunked_body (Send_Chunk c # tr) = (if c = [] then [] else c @ chunked_body tr)"
| "chunked_body (e # tr) = chunked_body tr"

lemma chunked_body_append:
  "Send_Chunk [] \<notin> set a \<Longrightarrow> chunked_body (a @ b) = chunked_body a @ chunked_body b"
  by (induction a rule: chunked_body.induct) auto

lemma chunked_body_ended: "chunked_body (a @ Send_Chunk [] # b) = chunked_body a"
  by (induction a rule: chunked_body.induct) auto

text \<open>
  A string escaped into a buffer with room for six bytes per character is read back
  unchanged by a JSON reader, and the text has neither a quote nor a control character
  outside an escape.
\<close>

theorem json_escape_roundtrip:
  assumes "6 * strlen src < length dst"
  shows "json_unescape (cstr (json_escape_string dst (Some src))) = Some (cstr src)"
proof -
  have "0 < length dst" using assms by (cases dst) auto
  with assms show ?thesis by (simp add: json_escape_string_spec json_kept_all json_unescape_concat strlen_def)
qed

text \<open>
  Into a buffer of any size the escaper writes a text that a JSON reader accepts: an
  escape is written whole or not at all, so what is read is the string without the
  characters that did not fit.
\<close>

theorem json_escape_wellformed:
  assumes "0 < length dst"
  shows "\<exists>t. json_unescape (cstr (json_escape_string dst (Some src))) = Some t \<and> subseq t (cstr src)"
  using assms by (simp add: json_escape_string_spec json_unescape_concat json_kept_subseq)

theorem json_escape_roundtrip_witness:
  "json_unescape (cstr (json_escape_string (zeros 31) (Some [34, 10, 65, 200, 7, 0]))) = Some [34, 10, 65, 200, 7]"
proof -
  have "6 * strlen [34, 10, 65, 200, 7, 0] < length (zeros 31)" "cstr [34, 10, 65, 200, 7, 0] = [34, 10, 65, 200, 7]" by code_simp+
  with json_escape_roundtrip [of "[34, 10, 65, 200, 7, 0]" "zeros 31"] show ?thesis by simp
qed

theorem json_escape_wellformed_witness:
  "\<exists>t. json_unescape (cstr (json_escape_string (zeros 4) (Some (lit ''a\"b\"c'')))) = Some t \<and> subseq t (cstr (lit ''a\"b\"c''))"
  by (rule json_escape_wellformed) simp

end
