(* ===== verification/Http_Portal.thy ===== *)
theory Http_Portal
  imports Json_Writer
begin

text \<open>
  The handlers of the portal: \<open>src/http/http_portal.c\<close>, \<open>http_setup.c\<close>,
  \<open>http_send.c\<close>, \<open>http_time.c\<close>, \<open>http_sync.c\<close>, \<open>http_reset.c\<close>,
  \<open>http_messages.c\<close> and \<open>http_status.c\<close>. The contexts \<open>start_http_server\<close>
  registers are resolved: a handler works on the node, its configuration and the session.
  \<open>esp_restart\<close> is the last call of a trace.
\<close>

text \<open>
  What the handlers use from outside: the services of the node, the configuration's flash,
  and the file system, a file being its data and whether reading it ends in an error.
\<close>

record ('n, 'c, 'q, 'r, 'k, 'o, 'f) portal_env =
  pe_services :: "('n, 'c, 'q, 'r, 'k, 'o) services"
  pe_config :: "'f config_nvs"
  pe_mounted :: bool
  pe_files :: "bytes \<Rightarrow> (bytes \<times> bool) option"

text \<open>The state behind the portal; \<open>pt_frames\<close> are the frames handed to the radio so far.\<close>

record ('n, 'c, 'q, 'r, 'f) portal =
  pt_auth :: auth_state
  pt_config :: "'f config_state"
  pt_node :: "('n, 'c, 'q, 'r) node"
  pt_last_send_tick :: u32
  pt_frames :: "(bytes \<times> nat) list"

text \<open>The flash behind it, one namespace of which each component holds its keys.\<close>

definition portal_namespace :: "('n, 'c, 'q, 'r, 'f) portal \<Rightarrow> ('f, 'n, 'c) bems_namespace" where
  "portal_namespace pt =
    \<lparr>ns_config = config_flash (pt_config pt), ns_messages = flash (tx_store (scheduler (pt_node pt))),
     ns_counter = cfg_flash (sequence (pt_node pt))\<rparr>"

definition with_namespace :: "('f, 'n, 'c) bems_namespace \<Rightarrow> ('n, 'c, 'q, 'r, 'f) portal \<Rightarrow> ('n, 'c, 'q, 'r, 'f) portal" where
  "with_namespace ns pt =
    pt\<lparr>pt_config := (pt_config pt)\<lparr>config_flash := ns_config ns\<rparr>,
       pt_node := (pt_node pt)\<lparr>
         scheduler := (scheduler (pt_node pt))\<lparr>tx_store := (tx_store (scheduler (pt_node pt)))\<lparr>flash := ns_messages ns\<rparr>\<rparr>,
         sequence := (sequence (pt_node pt))\<lparr>cfg_flash := ns_counter ns\<rparr>\<rparr>\<rparr>"

text \<open>\<open>node_config_erase\<close> called on the node.\<close>

definition configuration_erased :: "('n, 'c, 'q, 'r, 'k, 'o, 'f) portal_env \<Rightarrow> ('n, 'c, 'q, 'r, 'f) portal \<Rightarrow> ('n, 'c, 'q, 'r, 'f) portal" where
  "configuration_erased env pt =
    with_namespace (node_config_erase (pe_config env) (sv_store (pe_services env)) (sv_cfg (pe_services env)) (portal_namespace pt)) pt"

lemma portal_namespace_with [simp]: "portal_namespace (with_namespace ns pt) = ns"
  by (simp add: portal_namespace_def with_namespace_def)

lemma config_after_erase [simp]: "pt_config (configuration_erased env pt) = config_erased (pe_config env) (pt_config pt)"
  by (simp add: configuration_erased_def with_namespace_def portal_namespace_def config_erase_flash)

definition pt_configured :: "('n, 'c, 'q, 'r, 'f) portal \<Rightarrow> bool" where
  "pt_configured pt = nc_configured (node_config (pt_config pt))"

text \<open>\<open>require_session\<close> on the state of the portal.\<close>

definition require_session ::
  "u32 \<Rightarrow> http_request \<Rightarrow> ('n, 'c, 'q, 'r, 'f) portal \<Rightarrow> esp_err_t \<times> ('n, 'c, 'q, 'r, 'f) portal \<times> http_trace" where
  "require_session now request pt =
    (case http_auth_require_session (pt_configured pt) now request (pt_auth pt) [] of (result, auth, tr) \<Rightarrow>
       (result, pt\<lparr>pt_auth := auth\<rparr>, tr))"

subsection \<open>Pages\<close>

definition unavailable_html :: bytes where
  "unavailable_html = lit (''<!doctype html><html><body><h2>Portal unavailable</h2><p>The portal files could not be mounted. '' @
     ''Restart the node or reflash its filesystem image.</p></body></html>'')"

abbreviation PORTAL_FILE_BUFFER_SIZE :: nat where "PORTAL_FILE_BUFFER_SIZE \<equiv> 1536"

function send_file_loop :: "http_request \<Rightarrow> bytes \<Rightarrow> http_trace \<Rightarrow> esp_err_t \<times> http_trace" where
  "send_file_loop request data tr =
    (if data = [] then (ESP_OK, tr)
     else (case httpd_resp_send_chunk request (take PORTAL_FILE_BUFFER_SIZE data) tr of (result, tr) \<Rightarrow>
       if result \<noteq> ESP_OK then (result, tr) else send_file_loop request (drop PORTAL_FILE_BUFFER_SIZE data) tr))"
  by pat_completeness auto
termination
  by (relation "measure (\<lambda>(_, d, _). length d)") auto

declare send_file_loop.simps [simp del]

definition http_portal_send_file ::
  "('n, 'c, 'q, 'r, 'k, 'o, 'f) portal_env \<Rightarrow> http_request \<Rightarrow> bytes \<Rightarrow> http_trace \<Rightarrow> esp_err_t \<times> http_trace" where
  "http_portal_send_file env request filename tr =
    (let tr = tr @ [Set_Type (lit ''text/html'')]; path = lit ''/littlefs'' @ lit ''/'' @ filename in
     if \<not> pe_mounted env then httpd_resp_send request unavailable_html (tr @ [Set_Status (lit ''503 Service Unavailable'')])
     else if length path \<ge> 64 then (ESP_FAIL, tr)
     else (case pe_files env path of
       None \<Rightarrow> httpd_resp_send request unavailable_html (tr @ [Set_Status (lit ''500 Internal Server Error'')])
     | Some (data, ferror) \<Rightarrow>
        (case send_file_loop request data tr of (result, tr) \<Rightarrow>
          (let result = (if ferror then ESP_FAIL else result) in
           if result = ESP_OK then httpd_resp_send_chunk request [] tr else (result, tr)))))"

definition http_portal_index_handler ::
  "('n, 'c, 'q, 'r, 'k, 'o, 'f) portal_env \<Rightarrow> u32 \<Rightarrow> http_request \<Rightarrow> ('n, 'c, 'q, 'r, 'f) portal \<Rightarrow>
   esp_err_t \<times> ('n, 'c, 'q, 'r, 'f) portal \<times> http_trace" where
  "http_portal_index_handler env now request pt =
    (let respond = (\<lambda>pt (result, tr). (result, pt, tr)) in
     if \<not> streq (rq_uri request) (lit ''/'') then respond pt (http_auth_send_redirect request (lit ''/login-page'') [])
     else if \<not> pt_configured pt then respond pt (http_portal_send_file env request (lit ''setup.html'') [])
     else (case http_auth_request_has_session True now request (pt_auth pt) of (has_session, auth) \<Rightarrow>
       (let pt = pt\<lparr>pt_auth := auth\<rparr> in
        if \<not> has_session then respond pt (http_auth_send_redirect request (lit ''/login-page'') [])
        else respond pt (http_portal_send_file env request (lit ''index.html'') []))))"

definition http_portal_login_page_handler ::
  "('n, 'c, 'q, 'r, 'k, 'o, 'f) portal_env \<Rightarrow> u32 \<Rightarrow> http_request \<Rightarrow> ('n, 'c, 'q, 'r, 'f) portal \<Rightarrow>
   esp_err_t \<times> ('n, 'c, 'q, 'r, 'f) portal \<times> http_trace" where
  "http_portal_login_page_handler env now request pt =
    (let respond = (\<lambda>pt (result, tr). (result, pt, tr)) in
     if \<not> pt_configured pt then respond pt (http_auth_send_redirect request (lit ''/setup'') [])
     else (case http_auth_request_has_session True now request (pt_auth pt) of (has_session, auth) \<Rightarrow>
       (let pt = pt\<lparr>pt_auth := auth\<rparr> in
        if has_session then respond pt (http_auth_send_redirect request (lit ''/'') [])
        else respond pt (http_portal_send_file env request (lit ''login.html'') []))))"

definition http_portal_captive_handler :: "http_request \<Rightarrow> esp_err_t \<times> http_trace" where
  "http_portal_captive_handler request = http_auth_send_redirect request (lit ''/'') []"

subsection \<open>Setup\<close>

text \<open>
  \<open>strstr\<close> of \<open>marker\<close>, a match counting only at the start of a field. (The marker ends
  with the equals sign, so the case of an empty one never arises.)
\<close>

function form_contains_loop :: "bytes \<Rightarrow> bytes \<Rightarrow> nat \<Rightarrow> bool" where
  "form_contains_loop marker body pos =
    (case strstr_from body pos marker of
       None \<Rightarrow> False
     | Some p \<Rightarrow> if marker = [] \<or> p = 0 \<or> at body (p - 1) = 38 then True
                 else form_contains_loop marker body (p + length marker))"
  by pat_completeness auto
termination
proof (relation "measure (\<lambda>(m, b, pos). length b - pos)", goal_cases)
  case (2 marker body pos p)
  then have "p + length marker \<le> length body" "pos \<le> p" "0 < length marker"
    by (auto dest!: strstr_from_Some occurs_at_bound)
  then show ?case by (simp del: length_greater_0_conv)
qed simp

declare form_contains_loop.simps [simp del]

definition form_contains :: "bytes \<Rightarrow> bytes \<Rightarrow> bool" where
  "form_contains body key =
    (let marker = key @ [61] in
     if length marker \<ge> FIELD_LEN + 2 then False else form_contains_loop marker (cstr body) 0)"

definition valid_node_id :: "bytes \<Rightarrow> bool" where
  "valid_node_id v \<longleftrightarrow> \<not> (strlen v < 2 \<or> strlen v \<ge> FIELD_LEN) \<and> list_all (\<lambda>c. isalnum c \<or> c = 45 \<or> c = 95) (cstr v)"

definition valid_destination :: "bytes \<Rightarrow> bool" where
  "valid_destination v \<longleftrightarrow> streq v (lit ''ALL'') \<or> valid_node_id v"

definition valid_delimited_field :: "bytes \<Rightarrow> bool" where
  "valid_delimited_field v \<longleftrightarrow> list_all (\<lambda>c. \<not> (c < 0x20 \<or> c = 124 \<or> c = 126)) (cstr v)"

definition invalid_setup :: "http_request \<Rightarrow> bytes \<Rightarrow> http_trace \<Rightarrow> esp_err_t \<times> http_trace" where
  "invalid_setup request reason tr = httpd_resp_send request reason (tr @ [Set_Status (lit ''400 Bad Request''), Set_Type (lit ''text/plain'')])"

definition http_setup_get_handler ::
  "('n, 'c, 'q, 'r, 'k, 'o, 'f) portal_env \<Rightarrow> u32 \<Rightarrow> http_request \<Rightarrow> ('n, 'c, 'q, 'r, 'f) portal \<Rightarrow>
   esp_err_t \<times> ('n, 'c, 'q, 'r, 'f) portal \<times> http_trace" where
  "http_setup_get_handler env now request pt =
    (let respond = (\<lambda>pt (result, tr). (result, pt, tr)) in
     if pt_configured pt then
       (case http_auth_request_has_session True now request (pt_auth pt) of (has_session, auth) \<Rightarrow>
         (let pt = pt\<lparr>pt_auth := auth\<rparr> in
          if \<not> has_session then respond pt (http_auth_send_redirect request (lit ''/login-page'') [])
          else respond pt (httpd_resp_send request
            (lit (''<!doctype html><html><body><h1>Node settings</h1><p>Settings are protected. Use the dashboard to monitor this node.</p>'' @
              ''<a href='' @ [CHR 0x27] @ ''/'' @ [CHR 0x27] @ ''>Return to dashboard</a><form method='' @ [CHR 0x27] @ ''post'' @ [CHR 0x27] @
              '' action='' @ [CHR 0x27] @ ''/logout'' @ [CHR 0x27] @ ''><button>Log out</button></form></body></html>''))
            [Set_Type (lit ''text/html'')])))
     else respond pt (http_portal_send_file env request (lit ''setup.html'') []))"

definition form_field :: "bytes \<Rightarrow> string \<Rightarrow> bytes \<Rightarrow> bytes" where
  "form_field body key buf = snd (form_value body (lit key) buf)"

text \<open>The raw node id and the configuration of a form.\<close>

definition setup_form :: "bytes \<Rightarrow> bytes \<times> node_config_t" where
  "setup_form body =
    (let raw_node_id = form_field body ''node_id'' (zeros FIELD_LEN); c = node_config_zero
     in (raw_node_id,
         c\<lparr>nc_node_id := node_config_copy_node_id (nc_node_id c) raw_node_id,
           nc_node_name := form_field body ''node_name'' (nc_node_name c),
           nc_node_role := form_field body ''node_role'' (nc_node_role c),
           nc_location := \<lparr>sitio = form_field body ''sitio'' (sitio (nc_location c)),
             barangay = form_field body ''barangay'' (barangay (nc_location c)),
             municipality = form_field body ''municipality'' (municipality (nc_location c))\<rparr>,
           nc_default_destination := form_field body ''default_destination'' (nc_default_destination c),
           nc_default_priority := form_field body ''default_priority'' (nc_default_priority c),
           nc_ap_password := form_field body ''ap_password'' (nc_ap_password c),
           nc_web_pin := form_field body ''web_pin'' (nc_web_pin c),
           nc_duress_pin := form_field body ''duress_pin'' (nc_duress_pin c),
           nc_network_key := form_field body ''network_key'' (nc_network_key c)\<rparr>))"

definition required_fields :: "string list" where
  "required_fields = [''node_id'', ''node_name'', ''node_role'', ''default_destination'', ''default_priority'', ''ap_password'',
     ''web_pin'', ''network_key'']"

text \<open>The checks of the handler in their order: the reason of the first that fails.\<close>

definition setup_error :: "bytes \<Rightarrow> bytes \<Rightarrow> node_config_t \<Rightarrow> string option" where
  "setup_error body raw_node_id c =
    (if strlen raw_node_id \<noteq> strlen (nc_node_id c) then Some ''Node ID contains invalid characters''
     else if \<not> list_all (\<lambda>key. form_contains body (lit key)) required_fields then Some ''A required configuration field is missing''
     else if \<not> valid_node_id (nc_node_id c) then Some (''Node ID must be 2-31 letters, digits, '' @ [CHR 0x27] @ ''-'' @ [CHR 0x27] @ '' or '' @ [CHR 0x27] @ ''_'' @ [CHR 0x27])
     else if at (nc_node_name c) 0 = 0 \<or> \<not> valid_delimited_field (nc_node_name c)
       then Some ''Node name is required and cannot contain protocol delimiters''
     else if \<not> streq (nc_node_role c) (lit ''relay-only'') \<and> \<not> streq (nc_node_role c) (lit ''household'') \<and>
          \<not> streq (nc_node_role c) (lit ''command-post'') then Some ''Unsupported node role''
     else if \<not> valid_delimited_field (sitio (nc_location c)) \<or> \<not> valid_delimited_field (barangay (nc_location c)) \<or>
          \<not> valid_delimited_field (municipality (nc_location c)) then Some ''Location contains unsupported characters''
     else if \<not> valid_destination (nc_default_destination c) then Some ''Default destination must be ALL or a valid Node ID''
     else if \<not> streq (nc_default_priority c) (lit ''HIGH'') \<and> \<not> streq (nc_default_priority c) (lit ''NORMAL'') \<and>
          \<not> streq (nc_default_priority c) (lit ''LOW'') then Some ''Unsupported default priority''
     else if strlen (nc_ap_password c) < 8 \<or> streq (nc_ap_password c) (lit ''123456789'')
       then Some ''AP password must be 8-31 characters and not the default password''
     else if strlen (nc_web_pin c) < 8 \<or> streq (nc_web_pin c) (lit ''123456789'')
       then Some ''Web PIN must be at least 8 characters and not the default PIN''
     else if strlen (nc_network_key c) < 16 \<or> streq (nc_network_key c) (lit ''CHANGEME1234567'') \<or>
          streq (nc_network_key c) (lit ''CHANGEME12345678'')
       then Some ''Network key must be at least 16 characters and not the default key''
     else if at (nc_duress_pin c) 0 \<noteq> 0 \<and> strlen (nc_duress_pin c) < 8 then Some ''Duress PIN must be empty or at least 8 characters''
     else None)"

definition http_setup_handler ::
  "('n, 'c, 'q, 'r, 'k, 'o, 'f) portal_env \<Rightarrow> u32 \<Rightarrow> http_request \<Rightarrow> ('n, 'c, 'q, 'r, 'f) portal \<Rightarrow>
   esp_err_t \<times> ('n, 'c, 'q, 'r, 'f) portal \<times> http_trace" where
  "http_setup_handler env now request pt =
    (case (if pt_configured pt then require_session now request pt else (ESP_OK, pt, [])) of (auth, pt, tr) \<Rightarrow>
      if auth \<noteq> ESP_OK then (auth, pt, tr)
      else (case http_read_body_checked request (zeros 384) tr of (result, body, tr) \<Rightarrow>
        if result \<noteq> ESP_OK
        then (case invalid_setup request (lit ''Invalid or oversized setup form'') tr of (result, tr) \<Rightarrow> (result, pt, tr))
        else (case setup_form body of (raw_node_id, config) \<Rightarrow>
          (case setup_error body raw_node_id config of
             Some reason \<Rightarrow> (case invalid_setup request (lit reason) tr of (result, tr) \<Rightarrow> (result, pt, tr))
           | None \<Rightarrow>
              (case node_config_save (pe_config env) (Some (config\<lparr>nc_configured := True\<rparr>)) (pt_config pt) of (result, st) \<Rightarrow>
                (let pt = pt\<lparr>pt_config := st\<rparr> in
                 if result \<noteq> ESP_OK then (result, pt, tr)
                 else (ESP_OK, pt, snd (http_portal_send_file env request (lit ''reboot.html'') tr) @ [Esp_Restart])))))))"

subsection \<open>Sending a message\<close>

definition valid_node_destination :: "bytes \<Rightarrow> bool" where
  "valid_node_destination destination \<longleftrightarrow> streq destination (lit ''ALL'') \<or>
     (\<not> (strlen destination < 2 \<or> strlen destination \<ge> FIELD_LEN) \<and> list_all (\<lambda>c. isalnum c \<or> c = 45 \<or> c = 95) (cstr destination))"

text \<open>The fields of the form: sender, whether there is a destination, destination, type, priority, payload.\<close>

definition send_form :: "bytes \<Rightarrow> bytes \<times> bool \<times> bytes \<times> bytes \<times> bytes \<times> bytes" where
  "send_form body =
    (let sender_name = form_field body ''sender_name'' (zeros FIELD_LEN);
         (has_destination, destination) = form_value body (lit ''destination'') (zeros FIELD_LEN);
         type = form_field body ''type'' (zeros FIELD_LEN);
         priority = form_field body ''priority'' (zeros FIELD_LEN)
     in (sender_name, has_destination, destination, copy_field_no_delims type type, copy_field_no_delims priority priority,
         form_field body ''payload'' (zeros PAYLOAD_LEN)))"

text \<open>The payload with the sender's name in front; the local buffer starts as an empty string.\<close>

definition name_payload :: "bytes \<Rightarrow> bytes \<Rightarrow> bytes" where
  "name_payload sender_name payload =
    (let named_payload = copy_field (zeros PAYLOAD_LEN) sender_name; prefix_len = strlen named_payload;
         named_payload = (if prefix_len < PAYLOAD_LEN - 3
           then (let b = named_payload[prefix_len := 58, prefix_len + 1 := 32, prefix_len + 2 := 0]; n = prefix_len + 2
                 in take n b @ copy_field (drop n b) payload)
           else named_payload)
     in copy_field payload named_payload)"

definition send_error :: "bool \<Rightarrow> bytes \<Rightarrow> bytes \<Rightarrow> bytes \<Rightarrow> bytes \<Rightarrow> bytes \<Rightarrow> string option" where
  "send_error has_destination destination sender_name type priority payload =
    (if \<not> has_destination \<or> \<not> valid_node_destination destination then Some ''Invalid destination''
     else if (\<not> streq type (lit ''EMERGENCY'') \<and> \<not> streq type (lit ''FLOOD'') \<and> \<not> streq type (lit ''MEDICAL'') \<and> \<not> streq type (lit ''INFO'')) \<or>
       (\<not> streq priority (lit ''HIGH'') \<and> \<not> streq priority (lit ''NORMAL'') \<and> \<not> streq priority (lit ''LOW'')) \<or> at payload 0 = 0
     then Some ''Message type, priority, and payload are required''
     else if strlen payload \<ge> PAYLOAD_LEN \<or> (at sender_name 0 \<noteq> 0 \<and> strlen payload + strlen sender_name + 2 \<ge> PAYLOAD_LEN)
     then Some ''Message is too long''
     else None)"

text \<open>\<open>now\<close> is the tick of the session check, \<open>t\<close> the ones read later in the handler.\<close>

definition http_send_body ::
  "('n, 'c, 'q, 'r, 'k, 'o, 'f) portal_env \<Rightarrow> (nat \<Rightarrow> u32) \<Rightarrow> http_request \<Rightarrow> ('n, 'c, 'q, 'r, 'f) portal \<Rightarrow> http_trace \<Rightarrow> esp_err_t \<times> ('n, 'c, 'q, 'r, 'f) portal \<times> http_trace" where
  "http_send_body env t request pt tr =
    (let respond = (\<lambda>pt (result, tr). (result, pt, tr)) in
     case http_read_body_checked request (zeros 384) tr of (result, body, tr) \<Rightarrow>
       if result \<noteq> ESP_OK then (ESP_FAIL, pt, tr)
       else (case send_form body of (sender_name, has_destination, destination, type, priority, payload) \<Rightarrow>
         (case send_error has_destination destination sender_name type priority payload of
            Some reason \<Rightarrow> respond pt (httpd_resp_send request (lit reason) (tr @ [Set_Status (lit ''400 Bad Request'')]))
          | None \<Rightarrow>
             if t 0 - pt_last_send_tick pt < 1000
             then respond pt (httpd_resp_send request
               (lit ''<!doctype html><html><body><h2>Slow down.</h2><p>Please wait before sending again.</p></body></html>'')
               (tr @ [Set_Status (lit ''429 Too Many Requests''), Set_Type (lit ''text/html'')]))
             else
               (let payload = (if at sender_name 0 \<noteq> 0 then name_payload sender_name payload else payload);
                    nd = queue_message (pe_services env) (t 2) (t 3) (nc_location (node_config (pt_config pt)))
                      destination type priority payload (pt_node pt)
                in respond (pt\<lparr>pt_last_send_tick := t 1, pt_node := nd\<rparr>) (http_auth_send_redirect request (lit ''/'') tr)))))"

definition http_send_handler ::
  "('n, 'c, 'q, 'r, 'k, 'o, 'f) portal_env \<Rightarrow> u32 \<Rightarrow> (nat \<Rightarrow> u32) \<Rightarrow> http_request \<Rightarrow> ('n, 'c, 'q, 'r, 'f) portal \<Rightarrow> esp_err_t \<times> ('n, 'c, 'q, 'r, 'f) portal \<times> http_trace" where
  "http_send_handler env now t request pt =
    (case require_session now request pt of (session_result, pt, tr) \<Rightarrow>
      if session_result \<noteq> ESP_OK then (session_result, pt, tr) else http_send_body env t request pt tr)"

subsection \<open>Time, synchronisation, reset\<close>

definition form_epoch :: "bytes \<Rightarrow> u32" where
  "form_epoch body =
    (let epoch_value = form_field body ''epoch'' (zeros FIELD_LEN) in
     case strtoul epoch_value of (parsed_epoch, rest, erange) \<Rightarrow>
       if rest = cstr epoch_value \<or> rest \<noteq> [] \<or> erange then 0 else parsed_epoch)"

text \<open>\<open>t 0\<close> is the tick of the check against the clock, \<open>t 1\<close> that of setting it.\<close>

definition http_time_body ::
  "('n, 'c, 'q, 'r, 'k, 'o, 'f) portal_env \<Rightarrow> (nat \<Rightarrow> u32) \<Rightarrow> http_request \<Rightarrow> ('n, 'c, 'q, 'r, 'f) portal \<Rightarrow> http_trace \<Rightarrow> esp_err_t \<times> ('n, 'c, 'q, 'r, 'f) portal \<times> http_trace" where
  "http_time_body env t request pt tr =
    (let respond = (\<lambda>pt (result, tr). (result, pt, tr)); bad = Set_Status (lit ''400 Bad Request'') in
     case http_read_body_checked request (zeros 128) tr of (result, body, tr) \<Rightarrow>
       if result \<noteq> ESP_OK then (ESP_FAIL, pt, tr)
       else
         (let epoch = form_epoch body; nd = pt_node pt; current_epoch = mesh_control_current_epoch_seconds (t 0) (mesh_clock nd);
              difference = (if epoch > current_epoch then epoch - current_epoch else current_epoch - epoch) in
          if epoch < 1577836800 \<or> epoch > 4102444800
          then respond pt (httpd_resp_send request (lit ''Invalid epoch'') (tr @ [bad]))
          else if mesh_control_is_time_synced (mesh_clock nd) \<and> difference > 86400
          then respond pt (httpd_resp_send request (lit ''Time adjustment exceeds allowed bound'') (tr @ [bad]))
          else (case mesh_control_send_time_sync_packet (sv_cfg (pe_services env)) (my_node_id nd) epoch 0 2 (sequence nd) of (frame, sq) \<Rightarrow>
            respond (pt\<lparr>pt_node := nd\<lparr>mesh_clock := mesh_control_apply_time_sync (t 1) epoch 0 (mesh_clock nd), sequence := sq\<rparr>,
                pt_frames := pt_frames pt @ (case frame of None \<Rightarrow> [] | Some f \<Rightarrow> [f])\<rparr>)
              (http_auth_send_redirect request (lit ''/'') tr))))"

definition http_time_handler ::
  "('n, 'c, 'q, 'r, 'k, 'o, 'f) portal_env \<Rightarrow> u32 \<Rightarrow> (nat \<Rightarrow> u32) \<Rightarrow> http_request \<Rightarrow> ('n, 'c, 'q, 'r, 'f) portal \<Rightarrow> esp_err_t \<times> ('n, 'c, 'q, 'r, 'f) portal \<times> http_trace" where
  "http_time_handler env now t request pt =
    (case require_session now request pt of (session_result, pt, tr) \<Rightarrow>
      if session_result \<noteq> ESP_OK then (session_result, pt, tr) else http_time_body env t request pt tr)"

definition http_sync_body ::
  "('n, 'c, 'q, 'r, 'k, 'o, 'f) portal_env \<Rightarrow> http_request \<Rightarrow> ('n, 'c, 'q, 'r, 'f) portal \<Rightarrow> http_trace \<Rightarrow> esp_err_t \<times> ('n, 'c, 'q, 'r, 'f) portal \<times> http_trace" where
  "http_sync_body env request pt tr =
    (case mesh_control_send_sync_request (sv_cfg (pe_services env)) (my_node_id (pt_node pt)) (tx_store (scheduler (pt_node pt)))
            (sequence (pt_node pt)) of (frame, sq) \<Rightarrow>
      (case http_auth_send_redirect request (lit ''/'') tr of (result, tr) \<Rightarrow>
        (result, pt\<lparr>pt_node := (pt_node pt)\<lparr>sequence := sq\<rparr>, pt_frames := pt_frames pt @ (case frame of None \<Rightarrow> [] | Some f \<Rightarrow> [f])\<rparr>, tr)))"

definition http_sync_handler ::
  "('n, 'c, 'q, 'r, 'k, 'o, 'f) portal_env \<Rightarrow> u32 \<Rightarrow> http_request \<Rightarrow> ('n, 'c, 'q, 'r, 'f) portal \<Rightarrow> esp_err_t \<times> ('n, 'c, 'q, 'r, 'f) portal \<times> http_trace" where
  "http_sync_handler env now request pt =
    (case require_session now request pt of (session_result, pt, tr) \<Rightarrow>
      if session_result \<noteq> ESP_OK then (session_result, pt, tr) else http_sync_body env request pt tr)"

definition http_reset_body ::
  "('n, 'c, 'q, 'r, 'k, 'o, 'f) portal_env \<Rightarrow> http_request \<Rightarrow> ('n, 'c, 'q, 'r, 'f) portal \<Rightarrow> http_trace \<Rightarrow> esp_err_t \<times> ('n, 'c, 'q, 'r, 'f) portal \<times> http_trace" where
  "http_reset_body env request pt tr =
    (ESP_OK, configuration_erased env pt,
     snd (http_portal_send_file env request (lit ''reboot.html'') tr) @ [Esp_Restart])"

definition http_reset_handler ::
  "('n, 'c, 'q, 'r, 'k, 'o, 'f) portal_env \<Rightarrow> u32 \<Rightarrow> http_request \<Rightarrow> ('n, 'c, 'q, 'r, 'f) portal \<Rightarrow> esp_err_t \<times> ('n, 'c, 'q, 'r, 'f) portal \<times> http_trace" where
  "http_reset_handler env now request pt =
    (case require_session now request pt of (session_result, pt, tr) \<Rightarrow>
      if session_result \<noteq> ESP_OK then (session_result, pt, tr) else http_reset_body env request pt tr)"

subsection \<open>Messages and status\<close>

fun write_messages :: "http_request \<Rightarrow> emergency_message_t list \<Rightarrow> bool \<Rightarrow> http_trace \<Rightarrow> http_trace" where
  "write_messages request [] first tr = tr"
| "write_messages request (m # ms) first tr = write_messages request ms False (write_message_json_chunk request m first tr)"

definition http_messages_body ::
  "http_request \<Rightarrow> ('n, 'c, 'q, 'r, 'f) portal \<Rightarrow> http_trace \<Rightarrow> esp_err_t \<times> ('n, 'c, 'q, 'r, 'f) portal \<times> http_trace" where
  "http_messages_body request pt tr =
    (case httpd_resp_send_chunk request (lit ''['') (tr @ [Set_Type (lit ''application/json'')]) of (chunk_result, tr) \<Rightarrow>
      if chunk_result \<noteq> ESP_OK then (chunk_result, pt, tr)
      else
        (let tr = write_messages request (message_store_copy_all MAX_MESSAGES (tx_store (scheduler (pt_node pt)))) True tr in
         case httpd_resp_send_chunk request (lit '']'') tr of (chunk_result, tr) \<Rightarrow>
           if chunk_result \<noteq> ESP_OK then (chunk_result, pt, tr)
           else (case httpd_resp_send_chunk request [] (tr @ [Set_Type (lit ''application/json'')]) of (chunk_result, tr) \<Rightarrow>
             (chunk_result, pt, tr))))"

definition http_messages_handler ::
  "u32 \<Rightarrow> http_request \<Rightarrow> ('n, 'c, 'q, 'r, 'f) portal \<Rightarrow> esp_err_t \<times> ('n, 'c, 'q, 'r, 'f) portal \<times> http_trace" where
  "http_messages_handler now request pt =
    (case require_session now request pt of (session_result, pt, tr) \<Rightarrow>
      if session_result \<noteq> ESP_OK then (session_result, pt, tr) else http_messages_body request pt tr)"

definition json_bool :: "bool \<Rightarrow> bytes" where
  "json_bool b = (if b then lit ''true'' else lit ''false'')"

text \<open>The text of \<open>chunk\<close> as \<open>httpd_resp_send_chunk\<close> sees it.\<close>

definition roster_chunk :: "roster_entry_t \<Rightarrow> bool \<Rightarrow> bytes" where
  "roster_chunk entry first = cstr (snprintf (zeros 512)
    ((if first then [] else lit '','') @ lit ''{\"node_id\":\"'' @ escaped (FIELD_LEN * 2) (ro_node_id entry) @
     lit ''\",\"location\":{\"sitio\":\"'' @ escaped (SITIO_LEN * 2) (sitio (ro_location entry)) @
     lit ''\",\"barangay\":\"'' @ escaped (BARANGAY_LEN * 2) (barangay (ro_location entry)) @
     lit ''\",\"municipality\":\"'' @ escaped (MUNICIPALITY_LEN * 2) (municipality (ro_location entry)) @
     lit ''\"},\"last_seen_epoch\":'' @ print_dec (unat (ro_last_seen_epoch entry)) @
     lit '',\"last_seen_tick_ms\":'' @ print_dec (unat (ro_last_seen_tick_ms entry)) @
     lit '',\"last_rssi\":'' @ print_int (ro_last_rssi entry) @ lit '',\"last_snr\":'' @ print_int (ro_last_snr entry) @
     lit '',\"online\":'' @ json_bool (ro_online entry) @ lit '',\"learned_passively\":'' @ json_bool (ro_learned_passively entry) @ lit ''}''))"

definition route_chunk :: "route_entry_t \<Rightarrow> bool \<Rightarrow> bytes" where
  "route_chunk entry first = cstr (snprintf (zeros 256)
    ((if first then [] else lit '','') @ lit ''{\"destination\":\"'' @ escaped (FIELD_LEN * 2) (re_destination entry) @
     lit ''\",\"next_hop\":\"'' @ escaped (FIELD_LEN * 2) (re_next_hop entry) @ lit ''\",\"hop_count\":'' @ print_int (re_hop_count entry) @
     lit '',\"best_rssi\":'' @ print_int (re_best_rssi entry) @ lit '',\"cost\":'' @ print_dec (unat (re_cost entry)) @
     lit '',\"last_seen_tick_ms\":'' @ print_dec (unat (re_last_seen_tick_ms entry)) @ lit '',\"stale\":'' @ json_bool (re_stale entry) @ lit ''}''))"

text \<open>The list of chunks of a table, the first without a comma.\<close>

definition table_chunks :: "('e \<Rightarrow> bool \<Rightarrow> bytes) \<Rightarrow> 'e list \<Rightarrow> bytes list" where
  "table_chunks chunk es = (case es of [] \<Rightarrow> [] | e # es \<Rightarrow> chunk e True # map (\<lambda>e. chunk e False) es)"

text \<open>What the status context holds besides the state: the texts fixed when the server started, and the stations.\<close>

record status_context =
  sc_ssid :: bytes
  sc_storage_status :: bytes
  sc_radio_state :: bytes
  sc_clients :: nat

definition status_chunks ::
  "status_context \<Rightarrow> node_config_t \<Rightarrow> bytes \<Rightarrow> nat \<Rightarrow> bool \<Rightarrow> bool \<Rightarrow> u32 \<Rightarrow> roster_entry_t list \<Rightarrow> route_entry_t list \<Rightarrow> bytes list" where
  "status_chunks ctx c ident message_count duplicate synced epoch rs ts =
    [lit ''{'', lit ''\"node\":\"'', escaped (FIELD_LEN * 2) ident,
     lit ''\",\"name\":\"'', escaped (FIELD_LEN * 2) (nc_node_name c),
     lit ''\",\"node_role\":\"'', escaped (FIELD_LEN * 2) (nc_node_role c),
     lit ''\",\"location\":\"'', escaped (FIELD_LEN * 2) (barangay (nc_location c)),
     lit ''\",\"ssid\":\"'', escaped (FIELD_LEN * 2) (sc_ssid ctx),
     lit ''\",\"storage_status\":\"'', escaped (FIELD_LEN * 2) (sc_storage_status ctx),
     lit ''\",\"radio_state\":\"'', escaped (FIELD_LEN * 2) (sc_radio_state ctx),
     lit ''\",\"clients\":'', print_dec (sc_clients ctx),
     lit '',\"messages\":'', print_dec message_count,
     lit '',\"configured\":'', json_bool (nc_configured c),
     lit '',\"duplicate_warning\":'', json_bool duplicate,
     lit '',\"time_synced\":'', json_bool synced,
     lit '',\"epoch\":'', print_dec (unat epoch),
     lit '',\"roster\":[''] @ table_chunks roster_chunk rs @ [lit ''],\"routes\":[''] @ table_chunks route_chunk ts @ [lit '']}'']"

text \<open>\<open>t 0\<close> and \<open>t 1\<close> are the readings of the two snapshots in milliseconds, \<open>t 2\<close> the tick of the epoch.\<close>

definition http_status_body ::
  "status_context \<Rightarrow> (nat \<Rightarrow> u32) \<Rightarrow> http_request \<Rightarrow> ('n, 'c, 'q, 'r, 'f) portal \<Rightarrow> http_trace \<Rightarrow> esp_err_t \<times> ('n, 'c, 'q, 'r, 'f) portal \<times> http_trace" where
  "http_status_body ctx t request pt tr =
    (let nd = pt_node pt;
         (rs, known) = roster_get_snapshot MAX_ROSTER_ENTRIES (t 0) (known_nodes nd);
         (ts, table) = route_table_get_snapshot MAX_ROUTE_ENTRIES (t 1) (routes nd);
         chunks = status_chunks ctx (node_config (pt_config pt)) (my_node_id nd) (message_store_count (tx_store (scheduler nd)))
           (duplicate_node_id_warning nd) (time_synced (mesh_clock nd)) (mesh_control_current_epoch_seconds (t 2) (mesh_clock nd)) rs ts;
         tr = tr @ [Set_Type (lit ''application/json'')] @ map Send_Chunk chunks
     in case httpd_resp_send_chunk request [] tr of (result, tr) \<Rightarrow>
          (result, pt\<lparr>pt_node := nd\<lparr>known_nodes := known, routes := table\<rparr>\<rparr>, tr))"

definition http_status_handler ::
  "status_context \<Rightarrow> u32 \<Rightarrow> (nat \<Rightarrow> u32) \<Rightarrow> http_request \<Rightarrow> ('n, 'c, 'q, 'r, 'f) portal \<Rightarrow> esp_err_t \<times> ('n, 'c, 'q, 'r, 'f) portal \<times> http_trace" where
  "http_status_handler ctx now t request pt =
    (case require_session now request pt of (session_result, pt, tr) \<Rightarrow>
      if session_result \<noteq> ESP_OK then (session_result, pt, tr) else http_status_body ctx t request pt tr)"

subsection \<open>Handlers behind the session check\<close>

definition has_session :: "u32 \<Rightarrow> http_request \<Rightarrow> ('n, 'c, 'q, 'r, 'f) portal \<Rightarrow> bool" where
  "has_session now request pt = fst (http_auth_request_has_session (pt_configured pt) now request (pt_auth pt))"

text \<open>The session after the check; without a session it is as before.\<close>

definition touched :: "u32 \<Rightarrow> http_request \<Rightarrow> ('n, 'c, 'q, 'r, 'f) portal \<Rightarrow> ('n, 'c, 'q, 'r, 'f) portal" where
  "touched now request pt = pt\<lparr>pt_auth := snd (http_auth_request_has_session (pt_configured pt) now request (pt_auth pt))\<rparr>"

definition refusal :: "http_request \<Rightarrow> http_trace" where
  "refusal request =
    (if strneq (rq_uri request) (lit ''/api/'') 5 \<or> rq_method request = HTTP_POST then snd (send_session_expired request [])
     else snd (http_auth_send_redirect request (lit ''/'') []))"

lemma no_session_untouched: "\<not> has_session now request pt \<Longrightarrow> touched now request pt = pt"
  by (auto simp: has_session_def touched_def http_auth_request_has_session_def Let_def split: option.splits if_splits)

lemma touched_simps [simp]:
  "pt_config (touched now request pt) = pt_config pt" "pt_node (touched now request pt) = pt_node pt"
  "pt_last_send_tick (touched now request pt) = pt_last_send_tick pt" "pt_frames (touched now request pt) = pt_frames pt"
  by (simp_all add: touched_def)

lemma require_session_cases:
  "require_session now request pt =
    (if has_session now request pt then (ESP_OK, touched now request pt, [])
     else (if strneq (rq_uri request) (lit ''/api/'') 5 \<or> rq_method request = HTTP_POST then rq_result request (refusal request) else ESP_OK,
           pt, refusal request))"
proof (cases "has_session now request pt")
  case True
  then show ?thesis by (simp add: require_session_def http_auth_require_session_def has_session_def touched_def case_prod_unfold)
next
  case False
  have "pt\<lparr>pt_auth := snd (http_auth_request_has_session (pt_configured pt) now request (pt_auth pt))\<rparr> = pt"
    using no_session_untouched [OF False] by (simp add: touched_def)
  with False show ?thesis
    by (auto simp: require_session_def http_auth_require_session_def has_session_def refusal_def send_session_expired_def
        http_auth_send_redirect_def httpd_resp_send_def Let_def case_prod_unfold)
qed

text \<open>
  The contract the protected handlers share: the session check first, and the work only when
  its result is \<open>ESP_OK\<close>.
\<close>

locale guarded_handler =
  fixes handler :: "u32 \<Rightarrow> http_request \<Rightarrow> ('n, 'c, 'q, 'r, 'f) portal \<Rightarrow> esp_err_t \<times> ('n, 'c, 'q, 'r, 'f) portal \<times> http_trace"
    and work :: "http_request \<Rightarrow> ('n, 'c, 'q, 'r, 'f) portal \<Rightarrow> http_trace \<Rightarrow> esp_err_t \<times> ('n, 'c, 'q, 'r, 'f) portal \<times> http_trace"
  assumes guarded: "handler now request pt =
    (case require_session now request pt of (result, pt, tr) \<Rightarrow> if result \<noteq> ESP_OK then (result, pt, tr) else work request pt tr)"
begin

lemma works_with_session: "has_session now request pt \<Longrightarrow> handler now request pt = work request (touched now request pt) []"
  by (simp add: guarded require_session_cases)

lemma refuses_when_response_fails:
  assumes "\<not> has_session now request pt" "rq_method request = HTTP_POST" "rq_result request (refusal request) = e" "e \<noteq> ESP_OK"
  shows "handler now request pt = (e, pt, refusal request)"
  using assms by (simp add: guarded require_session_cases)

text \<open>A refusal that was delivered is taken for a session.\<close>

lemma works_without_session:
  assumes "\<not> has_session now request pt" "rq_result request (refusal request) = ESP_OK"
  shows "handler now request pt = work request pt (refusal request)"
  using assms by (simp add: guarded require_session_cases)

end

interpretation send: guarded_handler "\<lambda>now. http_send_handler env now t" "http_send_body env t" for env t
  by unfold_locales (simp add: http_send_handler_def)

interpretation time: guarded_handler "\<lambda>now. http_time_handler env now t" "http_time_body env t" for env t
  by unfold_locales (simp add: http_time_handler_def)

interpretation sync: guarded_handler "http_sync_handler env" "http_sync_body env" for env
  by unfold_locales (simp add: http_sync_handler_def)

interpretation reset: guarded_handler "http_reset_handler env" "http_reset_body env" for env
  by unfold_locales (simp add: http_reset_handler_def)

interpretation messages: guarded_handler http_messages_handler http_messages_body
  by unfold_locales (simp add: http_messages_handler_def)

interpretation status: guarded_handler "\<lambda>now. http_status_handler ctx now t" "http_status_body ctx t" for ctx t
  by unfold_locales (simp add: http_status_handler_def)

end
