(* ===== verification/Http_Auth_Props.thy ===== *)
theory Http_Auth_Props
  imports Http_Auth
begin

text \<open>
  What the session check recognises, what a login grants and when it refuses.
\<close>

subsection \<open>Tokens\<close>

lemma hex_upper_nonzero: "0 \<notin> set (hex_upper b)" and length_hex_upper [simp]: "length (hex_upper b) = 2"
proof -
  have "unat b < 256" using unsigned_less [where ?'a = nat and w = b] by simp
  then have "unat b div 16 < 16" by simp
  moreover have "\<forall>n < 16. (of_nat (if n < 10 then 48 + n else 55 + n) :: u8) \<noteq> 0" by code_simp
  ultimately show "0 \<notin> set (hex_upper b)" by (simp add: hex_upper_def Let_def)
qed (simp add: hex_upper_def Let_def)

definition has_token :: "auth_state \<Rightarrow> bool" where
  "has_token st \<longleftrightarrow> length (cstr (session_token st)) = 16"

lemma new_token: "length buf = SESSION_TOKEN_LEN \<Longrightarrow> cstr (snprintf buf (hex8 a @ hex8 b)) = hex8 a @ hex8 b"
proof -
  assume "length buf = SESSION_TOKEN_LEN"
  moreover have "0 \<notin> set (hex8 a @ hex8 b)" using hex_upper_nonzero by (simp add: hex8_def)
  ultimately show ?thesis using cstr_snprintf [of "hex8 a @ hex8 b" buf] by (simp add: hex8_def)
qed

lemma init_has_token: "length (session_token st) = SESSION_TOKEN_LEN \<Longrightarrow> has_token (http_auth_init a b tick st)"
  by (simp add: has_token_def http_auth_init_def new_token) (simp add: hex8_def)

lemma logout_has_token:
  "has_token st \<Longrightarrow> length (session_token st) = SESSION_TOKEN_LEN \<Longrightarrow> has_token (fst (snd (http_auth_logout_handler c a b req st)))"
  by (simp add: has_token_def http_auth_logout_handler_def http_auth_send_redirect_def httpd_resp_send_def Let_def new_token) (simp add: hex8_def)

subsection \<open>The session check\<close>

lemma has_session_iff:
  assumes "has_token st" "rq_cookie req = Some v" "0 \<notin> set v"
  shows "fst (http_auth_request_has_session True now req st) \<longleftrightarrow> length v < 127 \<and>
    carries_session (cstr (session_token st)) v \<and> now - session_last_activity_tick st \<le> SESSION_IDLE_TICKS"
proof -
  have v: "cstr v = v" "cstr (blit (zeros 128) 0 v) = v" using assms(3) by (simp_all add: cstr_blit0)
  have "cookie_has_session (session_token st) (blit (zeros 128) 0 v) \<longleftrightarrow> carries_session (cstr (session_token st)) v"
    using cookie_has_session_iff [OF assms(3)] assms(1) by (simp add: cookie_has_session_def v has_token_def)
  then show ?thesis using assms(2) by (auto simp: http_auth_request_has_session_def Let_def v strlen_def)
qed

text \<open>
  C22. When a request counts as authorised: on an unconfigured node always; on a configured one
  exactly when its Cookie header is shorter than 127 bytes, carries the pair
  \<open>BMESH_SESSION=token\<close> between separators (the scan misses no occurrence), and the session
  was used in the last fifteen minutes. Then the session's clock is renewed, otherwise nothing
  changes.
\<close>

theorem session_recognised:
  assumes "has_token st"
  shows "http_auth_request_has_session configured now req st =
    (if \<not> configured then (True, st)
     else if \<exists>v. rq_cookie req = Some v \<and> length (cstr v) < 127 \<and> carries_session (cstr (session_token st)) (cstr v) \<and>
            now - session_last_activity_tick st \<le> SESSION_IDLE_TICKS
     then (True, st\<lparr>session_last_activity_tick := now\<rparr>) else (False, st))"
proof (cases "rq_cookie req")
  case (Some v)
  let ?req = "req\<lparr>rq_cookie := Some (cstr v)\<rparr>"
  have "0 \<notin> set (cstr v)" by simp
  from has_session_iff [OF assms, of ?req "cstr v", OF _ this]
  have f: "fst (http_auth_request_has_session True now ?req st) \<longleftrightarrow> length (cstr v) < 127 \<and>
      carries_session (cstr (session_token st)) (cstr v) \<and> now - session_last_activity_tick st \<le> SESSION_IDLE_TICKS" by simp
  have e: "http_auth_request_has_session True now req st = http_auth_request_has_session True now ?req st"
    using Some by (simp add: http_auth_request_has_session_def)
  have "snd (http_auth_request_has_session True now ?req st) =
      (if fst (http_auth_request_has_session True now ?req st) then st\<lparr>session_last_activity_tick := now\<rparr> else st)"
    by (simp add: http_auth_request_has_session_def Let_def)
  then show ?thesis using f e Some by (simp add: prod_eq_iff) (simp add: http_auth_request_has_session_def)
qed (simp add: http_auth_request_has_session_def)

definition sample_auth :: auth_state where
  "sample_auth = http_auth_init 0x0BADF00D 0x12345678 0 \<lparr>session_token = zeros SESSION_TOKEN_LEN, session_last_activity_tick = 0,
     last_login_attempt_tick = 0, failed_login_count = 0\<rparr>"

definition sample_request :: "bytes option \<Rightarrow> bytes \<Rightarrow> http_request" where
  "sample_request cookie body = \<lparr>rq_uri = lit ''/login'', rq_method = HTTP_POST, rq_cookie = cookie, rq_content_len = length body,
     rq_chunks = [body], rq_result = (\<lambda>_. ESP_OK)\<rparr>"

lemma sample_has_token: "has_token sample_auth"
  by (simp add: sample_auth_def init_has_token)

theorem session_recognised_witness:
  "fst (http_auth_request_has_session True 90000 (sample_request (Some (lit ''a=1; BMESH_SESSION=0BADF00D12345678; b'')) []) sample_auth)"
proof -
  have "cstr (session_token sample_auth) = lit ''0BADF00D12345678''" by code_simp
  moreover have "lit ''a=1; BMESH_SESSION=0BADF00D12345678; b'' = lit ''a=1; '' @ SESSION_COOKIE_NAME @ [61] @ lit ''0BADF00D12345678'' @ lit ''; b''"
    "last (lit ''a=1; '') = 32" "hd (lit ''; b'') = 59" by code_simp+
  ultimately have "carries_session (cstr (session_token sample_auth)) (lit ''a=1; BMESH_SESSION=0BADF00D12345678; b'')"
    unfolding carries_session_def by metis
  moreover have "cstr (lit ''a=1; BMESH_SESSION=0BADF00D12345678; b'') = lit ''a=1; BMESH_SESSION=0BADF00D12345678; b''"
    "length (lit ''a=1; BMESH_SESSION=0BADF00D12345678; b'') < 127" by code_simp+
  moreover have "90000 - session_last_activity_tick sample_auth \<le> SESSION_IDLE_TICKS" by code_simp
  ultimately show ?thesis
    using session_recognised [OF sample_has_token, of True 90000 "sample_request (Some (lit ''a=1; BMESH_SESSION=0BADF00D12345678; b'')) []"]
    by (simp add: sample_request_def)
qed

subsection \<open>The login\<close>

lemma pin_key: "0 \<notin> set (lit ''pin'')" "38 \<notin> set (lit ''pin'')"
  by code_simp+

definition throttled :: "u32 \<Rightarrow> auth_state \<Rightarrow> bool" where
  "throttled now st \<longleftrightarrow> failed_login_count st > 0 \<and> now - last_login_attempt_tick st < 100 * ucast (backoff_seconds (failed_login_count st))"

text \<open>A login that reaches the comparison: the whole 32-byte buffers are compared.\<close>

lemma login_compares:
  assumes "has_token st" "\<not> throttled now st" "body_arrives 96 b req" "form_lookup b (lit ''pin'') = Some v" "length w = FIELD_LEN" "at w 0 \<noteq> 0"
  shows "http_auth_login_handler True (Some w) send_file now now2 req st =
    (if form_store (zeros FIELD_LEN) v = w
     then (ESP_OK, st\<lparr>last_login_attempt_tick := now, failed_login_count := 0, session_last_activity_tick := now2\<rparr>,
       snd (http_auth_send_redirect req (lit ''/'') [Set_Hdr (lit ''Set-Cookie'')
         (SESSION_COOKIE_NAME @ lit ''='' @ cstr (session_token st) @ lit ''; Path=/; HttpOnly; SameSite=Lax'')]))
     else (case send_file req (lit ''login.html'') [Set_Status (lit ''403 Forbidden'')] of (result, tr) \<Rightarrow>
       (result, st\<lparr>last_login_attempt_tick := now, failed_login_count := failed_login_count st + 1\<rparr>, tr)))"
proof -
  let ?c = "SESSION_COOKIE_NAME @ lit ''='' @ cstr (session_token st) @ lit ''; Path=/; HttpOnly; SameSite=Lax''"
  have "0 \<notin> set SESSION_COOKIE_NAME" "0 \<notin> set (lit ''='')" "0 \<notin> set (lit ''; Path=/; HttpOnly; SameSite=Lax'')" by code_simp+
  then have "0 \<notin> set ?c" by simp
  moreover have "length ?c \<le> 79" using assms(1) by (simp add: has_token_def)
  ultimately have c: "cstr (snprintf (zeros 80) ?c) = ?c" using cstr_snprintf [of ?c "zeros 80"] by simp
  have f: "form_value (pad 96 b) (lit ''pin'') (zeros FIELD_LEN) = (True, form_store (zeros FIELD_LEN) v)"
    using form_value_body [OF assms(3) pin_key, of "zeros FIELD_LEN"] assms(4) by simp
  have e: "constant_time_equal (form_store (zeros FIELD_LEN) v) w FIELD_LEN \<longleftrightarrow> form_store (zeros FIELD_LEN) v = w"
    using constant_time_equal_iff [of FIELD_LEN "form_store (zeros FIELD_LEN) v" w] assms(5) by (simp add: length_form_store)
  have h: "http_auth_login_handler True (Some w) send_file now now2 req st =
    (let st = st\<lparr>last_login_attempt_tick := now\<rparr>; respond = (\<lambda>st (result, tr). (result, st, tr)) in
     if constant_time_equal (form_store (zeros FIELD_LEN) v) w FIELD_LEN
     then respond (st\<lparr>failed_login_count := 0, session_last_activity_tick := now2\<rparr>)
       (http_auth_send_redirect req (lit ''/'') [Set_Hdr (lit ''Set-Cookie'') (cstr (snprintf (zeros 80) ?c))])
     else respond (st\<lparr>failed_login_count := failed_login_count st + 1\<rparr>) (send_file req (lit ''login.html'') [Set_Status (lit ''403 Forbidden'')]))"
    using assms(6) assms(2) [unfolded throttled_def]
    by (simp only: http_auth_login_handler_def body_arrives_read [OF assms(3)] f Let_def not_True_eq_False if_False if_True) (simp add: f)
  show ?thesis unfolding h e c Let_def by (simp add: http_auth_send_redirect_def)
qed

text \<open>
  A login with the stored PIN grants the session: the answer sets the cookie
  \<open>BMESH_SESSION\<close> to the token, and a request that sends it back within fifteen minutes
  of the login has a session.
\<close>

theorem login_grants_session:
  assumes "has_token st" "\<not> throttled now st" "body_arrives 96 b req" "form_lookup b (lit ''pin'') = Some v"
    and "form_store (zeros FIELD_LEN) v = web_pin" "length web_pin = FIELD_LEN" "at web_pin 0 \<noteq> 0"
    and "http_auth_login_handler True (Some web_pin) send_file now now2 req st = (r, st', tr)"
    and "rq_cookie req' = Some (SESSION_COOKIE_NAME @ lit ''='' @ cstr (session_token st))" "now3 - now2 \<le> SESSION_IDLE_TICKS"
  shows "r = ESP_OK \<and> failed_login_count st' = 0 \<and>
    (\<exists>attrs. Set_Hdr (lit ''Set-Cookie'') (SESSION_COOKIE_NAME @ lit ''='' @ cstr (session_token st) @ attrs) \<in> set tr) \<and>
    fst (http_auth_request_has_session True now3 req' st')"
proof -
  have h: "r = ESP_OK" "st' = st\<lparr>last_login_attempt_tick := now, failed_login_count := 0, session_last_activity_tick := now2\<rparr>"
    "Set_Hdr (lit ''Set-Cookie'') (SESSION_COOKIE_NAME @ lit ''='' @ cstr (session_token st) @ lit ''; Path=/; HttpOnly; SameSite=Lax'') \<in> set tr"
    using assms(8) login_compares [OF assms(1-4,6,7), of send_file now2] assms(5)
    by (auto simp: http_auth_send_redirect_def httpd_resp_send_def Let_def)
  let ?v = "SESSION_COOKIE_NAME @ lit ''='' @ cstr (session_token st)"
  have eq: "lit ''='' = [61]" "0 \<notin> set SESSION_COOKIE_NAME" by code_simp+
  have "carries_session (cstr (session_token st')) ?v"
    unfolding carries_session_def by (intro exI [of _ "[]"]) (simp add: h(2) eq)
  moreover have "has_token st'" using assms(1) by (simp add: h(2) has_token_def)
  moreover have "0 \<notin> set ?v" using eq by simp
  moreover have "length ?v < 127" using assms(1) by (simp add: has_token_def)
  ultimately have "fst (http_auth_request_has_session True now3 req' st')"
    using has_session_iff [OF _ assms(9), of st' now3] assms(10) by (simp add: h(2))
  with h show ?thesis by auto
qed

lemma nth_residue: "Suc (length a) \<le> i \<Longrightarrow> i < length u \<Longrightarrow> (a @ x # drop (Suc (length a)) u) ! i = u ! i"
  by (simp add: nth_append nth_Cons')

text \<open>
  The PIN typed into the form is compared as a 32-byte buffer. When the browser encoded
  a character of the right PIN as \<open>%XX\<close>, decoding in place leaves bytes of the longer
  encoded text behind the terminator, so the buffers differ: the login is refused and counted
  as a failed attempt although the decoded string equals the stored PIN.
\<close>

theorem encoded_pin_refused:
  assumes "has_token st" "\<not> throttled now st" "body_arrives 96 b req" "form_lookup b (lit ''pin'') = Some v"
    and "length v < FIELD_LEN" "0 \<notin> set v" "url_decoded v = pin" "pin \<noteq> []" "0 \<notin> set pin" "length pin + 2 \<le> length v"
    and "http_auth_login_handler True (Some (pad FIELD_LEN pin)) send_file now now2 req st = (r, st', tr)"
  shows "cstr (snd (form_value (pad 96 b) (lit ''pin'') (zeros FIELD_LEN))) = pin \<and>
    failed_login_count st' = failed_login_count st + 1 \<and>
    (r, tr) = send_file req (lit ''login.html'') [Set_Status (lit ''403 Forbidden'')]"
proof -
  let ?w = "pad FIELD_LEN pin" and ?s = "form_store (zeros FIELD_LEN) v"
  have s: "?s = pin @ 0 # drop (Suc (length pin)) (v @ zeros (FIELD_LEN - length v))"
    using assms(5,7) by (simp add: form_store_def Let_def zeros_def flip: replicate_Suc)
  have "?s ! (length v - 1) = (v @ zeros (FIELD_LEN - length v)) ! (length v - 1)"
    unfolding s using assms(10) by (intro nth_residue) simp_all
  then have "?s ! (length v - 1) = v ! (length v - 1)" using assms(10) by (simp only: nth_append) (auto split: if_splits)
  moreover have "v ! (length v - 1) \<noteq> 0" using assms(6,10) by (metis diff_less length_greater_0_conv list.size(3) nth_mem not_less_zero add_is_0 le_zero_eq zero_less_one numeral_2_eq_2 nat.distinct(1))
  moreover have "?w ! (length v - 1) = 0" using assms(5,10) by (simp add: pad_def nth_append zeros_def)
  ultimately have ne: "?s \<noteq> ?w" by metis
  have w: "length ?w = FIELD_LEN" "at ?w 0 \<noteq> 0"
    using assms(5,8-10) by (simp, cases pin) (auto simp: at_def pad_def)
  have f: "form_value (pad 96 b) (lit ''pin'') (zeros FIELD_LEN) = (True, ?s)"
    using form_value_body [OF assms(3) pin_key, of "zeros FIELD_LEN"] assms(4) by simp
  have "cstr ?s = pin" using assms(9) by (simp add: s)
  then show ?thesis
    using assms(11) login_compares [OF assms(1-4) w, of send_file now2] ne f by (auto split: prod.splits)
qed

lemma sample_body: "0 \<notin> set b \<Longrightarrow> length b < n \<Longrightarrow> b \<noteq> [] \<Longrightarrow> body_arrives n b (sample_request c b)"
  by (simp add: body_arrives_def sample_request_def)

lemma sample_not_throttled: "\<not> throttled now sample_auth"
  by (simp add: throttled_def sample_auth_def http_auth_init_def)

theorem login_grants_session_witness:
  "fst (http_auth_request_has_session True 600 (sample_request (Some (SESSION_COOKIE_NAME @ lit ''='' @ cstr (session_token sample_auth))) [])
    (fst (snd (http_auth_login_handler True (Some (pad FIELD_LEN (lit ''87654321''))) (\<lambda>req file tr. (ESP_OK, tr)) 500 500
      (sample_request None (lit ''pin=87654321'')) sample_auth))))"
proof -
  have b: "0 \<notin> set (lit ''pin=87654321'')" "length (lit ''pin=87654321'') < 96" "lit ''pin=87654321'' \<noteq> []"
    and l: "form_lookup (lit ''pin=87654321'') (lit ''pin'') = Some (lit ''87654321'')"
    and f: "form_store (zeros FIELD_LEN) (lit ''87654321'') = pad FIELD_LEN (lit ''87654321'')"
    and w: "length (pad FIELD_LEN (lit ''87654321'')) = FIELD_LEN" "at (pad FIELD_LEN (lit ''87654321'')) 0 \<noteq> 0"
    by code_simp+
  have t: "(600 :: u32) - 500 \<le> SESSION_IDLE_TICKS" by code_simp
  obtain r st tr where h: "http_auth_login_handler True (Some (pad FIELD_LEN (lit ''87654321''))) (\<lambda>req file tr. (ESP_OK, tr)) 500 500
      (sample_request None (lit ''pin=87654321'')) sample_auth = (r, st, tr)" by (metis prod_cases3)
  show ?thesis
    using login_grants_session [OF sample_has_token sample_not_throttled sample_body [OF b] l f w h _ t,
        of "sample_request (Some (SESSION_COOKIE_NAME @ lit ''='' @ cstr (session_token sample_auth))) []"] h
    by (simp add: sample_request_def)
qed

theorem encoded_pin_refused_witness:
  "failed_login_count (fst (snd (http_auth_login_handler True (Some (pad FIELD_LEN (lit ''pass@word''))) (\<lambda>req file tr. (ESP_OK, tr)) 500 500
      (sample_request None (lit ''pin=pass%40word'')) sample_auth))) = 1"
proof -
  have b: "0 \<notin> set (lit ''pin=pass%40word'')" "length (lit ''pin=pass%40word'') < 96" "lit ''pin=pass%40word'' \<noteq> []"
    and l: "form_lookup (lit ''pin=pass%40word'') (lit ''pin'') = Some (lit ''pass%40word'')"
    and v: "length (lit ''pass%40word'') < FIELD_LEN" "0 \<notin> set (lit ''pass%40word'')" "url_decoded (lit ''pass%40word'') = lit ''pass@word''"
      "lit ''pass@word'' \<noteq> []" "0 \<notin> set (lit ''pass@word'')" "length (lit ''pass@word'') + 2 \<le> length (lit ''pass%40word'')"
    and z: "failed_login_count sample_auth = 0"
    by code_simp+
  obtain r st tr where h: "http_auth_login_handler True (Some (pad FIELD_LEN (lit ''pass@word''))) (\<lambda>req file tr. (ESP_OK, tr)) 500 500
      (sample_request None (lit ''pin=pass%40word'')) sample_auth = (r, st, tr)" by (metis prod_cases3)
  show ?thesis
    using encoded_pin_refused [OF sample_has_token sample_not_throttled sample_body [OF b] l v h] z h by simp
qed

end
