(* ===== verification/App_Runtime_Props.thy ===== *)
theory App_Runtime_Props
  imports App_Runtime
begin

text \<open>
  What a node does with the frames it receives, whatever they are: its memory stays well
  formed, a frame repeated on the air changes nothing, and the acknowledgements other nodes
  send are never taken.
\<close>

subsection \<open>A second copy of a packet\<close>

lemma replay_update_again:
  assumes "window_ok e" "replay_update e s now = (acc, e')"
  shows "replay_update e' s now' = (False, e')"
proof -
  obtain acc' e'' where u: "replay_update e' s now' = (acc', e'')" by fastforce
  have w: "(acc, abs_window e') = window_accept (abs_window e) s" by (rule replay_update_window(1) [OF assms])
  have w': "(acc', abs_window e'') = window_accept (abs_window e') s"
    by (rule replay_update_window(1) [OF replay_update_window(2) [OF assms] u])
  have "\<not> acc'"
  proof (cases acc)
    case True
    then have "\<not> sequence_is_newer s (fst (abs_window e')) \<and> s \<in> snd (abs_window e')"
      using w by (auto simp: window_accept_def sequence_is_newer_def REPLAY_WINDOW_SIZE_def split: prod.splits if_splits)
    then show ?thesis using w' by (auto simp: window_accept_def split: prod.splits if_splits)
  next
    case False
    then have "e' = e" by (rule replay_update_window(6) [OF assms])
    then show ?thesis using w w' False by (metis Pair_inject)
  qed
  then show ?thesis using u replay_update_window(6) [OF replay_update_window(2) [OF assms] u] by simp
qed

lemma replay_accept_again:
  assumes "replay_inv tbl" "copied 32 source = cstr source" "replay_protection_accept source s now tbl = (acc, tbl')"
  shows "replay_protection_accept source s now' tbl' = (False, tbl')"
proof (cases "str_empty source")
  case False
  let ?P = "\<lambda>e. rs_active e \<and> streq (rs_source e) source"
  show ?thesis
  proof (cases "find_source_index tbl source")
    case None
    have "tbl \<noteq> []" using assms(1) by (auto simp: replay_inv_def)
    then obtain j where j: "allocate_source_index now tbl = Some j" "j < length tbl" by (rule allocate_source_index_spec)
    define e where "e = replay_fresh source s now"
    have t: "tbl' = tbl[j := e]" using assms(3) False None j by (simp add: replay_protection_accept_def e_def replay_fresh_def reset_entry_def)
    have "find_source_index tbl' source = Some j"
      unfolding find_source_index_def t
    proof (rule find_index_unique)
      show "?P (tbl[j := e] ! j)" using j(2) assms(2) by (simp add: e_def replay_fresh_def streq_def)
      have no: "\<not> ?P e" if "e \<in> set tbl" for e using None that unfolding find_source_index_def find_index_None by blast
      show "i = j" if "i < length (tbl[j := e])" "?P (tbl[j := e] ! i)" for i
        using that no [of "tbl ! i"] by (cases "i = j") auto
    qed (use j in simp)
    moreover have "replay_update e s now' = (False, e)"
      by (simp add: replay_update_def e_def replay_fresh_def sequence_is_newer_def sequence_is_older_def)
    ultimately show ?thesis using False j(2) by (simp add: replay_protection_accept_def t list_update_same_conv)
  next
    case (Some i)
    obtain e' where u: "replay_update (tbl ! i) s now = (acc, e')" "tbl' = tbl[i := e']"
      using assms(3) False Some by (auto simp: replay_protection_accept_def split: prod.splits)
    have i: "i < length tbl" "rs_active (tbl ! i)" "streq (rs_source (tbl ! i)) source"
      using find_index_SomeD [OF Some [unfolded find_source_index_def]] by auto
    have w: "window_ok (tbl ! i)" using assms(1) i nth_mem by (fastforce simp: replay_inv_def)
    note k = replay_update_window [OF w u(1)]
    have "find_source_index tbl' source = Some i"
      unfolding find_source_index_def u(2) find_index_Some_iff
      using find_index_SomeD [OF Some [unfolded find_source_index_def]] k(3,4) by auto
    then show ?thesis using False i(1) replay_update_again [OF w u(1)] by (simp add: replay_protection_accept_def u(2))
  qed
qed (use assms in \<open>simp add: replay_protection_accept_def\<close>)

subsection \<open>What the steps of the handler leave alone\<close>

lemma keep_message_entries [simp]: "tx_entries (keep_message api m st) = tx_entries st"
  by (simp add: keep_message_def split: prod.split option.split)

lemma store_received_packet_same [simp]:
  "replay_sources (store_received_packet sv r d p rssi snr nd) = replay_sources nd"
  "my_node_id (store_received_packet sv r d p rssi snr nd) = my_node_id nd"
  "tx_entries (scheduler (store_received_packet sv r d p rssi snr nd)) = tx_entries (scheduler nd)"
  by (simp_all add: store_received_packet_def Let_def split: prod.split)

lemma rx_send_ack_same [simp]:
  "replay_sources (rx_send_ack sv rd p nd) = replay_sources nd" "my_node_id (rx_send_ack sv rd p nd) = my_node_id nd"
  "scheduler (rx_send_ack sv rd p nd) = scheduler nd"
  by (simp_all add: rx_send_ack_def split: prod.split)

lemma rx_ack_same [simp]: "replay_sources (rx_ack sv p nd) = replay_sources nd" "my_node_id (rx_ack sv p nd) = my_node_id nd"
  by (simp_all add: rx_ack_def Let_def split: option.split)

lemma rx_forward_same [simp]:
  "replay_sources (rx_forward sv rd p rssi snr nd) = replay_sources nd" "my_node_id (rx_forward sv rd p rssi snr nd) = my_node_id nd"
  "scheduler (rx_forward sv rd p rssi snr nd) = scheduler nd"
  by (simp_all add: rx_forward_def Let_def)

lemma rx_message_same [simp]:
  "replay_sources (rx_message sv rd d p rssi snr nd) = replay_sources nd" "my_node_id (rx_message sv rd d p rssi snr nd) = my_node_id nd"
  by (simp_all add: rx_message_def Let_def)

lemma rx_accepted_same:
  assumes "rx_accepted sv rd d p rssi snr nd = Some nd'" "\<not> streq (mp_type p) (lit ''SYNC_RESP'')"
  shows "replay_sources nd' = replay_sources nd" "my_node_id nd' = my_node_id nd"
  using assms by (auto simp: rx_accepted_def Let_def split: option.splits if_splits)

text \<open>The packet of a frame does not depend on what the buffer held before.\<close>

definition rx_decode :: "('n, 'c, 'q, 'r, 'k, 'o) services \<Rightarrow> bytes \<Rightarrow> bytes \<Rightarrow> (bytes \<times> mesh_packet_t) option" where
  "rx_decode sv stack payload =
    (case bems_decrypt_frame_bytes (sv_psa sv) (sv_config sv) payload stack of
       None \<Rightarrow> None
     | Some (plain, len) \<Rightarrow> (case rx_parse plain len of (d, None) \<Rightarrow> None | (d, Some p) \<Rightarrow> Some (d, p)))"

lemma handle_decode:
  "lora_handle_rx_packet sv rd stack payload rssi snr nd =
    (case rx_decode sv stack payload of None \<Rightarrow> Some nd | Some (d, p) \<Rightarrow> rx_packet sv rd d p rssi snr nd)"
  by (simp add: lora_handle_rx_packet_def rx_decode_def split: option.split prod.split)

lemma decrypt_stack:
  assumes "length s = length s'" "bems_decrypt_frame_bytes psa config frame s = Some (d, n)"
  obtains plain where "d = blit s 0 plain" "length plain = n" "n < length s"
    "bems_decrypt_frame_bytes psa config frame s' = Some (blit s' 0 plain, n)"
proof -
  let ?n = "length frame - BEMS_FRAME_HEADER_LEN - BEMS_HMAC_TAG_LEN"
  obtain plain where p: "aes_ctr_crypt psa config (take ?n (drop BEMS_FRAME_HEADER_LEN frame)) (drop 4 frame) = Some plain"
    "d = blit s 0 plain" "n = ?n" "n < length s" "28 \<le> length frame"
    using assms(2) by (auto simp: bems_decrypt_frame_bytes_def Let_def split: if_splits option.splits)
  have "length plain = n" using aes_ctr_crypt_length [OF p(1)] p(3,5) by simp
  moreover have "bems_decrypt_frame_bytes psa config frame s' = Some (blit s' 0 plain, n)"
    using assms p(1) by (auto simp: bems_decrypt_frame_bytes_def Let_def p(3) split: if_splits option.splits)
  ultimately show thesis using that p by blast
qed

lemma parse_mesh_packet_cstr: "cstr x = cstr y \<Longrightarrow> parse_mesh_packet x = parse_mesh_packet y"
  using copy_field_cstr [of "zeros PACKET_LEN" x] copy_field_cstr [of "zeros PACKET_LEN" y] by (simp add: parse_mesh_packet_def)

lemma cstr_cut: "n < length b \<Longrightarrow> cstr (b[n := 0]) = cstr (take n b)"
  by (simp add: upd_conv_take_nth_drop cstr_append)

lemma rx_parse_prefix:
  assumes "take n b = take n b'" "n < length b" "n < length b'"
  shows "snd (rx_parse b n) = snd (rx_parse b' n)"
proof -
  have "parse_mesh_packet (b[n := 0]) = parse_mesh_packet (b'[n := 0])"
    using assms by (intro parse_mesh_packet_cstr) (simp add: cstr_cut)
  then show ?thesis using assms(1) by (simp add: rx_parse_def)
qed

lemma rx_decode_stack:
  assumes "length s = length s'" "rx_decode sv s frame = Some (d, p)"
  obtains d' where "rx_decode sv s' frame = Some (d', p)"
proof -
  obtain out n where out: "bems_decrypt_frame_bytes (sv_psa sv) (sv_config sv) frame s = Some (out, n)" "snd (rx_parse out n) = Some p"
    using assms(2) by (auto simp: rx_decode_def split: option.splits prod.splits)
  obtain plain where p: "out = blit s 0 plain" "length plain = n" "n < length s"
    "bems_decrypt_frame_bytes (sv_psa sv) (sv_config sv) frame s' = Some (blit s' 0 plain, n)"
    by (rule decrypt_stack [OF assms(1) out(1)])
  have "snd (rx_parse (blit s' 0 plain) n) = Some p"
    using rx_parse_prefix [of n "blit s 0 plain" "blit s' 0 plain"] p(2,3) out(2) assms(1) by (simp add: p(1) take_blit0)
  then have "rx_decode sv s' frame = Some (fst (rx_parse (blit s' 0 plain) n), p)"
    using p(4) by (cases "rx_parse (blit s' 0 plain) n") (simp add: rx_decode_def)
  then show thesis by (rule that)
qed

text \<open>
  C1. A frame heard again changes nothing, for packets whose source is printable and another
  node and which are no SYNC_RESP: once a node whose replay table is consistent
  (\<open>replay_inv\<close>, which every call keeps) has handled such a frame, handling the same bytes
  again, at any time and signal strength, leaves the node exactly as it was. The excluded cases
  do differ: a node's own packet draws and saves a sequence number each time it is heard, an
  unprintable source is accepted again, and the records of a SYNC_RESP are counted in the
  replay table as well, where they can push out the entry of its sender.
\<close>

theorem repeated_frame_ignored:
  assumes "replay_inv (replay_sources nd)" "lora_handle_rx_packet sv rd stack frame rssi snr nd = Some nd'"
    "rx_decode sv stack frame = Some (d, p)" "copied 32 (mp_source p) = cstr (mp_source p)"
    "\<not> streq (mp_source p) (my_node_id nd)" "\<not> streq (mp_type p) (lit ''SYNC_RESP'')" "length stack' = length stack"
  shows "lora_handle_rx_packet sv rd' stack' frame rssi' snr' nd' = Some nd'"
proof -
  obtain acc tbl where t: "replay_protection_accept (mp_source p) (mp_id p) (rd_ticks rd) (replay_sources nd) = (acc, tbl)" by fastforce
  have "replay_sources nd' = tbl \<and> my_node_id nd' = my_node_id nd"
  proof (cases acc)
    case True
    then have "rx_accepted sv rd d p rssi snr (nd\<lparr>replay_sources := tbl\<rparr>) = Some nd'"
      using assms(2,3,5) t by (simp add: handle_decode rx_packet_def)
    from rx_accepted_same [OF this assms(6)] show ?thesis by simp
  next
    case False
    then show ?thesis using assms(2,3,5) t by (auto simp: handle_decode rx_packet_def)
  qed
  moreover have "replay_protection_accept (mp_source p) (mp_id p) (rd_ticks rd') tbl = (False, tbl)"
    by (rule replay_accept_again [OF assms(1,4) t])
  moreover obtain d' where "rx_decode sv stack' frame = Some (d', p)" by (rule rx_decode_stack [OF assms(7) [symmetric] assms(3)])
  ultimately show ?thesis using assms(5) by (auto simp: handle_decode rx_packet_def)
qed


subsection \<open>Acknowledgements\<close>

lemma ack_payload_pad: "length (acknowledged_source info) = FIELD_LEN \<Longrightarrow>
  fst (ack_payload info) = pad 140 (le32 (acknowledged_id info) @ acknowledged_source info)"
  by (simp add: ack_payload_def pad_def blit_def zeros_def)

text \<open>What the sender of a message parses from the frame of its acknowledgement.\<close>

lemma ack_frame_parsed:
  assumes "forward_worker_step stk (ack_job b ack_id m best) = Some (wire, n, pr)" "node_id (cstr (mp_source m))"
    "\<not> streq (mp_source m) (lit ''ALL'')"
  obtains q where "parse_mesh_packet_v2 (take n wire) = Some q" "cstr (mp_source q) = copied 32 b" "cstr (mp_destination q) = cstr (mp_source m)"
    "streq (mp_type q) (lit ''ACK'')"
    "mesh_control_parse_ack (mp_payload q) (mp_payload_len q) =
      Some \<lparr>acknowledged_id = mp_id m, acknowledged_source = pad 32 (cstr (mp_source m))\<rparr>"
proof -
  let ?k = "cstr (mp_source m)" and ?job = "ack_job b ack_id m best"
  let ?x = "le32 (mp_id m) @ pad 32 ?k" and ?h = "if mp_hops m > 0 then mp_hops m else 3"
  define info where "info = \<lparr>acknowledged_id = mp_id m, acknowledged_source = pad 32 ?k\<rparr>"
  have k: "length ?k < 32" "0 \<notin> set ?k" "?k \<noteq> []" using assms(2) by (auto simp: node_id_def clean_str_def)
  have c: "copied 32 (mp_source m) = ?k" using node_id_copied [OF assms(2)] by simp
  then have f: "copy_field (zeros 32) (mp_source m) = pad 32 ?k" by (simp add: copy_field_zeros pad_def)
  have i: "mesh_control_build_ack m \<lparr>acknowledged_id = 0, acknowledged_source = zeros FIELD_LEN\<rparr> = info"
    by (simp add: mesh_control_build_ack_def f info_def)
  have x: "fst (ack_payload info) = pad 140 ?x" "snd (ack_payload info) = length ?x" "0 < length ?x" "length ?x < 140"
    using k(1) by (simp_all add: ack_payload_pad info_def) (simp add: ack_payload_def)
  let ?p = "(control_packet ack_id ?h b (mp_source m) (lit ''ACK''))\<lparr>mp_payload := pad 140 ?x, mp_payload_len := length ?x\<rparr>"
  let ?q = "relayed_packet ?job (?p\<lparr>mp_hops := mp_hops ?p - 1\<rparr>)"
  note w = control_payload_bytes [OF x(3,4), of ack_id ?h b "mp_source m" "lit ''ACK''"]
  have p: "fj_packet ?job = ?p" by (simp only: ack_job_def Let_def i x(1,2)) simp
  have bld: "build_forward_packet_v2 ?q stk = Some (wire, n)"
    using assms(1) by (auto simp: forward_worker_step_def mesh_packet_consume_hop_def p Let_def split: if_splits option.splits)
  have wq: "wf_packet ?q" using w(1) by (intro wf_relayed_packet) (simp add: wf_packet_def)
  have br: "\<not> broadcast ?q" using assms(3) c by (simp add: broadcast_def streq_def)
  have pay: "payload_bytes ?q = ?x" using w(2) by (simp add: payload_bytes_def)
  have "parse_mesh_packet_v2 (take n wire) = Some (v2_normal ?q)"
    by (rule parse_built_v2 [OF wq _ bld]) (use c k(3) in \<open>simp add: str_empty_def\<close>)
  moreover have "cstr (mp_source (v2_normal ?q)) = copied 32 b" by (simp add: cstr_pad)
  moreover have "cstr (mp_destination (v2_normal ?q)) = ?k" using br c by (simp add: cstr_pad)
  moreover have "streq (copy_field (zeros 32) (type_from_u8 (type_to_u8 (copy_field (zeros 32) (lit ''ACK''))))) (lit ''ACK'')" by code_simp
  moreover have "(pad 32 ?k)[31 := 0] = pad 32 ?k"
    using k(1) by (simp add: list_update_same_conv pad_def nth_append zeros_def)
  then have "mesh_control_parse_ack (pad 140 ?x) (length ?x) = Some info"
    using parse_ack_payload [of info "[]"] x k(1) by (simp add: info_def)
  ultimately show thesis using that [of "v2_normal ?q"] pay by (simp add: info_def)
qed

lemma rx_ack_foreign:
  assumes "mesh_control_parse_ack (mp_payload p) (mp_payload_len p) = Some info" "\<not> streq (acknowledged_source info) (mp_source p)"
  shows "scheduler (rx_ack sv p nd) = scheduler nd"
  using assms by (simp add: rx_ack_def Let_def)

lemma rx_decode_encrypted:
  assumes "psa_ctr_inverse (sv_psa sv)" "bems_encrypt_frame (sv_psa sv) (sv_config sv) r0 r1 plain buf = Some (frame, len)"
    "parse_mesh_packet_v2 plain = Some q" "length plain < length stack"
  shows "\<exists>d. rx_decode sv stack (take len frame) = Some (d, q)"
proof -
  have "mesh_packet_is_v2 plain" using assms(3) by (auto simp: parse_mesh_packet_v2_def split: if_splits)
  then show ?thesis
    using encrypted_frame_decrypts(1) [OF assms(1,2,4)] assms(3,4) by (simp add: rx_decode_def rx_parse_def take_blit0)
qed

lemma other_types:
  assumes "streq t (lit ''ACK'')"
  shows "\<not> streq t (lit ''SYNC_REQ'')" "\<not> streq t (lit ''SYNC_RESP'')" "\<not> streq t (lit ''TIME_SYNC'')"
proof -
  have "\<not> streq (lit ''ACK'') (lit ''SYNC_REQ'')" "\<not> streq (lit ''ACK'') (lit ''SYNC_RESP'')" "\<not> streq (lit ''ACK'') (lit ''TIME_SYNC'')"
    by code_simp+
  then show "\<not> streq t (lit ''SYNC_REQ'')" "\<not> streq t (lit ''SYNC_RESP'')" "\<not> streq t (lit ''TIME_SYNC'')"
    using assms by (simp_all add: streq_def)
qed

text \<open>
  C6. No node accepts the acknowledgements of its own messages. Node \<open>b\<close> receives a message
  of node \<open>a\<close> and sends its ACK: the job of \<open>mesh_control_send_ack_packet\<close>, built into a frame
  by the forward worker and encrypted. When \<open>a\<close> receives this frame, whatever
  it waits for, none of its transmission entries changes: the ACK carries \<open>a\<close> as the
  acknowledged source, and the handler requires it to be the sender of the ACK.
\<close>

theorem own_ack_never_accepted:
  assumes "psa_ctr_inverse (sv_psa sv)" "forward_worker_step stk (ack_job b ack_id m best) = Some (wire, n, pr)"
    "bems_encrypt_frame (sv_psa sv) (sv_config sv) r0 r1 (take n wire) buf = Some (frame, len)"
    "node_id (cstr (mp_source m))" "\<not> streq (mp_source m) (lit ''ALL'')" "streq (my_node_id nd) (mp_source m)"
    "copied 32 b \<noteq> cstr (mp_source m)" "length stack = PACKET_LEN"
    "lora_handle_rx_packet sv rd stack (take len frame) rssi snr nd = Some nd'"
  shows "tx_entries (scheduler nd') = tx_entries (scheduler nd)"
proof -
  obtain q where q: "parse_mesh_packet_v2 (take n wire) = Some q" "cstr (mp_source q) = copied 32 b" "cstr (mp_destination q) = cstr (mp_source m)"
    "streq (mp_type q) (lit ''ACK'')"
    "mesh_control_parse_ack (mp_payload q) (mp_payload_len q) =
      Some \<lparr>acknowledged_id = mp_id m, acknowledged_source = pad 32 (cstr (mp_source m))\<rparr>"
    by (rule ack_frame_parsed [OF assms(2,4,5)])
  have "length (take n wire) \<le> 227"
    using assms(3) by (auto simp: bems_encrypt_frame_def Let_def BEMS_MAX_PLAINTEXT_def split: if_splits)
  then have "length (take n wire) < length stack" using assms(8) by simp
  from rx_decode_encrypted [OF assms(1,3) q(1) this] obtain d where d: "rx_decode sv stack (take len frame) = Some (d, q)" by blast
  have self: "\<not> streq (mp_source q) (my_node_id nd)" using assms(6,7) q(2) by (simp add: streq_def)
  have kind: "\<not> streq (mp_type q) (lit ''SYNC_REQ'')" "\<not> streq (mp_type q) (lit ''SYNC_RESP'')" "\<not> streq (mp_type q) (lit ''TIME_SYNC'')"
    by (rule other_types [OF q(4)])+
  have src: "\<not> streq (pad 32 (cstr (mp_source m))) (mp_source q)" using assms(7) q(2) by (simp add: streq_def cstr_pad)
  have "tx_entries (scheduler (rx_message sv rd d q rssi snr x)) = tx_entries (scheduler x)" for x
    using q(4) rx_ack_foreign [OF q(5), of sv] src by (simp add: rx_message_def Let_def)
  then show ?thesis
    using assms(9) d self kind by (auto simp: handle_decode rx_packet_def rx_accepted_def Let_def split: prod.splits if_splits option.splits)
qed


subsection \<open>The memory of a node\<close>

definition int32 :: "int \<Rightarrow> bool" where
  "int32 i \<longleftrightarrow> - (2 ^ 31) \<le> i \<and> i < 2 ^ 31"

definition sched_wf :: "'n tx_sched \<Rightarrow> bool" where
  "sched_wf st \<longleftrightarrow> tx_inv st \<and> store_inv (tx_store st) \<and>
    (\<forall>e\<in>set (tx_entries st). wf_message (te_message e) \<and> int32 (te_remaining_hops e))"

text \<open>Every table has its size, every count and index stays inside it, and what is stored is well formed.\<close>

definition node_wf :: "('n, 'c, 'q, 'r) node \<Rightarrow> bool" where
  "node_wf nd \<longleftrightarrow> length (replay_sources nd) = REPLAY_SOURCE_TABLE_SIZE \<and>
    length (route_table (routes nd)) = MAX_ROUTE_ENTRIES \<and> route_count (routes nd) \<le> MAX_ROUTE_ENTRIES \<and>
    length (roster (known_nodes nd)) = MAX_ROSTER_ENTRIES \<and> roster_count (known_nodes nd) \<le> MAX_ROSTER_ENTRIES \<and>
    sched_wf (scheduler nd) \<and> budgets_ok (forwarder nd)"

definition packet_typed :: "mesh_packet_t \<Rightarrow> bool" where
  "packet_typed p \<longleftrightarrow> wf_location (mp_location p) \<and> int32 (mp_hops p)"

lemma replay_accept_length: "length (snd (replay_protection_accept src s now tbl)) = length tbl"
  by (simp add: replay_protection_accept_def split: option.split prod.split)

lemma route_learn_sizes:
  "length (route_table (route_table_learn d n h r now st)) = length (route_table st)"
  "route_count st \<le> MAX_ROUTE_ENTRIES \<Longrightarrow> route_count (route_table_learn d n h r now st) \<le> MAX_ROUTE_ENTRIES"
  by (auto simp: route_table_learn_def route_slot_def Let_def split: option.split)

lemma roster_touch_sizes:
  "length (roster (roster_touch k l ep r s now st)) = length (roster st)"
  "roster_count st \<le> MAX_ROSTER_ENTRIES \<Longrightarrow> roster_count (roster_touch k l ep r s now st) \<le> MAX_ROSTER_ENTRIES"
  by (auto simp: roster_touch_def roster_slot_def Let_def split: option.split)

lemma enqueue_budgets: "budgets_ok st \<Longrightarrow> budgets_ok (snd (forward_queue_enqueue api job p st))" "budgets_ok st \<Longrightarrow> budgets_ok (forward_queue_init api st)"
  by (auto simp: forward_queue_enqueue_def forward_queue_init_def budgets_ok_def Let_def split: option.split prod.split)

lemma received_message_wf:
  assumes "mp_valid p \<Longrightarrow> packet_typed p" "int32 rssi" "int32 snr"
  shows "wf_message (received_message i ep packet p rssi snr)"
  using assms by (cases "mp_valid p")
    (auto simp: received_message_def Let_def wf_message_def packet_typed_def wf_location_def field_def int32_def emergency_message_zero_def location_zero_def)

lemma keep_message_wf: "sched_wf st \<Longrightarrow> wf_message m \<Longrightarrow> sched_wf (keep_message api m st)"
proof -
  assume s: "sched_wf st" "wf_message m"
  obtain r store where a: "message_store_allocate api (tx_store st) = (r, store)" by fastforce
  have i: "store_inv store" using s(1) message_store_allocate_inv [OF _ a] by (simp add: sched_wf_def)
  have "store_inv (snd (message_store_write api slot m store))" for slot
    using message_store_write_inv [OF i s(2)] by (cases "message_store_write api slot m store") auto
  then show ?thesis using s(1) a i by (auto simp: keep_message_def sched_wf_def tx_inv_def split: option.split)
qed

lemma acknowledge_wf:
  assumes "sched_wf st"
  shows "sched_wf (snd (tx_scheduler_acknowledge api ident src st))"
proof (cases "fst (tx_scheduler_acknowledge api ident src st)")
  case True
  then obtain k i where k: "src = Some k" "find_entry (tx_entries st) ident k = Some i"
    by (auto simp: tx_scheduler_acknowledge_def split: option.splits if_splits)
  let ?e = "tx_entries st ! i"
  define m where "m = (te_message ?e)\<lparr>em_status := copy_field (em_status (te_message ?e)) (lit ''ACKED''),
    em_hops := if te_remaining_hops ?e < 0 then 0 else te_remaining_hops ?e\<rparr>"
  have i: "i < length (tx_entries st)" using find_index_SomeD [OF k(2) [unfolded find_entry_def]] by simp
  then have e: "wf_message (te_message ?e)" "int32 (te_remaining_hops ?e)" using assms nth_mem [OF i] by (auto simp: sched_wf_def)
  have m: "wf_message m" using e by (auto simp: m_def wf_message_def int32_def)
  let ?e' = "?e\<lparr>te_state := TX_STATE_DELIVERED, te_error := TX_ERROR_NONE, te_message := m, te_active := False\<rparr>"
  have "snd (tx_scheduler_acknowledge api ident src st) = st\<lparr>tx_entries := (tx_entries st)[i := ?e'],
      tx_store := if te_nvs_slot ?e \<ge> 0 then snd (message_store_update api (te_nvs_slot ?e) m (tx_store st)) else tx_store st\<rparr>"
    using True k by (auto simp: tx_scheduler_acknowledge_def at_entry_def set_status_def m_def Let_def split: if_splits)
  moreover have "store_inv (snd (message_store_update api (te_nvs_slot ?e) m (tx_store st)))"
    using message_store_update_inv [OF _ m, of "tx_store st" api "te_nvs_slot ?e"] assms
    by (cases "message_store_update api (te_nvs_slot ?e) m (tx_store st)") (auto simp: sched_wf_def)
  ultimately show ?thesis
    using assms m e(2) by (auto simp: sched_wf_def tx_inv_def entry_ok_def dest!: set_list_update_cases)
next
  case False
  then show ?thesis using assms by (auto simp: tx_scheduler_acknowledge_def split: option.splits if_splits)
qed

lemma store_received_packet_wf:
  assumes "node_wf nd" "mp_valid p \<Longrightarrow> packet_typed p" "int32 rssi" "int32 snr"
  shows "node_wf (store_received_packet sv r packet p rssi snr nd)"
  using assms(1) keep_message_wf [OF _ received_message_wf [OF assms(2-4)]] roster_touch_sizes
  by (auto simp: store_received_packet_def Let_def node_wf_def split: prod.split)

lemma rx_sync_records_wf:
  "node_wf nd \<Longrightarrow> \<forall>p\<in>set ps. packet_typed p \<Longrightarrow> int32 rssi \<Longrightarrow> int32 snr \<Longrightarrow> node_wf (rx_sync_records sv rd rssi snr i ps nd)"
proof (induction ps arbitrary: i nd)
  case (Cons p ps)
  obtain ok tbl where t: "replay_protection_accept (mp_source p) (mp_id p) (rd_ticks rd) (replay_sources nd) = (ok, tbl)" by fastforce
  have n: "node_wf (nd\<lparr>replay_sources := tbl\<rparr>)"
    using Cons.prems(1) replay_accept_length [of "mp_source p" "mp_id p" "rd_ticks rd" "replay_sources nd"] t by (simp add: node_wf_def)
  let ?nd = "if ok then store_received_packet sv (rd_store rd i) (mp_payload p) p rssi snr (nd\<lparr>replay_sources := tbl\<rparr>) else nd\<lparr>replay_sources := tbl\<rparr>"
  have "node_wf ?nd" using n Cons.prems store_received_packet_wf [OF n, of p rssi snr sv] by simp
  then have "node_wf (rx_sync_records sv rd rssi snr (Suc i) ps ?nd)" using Cons.prems by (intro Cons.IH) auto
  then show ?case using t by (simp add: Let_def)
qed simp

lemma int32_byte: "int32 (uint (x :: u8))"
proof -
  have "(- (2 ^ 31) :: int) \<le> 0" "(255 :: int) < 2 ^ 31" by simp_all
  then show ?thesis using uint_u8_bounds [of x] unfolding int32_def by linarith
qed

lemma decoded_records_typed: "\<forall>p\<in>set (mesh_control_decode_sync_response_records payload len k). packet_typed p"
proof -
  have one: "packet_typed p" if "decode_sync_record pl n off = Some (p, off')" for pl n off p off'
    using that by (auto simp: decode_sync_record_def packet_typed_def mesh_packet_zero_def sync_read_tail_def Let_def
        Option.bind_eq_Some_conv int32_byte wf_location_zero split: if_splits)
  have "decode_records pl n c room off = Some (ps, off') \<Longrightarrow> \<forall>p\<in>set ps. packet_typed p" for pl n c room off ps off'
    by (induction pl n c room off arbitrary: ps off' rule: decode_records.induct) (auto simp: Option.bind_eq_Some_conv one split: if_splits)
  then have "decode_records payload len (unat (at payload 0)) k 1 = Some (ps, off) \<Longrightarrow> \<forall>p\<in>set ps. packet_typed p" for ps off .
  then show ?thesis
    by (cases "decode_records payload len (unat (at payload 0)) k 1") (auto simp: mesh_control_decode_sync_response_records_def)
qed


lemma atoi_int32: "int32 (atoi t)"
  by (auto simp: atoi_def int32_def Let_def min_def max_def split: prod.split)

lemma parse_v1_typed: "parse_mesh_packet w = Some p \<Longrightarrow> packet_typed p"
proof -
  assume p: "parse_mesh_packet w = Some p"
  then have "wf_packet p" using pred_optionD [OF wf_parse_v1 p] by simp
  moreover have "int32 (mp_hops p)"
    using p atoi_int32 by (auto simp: parse_mesh_packet_def Let_def update_thread_key_def int32_def [of 0] split: if_splits)
  ultimately show ?thesis by (simp add: packet_typed_def wf_packet_def)
qed

lemma rx_decode_typed: "rx_decode sv stack frame = Some (d, p) \<Longrightarrow> packet_typed p"
proof -
  assume "rx_decode sv stack frame = Some (d, p)"
  then obtain b n where "parse_mesh_packet_v2 (take n b) = Some p \<or> parse_mesh_packet (b[n := 0]) = Some p"
    by (auto simp: rx_decode_def rx_parse_def split: option.splits prod.splits if_splits)
  then show ?thesis
    using wf_parse_v2 [of "take n b" p] parse_v1_typed by (auto simp: packet_typed_def wf_packet_def byte_hops_def int32_def)
qed

lemma rx_message_wf:
  assumes "node_wf nd" "packet_typed p" "int32 rssi" "int32 snr"
  shows "node_wf (rx_message sv rd d p rssi snr nd)"
proof -
  have store: "node_wf (store_received_packet sv r d p rssi snr nd)" for r by (rule store_received_packet_wf [OF assms(1)]) (use assms in simp_all)
  have send: "node_wf (rx_send_ack sv rd p x)" if "node_wf x" for x
    using that by (simp add: rx_send_ack_def mesh_control_send_ack_packet_def Let_def node_wf_def enqueue_budgets split: prod.split)
  have ack: "node_wf (rx_ack sv p x)" if "node_wf x" for x
    using that acknowledge_wf by (auto simp: rx_ack_def Let_def node_wf_def split: option.split)
  have fwd: "node_wf (rx_forward sv rd p rssi snr x)" if "node_wf x" for x
    using that enqueue_budgets by (auto simp: rx_forward_def Let_def node_wf_def)
  show ?thesis using assms(1) store send ack fwd by (simp add: rx_message_def Let_def)
qed

lemma rx_accepted_wf:
  assumes "node_wf nd" "packet_typed p" "int32 rssi" "int32 snr" "rx_accepted sv rd d p rssi snr nd = Some nd'"
  shows "node_wf nd'"
proof -
  obtain seen where seen: "remember_packet (rd_dedup_ms rd) (rd_dedup_init_ms rd) (mp_source p) (mp_id p) (seen_filter nd) = Some seen"
    using assms(5) by (auto simp: rx_accepted_def split: option.splits)
  define x where "x = nd\<lparr>seen_filter := seen,
    routes := route_table_learn (Some (mp_source p)) (Some (mp_relay p)) (mp_path_hops p) rssi (rd_learn_ms rd) (routes nd)\<rparr>"
  have x: "node_wf x" using assms(1) by (simp add: x_def node_wf_def route_learn_sizes)
  have sync: "node_wf (rx_sync_records sv rd rssi snr 0 (mesh_control_decode_sync_response_records (mp_payload p) (mp_payload_len p) 8) x)"
    by (rule rx_sync_records_wf [OF x decoded_records_typed assms(3,4)])
  have upd: "node_wf (y\<lparr>sync_requests := q\<rparr>) = node_wf y" "node_wf (y\<lparr>mesh_clock := c\<rparr>) = node_wf y"
    "node_wf (y\<lparr>duplicate_node_id_warning := b\<rparr>) = node_wf y" for y :: "('a, 'b, 'c, 'd) node" and q c b
    by (simp_all add: node_wf_def)
  show ?thesis using assms(5) rx_message_wf [OF x assms(2-4), of sv] x sync
    by (auto simp: rx_accepted_def Let_def seen x_def [symmetric] upd split: if_splits)
qed

text \<open>
  Whatever the radio delivers, the memory of a node stays well formed: after handling
  any bytes, every table has its size, counts and indices lie inside it, stored records are
  consistent with their slots and well-formed messages, transmission entries respect their
  limits, and the forward budgets are in range.
\<close>

theorem handler_keeps_node_wf:
  assumes "node_wf nd" "int32 rssi" "int32 snr" "lora_handle_rx_packet sv rd stack frame rssi snr nd = Some nd'"
  shows "node_wf nd'"
proof (cases "rx_decode sv stack frame")
  case None
  then show ?thesis using assms by (simp add: handle_decode)
next
  case (Some dp)
  obtain d p where dp: "dp = (d, p)" by (cases dp)
  have p: "packet_typed p" using rx_decode_typed Some dp by simp
  have rx: "rx_packet sv rd d p rssi snr nd = Some nd'" using assms(4) Some dp by (simp add: handle_decode)
  obtain ok tbl where t: "replay_protection_accept (mp_source p) (mp_id p) (rd_ticks rd) (replay_sources nd) = (ok, tbl)" by fastforce
  have n: "node_wf (nd\<lparr>replay_sources := tbl\<rparr>)"
    using assms(1) replay_accept_length [of "mp_source p" "mp_id p" "rd_ticks rd" "replay_sources nd"] t by (simp add: node_wf_def)
  show ?thesis
  proof (cases "\<not> streq (mp_source p) (my_node_id nd) \<and> ok")
    case True
    then have a: "rx_accepted sv rd d p rssi snr (nd\<lparr>replay_sources := tbl\<rparr>) = Some nd'" using rx t by (simp add: rx_packet_def)
    show ?thesis by (rule rx_accepted_wf [OF n p assms(2,3) a])
  next
    case False
    then have "nd' = store_received_packet sv (rd_store rd 0) d mesh_packet_zero rssi snr (nd\<lparr>replay_sources := tbl\<rparr>) \<or> nd' = nd\<lparr>replay_sources := tbl\<rparr>"
      using rx t by (auto simp: rx_packet_def Let_def split: if_splits)
    moreover have "\<not> mp_valid mesh_packet_zero" by (simp add: mesh_packet_zero_def)
    then have "node_wf (store_received_packet sv (rd_store rd 0) d mesh_packet_zero rssi snr (nd\<lparr>replay_sources := tbl\<rparr>))"
      by (intro store_received_packet_wf [OF n _ assms(2,3)]) simp
    ultimately show ?thesis using n by auto
  qed
qed


subsection \<open>A node to try\<close>

definition sample_services :: "(bytes \<rightharpoonup> bytes, u32 option, forward_job_t list \<times> forward_job_t list, mesh_packet_t list \<times> mesh_packet_t list, bytes, bytes) services" where
  "sample_services = \<lparr>sv_store = map_nvs, sv_cfg = cell_nvs, sv_jobs = list_queue [], sv_requests = list_queue [], sv_task_created = True,
     sv_psa = toy_psa, sv_config = toy_config\<rparr>"

definition sample_node :: "bytes \<Rightarrow> (bytes \<rightharpoonup> bytes, u32 option, forward_job_t list \<times> forward_job_t list, mesh_packet_t list \<times> mesh_packet_t list) node" where
  "sample_node ident = \<lparr>my_node_id = pad 32 ident, duplicate_node_id_warning = False, replay_sources = replay_start, seen_filter = dedup_zero,
     routes = route_start, known_nodes = roster_start, scheduler = idle_sched, forwarder = forward_start,
     sequence = sample_seq, mesh_clock = time_start, sync_requests = \<lparr>sync_response_queue = None, sync_response_task = False\<rparr>\<rparr>"

definition sample_reads :: rx_reads where
  "sample_reads = \<lparr>rd_ticks = 5, rd_dedup_ms = 50, rd_dedup_init_ms = 50, rd_learn_ms = 50, rd_route_ms = 50, rd_ack_ms = 50,
     rd_sync_ticks = (5, 5), rd_store = (\<lambda>_. (5, 50))\<rparr>"

lemma sample_node_wf: "node_wf (sample_node ident)"
proof -
  have "store_inv sample_store" by (rule sample_ok(1))
  moreover have "tx_inv idle_sched" "\<forall>e\<in>set (tx_entries idle_sched). wf_message (te_message e) \<and> int32 (te_remaining_hops e)"
    by (auto simp: idle_sched_def tx_inv_def entry_ok_def tx_entry_zero_def int32_def)
  ultimately show ?thesis
    by (simp add: node_wf_def sample_node_def sched_wf_def replay_start_def route_start_def roster_start_def forward_start_def budgets_ok_def)
      (simp add: idle_sched_def)
qed

lemma toy_encrypts_any:
  assumes "length plain \<le> 227"
  obtains frame len where "bems_encrypt_frame toy_psa toy_config r0 r1 plain (zeros 255) = Some (frame, len)"
proof -
  have k: "derive_crypto_keys toy_psa toy_config = Some (replicate 16 16, replicate 32 20)" by code_simp
  have "psa_ctr toy_psa (replicate 16 16) counter x = Some (map (\<lambda>b. b XOR 16) x)" for counter x
    by (simp add: psa_ctr_def toy_psa_def hd_append)
  then have "aes_ctr_crypt toy_psa toy_config plain n = Some (map (\<lambda>b. b XOR 16) plain)" for n
    by (simp add: aes_ctr_crypt_def k Let_def)
  moreover have "bems_hmac_sha256 toy_psa toy_config x = Some (sum_list x # zeros 31)" for x
    by (simp add: bems_hmac_sha256_def k) (simp add: toy_psa_def)
  ultimately show thesis using that assms by (simp add: bems_encrypt_frame_def Let_def BEMS_MAX_PLAINTEXT_def)
qed

text \<open>A node that has just started answers every frame with a printable source.\<close>

lemma sample_returns:
  assumes "rx_decode sample_services stack frame = Some (d, p)" "copied 32 (mp_source p) = cstr (mp_source p)" "seen_filter nd = dedup_zero"
  obtains nd' where "lora_handle_rx_packet sample_services sample_reads stack frame rssi snr nd = Some nd'"
proof -
  obtain s' where "remember_packet (rd_dedup_ms sample_reads) (rd_dedup_init_ms sample_reads) (mp_source p) (mp_id p) dedup_zero = Some s'"
    using remember_packet_rel [of 0 dedup_zero "{}" "rd_dedup_ms sample_reads" "rd_dedup_init_ms sample_reads" "mp_source p" "mp_id p"] assms(2)
    by (auto simp: dedup_rel_def sample_reads_def)
  then have "\<exists>nd'. rx_packet sample_services sample_reads d p rssi snr nd = Some nd'"
    using assms(3) by (auto simp: rx_packet_def rx_accepted_def Let_def split: prod.split)
  then show thesis using that assms(1) by (auto simp: handle_decode)
qed

lemma sample_frame:
  obtains frame d where "rx_decode sample_services (zeros 320) frame = Some (d, v2_normal sample_packet)"
proof -
  let ?w = "take 56 (v2_wire sample_packet (v2_layout_of sample_packet) @ zeros 171)"
  have l: "length ?w \<le> 227" "length ?w < length (zeros 320)" by simp_all
  obtain frame len where "bems_encrypt_frame toy_psa toy_config 1 2 ?w (zeros 255) = Some (frame, len)" by (rule toy_encrypts_any [OF l(1)])
  then have f: "psa_ctr_inverse (sv_psa sample_services)"
    "bems_encrypt_frame (sv_psa sample_services) (sv_config sample_services) 1 2 ?w (zeros 255) = Some (frame, len)"
    by (simp_all add: sample_services_def toy_psa_inverse)
  have "parse_mesh_packet_v2 ?w = Some (v2_normal sample_packet)"
    by (rule parse_built_v2 [OF sample_packet_ok(1) disjI2 [OF sample_packet_ok(3)] build_sample_packet])
  from rx_decode_encrypted [OF f this l(2)] show thesis using that by blast
qed

theorem repeated_frame_ignored_witness:
  "\<exists>frame d p nd'. rx_decode sample_services (zeros 320) frame = Some (d, p) \<and>
    lora_handle_rx_packet sample_services sample_reads (zeros 320) frame (- 80) 7 (sample_node (lit ''BRAVO'')) = Some nd' \<and>
    lora_handle_rx_packet sample_services (sample_reads\<lparr>rd_ticks := 900\<rparr>) (zeros 320) frame (- 75) 6 nd' = Some nd'"
proof -
  obtain frame d where f: "rx_decode sample_services (zeros 320) frame = Some (d, v2_normal sample_packet)" by (rule sample_frame)
  let ?p = "v2_normal sample_packet"
  have c: "copied 32 (mp_source ?p) = cstr (mp_source ?p)" "\<not> streq (mp_source ?p) (my_node_id (sample_node (lit ''BRAVO'')))"
    "\<not> streq (mp_type ?p) (lit ''SYNC_RESP'')" by code_simp+
  have s: "seen_filter (sample_node (lit ''BRAVO'')) = dedup_zero" "replay_inv (replay_sources (sample_node (lit ''BRAVO'')))"
    by (simp_all add: sample_node_def replay_start_inv)
  obtain nd' where n: "lora_handle_rx_packet sample_services sample_reads (zeros 320) frame (- 80) 7 (sample_node (lit ''BRAVO'')) = Some nd'"
    by (rule sample_returns [OF f c(1) s(1)])
  from repeated_frame_ignored [OF s(2) n f c refl] f n show ?thesis by blast
qed

theorem handler_keeps_node_wf_witness:
  "\<exists>frame d p nd'. rx_decode sample_services (zeros 320) frame = Some (d, p) \<and>
    lora_handle_rx_packet sample_services sample_reads (zeros 320) frame (- 80) 7 (sample_node (lit ''BRAVO'')) = Some nd' \<and> node_wf nd'"
proof -
  obtain frame d where f: "rx_decode sample_services (zeros 320) frame = Some (d, v2_normal sample_packet)" by (rule sample_frame)
  have c: "copied 32 (mp_source (v2_normal sample_packet)) = cstr (mp_source (v2_normal sample_packet))" by code_simp
  have s: "seen_filter (sample_node (lit ''BRAVO'')) = dedup_zero" by (simp add: sample_node_def)
  obtain nd' where n: "lora_handle_rx_packet sample_services sample_reads (zeros 320) frame (- 80) 7 (sample_node (lit ''BRAVO'')) = Some nd'"
    by (rule sample_returns [OF f c s])
  have "int32 (- 80)" "int32 7" by (simp_all add: int32_def)
  from handler_keeps_node_wf [OF sample_node_wf this n] f n show ?thesis by blast
qed


theorem own_ack_never_accepted_witness:
  "\<exists>wire n frame len nd'.
    forward_worker_step (zeros 227) (ack_job (pad 32 (lit ''BRAVO'')) 1 sample_packet None) = Some (wire, n, LORA_TX_PRIORITY_HIGH) \<and>
    bems_encrypt_frame toy_psa toy_config 1 2 (take n wire) (zeros 255) = Some (frame, len) \<and>
    lora_handle_rx_packet sample_services sample_reads (zeros 320) (take len frame) (- 80) 7
      ((sample_node (lit ''ALPHA''))\<lparr>scheduler := sample_sched TX_STATE_WAITING_ACK (pad 32 (lit ''BRAVO''))\<rparr>) = Some nd' \<and>
    tx_entries (scheduler nd') = tx_entries (sample_sched TX_STATE_WAITING_ACK (pad 32 (lit ''BRAVO'')))"
proof -
  let ?nd = "(sample_node (lit ''ALPHA''))\<lparr>scheduler := sample_sched TX_STATE_WAITING_ACK (pad 32 (lit ''BRAVO''))\<rparr>"
  have "map_option (\<lambda>(w, n, p). (length (take n w) \<le> 227, p)) (forward_worker_step (zeros 227) (ack_job (pad 32 (lit ''BRAVO'')) 1 sample_packet None)) =
    Some (True, LORA_TX_PRIORITY_HIGH)" by code_simp
  then obtain wire n where w: "forward_worker_step (zeros 227) (ack_job (pad 32 (lit ''BRAVO'')) 1 sample_packet None) = Some (wire, n, LORA_TX_PRIORITY_HIGH)"
    "length (take n wire) \<le> 227" by auto
  obtain frame len where f: "bems_encrypt_frame toy_psa toy_config 1 2 (take n wire) (zeros 255) = Some (frame, len)" by (rule toy_encrypts_any [OF w(2)])
  have f': "bems_encrypt_frame (sv_psa sample_services) (sv_config sample_services) 1 2 (take n wire) (zeros 255) = Some (frame, len)"
    "psa_ctr_inverse (sv_psa sample_services)" using f by (simp_all add: sample_services_def toy_psa_inverse)
  have c: "node_id (cstr (mp_source sample_packet))" "\<not> streq (mp_source sample_packet) (lit ''ALL'')"
    "copied 32 (pad 32 (lit ''BRAVO'')) \<noteq> cstr (mp_source sample_packet)" by code_simp+
  have self: "streq (my_node_id ?nd) (mp_source sample_packet)" by (simp add: sample_node_def sample_packet_def streq_def)
  obtain q where q: "parse_mesh_packet_v2 (take n wire) = Some q" "cstr (mp_source q) = copied 32 (pad 32 (lit ''BRAVO''))"
    by (rule ack_frame_parsed [OF w(1) c(1,2)])
  have "length (take n wire) < length (zeros 320)" using w(2) by simp
  from rx_decode_encrypted [OF f'(2,1) q(1) this] obtain d where d: "rx_decode sample_services (zeros 320) (take len frame) = Some (d, q)" by blast
  have "copied 32 (mp_source q) = cstr (mp_source q)"
    using q(2) copied_idem [of 32 "pad 32 (lit ''BRAVO'')"] copied_cstr [of 32 "mp_source q"] by simp
  moreover have "seen_filter ?nd = dedup_zero" by (simp add: sample_node_def)
  ultimately obtain nd' where n: "lora_handle_rx_packet sample_services sample_reads (zeros 320) (take len frame) (- 80) 7 ?nd = Some nd'"
    by (rule sample_returns [OF d])
  have "tx_entries (scheduler nd') = tx_entries (scheduler ?nd)"
    by (rule own_ack_never_accepted [OF f'(2) w(1) f'(1) c(1,2) self c(3) _ n]) simp
  then show ?thesis using w(1) f n by auto
qed

end
