(* ===== verification/Wifi_Ap.thy ===== *)
theory Wifi_Ap
  imports Message_Store
begin

text \<open>
  \<open>src/network/wifi_ap.c\<close>: what the access point is started with. The driver calls
  (\<open>esp_wifi_*\<close>, wrapped in \<open>ESP_ERROR_CHECK\<close>, which aborts) are left out; the result
  is the configuration handed to \<open>esp_wifi_set_config\<close>, or the error returned.
\<close>

datatype wifi_auth_mode_t = WIFI_AUTH_OPEN | WIFI_AUTH_WPA2_PSK

record wifi_ap_config_t =
  ap_cfg_ssid :: bytes
  ap_cfg_ssid_len :: nat
  ap_cfg_password :: bytes
  ap_cfg_channel :: nat
  ap_cfg_max_connection :: nat
  ap_cfg_authmode :: wifi_auth_mode_t

text \<open>The sizes of \<open>wifi_config.ap.ssid\<close> and \<open>wifi_config.ap.password\<close> in ESP-IDF.\<close>

abbreviation AP_SSID_SIZE :: nat where "AP_SSID_SIZE \<equiv> 32"
abbreviation AP_PASSWORD_SIZE :: nat where "AP_PASSWORD_SIZE \<equiv> 64"

definition wifi_ap_init :: "bytes option \<Rightarrow> bytes option \<Rightarrow> esp_err_t + wifi_ap_config_t" where
  "wifi_ap_init ssid password =
    (case (ssid, password) of
       (Some ssid, Some password) \<Rightarrow>
         if strlen ssid = 0 \<or> strlen ssid > AP_SSID_SIZE \<or> strlen password < 8 \<or> strlen password > AP_PASSWORD_SIZE
         then Inl ESP_ERR_INVALID_ARG
         else Inr \<lparr>ap_cfg_ssid = blit (zeros AP_SSID_SIZE) 0 (cstr ssid), ap_cfg_ssid_len = strlen ssid,
                ap_cfg_password = blit (zeros AP_PASSWORD_SIZE) 0 (cstr password), ap_cfg_channel = 6,
                ap_cfg_max_connection = 4, ap_cfg_authmode = WIFI_AUTH_WPA2_PSK\<rparr>
     | _ \<Rightarrow> Inl ESP_ERR_INVALID_ARG)"

lemma wifi_ap_init_short: "strlen p < 8 \<Longrightarrow> wifi_ap_init ssid (Some p) = Inl ESP_ERR_INVALID_ARG"
  by (cases ssid) (simp_all add: wifi_ap_init_def)

lemma wifi_ap_init_wpa2:
  "wifi_ap_init ssid password = Inr cfg \<Longrightarrow> ap_cfg_authmode cfg = WIFI_AUTH_WPA2_PSK \<and> 8 \<le> strlen (ap_cfg_password cfg) \<and>
     length (ap_cfg_password cfg) = AP_PASSWORD_SIZE \<and> length (ap_cfg_ssid cfg) = AP_SSID_SIZE"
  by (auto simp: wifi_ap_init_def strlen_def cstr_blit0 split: option.splits if_splits)

end
