(* ===== verification/Node_Config_Props.thy ===== *)
theory Node_Config_Props
  imports Node_Config Wifi_Ap
begin

text \<open>
  The properties of the node's configuration: what a load establishes, and what the flash
  service's limit on the length of a key makes of every save.
\<close>

subsection \<open>Concrete flash\<close>

text \<open>A key-value store with the documented limits, for the witnesses.\<close>

type_synonym key_flash = "(bytes \<rightharpoonup> u8) \<times> (bytes \<rightharpoonup> bytes)"

definition ESP_ERR_NVS_KEY_TOO_LONG :: esp_err_t where
  "ESP_ERR_NVS_KEY_TOO_LONG = ESP_ERR_OTHER 0x1109"

definition key_nvs :: "key_flash config_nvs" where
  "key_nvs =
    \<lparr>cn_open = (\<lambda>n. ESP_OK),
     cn_get_u8 = (\<lambda>n k. case fst n k of None \<Rightarrow> Inl ESP_ERR_NVS_NOT_FOUND | Some v \<Rightarrow> Inr v),
     cn_get_str = (\<lambda>n k size. case snd n k of None \<Rightarrow> Inl ESP_ERR_NVS_NOT_FOUND
       | Some v \<Rightarrow> if strlen v < size then Inr (cstr v) else Inl (ESP_ERR_OTHER 0x110c)),
     cn_set_u8 = (\<lambda>k v n. if 15 < length k then (ESP_ERR_NVS_KEY_TOO_LONG, n) else (ESP_OK, ((fst n)(k \<mapsto> v), snd n))),
     cn_set_str = (\<lambda>k v n. if 15 < length k then (ESP_ERR_NVS_KEY_TOO_LONG, n) else (ESP_OK, (fst n, (snd n)(k \<mapsto> v)))),
     cn_erase_key = (\<lambda>k n. if fst n k = None \<and> snd n k = None then (ESP_ERR_NVS_NOT_FOUND, n)
       else (ESP_OK, ((fst n)(k := None), (snd n)(k := None)))),
     cn_erase_all = (\<lambda>n. (ESP_OK, (\<lambda>_. None, \<lambda>_. None))),
     cn_commit = (\<lambda>n. (ESP_OK, n))\<rparr>"

lemma key_nvs_laws: "nvs_key_limit key_nvs" "nvs_keys_separate key_nvs" "nvs_strings_fit key_nvs"
  by (auto simp: key_nvs_def nvs_key_limit_def nvs_keys_separate_def nvs_strings_fit_def ESP_ERR_NVS_KEY_TOO_LONG_def strlen_def
      split: option.splits if_splits)

subsection \<open>Loading\<close>

lemma load_wf_credentials:
  assumes "nvs_strings_fit api" "wf_config_state st"
  shows "wf_config_state (node_config_load api ra rd st) \<and>
    (nc_configured (node_config (node_config_load api ra rd st)) \<longrightarrow> \<not> weak_credentials (node_config (node_config_load api ra rd st))) \<and>
    (cn_open api (config_flash st) \<noteq> ESP_OK \<or> cn_get_u8 api (config_flash st) (lit ''configured'') \<noteq> Inr 1 \<longrightarrow>
       8 \<le> strlen (nc_ap_password (node_config (node_config_load api ra rd st))))"
proof -
  define s where "s = node_config_set_defaults st"
  define c where "c = (node_config s)\<lparr>nc_node_id := (nc_node_id (node_config s))[0 := 0]\<rparr>"
  have s: "wf_config_state s" "config_flash s = config_flash st" "\<not> nc_configured (node_config s)"
    using assms(2) by (simp_all add: s_def wf_set_defaults) (simp_all add: node_config_set_defaults_def config_defaults_def)
  then have c: "wf_node_config c" "\<not> nc_configured c" "field FIELD_LEN (identity s)"
    by (simp_all add: c_def wf_reset_id wf_config_state_def)
  show ?thesis
  proof (cases "cn_open api (config_flash st) = ESP_OK")
    case False
    then have l: "node_config_load api ra rd st = s\<lparr>node_config := c\<lparr>nc_ap_password := random_hex_string ra (nc_ap_password c) 8\<rparr>\<rparr>"
      by (simp add: node_config_load_def Let_def s(2) c_def flip: s_def)
    have "length (nc_ap_password c) = FIELD_LEN" using c(1) by (simp add: wf_node_config_def field_length)
    with strlen_random_hex [of 8 "nc_ap_password c" ra] have "strlen (random_hex_string ra (nc_ap_password c) 8) = 16" by simp
    with c s show ?thesis by (simp add: l wf_config_state_def wf_node_config_def)
  next
    case True
    obtain mig c' i' where st: "load_stored api ra rd (config_flash st) (identity s) c = (mig, c', i')" by (metis prod_cases3)
    note w = wf_load_stored [OF assms(1) c(1) c(3) st]
    have l: "node_config_load api ra rd st = (let s' = s\<lparr>node_config := c', identity := i'\<rparr> in if mig then snd (node_config_save api (Some c') s') else s')"
      using True st by (simp add: node_config_load_def Let_def s(2) c_def flip: s_def)
    have "wf_config_state (s\<lparr>node_config := c', identity := i'\<rparr>)" using w by (simp add: wf_config_state_def)
    with w True show ?thesis by (auto simp: l Let_def wf_node_config_save node_config_save_simps)
  qed
qed

text \<open>
  Loading leaves a well-formed configuration; a node it leaves configured has
  credentials of the required strength, and a node whose flash does not claim to be
  configured, or cannot be opened, gets an access-point password of at least eight
  characters.
\<close>

theorem load_credentials:
  assumes "nvs_strings_fit api" "wf_config_state st"
  shows "wf_config_state (node_config_load api ra rd st) \<and>
    (nc_configured (node_config (node_config_load api ra rd st)) \<longrightarrow> \<not> weak_credentials (node_config (node_config_load api ra rd st))) \<and>
    (cn_open api (config_flash st) \<noteq> ESP_OK \<or> cn_get_u8 api (config_flash st) (lit ''configured'') \<noteq> Inr 1 \<longrightarrow>
       8 \<le> strlen (nc_ap_password (node_config (node_config_load api ra rd st))))"
  using assms by (rule load_wf_credentials)


subsection \<open>Saving\<close>

text \<open>
  The life of the configuration: a boot with the statics zero, the calls of the program in
  any order and with any argument, and restarts.
\<close>

inductive config_run :: "'n config_nvs \<Rightarrow> 'n \<Rightarrow> 'n config_state \<Rightarrow> bool" for api n0 where
  cfg_boot: "config_run api n0 \<lparr>node_config = node_config_zero, identity = zeros FIELD_LEN, config_flash = n0\<rparr>"
| cfg_identity: "config_run api n0 st \<Longrightarrow> config_run api n0 (node_config_set_identity i st)"
| cfg_defaults: "config_run api n0 st \<Longrightarrow> config_run api n0 (node_config_set_defaults st)"
| cfg_load: "config_run api n0 st \<Longrightarrow> config_run api n0 (node_config_load api ra rd st)"
| cfg_save: "config_run api n0 st \<Longrightarrow> config_run api n0 (snd (node_config_save api c st))"
| cfg_erase: "config_run api n0 st \<Longrightarrow> config_run api n0 (config_erased api st)"
| cfg_restart: "config_run api n0 st \<Longrightarrow> config_run api n0 (st\<lparr>node_config := node_config_zero, identity := zeros FIELD_LEN\<rparr>)"

definition keyless :: "'n config_nvs \<Rightarrow> 'n config_state \<Rightarrow> bool" where
  "keyless api st \<longleftrightarrow> unset api ''network_key'' (config_flash st) \<and> cstr (nc_network_key (node_config st)) = []"

lemma save_fails:
  assumes "nvs_key_limit api"
  shows "fst (node_config_save api c st) \<noteq> ESP_OK"
    and "node_config (snd (node_config_save api c st)) = node_config st"
  using save_chain_fails(2) [OF assms] by (auto simp: node_config_save_def split: option.splits prod.splits) (metis fst_conv)+

lemma save_keyless:
  assumes "nvs_key_limit api" "nvs_keys_separate api" "keyless api st"
  shows "keyless api (snd (node_config_save api c st))"
proof -
  have "unset api ''network_key'' (config_flash (snd (node_config_save api c st)))"
    using assms save_keeps_unset [OF assms(1,2) late_keys(1), of "config_flash st"]
    by (auto simp: node_config_save_def keyless_def split: option.splits prod.splits) (metis snd_conv)+
  with assms(3) show ?thesis by (simp add: keyless_def save_fails(2) [OF assms(1)])
qed

lemma load_stored_keyless:
  assumes "unset api ''network_key'' n" "cstr (nc_network_key c) = []" "load_stored api ra rd n ident c = (mig, c', ident')"
  shows "cstr (nc_network_key c') = []"
proof -
  have "snd (get_str_into api n ''network_key'' (nc_network_key c)) = nc_network_key c"
    using assms(1) by (auto simp: get_str_into_def unset_def split: sum.splits)
  then have "nc_network_key (load_fields api n c) = nc_network_key c" by (simp add: load_fields_def)
  with assms(2) show ?thesis
    by - (rule load_stored_cases [OF assms(3)], drule adopt_identity_simps, simp)
qed

lemma load_keyless:
  assumes "nvs_key_limit api" "nvs_keys_separate api" "keyless api st"
  shows "keyless api (node_config_load api ra rd st)"
proof -
  define s where "s = node_config_set_defaults st"
  define c where "c = (node_config s)\<lparr>nc_node_id := (nc_node_id (node_config s))[0 := 0]\<rparr>"
  have s: "config_flash s = config_flash st" "cstr (nc_network_key c) = []"
    by (simp_all add: c_def s_def node_config_set_defaults_def config_defaults_def)
  obtain mig c' i' where st: "load_stored api ra rd (config_flash st) (identity s) c = (mig, c', i')" by (metis prod_cases3)
  have "keyless api (s\<lparr>node_config := c', identity := i'\<rparr>)"
    using assms(3) load_stored_keyless [OF _ s(2) st] s(1) by (simp add: keyless_def)
  then have "keyless api (if mig then snd (node_config_save api (Some c') (s\<lparr>node_config := c', identity := i'\<rparr>)) else s\<lparr>node_config := c', identity := i'\<rparr>)"
    using save_keyless [OF assms(1,2)] by simp
  moreover have "keyless api (s\<lparr>node_config := c\<lparr>nc_ap_password := p\<rparr>\<rparr>)" for p
    using assms(3) s by (simp add: keyless_def)
  ultimately show ?thesis
    using st by (simp add: node_config_load_def Let_def s(1) c_def flip: s_def)
qed

lemma erase_keyless:
  assumes "nvs_keys_separate api" "keyless api st"
  shows "keyless api (config_erased api st)"
proof -
  have "unset api ''network_key'' (snd (cn_commit api (snd (cn_erase_all api (config_flash st)))))"
    using assms(2) nvs_keys_separateD(4) [OF assms(1)]
    unfolding unset_def keyless_def nvs_keys_separateD(3) [OF assms(1)] by blast
  with assms(2) show ?thesis by (simp add: config_erased_def keyless_def)
qed

lemma run_keyless:
  assumes "nvs_key_limit api" "nvs_keys_separate api" "unset api ''network_key'' n0" "config_run api n0 st"
  shows "keyless api st"
  using assms(4)
proof induction
  case cfg_boot
  then show ?case using assms(3) by (simp add: keyless_def node_config_zero_def)
next
  case (cfg_defaults st)
  then show ?case by (simp add: keyless_def node_config_set_defaults_def config_defaults_def)
qed (use assms(1,2) in \<open>auto simp: load_keyless save_keyless erase_keyless\<close>,
     auto simp: keyless_def node_config_set_identity_def node_config_zero_def)

lemma unprovisioned_no_keys: "\<not> provisioned config \<Longrightarrow> derive_crypto_keys psa config = None"
  by (simp add: derive_crypto_keys_def Let_def)

text \<open>
  C8. The key \<open>default_priority\<close> has 16 characters and the flash service takes at most
  15, so every save fails before the network key is written: a node that starts without a
  stored network key is never provisioned, whatever is configured, loaded, saved or erased
  and however often it restarts, and it can neither send nor accept a frame.
\<close>

theorem never_provisioned:
  assumes "nvs_key_limit api" "nvs_keys_separate api" "unset api ''network_key'' n0" "config_run api n0 st"
  shows "fst (node_config_save api c st) \<noteq> ESP_OK \<and> \<not> node_config_is_provisioned st \<and>
    bems_encrypt_frame psa (crypto_config_of st) r0 r1 plain frame = None \<and>
    bems_decrypt_frame_bytes psa (crypto_config_of st) frame plain = None"
proof -
  have "\<not> node_config_is_provisioned st"
    using run_keyless [OF assms] by (simp add: keyless_def node_config_is_provisioned_def str_empty_conv [symmetric] str_empty_def)
  moreover from this have "derive_crypto_keys psa (crypto_config_of st) = None"
    by (simp add: unprovisioned_no_keys crypto_config_of_def)
  ultimately show ?thesis using save_fails(1) [OF assms(1)]
    by (simp add: bems_encrypt_frame_def bems_decrypt_frame_bytes_def aes_ctr_crypt_def bems_hmac_sha256_def Let_def)
qed

theorem never_provisioned_witness:
  "\<not> node_config_is_provisioned (snd (node_config_save key_nvs (Some (node_config_zero\<lparr>nc_network_key := pad 32 (lit ''sixteen-byte-key'')\<rparr>))
      \<lparr>node_config = node_config_zero, identity = zeros FIELD_LEN, config_flash = (\<lambda>_. None, \<lambda>_. None)\<rparr>))"
proof -
  have "unset key_nvs ''network_key'' (\<lambda>_. None, \<lambda>_. None)" by (simp add: unset_def key_nvs_def)
  from never_provisioned [OF key_nvs_laws(1,2) this cfg_save [OF cfg_boot]] show ?thesis by blast
qed

theorem load_credentials_witness:
  "8 \<le> strlen (nc_ap_password (node_config (node_config_load key_nvs (\<lambda>_. 0) (\<lambda>_. 0)
      \<lparr>node_config = node_config_zero, identity = zeros FIELD_LEN, config_flash = (\<lambda>_. None, \<lambda>_. None)\<rparr>)))"
  using load_credentials [OF key_nvs_laws(3), of "\<lparr>node_config = node_config_zero, identity = zeros FIELD_LEN, config_flash = (\<lambda>_. None, \<lambda>_. None)\<rparr>"]
  by (simp add: wf_config_state_def) (simp add: key_nvs_def)

subsection \<open>A failed setup and the access point\<close>

lemma save_chain_u8:
  assumes "nvs_key_limit api" "nvs_bytes_kept api" "nc_configured c" "cn_set_u8 api (lit ''configured'') 1 n = (ESP_OK, n1)"
  shows "cn_get_u8 api (snd (nvs_chain (save_steps api c) n)) (lit ''configured'') = Inr 1"
proof -
  let ?P = "\<lambda>m. cn_get_u8 api m (lit ''configured'') = Inr 1"
  have n1: "?P n1" using assms(2,4) by (simp add: nvs_bytes_kept_def)
  have str: "?P (snd (cn_set_str api k v m))" if "lit ''configured'' \<noteq> k" "?P m" for k v m
    using assms(2) that unfolding nvs_bytes_kept_def by metis
  have "?P (snd (nvs_chain (take 8 (tl (save_steps api c))) n1))"
  proof (rule nvs_chain_keeps [where P = ?P, OF _ n1])
    fix step m assume s: "step \<in> set (take 8 (tl (save_steps api c)))" and m: "?P m"
    have "list_all (\<lambda>step. ?P (snd (step m))) (take 8 (tl (save_steps api c)))"
      using late_keys(3) m by (simp add: save_steps_def str)
    with s show "?P (snd (step m))" by (simp only: list_all_iff)
  qed
  moreover have "nvs_chain (save_steps api c) n = nvs_chain (take 8 (tl (save_steps api c))) n1"
    unfolding save_chain_fails(1) [OF assms(1)] using assms(3,4) by (simp add: save_steps_def)
  ultimately show ?thesis by simp
qed

lemma load_stored_claimed:
  assumes "cn_get_u8 api n (lit ''configured'') = Inr 1" "unset api ''ap_password'' n" "cstr (nc_ap_password c) = []"
    "load_stored api ra rd n ident c = (mig, c', ident')"
  shows "cstr (nc_ap_password c') = []" "\<not> nc_configured c'"
proof -
  have "snd (get_str_into api n ''ap_password'' (nc_ap_password c)) = nc_ap_password c"
    using assms(2) by (auto simp: get_str_into_def unset_def split: sum.splits)
  then have "nc_ap_password (load_fields api n c) = nc_ap_password c" by (simp add: load_fields_def)
  with assms(1,3) show p: "cstr (nc_ap_password c') = []"
    by - (rule load_stored_cases [OF assms(4)], drule adopt_identity_simps, simp add: load_fixups_def Let_def)
  obtain e where "c' = reject_weak e" by (rule load_stored_cases [OF assms(4)])
  with p reject_weak_strong [of e] show "\<not> nc_configured c'" by (auto simp: weak_credentials_def strlen_def)
qed

text \<open>
  A completed setup form on a fresh node: the save stores the flag \<open>configured\<close> and
  then fails before the access-point password. After the next restart the load sees the
  flag, so it does not draw a random password, and only then finds the credentials missing:
  the node is unconfigured with an empty password, and the access point that would serve
  the setup page is refused.
\<close>

theorem failed_setup_no_access_point:
  assumes "nvs_key_limit api" "nvs_keys_separate api" "nvs_bytes_kept api" "\<forall>n. cn_open api n = ESP_OK"
    and "unset api ''ap_password'' (config_flash st)" "cn_set_u8 api (lit ''configured'') 1 (config_flash st) = (ESP_OK, n1)"
    and "nc_configured c" "\<not> weak_credentials c" "at (nc_node_id c) 0 \<noteq> 0"
    and "node_config_save api (Some c) st = (r, st1)"
    and "st2 = node_config_load api ra rd (st1\<lparr>node_config := node_config_zero, identity := zeros FIELD_LEN\<rparr>)"
  shows "r \<noteq> ESP_OK \<and> \<not> nc_configured (node_config st2) \<and>
    wifi_ap_init (Some ssid) (Some (nc_ap_password (node_config st2))) = Inl ESP_ERR_INVALID_ARG"
proof -
  have creds: "strlen (nc_ap_password c) > 0" "strlen (nc_web_pin c) > 0" "strlen (nc_network_key c) > 0"
    using assms(8) by (auto simp: weak_credentials_def)
  have "\<not> (at (nc_web_pin c) 0 = 0 \<or> at (nc_network_key c) 0 = 0 \<or> at (nc_ap_password c) 0 = 0)"
    using creds by (simp add: str_empty_conv [symmetric] str_empty_def strlen_def)
  with assms(4,9) save_chain_fails(2) [OF assms(1), of c "config_flash st"]
  have s: "node_config_save api (Some c) st = (fst (nvs_chain (save_steps api c) (config_flash st)),
      st\<lparr>config_flash := snd (nvs_chain (save_steps api c) (config_flash st))\<rparr>)"
    by (simp add: node_config_save_def case_prod_unfold)
  define n where "n = snd (nvs_chain (save_steps api c) (config_flash st))"
  have n: "cn_get_u8 api n (lit ''configured'') = Inr 1" "unset api ''ap_password'' n"
    using save_chain_u8 [OF assms(1,3,7,6)] save_keeps_unset [OF assms(1,2) late_keys(2) assms(5)] by (simp_all add: n_def)
  have st1: "config_flash st1 = n" using s assms(10) by (auto simp: n_def)
  define d where "d = node_config_set_defaults (st1\<lparr>node_config := node_config_zero, identity := zeros FIELD_LEN\<rparr>)"
  define e where "e = (node_config d)\<lparr>nc_node_id := (nc_node_id (node_config d))[0 := 0]\<rparr>"
  have e: "cstr (nc_ap_password e) = []" and dn: "config_flash d = n"
    by (simp_all add: e_def d_def node_config_set_defaults_def config_defaults_def st1)
  obtain mig c' i' where l: "load_stored api ra rd n (identity d) e = (mig, c', i')" by (metis prod_cases3)
  note c' = load_stored_claimed [OF n e l]
  have "node_config st2 = c'"
    using l assms(4) by (simp add: assms(11) node_config_load_def Let_def save_fails(2) [OF assms(1)] dn flip: d_def e_def)
  with c' have "\<not> nc_configured (node_config st2)" "strlen (nc_ap_password (node_config st2)) < 8"
    by (simp_all add: strlen_def)
  moreover have "r \<noteq> ESP_OK" using save_fails(1) [OF assms(1), of "Some c" st] assms(10) by simp
  ultimately show ?thesis by (simp add: wifi_ap_init_short)
qed

text \<open>A configuration the setup form accepts.\<close>

definition good_config :: node_config_t where
  "good_config = node_config_zero\<lparr>nc_configured := True, nc_node_id := pad 32 (lit ''NODE01''),
     nc_ap_password := pad 32 (lit ''barangay-ap''), nc_web_pin := pad 32 (lit ''87654321''),
     nc_network_key := pad 32 (lit ''sixteen-byte-key'')\<rparr>"

lemma good_config_strong: "nc_configured good_config" "\<not> weak_credentials good_config" "at (nc_node_id good_config) 0 \<noteq> 0"
  by code_simp+

theorem failed_setup_no_access_point_witness:
  "wifi_ap_init (Some (lit ''BarangayMesh'')) (Some (nc_ap_password (node_config (node_config_load key_nvs (\<lambda>_. 0) (\<lambda>_. 0)
      (snd (node_config_save key_nvs (Some good_config)
        \<lparr>node_config = node_config_zero, identity = zeros FIELD_LEN, config_flash = (\<lambda>_. None, \<lambda>_. None)\<rparr>)
       \<lparr>node_config := node_config_zero, identity := zeros FIELD_LEN\<rparr>))))) = Inl ESP_ERR_INVALID_ARG"
proof -
  let ?st = "\<lparr>node_config = node_config_zero, identity = zeros FIELD_LEN, config_flash = (\<lambda>_. None, \<lambda>_. None)\<rparr>"
  have "nvs_bytes_kept key_nvs"
    by (auto simp: nvs_bytes_kept_def key_nvs_def ESP_ERR_NVS_KEY_TOO_LONG_def split: if_splits)
  moreover have "\<forall>n. cn_open key_nvs n = ESP_OK" "unset key_nvs ''ap_password'' (config_flash ?st)"
    "cn_set_u8 key_nvs (lit ''configured'') 1 (config_flash ?st) = (ESP_OK, ([lit ''configured'' \<mapsto> 1], \<lambda>_. None))"
    by (simp_all add: key_nvs_def unset_def)
  ultimately show ?thesis
    using failed_setup_no_access_point [OF key_nvs_laws(1,2) _ _ _ _ good_config_strong prod.collapse [symmetric] refl, where st = ?st]
    by blast
qed

end
