(* ===== verification/Http_Portal_Props.thy ===== *)
theory Http_Portal_Props
  imports Http_Portal Http_Auth_Props App_Runtime_Props Node_Config_Props
begin

text \<open>
  Properties of the portal's handlers: what the session check protects, what a setup form
  can store, what a client reads from the message list.
\<close>

subsection \<open>The session check\<close>

text \<open>
  C7. On a configured node a POST without a session is answered with 401, and then handled
  all the same: the check returns the result of sending that answer, which is
  \<open>ESP_OK\<close>, and the handlers go on. A client without a session resets the node, sets the
  clock, sends messages and starts a synchronisation.
\<close>

theorem missing_session_not_enforced:
  assumes "rq_cookie request = None" "pt_configured pt" "rq_method request = HTTP_POST" "\<forall>tr. rq_result request tr = ESP_OK"
  shows "Set_Status (lit ''401 Unauthorized'') \<in> set (refusal request) \<and>
    http_reset_handler env now request pt = http_reset_body env request pt (refusal request) \<and>
    portal_namespace (fst (snd (http_reset_handler env now request pt))) =
      node_config_erase (pe_config env) (sv_store (pe_services env)) (sv_cfg (pe_services env)) (portal_namespace pt) \<and>
    pt_config (fst (snd (http_reset_handler env now request pt))) = config_erased (pe_config env) (pt_config pt) \<and>
    http_send_handler env now t request pt = http_send_body env t request pt (refusal request) \<and>
    http_time_handler env now t request pt = http_time_body env t request pt (refusal request) \<and>
    http_sync_handler env now request pt = http_sync_body env request pt (refusal request)"
proof -
  have n: "\<not> has_session now request pt"
    using assms(1,2) by (simp add: has_session_def http_auth_request_has_session_def)
  have r: "rq_result request (refusal request) = ESP_OK" using assms(4) by blast
  have "Set_Status (lit ''401 Unauthorized'') \<in> set (refusal request)"
    using assms(3) by (simp add: refusal_def send_session_expired_def httpd_resp_send_def Let_def)
  with n r show ?thesis
    by (simp add: send.works_without_session time.works_without_session sync.works_without_session reset.works_without_session)
      (simp add: http_reset_body_def, simp add: configuration_erased_def)
qed

subsection \<open>Setup\<close>

text \<open>A configuration as the setup may store it.\<close>

definition valid_setup :: "node_config_t \<Rightarrow> bool" where
  "valid_setup c \<longleftrightarrow> nc_configured c \<and> \<not> weak_credentials c \<and> valid_node_id (nc_node_id c) \<and>
     list_all (\<lambda>ch. \<not> (97 \<le> ch \<and> ch \<le> 122)) (cstr (nc_node_id c)) \<and>
     cstr (nc_node_role c) \<in> {lit ''relay-only'', lit ''household'', lit ''command-post''} \<and>
     cstr (nc_default_priority c) \<in> {lit ''HIGH'', lit ''NORMAL'', lit ''LOW''} \<and> valid_destination (nc_default_destination c) \<and>
     list_all valid_delimited_field [nc_node_name c, sitio (nc_location c), barangay (nc_location c), municipality (nc_location c)]"

lemma toupper_not_lower: "\<not> (97 \<le> toupper c \<and> toupper c \<le> 122)"
proof (cases "97 \<le> c \<and> c \<le> 122")
  case True
  then have c: "97 \<le> uint c" "uint c \<le> 122" by (simp_all add: word_le_def)
  then have "uint (c - 32) = uint c - 32" by (simp add: uint_word_ariths)
  with True c show ?thesis by (simp add: toupper_def word_le_def)
qed (auto simp: toupper_def)

lemma copied_id_upper: "list_all (\<lambda>ch. \<not> (97 \<le> ch \<and> ch \<le> 122)) (cstr (node_config_copy_node_id (zeros FIELD_LEN) src))"
proof -
  let ?f = "\<lambda>c. if isalnum c \<or> c = 45 \<or> c = 95 then Some (toupper c) else None"
  have w: "set (cstr (w @ 0 # r)) \<subseteq> set w" for w r :: bytes
    by (auto simp: cstr_append) (auto simp: cstr_def dest: set_takeWhileD)
  have "set (cstr (node_config_copy_node_id (zeros FIELD_LEN) src)) \<subseteq> set (take 31 (List.map_filter ?f (cstr src)))"
    using copy_loop_spec [of 0 "zeros FIELD_LEN" ?f src] w by (simp add: node_config_copy_node_id_def)
  also have "\<dots> \<subseteq> set (List.map_filter ?f (cstr src))" by (rule set_take_subset)
  also have "\<dots> \<subseteq> {ch. \<not> (97 \<le> ch \<and> ch \<le> 122)}"
    using toupper_not_lower by (auto simp: List.map_filter_def)
  finally show ?thesis by (auto simp: list_all_iff)
qed

lemma setup_words:
  "cstr (lit ''relay-only'') = lit ''relay-only''" "cstr (lit ''household'') = lit ''household''"
  "cstr (lit ''command-post'') = lit ''command-post''" "cstr (lit ''HIGH'') = lit ''HIGH''"
  "cstr (lit ''NORMAL'') = lit ''NORMAL''" "cstr (lit ''LOW'') = lit ''LOW''"
  by code_simp+

lemma setup_accepted_valid:
  assumes "setup_form body = (raw, c)" "setup_error body raw c = None"
  shows "valid_setup (c\<lparr>nc_configured := True\<rparr>)"
proof -
  have "nc_node_id c = node_config_copy_node_id (zeros FIELD_LEN) raw"
    using assms(1) by (auto simp: setup_form_def Let_def node_config_zero_def)
  then have "list_all (\<lambda>ch. \<not> (97 \<le> ch \<and> ch \<le> 122)) (cstr (nc_node_id c))" using copied_id_upper by simp
  moreover have "\<not> weak_credentials c"
    using assms(2) by (auto simp: setup_error_def weak_credentials_def split: if_splits)
  moreover have "valid_node_id (nc_node_id c)" "valid_destination (nc_default_destination c)"
    "list_all valid_delimited_field [nc_node_name c, sitio (nc_location c), barangay (nc_location c), municipality (nc_location c)]"
    using assms(2) by (auto simp: setup_error_def split: if_splits)
  moreover have "cstr (nc_node_role c) \<in> {lit ''relay-only'', lit ''household'', lit ''command-post''}"
    "cstr (nc_default_priority c) \<in> {lit ''HIGH'', lit ''NORMAL'', lit ''LOW''}"
  proof -
    have "streq (nc_node_role c) (lit ''relay-only'') \<or> streq (nc_node_role c) (lit ''household'') \<or> streq (nc_node_role c) (lit ''command-post'')"
      "streq (nc_default_priority c) (lit ''HIGH'') \<or> streq (nc_default_priority c) (lit ''NORMAL'') \<or> streq (nc_default_priority c) (lit ''LOW'')"
      using assms(2) unfolding setup_error_def by (simp_all split: if_splits)
    then show "cstr (nc_node_role c) \<in> {lit ''relay-only'', lit ''household'', lit ''command-post''}"
      "cstr (nc_default_priority c) \<in> {lit ''HIGH'', lit ''NORMAL'', lit ''LOW''}"
      unfolding streq_def setup_words by blast+
  qed
  ultimately show ?thesis by (simp add: valid_setup_def weak_credentials_def)
qed

lemma setup_handler_config:
  assumes "http_setup_handler env now request pt = (r, pt', tr)"
  shows "pt_node pt' = pt_node pt \<and> (pt_config pt' = pt_config pt \<or>
    (\<exists>c. valid_setup c \<and> node_config_save (pe_config env) (Some c) (pt_config pt) = (r, pt_config pt')))"
proof -
  obtain auth p0 tr0 where g: "(if pt_configured pt then require_session now request pt else (ESP_OK, pt, [])) = (auth, p0, tr0)"
    by (metis prod_cases3)
  then have p0: "pt_config p0 = pt_config pt" "pt_node p0 = pt_node pt"
    by (auto simp: require_session_cases split: if_splits)
  obtain rb body tr1 where b: "http_read_body_checked request (zeros 384) tr0 = (rb, body, tr1)" by (metis prod_cases3)
  obtain raw c where f: "setup_form body = (raw, c)" by (metis prod.exhaust)
  show ?thesis
  proof (cases "auth = ESP_OK \<and> rb = ESP_OK \<and> setup_error body raw c = None")
    case True
    then show ?thesis
      using assms g b f p0 setup_accepted_valid [OF f]
      by (auto simp: http_setup_handler_def Let_def split: prod.splits if_splits)
  next
    case False
    then show ?thesis
      using assms g b f p0 by (auto simp: http_setup_handler_def split: prod.splits if_splits option.splits)
  qed
qed

text \<open>
  Whatever is posted to \<open>/setup\<close>, the configuration changes only by saving a valid
  one: marked configured, with a node id of 2 to 31 upper-case letters, digits, hyphens and
  underscores, a known role and priority, a valid destination, no protocol delimiter in a
  name or place, and credentials strong enough to be accepted again by the next load.
\<close>

theorem setup_stores_only_valid:
  assumes "http_setup_handler env now request pt = (r, pt', tr)"
  shows "pt_node pt' = pt_node pt \<and> (pt_config pt' = pt_config pt \<or>
    (\<exists>c. valid_setup c \<and> node_config_save (pe_config env) (Some c) (pt_config pt) = (r, pt_config pt')))"
  using assms by (rule setup_handler_config)

subsection \<open>The message list\<close>

lemma send_all_ok:
  assumes "\<forall>tr. rq_result request tr = ESP_OK"
  shows "send_all request cs tr = (ESP_OK, tr @ map Send_Chunk cs)"
  using assms by (induction cs arbitrary: tr) (simp_all add: httpd_resp_send_chunk_def Let_def)

lemma write_messages_ok:
  assumes "\<forall>tr. rq_result request tr = ESP_OK"
  shows "write_messages request ms first tr = tr @ (case ms of [] \<Rightarrow> [] | m # ms \<Rightarrow> map Send_Chunk (message_chunks m first @ concat (map (\<lambda>m. message_chunks m False) ms)))"
  by (induction ms arbitrary: first tr)
    (auto simp: write_message_json_chunk_def send_all_ok [OF assms] split: list.splits)

text \<open>
  C29. The message list as a client reads it. The comma before a message is sent as a chunk
  of its own, for the first message an empty one, and an empty chunk ends the body: as soon
  as there is a message the client receives the single byte \<open>[\<close>; without messages it
  receives \<open>[]\<close>.
\<close>

theorem message_list_cut_off:
  assumes "has_session now request pt" "\<forall>tr. rq_result request tr = ESP_OK" "http_messages_handler now request pt = (r, pt', tr)"
  shows "chunked_body tr = (if message_store_copy_all MAX_MESSAGES (tx_store (scheduler (pt_node pt))) = [] then lit ''[]'' else lit ''['')"
proof -
  define ms where "ms = message_store_copy_all MAX_MESSAGES (tx_store (scheduler (pt_node pt)))"
  define tail where "tail = [Send_Chunk (lit '']''), Set_Type (lit ''application/json''), Send_Chunk []]"
  have tr: "tr = [Set_Type (lit ''application/json''), Send_Chunk (lit ''['')] @
      (case ms of [] \<Rightarrow> [] | m # ms \<Rightarrow> map Send_Chunk (message_chunks m True @ concat (map (\<lambda>m. message_chunks m False) ms))) @ tail"
    using assms(2,3) by (simp add: messages.works_with_session [OF assms(1)] http_messages_body_def httpd_resp_send_chunk_def
        write_messages_ok [OF assms(2)] ms_def tail_def Let_def)
  show ?thesis
  proof (cases ms)
    case Nil
    then show ?thesis by (simp add: tr tail_def lit_def flip: ms_def)
  next
    case (Cons m ms')
    then have "tr = [Set_Type (lit ''application/json''), Send_Chunk (lit ''['')] @ Send_Chunk [] #
        map Send_Chunk (tl (message_chunks m True) @ concat (map (\<lambda>m. message_chunks m False) ms')) @ tail"
      by (simp add: tr message_chunks_def)
    then have "chunked_body tr = chunked_body [Set_Type (lit ''application/json''), Send_Chunk (lit ''['')]"
      by (simp only: chunked_body_ended)
    with Cons show ?thesis by (simp add: lit_def flip: ms_def)
  qed
qed

subsection \<open>Sending\<close>

text \<open>
  A message goes out at most every ten seconds: when \<open>/send\<close> changes the node, the
  form had a valid destination, a known type and priority and a payload, and a thousand
  ticks have passed since the last accepted one.
\<close>

theorem send_rate_limited:
  assumes "http_send_handler env now t request pt = (r, pt', tr)" "pt_node pt' \<noteq> pt_node pt"
  shows "1000 \<le> t 0 - pt_last_send_tick pt \<and> pt_last_send_tick pt' = t 1 \<and>
    (\<exists>tr0 body tr1 sender destination type priority payload. http_read_body_checked request (zeros 384) tr0 = (ESP_OK, body, tr1) \<and>
       send_form body = (sender, True, destination, type, priority, payload) \<and>
       send_error True destination sender type priority payload = None)"
proof -
  obtain r0 p0 tr0 where g: "require_session now request pt = (r0, p0, tr0)" by (metis prod_cases3)
  then have p0: "pt_node p0 = pt_node pt" "pt_last_send_tick p0 = pt_last_send_tick pt"
    by (auto simp: require_session_cases split: if_splits)
  obtain rb body tr1 where b: "http_read_body_checked request (zeros 384) tr0 = (rb, body, tr1)" by (metis prod_cases3)
  obtain sn hd ds ty pr pl where f: "send_form body = (sn, hd, ds, ty, pr, pl)" by (metis prod_cases6)
  have e: "send_error hd ds sn ty pr pl = None" and rb: "rb = ESP_OK"
    using assms g b f p0 by (auto simp: http_send_handler_def http_send_body_def split: if_splits prod.splits option.splits)
  from e have "hd" by (auto simp: send_error_def split: if_splits)
  moreover have "1000 \<le> t 0 - pt_last_send_tick pt \<and> pt_last_send_tick pt' = t 1"
    using assms g b f p0 e by (auto simp: http_send_handler_def http_send_body_def Let_def not_less split: if_splits prod.splits)
  ultimately show ?thesis using f e b unfolding rb by fastforce
qed

subsection \<open>A portal to try\<close>

definition sample_env :: "(bytes \<rightharpoonup> bytes, u32 option, forward_job_t list \<times> forward_job_t list, mesh_packet_t list \<times> mesh_packet_t list, bytes, bytes, key_flash) portal_env" where
  "sample_env = \<lparr>pe_services = sample_services, pe_config = key_nvs, pe_mounted = False, pe_files = (\<lambda>_. None)\<rparr>"

definition sample_portal :: "bool \<Rightarrow> (bytes \<rightharpoonup> bytes, u32 option, forward_job_t list \<times> forward_job_t list, mesh_packet_t list \<times> mesh_packet_t list, key_flash) portal" where
  "sample_portal configured = \<lparr>pt_auth = sample_auth,
     pt_config = \<lparr>node_config = node_config_zero\<lparr>nc_configured := configured\<rparr>, identity = zeros 32, config_flash = (\<lambda>_. None, [lit ''web_pin'' \<mapsto> lit ''87654321''])\<rparr>,
     pt_node = sample_node (lit ''ALPHA''), pt_last_send_tick = 0, pt_frames = []\<rparr>"

theorem missing_session_not_enforced_witness:
  "portal_namespace (fst (snd (http_reset_handler sample_env 0 (sample_request None []) (sample_portal True)))) =
    \<lparr>ns_config = (\<lambda>_. None, \<lambda>_. None), ns_messages = Map.empty, ns_counter = None\<rparr>"
proof -
  have "rq_cookie (sample_request None []) = None" "pt_configured (sample_portal True)" "rq_method (sample_request None []) = HTTP_POST"
    "\<forall>tr. rq_result (sample_request None []) tr = ESP_OK"
    by (simp_all add: sample_request_def sample_portal_def pt_configured_def)
  from missing_session_not_enforced [OF this, of sample_env 0]
  have e: "portal_namespace (fst (snd (http_reset_handler sample_env 0 (sample_request None []) (sample_portal True)))) =
      node_config_erase (pe_config sample_env) (sv_store (pe_services sample_env)) (sv_cfg (pe_services sample_env))
        (portal_namespace (sample_portal True))" by blast
  show ?thesis unfolding e
    by (simp add: sample_env_def sample_services_def sample_node_def idle_sched_def sample_seq_def node_config_erase_def portal_namespace_def sample_portal_def key_nvs_def map_nvs_def cell_nvs_def
        erase_message_keys_def erase_counter_keys_def)
qed

theorem setup_stores_only_valid_witness:
  "pt_node (fst (snd (http_setup_handler sample_env 0 (sample_request None (lit ''node_id=A'')) (sample_portal False)))) = sample_node (lit ''ALPHA'')"
proof -
  obtain r pt' tr where h: "http_setup_handler sample_env 0 (sample_request None (lit ''node_id=A'')) (sample_portal False) = (r, pt', tr)"
    by (metis prod_cases3)
  from setup_stores_only_valid [OF h] h show ?thesis by (simp add: sample_portal_def)
qed

theorem message_list_cut_off_witness:
  "\<exists>pt :: (bytes \<rightharpoonup> bytes, u32 option, forward_job_t list \<times> forward_job_t list, mesh_packet_t list \<times> mesh_packet_t list, key_flash) portal.
     message_store_copy_all MAX_MESSAGES (tx_store (scheduler (pt_node pt))) = [sample_message] \<and>
     chunked_body (snd (snd (http_messages_handler 0 (sample_request None []) pt))) = lit ''[''"
proof -
  let ?nd = "sample_node (lit ''ALPHA'')"
  let ?pt = "(sample_portal False)\<lparr>pt_node := ?nd\<lparr>scheduler := (scheduler ?nd)\<lparr>tx_store := sample_store
    \<lparr>persisted_slots := [persisted_message_zero\<lparr>pm_state := 2, pm_message := sample_message\<rparr>]\<rparr>\<rparr>\<rparr>\<rparr>"
  have m: "message_store_copy_all MAX_MESSAGES (tx_store (scheduler (pt_node ?pt))) = [sample_message]"
    by (simp add: message_store_copy_all_def)
  have s: "has_session 0 (sample_request None []) ?pt" "\<forall>tr. rq_result (sample_request None []) tr = ESP_OK"
    by (simp_all add: has_session_def sample_portal_def pt_configured_def http_auth_request_has_session_def sample_request_def)
  obtain r pt' tr where h: "http_messages_handler 0 (sample_request None []) ?pt = (r, pt', tr)" by (metis prod_cases3)
  have "chunked_body tr = lit ''[''" using message_list_cut_off [OF s h] m by simp
  then show ?thesis using m h by (intro exI [of _ ?pt]) simp
qed

lemma queue_message_sequence:
  "sequence (queue_message sv t1 t2 loc d ty pr pl nd) = snd (mesh_sequence_save (sv_cfg sv) (snd (mesh_sequence_next (sv_cfg sv) (sequence nd))))"
  by (auto simp: queue_message_def Let_def split: prod.splits option.splits bool.splits)

lemma form_field_body:
  assumes "body_arrives n b req" "0 \<notin> set (lit key)" "38 \<notin> set (lit key)" "0 < length buf"
  shows "form_field (pad n b) key buf = (case form_lookup b (lit key) of None \<Rightarrow> buf | Some v \<Rightarrow> form_store buf v)"
  using form_value_body [OF assms] by (simp add: form_field_def split: option.splits)

theorem send_rate_limited_witness:
  "\<exists>pt'. http_send_handler sample_env 0 (\<lambda>i. of_nat i + 2000) (sample_request None (lit ''destination=ALL&type=INFO&priority=LOW&payload=hi'')) (sample_portal False) =
      (ESP_OK, pt', snd (http_auth_send_redirect (sample_request None (lit ''destination=ALL&type=INFO&priority=LOW&payload=hi'')) (lit ''/'') [])) \<and>
    pt_node pt' \<noteq> pt_node (sample_portal False) \<and> pt_last_send_tick pt' = 2001"
proof -
  let ?b = "lit ''destination=ALL&type=INFO&priority=LOW&payload=hi''"
  let ?req = "sample_request None ?b" and ?pt = "sample_portal False"
  have "0 \<notin> set ?b" "length ?b < 384" "?b \<noteq> []" by code_simp+
  note b = sample_body [OF this, of None]
  have k: "list_all (\<lambda>k. 0 \<notin> set (lit k) \<and> 38 \<notin> set (lit k)) [''sender_name'', ''destination'', ''type'', ''priority'', ''payload'']"
    and l: "form_lookup ?b (lit ''sender_name'') = None" "form_lookup ?b (lit ''destination'') = Some (lit ''ALL'')"
      "form_lookup ?b (lit ''type'') = Some (lit ''INFO'')" "form_lookup ?b (lit ''priority'') = Some (lit ''LOW'')"
      "form_lookup ?b (lit ''payload'') = Some (lit ''hi'')" by code_simp+
  let ?d = "form_store (zeros 32) (lit ''ALL'')" and ?t = "copy_field_no_delims (form_store (zeros 32) (lit ''INFO'')) (form_store (zeros 32) (lit ''INFO''))"
    and ?p = "copy_field_no_delims (form_store (zeros 32) (lit ''LOW'')) (form_store (zeros 32) (lit ''LOW''))" and ?l = "form_store (zeros PAYLOAD_LEN) (lit ''hi'')"
  have f: "send_form (pad 384 ?b) = (zeros 32, True, ?d, ?t, ?p, ?l)"
    using k l by (simp add: send_form_def form_field_body [OF b] form_value_body [OF b] Let_def)
  have e: "send_error True ?d (zeros 32) ?t ?p ?l = None" "at (zeros 32) 0 = 0" by code_simp+
  obtain nd where nd: "queue_message sample_services 2002 2003 (nc_location (node_config (pt_config ?pt))) ?d ?t ?p ?l (pt_node ?pt) = nd" by blast
  have h: "http_send_handler sample_env 0 (\<lambda>i. of_nat i + 2000) ?req ?pt =
      (ESP_OK, (touched 0 ?req ?pt)\<lparr>pt_last_send_tick := 2001, pt_node := nd\<rparr>, snd (http_auth_send_redirect ?req (lit ''/'') []))"
  proof -
    have "has_session 0 ?req ?pt"
      by (simp add: has_session_def sample_portal_def pt_configured_def http_auth_request_has_session_def)
    moreover have "pt_last_send_tick ?pt = 0" by (simp add: sample_portal_def)
    ultimately show ?thesis
      using nd by (simp add: send.works_with_session http_send_body_def body_arrives_read [OF b] f e sample_env_def http_auth_send_redirect_def Let_def)
  qed
  have "sequence_counter (sequence nd) \<noteq> sequence_counter (sequence (pt_node ?pt))"
    unfolding nd [symmetric] queue_message_sequence sample_services_def services.simps by code_simp
  then have n: "pt_node ((touched 0 ?req ?pt)\<lparr>pt_last_send_tick := 2001, pt_node := nd\<rparr>) \<noteq> pt_node ?pt" by auto
  from send_rate_limited [OF h n] h n show ?thesis by auto
qed

end
