(* ===== verification/Http_Server.thy ===== *)
theory Http_Server
  imports Http_Portal_Props
begin

text \<open>
  \<open>src/http/http_server.c\<close>: the route table of the portal, and the portal as a whole:
  a request finds a route and its handler runs on the state. The server of ESP-IDF is a
  parameter: \<open>uri_match\<close> is \<open>httpd_uri_match_wildcard\<close>, and the first
  registered route whose template and method match is taken; without one the server answers
  by itself.
\<close>

datatype http_handler_t =
    Index_Handler | Login_Page_Handler | Login_Handler | Logout_Handler | Setup_Get_Handler | Setup_Handler
  | Reset_Handler | Time_Handler | Send_Handler | Sync_Handler | Status_Handler | Messages_Handler | Captive_Handler

definition http_routes :: "(bytes \<times> http_method \<times> http_handler_t) list" where
  "http_routes =
    [(lit ''/'', HTTP_GET, Index_Handler),
     (lit ''/login-page'', HTTP_GET, Login_Page_Handler),
     (lit ''/login'', HTTP_POST, Login_Handler),
     (lit ''/logout'', HTTP_POST, Logout_Handler),
     (lit ''/setup'', HTTP_GET, Setup_Get_Handler),
     (lit ''/setup'', HTTP_POST, Setup_Handler),
     (lit ''/reset'', HTTP_POST, Reset_Handler),
     (lit ''/settime'', HTTP_POST, Time_Handler),
     (lit ''/send'', HTTP_POST, Send_Handler),
     (lit ''/sync'', HTTP_POST, Sync_Handler),
     (lit ''/api/status'', HTTP_GET, Status_Handler),
     (lit ''/api/messages'', HTTP_GET, Messages_Handler),
     (lit ''/generate_204'', HTTP_GET, Captive_Handler),
     (lit ''/gen_204'', HTTP_GET, Captive_Handler),
     (lit ''/hotspot-detect.html'', HTTP_GET, Captive_Handler),
     (lit ''/connecttest.txt'', HTTP_GET, Captive_Handler),
     (lit ''/ncsi.txt'', HTTP_GET, Captive_Handler),
     (lit ''/*'', HTTP_GET, Captive_Handler)]"

definition find_route :: "(bytes \<Rightarrow> bytes \<Rightarrow> bool) \<Rightarrow> http_request \<Rightarrow> http_handler_t option" where
  "find_route uri_match request =
    map_option (\<lambda>(uri, method, handler). handler)
      (find (\<lambda>(uri, method, handler). uri_match uri (rq_uri request) \<and> method = rq_method request) http_routes)"

text \<open>What a handler reads while it runs: ticks, random numbers, and the figures of the status page.\<close>

record handler_reads =
  hr_now :: u32
  hr_now2 :: u32
  hr_ticks :: "nat \<Rightarrow> u32"
  hr_random :: "u32 \<times> u32"
  hr_status :: status_context

definition on_auth ::
  "(auth_state \<Rightarrow> esp_err_t \<times> auth_state \<times> http_trace) \<Rightarrow> ('n, 'c, 'q, 'r, 'f) portal \<Rightarrow>
   esp_err_t \<times> ('n, 'c, 'q, 'r, 'f) portal \<times> http_trace" where
  "on_auth f pt = (case f (pt_auth pt) of (result, auth, tr) \<Rightarrow> (result, pt\<lparr>pt_auth := auth\<rparr>, tr))"

fun run_handler ::
  "('n, 'c, 'q, 'r, 'k, 'o, 'f) portal_env \<Rightarrow> handler_reads \<Rightarrow> http_request \<Rightarrow> http_handler_t \<Rightarrow> ('n, 'c, 'q, 'r, 'f) portal \<Rightarrow>
   esp_err_t \<times> ('n, 'c, 'q, 'r, 'f) portal \<times> http_trace" where
  "run_handler env rd request Index_Handler pt = http_portal_index_handler env (hr_now rd) request pt"
| "run_handler env rd request Login_Page_Handler pt = http_portal_login_page_handler env (hr_now rd) request pt"
| "run_handler env rd request Login_Handler pt = on_auth (http_auth_login_handler (pt_configured pt)
     (Some (nc_web_pin (node_config (pt_config pt)))) (http_portal_send_file env) (hr_now rd) (hr_now2 rd) request) pt"
| "run_handler env rd request Logout_Handler pt = on_auth (http_auth_logout_handler (pt_configured pt)
     (fst (hr_random rd)) (snd (hr_random rd)) request) pt"
| "run_handler env rd request Setup_Get_Handler pt = http_setup_get_handler env (hr_now rd) request pt"
| "run_handler env rd request Setup_Handler pt = http_setup_handler env (hr_now rd) request pt"
| "run_handler env rd request Reset_Handler pt = http_reset_handler env (hr_now rd) request pt"
| "run_handler env rd request Time_Handler pt = http_time_handler env (hr_now rd) (hr_ticks rd) request pt"
| "run_handler env rd request Send_Handler pt = http_send_handler env (hr_now rd) (hr_ticks rd) request pt"
| "run_handler env rd request Sync_Handler pt = http_sync_handler env (hr_now rd) request pt"
| "run_handler env rd request Status_Handler pt = http_status_handler (hr_status rd) (hr_now rd) (hr_ticks rd) request pt"
| "run_handler env rd request Messages_Handler pt = http_messages_handler (hr_now rd) request pt"
| "run_handler env rd request Captive_Handler pt =
     (case http_portal_captive_handler request of (result, tr) \<Rightarrow> (result, pt, tr))"

definition http_serve ::
  "(bytes \<Rightarrow> bytes \<Rightarrow> bool) \<Rightarrow> ('n, 'c, 'q, 'r, 'k, 'o, 'f) portal_env \<Rightarrow> handler_reads \<Rightarrow> http_request \<Rightarrow>
   ('n, 'c, 'q, 'r, 'f) portal \<Rightarrow> ('n, 'c, 'q, 'r, 'f) portal \<times> http_trace" where
  "http_serve uri_match env rd request pt =
    (case find_route uri_match request of None \<Rightarrow> (pt, []) | Some handler \<Rightarrow> snd (run_handler env rd request handler pt))"

subsection \<open>Which handler runs\<close>

text \<open>
  What the routes rely on: the query is not part of the path, a template without a wildcard
  matches itself only, and a final star matches every continuation.
\<close>

definition uri_path :: "bytes \<Rightarrow> bytes" where
  "uri_path uri = takeWhile (\<lambda>c. c \<noteq> 63) uri"

definition wildcard_match :: "(bytes \<Rightarrow> bytes \<Rightarrow> bool) \<Rightarrow> bool" where
  "wildcard_match uri_match \<longleftrightarrow>
    (\<forall>template uri. 42 \<notin> set template \<and> 63 \<notin> set template \<longrightarrow> uri_match template uri = (uri_path uri = template)) \<and>
    (\<forall>stem uri. 42 \<notin> set stem \<and> 63 \<notin> set stem \<longrightarrow> uri_match (stem @ [42]) uri = (take (length stem) (uri_path uri) = stem))"

definition simple_match :: "bytes \<Rightarrow> bytes \<Rightarrow> bool" where
  "simple_match template uri =
    (if template \<noteq> [] \<and> last template = 42 then take (length template - 1) (uri_path uri) = butlast template
     else uri_path uri = template)"

lemma simple_wildcard: "wildcard_match simple_match"
  by (auto simp: wildcard_match_def simple_match_def dest: last_in_set)

text \<open>The templates of the table are plain but the last.\<close>

lemma routes_plain: "list_all (\<lambda>(uri, method, handler). 42 \<notin> set uri \<and> 63 \<notin> set uri) (butlast http_routes)"
  by code_simp

lemma routes_last: "http_routes = butlast http_routes @ [(lit ''/'' @ [42], HTTP_GET, Captive_Handler)]"
  by code_simp

lemma find_append_none: "find P xs = None \<Longrightarrow> find P (xs @ ys) = find P ys"
  by (induction xs) (auto split: if_splits)

lemma butlast_routes_match:
  assumes "wildcard_match um"
  shows "find (\<lambda>(uri, method, handler). um uri u \<and> method = m) (butlast http_routes) =
    find (\<lambda>(uri, method, handler). uri_path u = uri \<and> method = m) (butlast http_routes)"
  by (rule find_cong [OF refl]) (use assms routes_plain in \<open>fastforce simp: wildcard_match_def list_all_iff\<close>)

lemma star_match: "wildcard_match um \<Longrightarrow> um (lit ''/'' @ [42]) u = (take 1 (uri_path u) = lit ''/'')"
proof -
  assume w: "wildcard_match um"
  have "42 \<notin> set (lit ''/'') \<and> 63 \<notin> set (lit ''/'')" "length (lit ''/'') = 1" by code_simp+
  then show ?thesis using w unfolding wildcard_match_def by metis
qed

subsection \<open>What the handlers leave alone\<close>

lemma captive_redirects: "http_portal_captive_handler request = (r, tr) \<Longrightarrow> tr = snd (http_auth_send_redirect request (lit ''/'') [])"
  by (simp add: http_portal_captive_handler_def)

text \<open>
  A page may set the online and stale flags of the roster's and the route table's entries (the
  status page) and renew the clock of the session it was asked with, nothing else.
\<close>

definition flags_refreshed :: "('n, 'c, 'q, 'r) node \<Rightarrow> ('n, 'c, 'q, 'r) node \<Rightarrow> bool" where
  "flags_refreshed nd nd' \<longleftrightarrow> nd' = nd\<lparr>known_nodes := known_nodes nd', routes := routes nd'\<rparr> \<and>
     roster_count (known_nodes nd') = roster_count (known_nodes nd) \<and> route_count (routes nd') = route_count (routes nd) \<and>
     map (ro_online_update (\<lambda>_. False)) (roster (known_nodes nd')) = map (ro_online_update (\<lambda>_. False)) (roster (known_nodes nd)) \<and>
     map (re_stale_update (\<lambda>_. False)) (route_table (routes nd')) = map (re_stale_update (\<lambda>_. False)) (route_table (routes nd))"

definition read_only :: "u32 \<Rightarrow> http_request \<Rightarrow> ('n, 'c, 'q, 'r, 'f) portal \<Rightarrow> ('n, 'c, 'q, 'r, 'f) portal \<Rightarrow> bool" where
  "read_only now request pt pt' \<longleftrightarrow>
     pt_config pt' = pt_config pt \<and> pt_last_send_tick pt' = pt_last_send_tick pt \<and> pt_frames pt' = pt_frames pt \<and>
     (pt_auth pt' = pt_auth pt \<or>
      pt_configured pt \<and> has_session now request pt \<and> pt_auth pt' = (pt_auth pt)\<lparr>session_last_activity_tick := now\<rparr>) \<and>
     flags_refreshed (pt_node pt) (pt_node pt')"

lemma flags_refreshed_refl [simp]: "flags_refreshed nd nd"
  by (simp add: flags_refreshed_def)

lemma roster_flags_loop:
  "roster_count (roster_snapshot_loop n i now st) = roster_count st \<and>
   map (ro_online_update (\<lambda>_. False)) (roster (roster_snapshot_loop n i now st)) = map (ro_online_update (\<lambda>_. False)) (roster st)"
proof (induction n arbitrary: i st)
  case (Suc n)
  have "map (ro_online_update (\<lambda>_. False)) (es[i := (es ! i)\<lparr>ro_online := b\<rparr>]) = map (ro_online_update (\<lambda>_. False)) es" for es :: "roster_entry_t list" and b
    by (cases "i < length es") (simp_all add: map_update list_update_same_conv list_update_beyond)
  then show ?case using Suc by simp
qed simp

lemma snapshot_flags:
  "flags_refreshed nd (nd\<lparr>known_nodes := snd (roster_get_snapshot m t (known_nodes nd)), routes := snd (route_table_get_snapshot k u (routes nd))\<rparr>)"
proof -
  have "map (re_stale_update (\<lambda>_. False)) (map (\<lambda>e. refresh_stale_state e u) (take n es) @ drop n es) = map (re_stale_update (\<lambda>_. False)) es"
    for n and es :: "route_entry_t list"
  proof -
    have "re_stale_update (\<lambda>_. False) \<circ> (\<lambda>e. refresh_stale_state e u) = re_stale_update (\<lambda>_. False)" by (rule ext) (simp add: refresh_stale_state_def)
    then show ?thesis by (simp flip: take_map drop_map)
  qed
  then show ?thesis using roster_flags_loop
    by (auto simp: flags_refreshed_def roster_get_snapshot_def route_table_get_snapshot_def Let_def)
qed

lemma read_only_refl [simp]: "read_only now request pt pt" by (simp add: read_only_def)

lemma session_clock:
  "http_auth_request_has_session configured now request st = (b, st') \<Longrightarrow> st' = st \<or> configured \<and> b \<and> st' = st\<lparr>session_last_activity_tick := now\<rparr>"
  by (auto simp: http_auth_request_has_session_def Let_def split: if_splits option.splits)

lemma read_only_checked:
  assumes "http_auth_request_has_session (pt_configured pt) now request (pt_auth pt) = (b, auth)"
  shows "read_only now request pt (pt\<lparr>pt_auth := auth\<rparr>)"
  using session_clock [OF assms] assms by (auto simp: read_only_def has_session_def)

lemma read_only_touched: "read_only now request pt (touched now request pt)"
  unfolding touched_def by (rule read_only_checked [OF prod.collapse [symmetric]])

lemma read_only_pages:
  "read_only now request pt (fst (snd (http_portal_index_handler env now request pt)))"
  "read_only now request pt (fst (snd (http_portal_login_page_handler env now request pt)))"
  "read_only now request pt (fst (snd (http_setup_get_handler env now request pt)))"
  by (auto simp: http_portal_index_handler_def http_portal_login_page_handler_def http_setup_get_handler_def Let_def
      read_only_checked split: prod.splits)

lemma read_only_messages: "read_only now request pt (fst (snd (http_messages_handler now request pt)))"
  by (auto simp: http_messages_handler_def http_messages_body_def require_session_cases Let_def read_only_touched
      split: prod.splits)

lemma read_only_status_body:
  assumes "read_only now request pt p" "pt_node p = pt_node pt"
  shows "read_only now request pt (fst (snd (http_status_body ctx t request p tr)))"
  using assms snapshot_flags unfolding read_only_def http_status_body_def Let_def case_prod_unfold by simp

lemma read_only_status: "read_only now request pt (fst (snd (http_status_handler ctx now t request pt)))"
  by (simp add: http_status_handler_def require_session_cases read_only_touched read_only_status_body)

lemma read_only_config: "read_only now request pt pt' \<Longrightarrow> pt_config pt' = pt_config pt"
  by (simp add: read_only_def)

lemmas pages_keep_config = read_only_pages [THEN read_only_config] read_only_messages [THEN read_only_config]
  read_only_status [THEN read_only_config]

text \<open>The configuration in use changes only through \<open>/setup\<close>.\<close>

lemma other_handlers_keep_config:
  assumes "handler \<noteq> Setup_Handler" "run_handler env rd request handler pt = (r, pt', tr)"
  shows "node_config (pt_config pt') = node_config (pt_config pt)"
proof (cases handler)
  case Time_Handler
  then show ?thesis using assms(2)
    by (auto simp: http_time_handler_def http_time_body_def require_session_cases Let_def split: if_splits prod.splits)
next
  case Send_Handler
  then show ?thesis using assms(2)
    by (auto simp: http_send_handler_def http_send_body_def require_session_cases Let_def split: if_splits prod.splits option.splits)
next
  case Sync_Handler
  then show ?thesis using assms(2)
    by (auto simp: http_sync_handler_def http_sync_body_def require_session_cases Let_def split: if_splits prod.splits)
next
  case Reset_Handler
  then show ?thesis using assms(2)
    by (auto simp: http_reset_handler_def http_reset_body_def config_erased_def require_session_cases split: if_splits)
qed (use assms pages_keep_config(1-3) [of env "hr_now rd" request pt] pages_keep_config(4) [of "hr_now rd" request pt]
      pages_keep_config(5) [of "hr_status rd" "hr_now rd" "hr_ticks rd" request pt]
     in \<open>auto simp: on_auth_def split: prod.splits\<close>)

lemma save_config_step:
  "node_config_save api (Some c) st = (r, st') \<Longrightarrow> node_config st' = node_config st \<or> node_config st' = c"
  by (auto simp: node_config_save_def split: if_splits prod.splits)

lemma setup_config_step:
  assumes "http_setup_handler env now request pt = (r, pt', tr)"
  shows "node_config (pt_config pt') = node_config (pt_config pt) \<or> valid_setup (node_config (pt_config pt'))"
  using setup_handler_config [OF assms] by (auto dest: save_config_step)

subsection \<open>The portal as a whole\<close>

definition portal_reads :: handler_reads where
  "portal_reads = \<lparr>hr_now = 0, hr_now2 = 0, hr_ticks = (\<lambda>_. 0), hr_random = (0, 0),
     hr_status = \<lparr>sc_ssid = [], sc_storage_status = [], sc_radio_state = [], sc_clients = 0\<rparr>\<rparr>"

text \<open>The states the portal reaches by serving requests, whatever they are and whoever sends them.\<close>

inductive portal_reach ::
  "(bytes \<Rightarrow> bytes \<Rightarrow> bool) \<Rightarrow> ('n, 'c, 'q, 'r, 'k, 'o, 'f) portal_env \<Rightarrow> ('n, 'c, 'q, 'r, 'f) portal \<Rightarrow>
   ('n, 'c, 'q, 'r, 'f) portal \<Rightarrow> bool" for uri_match env pt0 where
  portal_start: "portal_reach uri_match env pt0 pt0"
| portal_request: "portal_reach uri_match env pt0 pt \<Longrightarrow> http_serve uri_match env rd request pt = (pt', tr) \<Longrightarrow>
    portal_reach uri_match env pt0 pt'"

lemma serve_config_step:
  assumes "http_serve um env rd request pt = (pt', tr)"
  shows "node_config (pt_config pt') = node_config (pt_config pt) \<or> valid_setup (node_config (pt_config pt'))"
proof (cases "find_route um request")
  case (Some handler)
  obtain r where h: "run_handler env rd request handler pt = (r, pt', tr)"
    using assms Some by (cases "run_handler env rd request handler pt") (simp add: http_serve_def)
  show ?thesis
  proof (cases "handler = Setup_Handler")
    case True
    then show ?thesis using h setup_config_step [of env "hr_now rd" request pt r pt' tr] by simp
  qed (use other_handlers_keep_config [OF _ h] in simp)
qed (use assms in \<open>simp add: http_serve_def\<close>)

text \<open>
  C14. Whatever requests the portal serves and whoever sends them, the configuration in use is
  the one the node started with or a valid one: configured, with strong credentials, a proper
  node id, a known role and priority, and names without delimiters. (What a node starts with
  comes from \<open>node_config_load\<close>, which checks the credentials only.)
\<close>

theorem portal_config_valid:
  assumes "portal_reach uri_match env pt0 pt"
  shows "node_config (pt_config pt) = node_config (pt_config pt0) \<or> valid_setup (node_config (pt_config pt))"
  using assms
proof (induction rule: portal_reach.induct)
  case (portal_request pt rd request pt' tr)
  then show ?case using serve_config_step [OF portal_request(2)] by auto
qed simp

text \<open>A node with a valid configuration keeps one, here when a stranger posts a setup form.\<close>

definition valid_config :: node_config_t where
  "valid_config = node_config_zero\<lparr>nc_configured := True, nc_node_id := pad 32 (lit ''ALPHA''), nc_node_name := pad 32 (lit ''Alpha''),
     nc_node_role := pad 32 (lit ''household''), nc_default_destination := pad 32 (lit ''ALL''), nc_default_priority := pad 32 (lit ''NORMAL''),
     nc_ap_password := pad 32 (lit ''longenough1''), nc_web_pin := pad 32 (lit ''97531864''), nc_duress_pin := pad 32 (lit ''86420975''),
     nc_network_key := pad 32 (lit ''a network key of our own'')\<rparr>"

theorem portal_config_valid_witness:
  "let pt = (sample_portal True)\<lparr>pt_config := (pt_config (sample_portal True))\<lparr>node_config := valid_config\<rparr>\<rparr>;
       request = (sample_request None (lit ''node_id=B''))\<lparr>rq_uri := lit ''/setup''\<rparr>
   in valid_setup (node_config (pt_config (fst (http_serve simple_match sample_env portal_reads request pt))))"
proof -
  let ?pt = "(sample_portal True)\<lparr>pt_config := (pt_config (sample_portal True))\<lparr>node_config := valid_config\<rparr>\<rparr>"
  have "valid_setup valid_config" by code_simp
  then have v: "valid_setup (node_config (pt_config ?pt))" by simp
  have "portal_reach simple_match sample_env ?pt (fst (http_serve simple_match sample_env portal_reads request ?pt))" for request
    by (rule portal_request [OF portal_start prod.collapse [symmetric]])
  from portal_config_valid [OF this] v show ?thesis unfolding Let_def by metis
qed

lemma get_routes: "(uri, HTTP_GET, handler) \<in> set http_routes \<Longrightarrow>
  handler \<in> {Index_Handler, Login_Page_Handler, Setup_Get_Handler, Status_Handler, Messages_Handler, Captive_Handler}"
  by (auto simp: http_routes_def)

text \<open>
  C24. A GET request, to whatever address and with or without a session, changes nothing but
  two things: a request that carries the session renews its clock, and the online and stale
  flags in the roster and the route table are brought up to date. It saves no configuration,
  replaces no token, counts no login, drops or adds no entry, and sends, stores or forwards no
  message.
\<close>

theorem get_requests_read_only:
  assumes "rq_method request = HTTP_GET" "http_serve uri_match env rd request pt = (pt', tr)"
  shows "read_only (hr_now rd) request pt pt'"
proof (cases "find_route uri_match request")
  case (Some handler)
  then obtain uri where "(uri, HTTP_GET, handler) \<in> set http_routes"
    using assms(1) by (auto simp: find_route_def find_Some_iff) (metis nth_mem)
  note handler = get_routes [OF this]
  have "pt' = fst (snd (run_handler env rd request handler pt))" using assms(2) Some by (simp add: http_serve_def)
  then show ?thesis using handler
    by (auto simp: read_only_pages read_only_status read_only_messages split: prod.splits)
qed (use assms(2) in \<open>auto simp: http_serve_def\<close>)

theorem get_requests_read_only_witness:
  "read_only (hr_now portal_reads) ((sample_request None [])\<lparr>rq_method := HTTP_GET\<rparr>) (sample_portal True)
    (fst (http_serve simple_match sample_env portal_reads ((sample_request None [])\<lparr>rq_method := HTTP_GET\<rparr>) (sample_portal True)))"
  by (rule get_requests_read_only [OF _ prod.collapse [symmetric]]) simp

text \<open>
  Every page a device may ask for to detect the internet, that is every path the table
  does not name, is answered with a redirect to the portal's front page and leaves the node
  as it was.
\<close>

theorem unknown_pages_redirected:
  assumes "wildcard_match uri_match" "rq_method request = HTTP_GET" "take 1 (uri_path (rq_uri request)) = lit ''/''"
    "\<forall>handler. (uri_path (rq_uri request), HTTP_GET, handler) \<notin> set http_routes"
  shows "http_serve uri_match env rd request pt = (pt, snd (http_auth_send_redirect request (lit ''/'') []))"
proof -
  have b: "set (butlast http_routes) \<subseteq> set http_routes" by (meson in_set_butlastD subsetI)
  have "find (\<lambda>(uri, method, handler). uri_path (rq_uri request) = uri \<and> method = rq_method request) (butlast http_routes) = None"
    using assms(2,4) b by (auto simp: find_None_iff)
  then have "find (\<lambda>(uri, method, handler). uri_match uri (rq_uri request) \<and> method = rq_method request) (butlast http_routes) = None"
    unfolding butlast_routes_match [OF assms(1)] .
  then have "find_route uri_match request = Some Captive_Handler"
    unfolding find_route_def using assms(2,3)
    by (subst routes_last) (simp add: find_append_none star_match [OF assms(1)] del: append_butlast_last_id)
  then show ?thesis by (simp add: http_serve_def http_portal_captive_handler_def case_prod_unfold)
qed

theorem unknown_pages_redirected_witness:
  "fst (http_serve simple_match sample_env portal_reads ((sample_request None [])\<lparr>rq_method := HTTP_GET\<rparr>) (sample_portal True)) = sample_portal True"
proof -
  let ?r = "(sample_request None [])\<lparr>rq_method := HTTP_GET\<rparr>"
  have p: "rq_uri ?r = lit ''/login''" "uri_path (lit ''/login'') = lit ''/login''" "take 1 (lit ''/login'') = lit ''/''"
    by (simp add: sample_request_def, code_simp, code_simp)
  have "list_all (\<lambda>(uri, method, handler). \<not> (uri = lit ''/login'' \<and> method = HTTP_GET)) http_routes" by code_simp
  then have "\<forall>handler. (uri_path (rq_uri ?r), HTTP_GET, handler) \<notin> set http_routes" by (auto simp: p list_all_iff)
  moreover have "take 1 (uri_path (rq_uri ?r)) = lit ''/''" unfolding p ..
  ultimately have "http_serve simple_match sample_env portal_reads ?r (sample_portal True) =
      (sample_portal True, snd (http_auth_send_redirect ?r (lit ''/'') []))"
    by (intro unknown_pages_redirected [OF simple_wildcard]) simp_all
  then show ?thesis by simp
qed

end
