(* ===== verification/System_Services.thy ===== *)
theory System_Services
  imports Node_Config_Props Tx_Scheduler Message_Store_Props "HOL-Library.Sublist"
begin

text \<open>
  The small services around the mesh: the status LED (\<open>src/led/status_led.c\<close>), the
  factory reset button (\<open>src/system/factory_reset.c\<close>), the file system's state
  (\<open>src/storage/storage.c\<close>), the start of the flash (\<open>src/app/app_init.c\<close>)
  and the retry stub (\<open>src/mesh/mesh_retry.c\<close>). The remote control peripheral, the
  button's pin, LittleFS and the flash driver are parameters or arguments.
\<close>

subsection \<open>The status LED\<close>

text \<open>What goes to the LED: three bytes in the order green, red, blue, or a pause in ticks.\<close>

datatype led_event = Led_Data bytes | Led_Pause u32

record led_state =
  rgb_led_ready :: bool
  led_trace :: "led_event list"

definition rgb_led_set :: "u8 \<Rightarrow> u8 \<Rightarrow> u8 \<Rightarrow> led_state \<Rightarrow> led_state" where
  "rgb_led_set red green blue st =
    (if \<not> rgb_led_ready st then st else st\<lparr>led_trace := led_trace st @ [Led_Data [green, red, blue]]\<rparr>)"

definition led_pause :: "nat \<Rightarrow> led_state \<Rightarrow> led_state" where
  "led_pause ms st = st\<lparr>led_trace := led_trace st @ [Led_Pause (pdMS_TO_TICKS ms)]\<rparr>"

text \<open>The arguments are the results of the three driver calls.\<close>

definition status_led_init :: "esp_err_t \<Rightarrow> esp_err_t \<Rightarrow> esp_err_t \<Rightarrow> led_state \<Rightarrow> led_state" where
  "status_led_init channel encoder enable st =
    (if channel \<noteq> ESP_OK then st else if encoder \<noteq> ESP_OK then st else if enable \<noteq> ESP_OK then st
     else st\<lparr>rgb_led_ready := True\<rparr>)"

primrec blink_loop :: "nat \<Rightarrow> led_state \<Rightarrow> led_state" where
  "blink_loop 0 st = st"
| "blink_loop (Suc n) st = blink_loop n (led_pause 150 (rgb_led_set 0 0 0 (led_pause 150 (rgb_led_set 0 48 0 st))))"

definition status_led_blink_green :: "int \<Rightarrow> led_state \<Rightarrow> led_state" where
  "status_led_blink_green count st = blink_loop (nat count) st"

lemma blink_ready [simp]: "rgb_led_ready (blink_loop n st) = rgb_led_ready st"
  by (induction n arbitrary: st) (simp_all add: led_pause_def rgb_led_set_def)

text \<open>A blink that is shown ends dark.\<close>

lemma blink_trace:
  "rgb_led_ready st \<Longrightarrow> led_trace (blink_loop n st) =
    led_trace st @ concat (replicate n [Led_Data [48, 0, 0], Led_Pause 15, Led_Data [0, 0, 0], Led_Pause 15])"
  by (induction n arbitrary: st) (simp_all add: led_pause_def rgb_led_set_def pdMS_TO_TICKS_def)

subsection \<open>The factory reset button\<close>

definition FACTORY_RESET_HOLD_MS :: int where "FACTORY_RESET_HOLD_MS = 10000"
definition RESET_WARNING_MS :: int where "RESET_WARNING_MS = 5000"

text \<open>The locals of the task, what it acts on, and whether it has restarted the node.\<close>

record ('f, 'n, 'c) button_state =
  warning_blinked :: bool
  held_ms :: int
  button_led :: led_state
  button_flash :: "('f, 'n, 'c) bems_namespace"
  restarted :: bool

text \<open>One turn of the task; \<open>pressed\<close> is the pin at level 0.\<close>

definition factory_reset_round ::
  "'f config_nvs \<Rightarrow> 'n nvs_api \<Rightarrow> 'c nvs_u32_api \<Rightarrow> bool \<Rightarrow> ('f, 'n, 'c) button_state \<Rightarrow> ('f, 'n, 'c) button_state" where
  "factory_reset_round api store counter pressed st =
    (if pressed then
       (let st = st\<lparr>held_ms := held_ms st + 100\<rparr>;
            st = (if \<not> warning_blinked st \<and> held_ms st \<ge> RESET_WARNING_MS
                  then st\<lparr>button_led := status_led_blink_green 1 (button_led st), warning_blinked := True\<rparr> else st)
        in if held_ms st \<ge> FACTORY_RESET_HOLD_MS
           then st\<lparr>button_led := status_led_blink_green 3 (button_led st),
                   button_flash := node_config_erase api store counter (button_flash st), restarted := True\<rparr>
           else st)
     else st\<lparr>held_ms := 0, warning_blinked := False\<rparr>)"

text \<open>The task over a sequence of samples; \<open>esp_restart\<close> does not return.\<close>

fun factory_reset_run ::
  "'f config_nvs \<Rightarrow> 'n nvs_api \<Rightarrow> 'c nvs_u32_api \<Rightarrow> bool list \<Rightarrow> ('f, 'n, 'c) button_state \<Rightarrow> ('f, 'n, 'c) button_state" where
  "factory_reset_run api store counter [] st = st"
| "factory_reset_run api store counter (pressed # samples) st =
    (let st = factory_reset_round api store counter pressed st
     in if restarted st then st else factory_reset_run api store counter samples st)"

lemma sublist_split:
  assumes "y \<notin> set xs"
  shows "sublist xs (as @ y # bs) \<longleftrightarrow> sublist xs as \<or> sublist xs bs"
proof -
  have "sublist xs as" if "xs = us @ vs" "suffix us as" "prefix vs (y # bs)" for us vs
  proof -
    have "vs = []" using that assms by (cases vs) auto
    then show ?thesis using that by (simp add: suffix_imp_sublist)
  qed
  moreover have "sublist xs (y # bs) \<longleftrightarrow> sublist xs bs"
    using assms by (cases xs) (auto simp: sublist_Cons_right prefix_def)
  ultimately show ?thesis unfolding sublist_append by (auto intro: sublist_append)
qed

lemma round_pressed:
  assumes "held_ms st = 100 * int k" "\<not> restarted st"
  shows "restarted (factory_reset_round api store counter True st) \<longleftrightarrow> k \<ge> 99"
    "held_ms (factory_reset_round api store counter True st) = 100 * int (Suc k)"
    "button_flash (factory_reset_round api store counter True st) =
      (if k \<ge> 99 then node_config_erase api store counter (button_flash st) else button_flash st)"
  using assms by (auto simp: factory_reset_round_def Let_def FACTORY_RESET_HOLD_MS_def)

lemma round_released:
  "restarted (factory_reset_round api store counter False st) = restarted st" "held_ms (factory_reset_round api store counter False st) = 0"
  "button_flash (factory_reset_round api store counter False st) = button_flash st"
  by (simp_all add: factory_reset_round_def)

lemma reset_run_from:
  assumes "held_ms st = 100 * int k" "k < 100" "\<not> restarted st"
  shows "(restarted (factory_reset_run api store counter samples st) \<longleftrightarrow> sublist (replicate 100 True) (replicate k True @ samples)) \<and>
    button_flash (factory_reset_run api store counter samples st) =
      (if restarted (factory_reset_run api store counter samples st) then node_config_erase api store counter (button_flash st) else button_flash st)"
  using assms
proof (induction samples arbitrary: st k)
  case Nil
  then show ?case using sublist_length_le [of "replicate 100 True" "replicate k True"] by auto
next
  case (Cons p samples)
  let ?st = "factory_reset_round api store counter p st"
  show ?case
  proof (cases p)
    case True
    have r: "replicate k True @ p # samples = replicate (Suc k) True @ samples"
      using True by (simp add: replicate_append_same)
    show ?thesis
    proof (cases "k = 99")
      case k: True
      then have "sublist (replicate 100 True) (replicate k True @ p # samples)"
        unfolding r by (simp add: sublist_appendI [of _ "[]", simplified] flip: numeral_eq_Suc)
      then show ?thesis using round_pressed [OF Cons.prems(1,3), of api] True k by simp
    next
      case False
      then have "Suc k < 100" using Cons.prems(2) by simp
      then show ?thesis
        using Cons.IH [of ?st "Suc k"] round_pressed [OF Cons.prems(1,3), of api] True unfolding r by (simp add: Let_def)
    qed
  next
    case False
    have "sublist (replicate 100 True) (replicate k True @ p # samples) \<longleftrightarrow> sublist (replicate 100 True) samples"
      using False Cons.prems(2) sublist_split [of p "replicate 100 True" "replicate k True" samples]
        sublist_length_le [of "replicate 100 True" "replicate k True"] by auto
    then show ?thesis
      using Cons.IH [of ?st 0] round_released [of api store counter st] Cons.prems(3) False by (simp add: Let_def)
  qed
qed

text \<open>
  C25. The button restores the factory state exactly when it is held for ten seconds: sampled
  every tenth of a second from a fresh start, the namespace of the configuration (with the
  stored messages and the packet counter) is erased and the node restarted if and only if a
  hundred samples in a row found it pressed; otherwise the flash is untouched.
\<close>

theorem factory_reset_exact:
  assumes "held_ms st = 0" "\<not> restarted st"
  shows "(restarted (factory_reset_run api store counter samples st) \<longleftrightarrow> sublist (replicate 100 True) samples) \<and>
    button_flash (factory_reset_run api store counter samples st) =
      (if sublist (replicate 100 True) samples then node_config_erase api store counter (button_flash st) else button_flash st)"
  using reset_run_from [of st 0 api store counter samples] assms by simp

theorem factory_reset_exact_witness:
  "button_flash (factory_reset_run key_nvs map_nvs cell_nvs (replicate 20 True @ False # replicate 100 True)
     \<lparr>warning_blinked = False, held_ms = 0, button_led = \<lparr>rgb_led_ready = True, led_trace = []\<rparr>,
      button_flash = \<lparr>ns_config = (\<lambda>_. None, [lit ''web_pin'' \<mapsto> lit ''1234'']), ns_messages = [lit ''msg_0'' \<mapsto> [1]], ns_counter = Some 9\<rparr>,
      restarted = False\<rparr>) = \<lparr>ns_config = (\<lambda>_. None, \<lambda>_. None), ns_messages = Map.empty, ns_counter = None\<rparr>"
proof -
  have "sublist (replicate 100 True) (replicate 20 True @ False # replicate 100 True)"
    by (rule sublist_appendI [of "replicate 100 True" "replicate 20 True @ [False]" "[]", simplified])
  then show ?thesis
    by (subst factory_reset_exact [THEN conjunct2])
      (simp_all add: node_config_erase_def key_nvs_def map_nvs_def cell_nvs_def erase_message_keys_def erase_counter_keys_def)
qed

subsection \<open>The file system\<close>

datatype storage_state_t =
    STORAGE_STATE_UNINITIALIZED | STORAGE_STATE_OK | STORAGE_STATE_MOUNT_FAILED | STORAGE_STATE_RECOVERY_ATTEMPTED
  | STORAGE_STATE_FORMAT_REQUIRED | STORAGE_STATE_FORMATTED | STORAGE_STATE_UNAVAILABLE

fun state_name :: "storage_state_t \<Rightarrow> bytes" where
  "state_name STORAGE_STATE_OK = lit ''FS_OK''"
| "state_name STORAGE_STATE_MOUNT_FAILED = lit ''FS_MOUNT_FAILED''"
| "state_name STORAGE_STATE_RECOVERY_ATTEMPTED = lit ''FS_RECOVERY_ATTEMPTED''"
| "state_name STORAGE_STATE_FORMAT_REQUIRED = lit ''FS_FORMAT_REQUIRED''"
| "state_name STORAGE_STATE_FORMATTED = lit ''FS_FORMATTED''"
| "state_name STORAGE_STATE_UNAVAILABLE = lit ''FS_UNAVAILABLE''"
| "state_name STORAGE_STATE_UNINITIALIZED = lit ''FS_UNINITIALIZED''"

text \<open>
  \<open>register\<close> is \<open>esp_vfs_littlefs_register\<close>, given whether to format when mounting
  fails; \<open>found\<close> whether the partition is found; \<open>mounted\<close> the caller's flag, if any.
\<close>

definition try_mount :: "(bool \<Rightarrow> esp_err_t) \<Rightarrow> bool \<Rightarrow> esp_err_t" where
  "try_mount register format_if_mount_failed = register format_if_mount_failed"

definition storage_init :: "(bool \<Rightarrow> esp_err_t) \<Rightarrow> bool \<Rightarrow> bool option \<Rightarrow> storage_state_t \<times> bool option" where
  "storage_init register found mounted =
    (if try_mount register False \<noteq> ESP_OK
     then (if \<not> found then STORAGE_STATE_UNAVAILABLE else STORAGE_STATE_FORMAT_REQUIRED, map_option (\<lambda>_. False) mounted)
     else (STORAGE_STATE_OK, map_option (\<lambda>_. True) mounted))"

lemma storage_init_mounted: "storage_init register found (Some b) = (st, m) \<Longrightarrow> m = Some (st = STORAGE_STATE_OK)"
  by (auto simp: storage_init_def split: if_splits)

subsection \<open>Flash and scheduler start\<close>

text \<open>\<open>ESP_ERR_NVS_NO_FREE_PAGES\<close> and \<open>ESP_ERR_NVS_NEW_VERSION_FOUND\<close> by their numbers.\<close>

definition ESP_ERR_NVS_NO_FREE_PAGES :: esp_err_t where "ESP_ERR_NVS_NO_FREE_PAGES = ESP_ERR_OTHER 0x110d"
definition ESP_ERR_NVS_NEW_VERSION_FOUND :: esp_err_t where "ESP_ERR_NVS_NEW_VERSION_FOUND = ESP_ERR_OTHER 0x1110"

text \<open>The flash driver is a pair of calls on its state; None where \<open>ESP_ERROR_CHECK\<close> aborts.\<close>

definition app_init ::
  "('h \<Rightarrow> esp_err_t \<times> 'h) \<Rightarrow> ('h \<Rightarrow> esp_err_t \<times> 'h) \<Rightarrow> 'h \<Rightarrow> (esp_err_t \<times> 'h) option" where
  "app_init nvs_flash_init nvs_flash_erase h =
    (case nvs_flash_init h of (nvs_status, h) \<Rightarrow>
      if nvs_status = ESP_ERR_NVS_NO_FREE_PAGES \<or> nvs_status = ESP_ERR_NVS_NEW_VERSION_FOUND
      then (case nvs_flash_erase h of (e, h) \<Rightarrow> if e \<noteq> ESP_OK then None else Some (nvs_flash_init h))
      else Some (nvs_status, h))"

text \<open>Whether the scheduler's task runs; \<open>mutex\<close> and \<open>created\<close> are what the system answers.\<close>

definition tx_scheduler_init :: "bool \<Rightarrow> bool \<Rightarrow> bool \<Rightarrow> bool" where
  "tx_scheduler_init mutex created running = (if \<not> mutex then running else if \<not> running then created else running)"

definition mesh_retry_init :: "bool \<Rightarrow> bool \<Rightarrow> bool \<Rightarrow> bool" where
  "mesh_retry_init mutex created running = tx_scheduler_init mutex created running"

lemma retry_init_idempotent: "mesh_retry_init m c (tx_scheduler_init m c r) = tx_scheduler_init m c r"
  by (simp add: mesh_retry_init_def tx_scheduler_init_def)

end
