(* ===== verification/Node_System.thy ===== *)
theory Node_System
  imports Lora_Radio_Props Http_Server System_Services App_Runtime_Props
begin

text \<open>
  The components put together: a frame from the transmit task of one node to the receive
  handler of another, what the failing configuration means for the radio, and the start of
  the node (\<open>app_runtime_start\<close> in \<open>src/app/app_runtime.c\<close> with the drivers
  and services it starts).
\<close>

subsection \<open>From one node to the other\<close>

text \<open>
  A turn of the receive task with the handler it calls; \<open>stack\<close> is the handler's local
  buffer. None is a call that never returns.
\<close>

definition rx_task_turn ::
  "('h, 'rq, 'rr) radio_services \<Rightarrow> ('n, 'c, 'q, 'r, 'k, 'o) services \<Rightarrow> rx_reads \<Rightarrow> bytes \<Rightarrow> bytes \<Rightarrow>
   ('h, 'rq, 'rr) radio \<Rightarrow> ('n, 'c, 'q, 'r) node \<Rightarrow> (('h, 'rq, 'rr) radio \<times> ('n, 'c, 'q, 'r) node) option" where
  "rx_task_turn rsv sv rd stack payload radio nd =
    (case run_state (lora_rx_task_round rsv payload) radio of
       (None, radio) \<Rightarrow> Some (radio, nd)
     | (Some (payload, len, rssi, snr), radio) \<Rightarrow>
         map_option (Pair radio) (lora_handle_rx_packet sv rd stack (take len payload) rssi snr nd))"

lemma sent_frame:
  assumes "run_state (lora_execute_tx rsv tc request result) s = ((LORA_TX_RESULT_SUCCESS, r), s')"
  obtains frame n where "request_frame tc request = Some (frame, n)" "last (wv_sent (wire (radio_trace s'))) = take n frame"
  using assms by (cases rule: execute_tx_cases) (auto split: if_splits)

lemma received_bytes:
  assumes "run_state (lora_rx_task_round rsv payload) s = (Some (p, n, rssi, snr), s')" "length payload = 256"
    "last (radio_trace s') = Spi_Transfer tx e (x # f)" "length f = n"
  shows "take n p = f"
proof -
  have "wp (lora_rx_task_round rsv payload) (\<lambda>fr s'. \<forall>f. fr = Some f \<longrightarrow> frame_read payload s' f) s"
    by (rule wp_rx_round) simp
  from wp_run [OF assms(1) this] have f: "frame_read payload s' (p, n, rssi, snr)" by simp
  then have n: "n \<le> 255" and p: "p = (blit payload 0 (take n (drop 1 (blit (zeros 256) 0 (take (n + 1) (x # f))))))[n := 0]"
    using assms(3) by (auto simp: frame_read_def)
  have "take n (drop 1 (blit (zeros 256) 0 (take (n + 1) (x # f)))) = f" using assms(4) by (simp add: blit_def)
  then show ?thesis using p assms(4) n by (simp add: blit_def)
qed

text \<open>
  C2. End to end: when the transmit task of one node reports success for a version 2 packet,
  and the chip of another node with the same network key hands over the frame that was sent,
  the receive handler of that node works on \<open>v2_normal\<close> of the packet: what the
  binary format keeps of it. \<open>v2_reading\<close> says what that is: the number, the source,
  destination, relay and next hop and the payload are those of the packet, hop counts are taken
  modulo 256, and a type or priority without a code of its own (such as MEDICAL and INFO, which
  the portal offers) arrives as FLOOD or NORMAL.
\<close>

theorem packet_delivered:
  assumes "psa_ctr_inverse (sv_psa sv)" "tc_psa tc = sv_psa sv" "tc_config tc = sv_config sv"
    "wf_packet m" "broadcast m \<or> \<not> str_empty (mp_destination m)" "build_forward_packet_v2 m buf = Some (out, len)"
    "take (rq_packet_len request) (rq_packet request) = take len out"
    "run_state (lora_execute_tx rsa tc request result) a = ((LORA_TX_RESULT_SUCCESS, r), a')"
    "frame = last (wv_sent (wire (radio_trace a')))"
    "run_state (lora_rx_task_round rsb payload) b = (Some (p, n, rssi, snr), b')" "length payload = 256"
    "last (radio_trace b') = Spi_Transfer tx e (x # frame)" "length frame = n" "length stack = PACKET_LEN"
  shows "(\<exists>d. rx_task_turn rsb sv rd stack payload b nd = map_option (Pair b') (rx_packet sv rd d (v2_normal m) rssi snr nd)) \<and>
    v2_reading m (v2_normal m)"
proof -
  obtain full k where f: "request_frame tc request = Some (full, k)" "frame = take k full"
    using sent_frame [OF assms(8)] assms(9) by metis
  then have e: "bems_encrypt_frame (sv_psa sv) (sv_config sv) (fst (tc_random tc)) (snd (tc_random tc)) (take len out) (tc_air tc) = Some (full, k)"
    "length (take len out) < length stack"
    using assms(2,3,7,14) by (auto simp: request_frame_def lora_encrypt_air_frame_def BEMS_MAX_PLAINTEXT_def split: if_splits)
  have "parse_mesh_packet_v2 (take len out) = Some (v2_normal m)" by (rule parse_built_v2 [OF assms(4-6)])
  then obtain d where "rx_decode sv stack frame = Some (d, v2_normal m)"
    using rx_decode_encrypted [OF assms(1) e(1) _ e(2)] f(2) by blast
  moreover have "take n p = frame" by (rule received_bytes [OF assms(10-13)])
  ultimately show ?thesis using v2_normal_reading [OF assms(4)] by (auto simp: rx_task_turn_def assms(10) handle_decode simp del: v2_normal_simps)
qed

text \<open>
  A node that starts without a stored network key never transmits: whatever it is
  configured with, saves, loads or erases and however often it restarts, every transmission
  ends as aborted or refused and nothing reaches the radio chip.
\<close>

theorem fresh_node_never_transmits:
  assumes "nvs_key_limit api" "nvs_keys_separate api" "unset api ''network_key'' n0" "config_run api n0 st"
    "tc_config tc = crypto_config_of st" "run_state (lora_execute_tx rsv tc request result) s = ((code, r), s')"
  shows "code \<in> {LORA_TX_RESULT_ABORTED, LORA_TX_RESULT_RADIO_FAULT} \<and> s' = s"
proof -
  have "\<not> node_config_is_provisioned st"
    using run_keyless [OF assms(1-4)] by (simp add: keyless_def node_config_is_provisioned_def str_empty_conv [symmetric] str_empty_def)
  then have "derive_crypto_keys (tc_psa tc) (tc_config tc) = None"
    by (simp add: unprovisioned_no_keys crypto_config_of_def assms(5))
  then have none: "request_frame tc request = None"
    by (simp add: request_frame_def lora_encrypt_air_frame_def bems_encrypt_frame_def aes_ctr_crypt_def Let_def)
  show ?thesis using assms(6) by (cases rule: execute_tx_cases) (use none in auto)
qed

definition blank_config :: "key_flash config_state" where
  "blank_config = \<lparr>node_config = node_config_zero, identity = zeros FIELD_LEN, config_flash = (\<lambda>_. None, \<lambda>_. None)\<rparr>"

theorem fresh_node_never_transmits_witness:
  "fst (fst (run_state (lora_execute_tx (demo_services 0x04) (demo_crypto\<lparr>tc_config := crypto_config_of blank_config\<rparr>)
      demo_request lora_tx_result_zero) (demo_radio 0 RADIO_STATE_RX))) \<in> {LORA_TX_RESULT_ABORTED, LORA_TX_RESULT_RADIO_FAULT}"
proof -
  let ?tc = "demo_crypto\<lparr>tc_config := crypto_config_of blank_config\<rparr>"
  have u: "unset key_nvs ''network_key'' (\<lambda>_. None, \<lambda>_. None)" by (simp add: unset_def key_nvs_def)
  have b: "config_run key_nvs (\<lambda>_. None, \<lambda>_. None) blank_config" unfolding blank_config_def by (rule cfg_boot)
  obtain code r s' where t: "run_state (lora_execute_tx (demo_services 0x04) ?tc demo_request lora_tx_result_zero) (demo_radio 0 RADIO_STATE_RX) =
    ((code, r), s')" by (metis surj_pair)
  have "code \<in> {LORA_TX_RESULT_ABORTED, LORA_TX_RESULT_RADIO_FAULT} \<and> s' = demo_radio 0 RADIO_STATE_RX"
    by (rule fresh_node_never_transmits [OF key_nvs_laws(1,2) u b _ t]) simp
  then show ?thesis unfolding t by simp
qed

subsection \<open>A delivery to try\<close>

text \<open>The receiver's chip: a frame is waiting, its length and bytes are answered as asked for.\<close>

definition waiting_frame :: "bytes \<Rightarrow> (u8, demo_queues, demo_results) radio_services" where
  "waiting_frame f = (demo_services 0)\<lparr>spi_device_transmit := (\<lambda>tx flags.
     if tx = [0x13, 0] then ((ESP_OK, [0, of_nat (length f)]), flags)
     else if take 1 tx = [0] then ((ESP_OK, 0 # f), flags) else demo_spi 0 tx flags)\<rparr>"

lemma frame_is_read:
  assumes "length f \<le> 255"
  shows "\<exists>p rssi snr s'. run_state (lora_rx_task_round (waiting_frame f) (zeros 256)) (demo_radio 0x40 RADIO_STATE_RX) =
    (Some (p, length f, rssi, snr), s') \<and> last (radio_trace s') = Spi_Transfer (0 # zeros (length f)) ESP_OK (0 # f)"
proof -
  have u: "unat (of_nat (length f) :: u8) = length f" using assms by (simp add: unat_of_nat)
  show ?thesis
    using assms by (simp add: lora_rx_task_round_def lora_read_raw_frame_def lora_read_fifo_def lora_transfer_def Let_def
        waiting_frame_def radio_run u)
qed

lemma demo_tx_any:
  assumes "request_frame tc request = Some (frame, n)"
  shows "\<exists>r s'. run_state (lora_execute_tx (demo_services 0x04) tc request lora_tx_result_zero) (demo_radio 0 RADIO_STATE_RX) =
    ((LORA_TX_RESULT_SUCCESS, r), s')"
  using request_frame_length [OF assms] assms
  by (simp add: lora_execute_tx_def request_frame_def [symmetric] radio_run)

theorem packet_delivered_witness:
  "\<exists>f d b' rssi snr. rx_task_turn (waiting_frame f) sample_services sample_reads (zeros PACKET_LEN) (zeros 256) (demo_radio 0x40 RADIO_STATE_RX)
      (sample_node (lit ''BRAVO'')) =
    map_option (Pair b') (rx_packet sample_services sample_reads d (v2_normal sample_packet) rssi snr (sample_node (lit ''BRAVO''))) \<and>
    v2_reading sample_packet (v2_normal sample_packet)"
proof -
  let ?out = "v2_wire sample_packet (v2_layout_of sample_packet) @ zeros 171"
  let ?rq = "demo_request\<lparr>rq_packet := ?out, rq_packet_len := 56\<rparr>"
  let ?tc = "demo_crypto\<lparr>tc_air := zeros 255\<rparr>"
  have l: "length (take 56 ?out) \<le> 227" "take 56 ?out \<noteq> []" by code_simp+
  obtain frame k where "bems_encrypt_frame toy_psa toy_config 1 2 (take 56 ?out) (zeros 255) = Some (frame, k)"
    by (rule toy_encrypts_any [OF l(1)])
  then have f: "request_frame ?tc ?rq = Some (frame, k)"
    using l by (simp add: request_frame_def lora_encrypt_air_frame_def demo_crypto_def BEMS_MAX_PLAINTEXT_def)
  obtain r a' where a: "run_state (lora_execute_tx (demo_services 0x04) ?tc ?rq lora_tx_result_zero) (demo_radio 0 RADIO_STATE_RX) =
    ((LORA_TX_RESULT_SUCCESS, r), a')" using demo_tx_any [OF f] by blast
  define g where "g = last (wv_sent (wire (radio_trace a')))"
  obtain full n where "request_frame ?tc ?rq = Some (full, n)" "g = take n full" using sent_frame [OF a] unfolding g_def by metis
  then have "length g \<le> 255" using request_frame_length by fastforce
  from frame_is_read [OF this] obtain p rssi snr b' where
    b: "run_state (lora_rx_task_round (waiting_frame g) (zeros 256)) (demo_radio 0x40 RADIO_STATE_RX) = (Some (p, length g, rssi, snr), b')"
    "last (radio_trace b') = Spi_Transfer (0 # zeros (length g)) ESP_OK (0 # g)" by blast
  have "psa_ctr_inverse (sv_psa sample_services)" "tc_psa ?tc = sv_psa sample_services" "tc_config ?tc = sv_config sample_services"
    "take (rq_packet_len ?rq) (rq_packet ?rq) = take 56 ?out" "length (zeros 256) = 256" "length (zeros PACKET_LEN) = PACKET_LEN"
    by (simp_all add: sample_services_def toy_psa_inverse demo_crypto_def zeros_def)
  note h = this
  show ?thesis
    using packet_delivered [OF h(1-3) sample_packet_ok(1) disjI2 [OF sample_packet_ok(3)] build_sample_packet h(4) a g_def b(1) h(5) b(2) refl h(6),
        of sample_reads "sample_node (lit ''BRAVO'')"] by blast
qed

subsection \<open>Starting the node\<close>

text \<open>
  What the drivers and the flash answer while the node starts, and the values read: the last
  two bytes of the MAC address, random numbers, ticks.
\<close>

record ('rq, 'rr) boot_reads =
  bt_mac :: "u8 \<times> u8"
  bt_session :: "u32 \<times> u32"
  bt_ticks :: "u32 \<times> u32"
  bt_random :: "(nat \<Rightarrow> u32) \<times> (nat \<Rightarrow> u32)"
  bt_led :: "esp_err_t \<times> esp_err_t \<times> esp_err_t"
  bt_radio :: "('rq, 'rr) radio_start"
  bt_littlefs :: "bool \<Rightarrow> esp_err_t"
  bt_partition :: bool

record ('n, 'c, 'q, 'r, 'f, 'h, 'rq, 'rr) system =
  sys_portal :: "('n, 'c, 'q, 'r, 'f) portal"
  sys_radio :: "('h, 'rq, 'rr) radio"
  sys_storage :: storage_state_t
  sys_mounted :: bool
  sys_led :: led_state
  sys_ap :: "esp_err_t + wifi_ap_config_t"

definition app_boot ::
  "('n, 'c, 'q, 'r, 'k, 'o, 'f) portal_env \<Rightarrow> ('h, 'rq, 'rr) radio_services \<Rightarrow> ('rq, 'rr) boot_reads \<Rightarrow>
   ('n, 'c, 'q, 'r, 'f, 'h, 'rq, 'rr) system \<Rightarrow> ('n, 'c, 'q, 'r, 'f, 'h, 'rq, 'rr) system option" where
  "app_boot env rsv bt sys =
    (let pt = sys_portal sys; (mac4, mac5) = bt_mac bt;
         cfg = node_config_set_identity (fst (boot_identity mac4 mac5 [])) (pt_config pt);
         auth = http_auth_init (fst (bt_session bt)) (snd (bt_session bt)) (fst (bt_ticks bt)) (pt_auth pt);
         led = (case bt_led bt of (channel, encoder, enable) \<Rightarrow> status_led_init channel encoder enable (sys_led sys));
         cfg = node_config_load (pe_config env) (fst (bt_random bt)) (snd (bt_random bt)) cfg;
         (ident, ap_ssid) = boot_identity mac4 mac5 (identity cfg);
         nd = app_runtime_start (pe_services env) mac4 mac5 (identity cfg) (snd (bt_ticks bt)) (pt_node pt);
         cfg = node_config_set_identity ident cfg
     in case run_state (lora_radio_init rsv (bt_radio bt)) (sys_radio sys) of
          (None, radio) \<Rightarrow> None
        | (Some _, radio) \<Rightarrow>
           (case storage_init (bt_littlefs bt) (bt_partition bt) (Some (sys_mounted sys)) of (storage, mounted) \<Rightarrow>
              Some \<lparr>sys_portal = pt\<lparr>pt_config := cfg, pt_auth := auth, pt_node := nd\<rparr>, sys_radio = radio,
                sys_storage = storage, sys_mounted = the mounted, sys_led = led,
                sys_ap = wifi_ap_init (Some ap_ssid) (Some (nc_ap_password (node_config cfg)))\<rparr>))"

text \<open>
  \<open>start_http_server\<close>: the texts the status page shows for the access point, the file system
  and the radio are those of this moment. (The other contexts are pointers to the state and
  to the functions of the model.)
\<close>

definition radio_label :: "radio_state_t \<Rightarrow> bytes" where
  "radio_label s = (if s = RADIO_STATE_RX then lit ''RX'' else if s = RADIO_STATE_TX then lit ''TX''
     else if s = RADIO_STATE_FAULT then lit ''FAULT'' else if s = RADIO_STATE_RECOVERING then lit ''RECOVERING''
     else lit ''INITIALIZING'')"

definition start_http_server :: "bytes \<Rightarrow> nat \<Rightarrow> ('n, 'c, 'q, 'r, 'f, 'h, 'rq, 'rr) system \<Rightarrow> status_context" where
  "start_http_server ap_ssid stations sys =
    \<lparr>sc_ssid = ap_ssid, sc_storage_status = state_name (sys_storage sys),
     sc_radio_state = radio_label (lora_radio_get_state (sys_radio sys)), sc_clients = stations\<rparr>"

text \<open>\<open>boot_sync_task\<close>, 1.5 seconds later: the frame it hands to the radio, if any.\<close>

definition boot_sync_round ::
  "('n, 'c, 'q, 'r, 'k, 'o, 'f) portal_env \<Rightarrow> bool \<Rightarrow> ('n, 'c, 'q, 'r, 'f) portal \<Rightarrow> (bytes \<times> nat) option \<times> ('n, 'c, 'q, 'r, 'f) portal" where
  "boot_sync_round env ready pt =
    (let nd = pt_node pt in
     if pt_configured pt \<and> ready
     then (case mesh_control_send_sync_request (sv_cfg (pe_services env)) (my_node_id nd) (tx_store (scheduler nd)) (sequence nd) of
             (frame, sq) \<Rightarrow> (frame, pt\<lparr>pt_node := nd\<lparr>sequence := sq\<rparr>\<rparr>))
     else (None, pt))"

definition boot_sync_task ::
  "('n, 'c, 'q, 'r, 'k, 'o, 'f) portal_env \<Rightarrow> ('n, 'c, 'q, 'r, 'f, 'h, 'rq, 'rr) system \<Rightarrow>
   (bytes \<times> nat) option \<times> ('n, 'c, 'q, 'r, 'f, 'h, 'rq, 'rr) system" where
  "boot_sync_task env sys =
    (case boot_sync_round env (lora_radio_is_ready (sys_radio sys)) (sys_portal sys) of (frame, pt) \<Rightarrow> (frame, sys\<lparr>sys_portal := pt\<rparr>))"

lemma hex_upper_printable: "list_all printable (hex_upper b)"
proof -
  have "unat b div 16 < 16" using u8_unat [of b] by (simp add: less_mult_imp_div_less)
  then have "list_all (\<lambda>n. printable (of_nat (if n < 10 then 48 + n else 55 + n) :: u8)) [unat b div 16, unat b mod 16]"
  proof -
    have "list_all (\<lambda>n. printable (of_nat (if n < 10 then 48 + n else 55 + n) :: u8)) [0..<16]" by code_simp
    then show ?thesis using \<open>unat b div 16 < 16\<close> by (auto simp: list_all_iff)
  qed
  then show ?thesis by (simp add: hex_upper_def Let_def)
qed

lemma mac_identity_clean: "clean_str 32 (cstr (snprintf (zeros 32) (lit ''NODE'' @ hex_upper a @ hex_upper b)))"
proof -
  have n: "list_all printable (lit ''NODE'')" "length (lit ''NODE'') = 4" by code_simp+
  let ?t = "lit ''NODE'' @ hex_upper a @ hex_upper b"
  have t: "list_all printable ?t" "length ?t = 8" using n hex_upper_printable by simp_all
  have "0 \<notin> set ?t" using t(1) unfolding list_all_iff by (metis printable_nonzero)
  then have "cstr (snprintf (zeros 32) ?t) = ?t" using t(2) by (subst cstr_snprintf) simp_all
  then show ?thesis using t by (simp add: clean_str_def)
qed

lemma snprintf_nil: "snprintf out t = [] \<longleftrightarrow> out = []"
  by (metis length_0_conv length_snprintf)

text \<open>The runtime and the configuration agree on the node's name.\<close>

lemma boot_names_agree:
  assumes "length i = 32"
  shows "cstr (copy_field i (fst (boot_identity a b i))) = cstr (fst (boot_identity a b i))"
proof (cases "str_empty i")
  case True
  then have "cstr (fst (boot_identity a b i)) = copied 32 (fst (boot_identity a b i))"
    using copied_id [OF mac_identity_clean [of a b]] by (simp add: boot_identity_def Let_def)
  then show ?thesis using assms by (subst cstr_copy_field) auto
next
  case False
  then have "cstr (fst (boot_identity a b i)) = copied 32 i"
    by (simp add: boot_identity_def Let_def snprintf_nil zeros_def)
  then have "copied 32 (fst (boot_identity a b i)) = cstr (fst (boot_identity a b i))"
    by (metis copied_cstr copied_idem zero_less_numeral)
  then show ?thesis using assms by (subst cstr_copy_field) auto
qed

lemma set_identity_simps [simp]:
  "identity (node_config_set_identity i st) = copy_field (identity st) i"
  "node_config (node_config_set_identity i st) = node_config st"
  by (simp_all add: node_config_set_identity_def)

text \<open>
  C27. A node whose bus and chip work and whose file system mounts comes up with its radio
  receiving and the portal's files available, the runtime and the configuration name the node
  alike, an access point is only opened with a password of at least eight characters, the
  first synchronisation request is sent only by a node that is configured, and the status page
  will show the file system as mounted and the radio as receiving.
\<close>

theorem boot_ready:
  assumes "bus_ok rsv" "sx1278_answers rsv" "platform_ok (bt_radio bt)" "bt_littlefs bt False = ESP_OK"
    "nvs_strings_fit (pe_config env)" "wf_config_state (pt_config (sys_portal sys))"
  shows "\<exists>sys'. app_boot env rsv bt sys = Some sys' \<and> lora_radio_is_ready (sys_radio sys') \<and>
    sys_storage sys' = STORAGE_STATE_OK \<and> sys_mounted sys' \<and>
    streq (my_node_id (pt_node (sys_portal sys'))) (identity (pt_config (sys_portal sys'))) \<and>
    (\<forall>cfg. sys_ap sys' = Inr cfg \<longrightarrow> ap_cfg_authmode cfg = WIFI_AUTH_WPA2_PSK \<and> 8 \<le> strlen (ap_cfg_password cfg)) \<and>
    (fst (boot_sync_task env sys') \<noteq> None \<longrightarrow> pt_configured (sys_portal sys')) \<and>
    start_http_server ssid n sys' =
      \<lparr>sc_ssid = ssid, sc_storage_status = lit ''FS_OK'', sc_radio_state = lit ''RX'', sc_clients = n\<rparr>"
proof -
  obtain mac4 mac5 where mac: "bt_mac bt = (mac4, mac5)" by fastforce
  define c0 where "c0 = node_config_set_identity (fst (boot_identity mac4 mac5 [])) (pt_config (sys_portal sys))"
  define c where "c = node_config_load (pe_config env) (fst (bt_random bt)) (snd (bt_random bt)) c0"
  have "wf_config_state c0" using assms(6) by (simp add: c0_def wf_config_state_def field_length)
  then have "wf_config_state c" unfolding c_def using load_wf_credentials [OF assms(5)] by blast
  then have "length (identity c) = 32" by (simp add: wf_config_state_def field_length)
  note names = boot_names_agree [OF this, of mac4 mac5]
  obtain res radio where r: "run_state (lora_radio_init rsv (bt_radio bt)) (sys_radio sys) = (res, radio)" by fastforce
  have "wp (lora_radio_init rsv (bt_radio bt)) (\<lambda>res s. res = Some () \<and> lora_radio_is_ready s) (sys_radio sys)"
    using assms(1-3) by (rule wp_init_ok) (simp add: lora_radio_is_ready_def)
  from wp_run [OF r this] have ok: "res = Some ()" "lora_radio_is_ready radio" by auto
  obtain sys' where b: "app_boot env rsv bt sys = Some sys'" "sys_radio sys' = radio" "sys_storage sys' = STORAGE_STATE_OK" "sys_mounted sys'"
    "my_node_id (pt_node (sys_portal sys')) = fst (boot_identity mac4 mac5 (identity c))"
    "identity (pt_config (sys_portal sys')) = copy_field (identity c) (fst (boot_identity mac4 mac5 (identity c)))"
    "sys_ap sys' = wifi_ap_init (Some (snd (boot_identity mac4 mac5 (identity c)))) (Some (nc_ap_password (node_config c)))"
    using assms(4) r ok mac
    by (simp add: app_boot_def storage_init_def try_mount_def app_runtime_start_def Let_def case_prod_unfold
        flip: c0_def c_def)
  have "fst (boot_sync_task env sys') \<noteq> None \<longrightarrow> pt_configured (sys_portal sys')"
    by (simp add: boot_sync_task_def boot_sync_round_def Let_def split: prod.split)
  moreover have "start_http_server ssid n sys' =
      \<lparr>sc_ssid = ssid, sc_storage_status = lit ''FS_OK'', sc_radio_state = lit ''RX'', sc_clients = n\<rparr>"
    using b(2,3) ok(2) by (simp add: start_http_server_def radio_label_def lora_radio_get_state_def lora_radio_is_ready_def)
  ultimately show ?thesis using b ok(2) names wifi_ap_init_wpa2 by (fastforce simp: streq_def)
qed

definition demo_boot :: "(demo_queues, demo_results) boot_reads" where
  "demo_boot = \<lparr>bt_mac = (0xBE, 0xEF), bt_session = (1, 2), bt_ticks = (0, 0), bt_random = (\<lambda>_. 0, \<lambda>_. 0),
     bt_led = (ESP_OK, ESP_OK, ESP_OK), bt_radio = demo_start, bt_littlefs = (\<lambda>_. ESP_OK), bt_partition = True\<rparr>"

theorem boot_ready_witness:
  "\<exists>sys'. app_boot sample_env (demo_services 0x04) demo_boot
      \<lparr>sys_portal = (sample_portal False)\<lparr>pt_config := blank_config\<rparr>, sys_radio = demo_radio 0 RADIO_STATE_UNINITIALIZED,
       sys_storage = STORAGE_STATE_UNINITIALIZED, sys_mounted = False, sys_led = \<lparr>rgb_led_ready = False, led_trace = []\<rparr>,
       sys_ap = Inl ESP_FAIL\<rparr> = Some sys' \<and> lora_radio_is_ready (sys_radio sys')"
proof -
  have "bus_ok (demo_services 0x04)" "sx1278_answers (demo_services 0x04)" "platform_ok (bt_radio demo_boot)" "bt_littlefs demo_boot False = ESP_OK"
    by (simp_all add: bus_ok_def sx1278_answers_def demo_services_def demo_spi_def radio_regs at_def platform_ok_def demo_start_def demo_boot_def)
  moreover have "nvs_strings_fit (pe_config sample_env)" by (simp add: sample_env_def key_nvs_laws(3))
  moreover have "wf_config_state blank_config" by (simp add: blank_config_def wf_config_state_def)
  ultimately show ?thesis
    using boot_ready [of "demo_services 0x04" demo_boot sample_env
        "\<lparr>sys_portal = (sample_portal False)\<lparr>pt_config := blank_config\<rparr>, sys_radio = demo_radio 0 RADIO_STATE_UNINITIALIZED,
       sys_storage = STORAGE_STATE_UNINITIALIZED, sys_mounted = False, sys_led = \<lparr>rgb_led_ready = False, led_trace = []\<rparr>,
       sys_ap = Inl ESP_FAIL\<rparr>" "[]" 0] by auto
qed

end
