(* ===== verification/Mesh_Network.thy ===== *)
theory Mesh_Network
  imports Node_System "HOL-Library.Multiset_Order" "HOL-Library.Product_Lexorder"
begin

text \<open>
  Several nodes running the firmware, each with the whole state of \<open>App_Runtime\<close>. A step is
  one call of \<open>lora_handle_rx_packet\<close> by a node that hears a frame, or one round of
  \<open>forward_worker_task\<close> whose frame goes on the air; frames get lost, are heard late and in
  any order. Messages a node sends on its own account (portal, retries, synchronisation) are
  not steps: the theorems say what becomes of what is under way. The measure is a multiset
  of ranks, one for every job queued and every reception to come.
\<close>

subsection \<open>What a relay's frame says\<close>

text \<open>A packet without a destination is built but never read.\<close>

lemma parse_v2_head_nobody:
  assumes "wf_packet p" "\<not> str_empty (mp_source p)" "\<not> broadcast p" "str_empty (mp_destination p)"
    and "drop off w = enc_head p (v2_layout_of p) @ r"
  shows "parse_v2_head w off = None"
proof -
  note u = unat_layout [OF assms(1)] wf_packet_lengths(1-6) [OF assms(1)]
  have "lay_source_len (v2_layout_of p) \<noteq> 0" using u assms(2) by (auto simp: str_empty_def)
  moreover have "lay_destination_len (v2_layout_of p) = 0" "cstr (mp_source p) \<noteq> []"
    using assms(2-4) by (simp_all add: str_empty_def v2_layout_of_def)
  ultimately have nz: "lay_source_len (v2_layout_of p) \<noteq> 0" "lay_destination_len (v2_layout_of p) = 0" "cstr (mp_source p) \<noteq> []" .
  show ?thesis
    using assms(3-5) u nz
    by (simp add: parse_v2_head_def read_u8_drop [of w off] stage_simps enc_head_def mesh_packet_zero_def str_empty_def require_def
       del: drop_drop add_Suc_right)
qed

lemma built_v2:
  assumes "wf_packet p" "build_forward_packet_v2 p packet = Some (out, n)"
  shows "mesh_packet_is_v2 (take n out)" "n \<le> 227"
    "parse_mesh_packet_v2 (take n out) = (if broadcast p \<or> \<not> str_empty (mp_destination p) then Some (v2_normal p) else None)"
proof -
  let ?w = "v2_wire p (v2_layout_of p)"
  from assms have b: "\<not> str_empty (mp_source p)" "out = blit packet 0 ?w" "n = length ?w" "length ?w \<le> length packet" "n \<le> 227"
    by (auto simp: build_forward_packet_v2_eq BEMS_MAX_PLAINTEXT_def split: if_splits)
  then have t: "take n out = ?w" by (simp add: take_blit0)
  show v2: "mesh_packet_is_v2 (take n out)" unfolding t by (simp add: mesh_packet_is_v2_def v2_wire_def)
  show "n \<le> 227" by (rule b)
  show "parse_mesh_packet_v2 (take n out) = (if broadcast p \<or> \<not> str_empty (mp_destination p) then Some (v2_normal p) else None)"
  proof (cases "broadcast p \<or> \<not> str_empty (mp_destination p)")
    case False
    have "drop 2 ?w = enc_head p (v2_layout_of p) @ enc_route p (v2_layout_of p) @ enc_location p (v2_layout_of p) @ enc_payload p (v2_layout_of p)"
      by (simp add: v2_wire_def)
    from parse_v2_head_nobody [OF assms(1) b(1) _ _ this] False show ?thesis
      by (simp add: t parse_mesh_packet_v2_def parse_v2_at_def)
  qed (use parse_built_v2 [OF assms(1) _ assms(2)] in simp)
qed

text \<open>What identifies a message, whatever its way through the network.\<close>

type_synonym message_key = "u32 \<times> bytes \<times> bytes \<times> u8 \<times> bytes"

definition message_of :: "mesh_packet_t \<Rightarrow> message_key" where
  "message_of p = (mp_id p, cstr (mp_source p), cstr (mp_destination p), type_to_u8 (mp_type p), payload_bytes p)"

definition is_ack :: "mesh_packet_t \<Rightarrow> bool" where
  "is_ack p \<longleftrightarrow> streq (mp_type p) (lit ''ACK'')"

definition packet_sane :: "mesh_packet_t \<Rightarrow> bool" where
  "packet_sane p \<longleftrightarrow> wf_packet p \<and> (mp_broadcast_destination p \<longrightarrow> streq (mp_destination p) (lit ''ALL''))"

lemma is_ack_code: "is_ack p \<longleftrightarrow> type_to_u8 (mp_type p) = packet_type_code BEMS_PACKET_TYPE_ACK"
  by (auto simp: is_ack_def type_to_u8_def)

lemma is_ack_message: "message_of p = message_of q \<Longrightarrow> is_ack p = is_ack q"
  by (simp add: message_of_def is_ack_code)

lemma hop_byte_le: "0 \<le> h \<Longrightarrow> uint (hop_byte h) \<le> h"
  by (simp add: hop_byte_def uint_word_of_int zmod_le_nonneg_dividend)

text \<open>The packet the worker builds, for a job it transmits.\<close>

definition outgoing :: "forward_job_t \<Rightarrow> mesh_packet_t" where
  "outgoing job = relayed_packet job ((fj_packet job)\<lparr>mp_hops := mp_hops (fj_packet job) - 1\<rparr>)"

lemma worker_builds:
  assumes "packet_sane (fj_packet job)" "forward_worker_step stack job = Some (out, n, prio)"
  shows "wf_packet (outgoing job)" "build_forward_packet_v2 (outgoing job) stack = Some (out, n)" "mp_hops (fj_packet job) > 0"
proof -
  show "wf_packet (outgoing job)" unfolding outgoing_def using assms(1)
    by (intro wf_relayed_packet) (simp add: wf_packet_def packet_sane_def)
  show "build_forward_packet_v2 (outgoing job) stack = Some (out, n)" "mp_hops (fj_packet job) > 0"
    using assms(2) by (auto simp: forward_worker_step_def mesh_packet_consume_hop_def outgoing_def Let_def split: if_splits option.splits)
qed

lemma relay_read_back:
  assumes "packet_sane (fj_packet job)" "forward_worker_step stack job = Some (out, n, prio)"
    "parse_mesh_packet_v2 (take n out) = Some q"
  shows "message_of q = message_of (fj_packet job) \<and> 0 \<le> mp_hops q \<and> mp_hops q < mp_hops (fj_packet job) \<and>
    cstr (mp_relay q) = copied FIELD_LEN (fj_local_node_id job)"
proof -
  let ?p = "fj_packet job"
  let ?q = "relayed_packet job (?p\<lparr>mp_hops := mp_hops ?p - 1\<rparr>)"
  have p: "wf_packet ?p" "mp_broadcast_destination ?p \<longrightarrow> streq (mp_destination ?p) (lit ''ALL'')"
    using assms(1) by (auto simp: packet_sane_def)
  note h = worker_builds [OF assms(1,2), unfolded outgoing_def]
  note w = h(1)
  have q: "q = v2_normal ?q" using built_v2(3) [OF h(1,2)] assms(3) by (simp split: if_splits)
  have "payload_bytes q = payload_bytes ?p" using payload_bytes_normal [OF w] by (simp add: q payload_bytes_def)
  moreover have "cstr (mp_destination q) = cstr (mp_destination ?p)"
  proof (cases "broadcast ?q")
    case True
    have "cstr (copy_field (zeros 32) (lit ''ALL'')) = lit ''ALL''" "cstr (lit ''ALL'') = lit ''ALL''" by code_simp+
    then show ?thesis using True p(2) by (auto simp: q broadcast_def streq_def simp del: cstr_copy_field)
  qed (simp add: q cstr_pad)
  moreover have "cstr (mp_relay q) = copied FIELD_LEN (fj_local_node_id job)"
    using p(1) by (auto simp: q cstr_pad wf_packet_def field_def)
  moreover have "0 \<le> mp_hops q" "mp_hops q \<le> mp_hops ?p - 1" using hop_byte_le [of "mp_hops ?p - 1"] h(3) by (simp_all add: q)
  ultimately show ?thesis by (simp add: message_of_def) (simp add: q type_code_roundtrip cstr_pad)
qed


subsection \<open>The network\<close>

text \<open>
  The nodes, and the receptions to come: a frame that was sent is received by any of the
  nodes in range, at any later time, in any order, or not at all.
\<close>

record ('n, 'c, 'q, 'r) mesh =
  mesh_nodes :: "('n, 'c, 'q, 'r) node list"
  mesh_air :: "(nat \<times> bytes) multiset"

definition forward_worker_round ::
  "('n, 'c, 'q, 'r, 'k, 'o) services \<Rightarrow> nat \<Rightarrow> bytes \<Rightarrow> ('n, 'c, 'q, 'r) node \<Rightarrow>
   (bytes \<times> nat \<times> lora_tx_priority_t) option \<times> ('n, 'c, 'q, 'r) node" where
  "forward_worker_round sv ticks stack nd =
    (case forward_queue_receive (sv_jobs sv) ticks (forwarder nd) of
       (None, fw) \<Rightarrow> (None, nd\<lparr>forwarder := fw\<rparr>)
     | (Some job, fw) \<Rightarrow> (forward_worker_step stack job, nd\<lparr>forwarder := fw\<rparr>))"

text \<open>
  A frame is heard, or lost; the worker relays a job to the nodes that listen, or takes it
  and sends nothing (it decides not to, or the radio refuses the frame).
\<close>

inductive mesh_step ::
  "('n, 'c, 'q, 'r, 'k, 'o) services \<Rightarrow> ('n, 'c, 'q, 'r) mesh \<Rightarrow> ('n, 'c, 'q, 'r) mesh \<Rightarrow> bool" for sv where
  step_hear: "i < length ns \<Longrightarrow> length stack = PACKET_LEN \<Longrightarrow>
    lora_handle_rx_packet sv rd stack frame rssi snr (ns ! i) = Some nd \<Longrightarrow>
    mesh_step sv \<lparr>mesh_nodes = ns, mesh_air = air + {#(i, frame)#}\<rparr> \<lparr>mesh_nodes = ns[i := nd], mesh_air = air\<rparr>"
| step_lose: "mesh_step sv \<lparr>mesh_nodes = ns, mesh_air = air + {#(i, frame)#}\<rparr> \<lparr>mesh_nodes = ns, mesh_air = air\<rparr>"
| step_relay: "i < length ns \<Longrightarrow> forward_worker_round sv ticks stack (ns ! i) = (Some (out, n, prio), nd) \<Longrightarrow>
    bems_encrypt_frame (sv_psa sv) (sv_config sv) r0 r1 (take n out) buf = Some (frame, len) \<Longrightarrow>
    mesh_step sv \<lparr>mesh_nodes = ns, mesh_air = air\<rparr>
      \<lparr>mesh_nodes = ns[i := nd], mesh_air = air + mset (map (\<lambda>j. (j, take len frame)) listeners)\<rparr>"
| step_discard: "i < length ns \<Longrightarrow> forward_queue_receive (sv_jobs sv) ticks (forwarder (ns ! i)) = (Some job, fw) \<Longrightarrow>
    mesh_step sv \<lparr>mesh_nodes = ns, mesh_air = air\<rparr> \<lparr>mesh_nodes = ns[i := (ns ! i)\<lparr>forwarder := fw\<rparr>], mesh_air = air\<rparr>"

text \<open>The jobs waiting at a node, and what one round of the worker does to them.\<close>

definition queue_exact :: "('a, 'q) queue_api \<Rightarrow> ('q \<Rightarrow> 'a list) \<Rightarrow> bool" where
  "queue_exact api contents \<longleftrightarrow> queue_faithful api contents \<and> (\<forall>q t. contents q = [] \<longrightarrow> xQueueReceive api t q = (None, q))"

definition jobs :: "('q \<Rightarrow> 'a list) \<Rightarrow> 'q forward_state \<Rightarrow> 'a multiset" where
  "jobs contents fw = mset (queue_view contents fw 0) + mset (queue_view contents fw 1) + mset (queue_view contents fw 2)"

abbreviation three_queues :: "'q forward_state \<Rightarrow> bool" where
  "three_queues fw \<equiv> length (forward_queues fw) = 3"

lemma jobs_cong: "forward_queues fw = forward_queues fw' \<Longrightarrow> jobs contents fw = jobs contents fw'"
  by (simp add: jobs_def queue_view_def)

lemma jobs_init: "queue_faithful api contents \<Longrightarrow> three_queues fw \<Longrightarrow> jobs contents (forward_queue_init api fw) = jobs contents fw"
  by (simp add: jobs_def queue_view_init)

lemma jobs_one:
  assumes "i < 3" "three_queues fw" "\<And>j. queue_view contents fw' j = (if j = i then v else queue_view contents fw j)"
  shows "jobs contents fw' + mset (queue_view contents fw i) = jobs contents fw + mset v"
proof -
  have "i = 0 \<or> i = 1 \<or> i = 2" using assms(1) by auto
  then show ?thesis using assms(3) by (auto simp: jobs_def ac_simps)
qed

text \<open>\<open>r\<close> was taken out of the queues, or nothing.\<close>

definition takes :: "('q \<Rightarrow> 'a list) \<Rightarrow> 'q forward_state \<Rightarrow> 'a option \<times> 'q forward_state \<Rightarrow> bool" where
  "takes contents fw x \<longleftrightarrow>
    (case x of (r, fw') \<Rightarrow> three_queues fw' \<and> jobs contents fw = jobs contents fw' + (case r of None \<Rightarrow> {#} | Some job \<Rightarrow> {#job#}))"

lemma take_from_exact:
  assumes "queue_exact api contents" "three_queues fw" "i < 3"
  shows "takes contents fw (take_from api i t fw)"
proof (cases "queue_view contents fw i")
  case Nil
  have "take_from api i t fw = (None, fw)"
  proof (cases "forward_queues fw ! i")
    case (Some q)
    then have "xQueueReceive api t q = (None, q)" using assms(1) Nil by (simp add: queue_view_def queue_exact_def)
    moreover have "(forward_queues fw)[i := Some q] = forward_queues fw" using Some by (metis list_update_id)
    ultimately show ?thesis using Some by (simp add: take_from_def)
  qed (simp add: take_from_def)
  then show ?thesis using assms(2) by (simp add: takes_def)
next
  case (Cons x xs)
  have l: "queue_faithful api contents" "i < length (forward_queues fw)" using assms by (simp_all add: queue_exact_def)
  obtain f where f: "take_from api i t fw = (Some x, f)" "\<And>j. queue_view contents f j = (if j = i then xs else queue_view contents fw j)"
    using take_from_some [OF l Cons, of t] by blast
  have "jobs contents f + mset (queue_view contents fw i) = jobs contents fw + mset xs" by (rule jobs_one [OF assms(3,2) f(2)])
  then have "jobs contents fw = jobs contents f + {#x#}" using Cons by simp
  then show ?thesis using f(1) assms(2) take_from_budgets [OF f(1)] by (simp add: takes_def)
qed

lemma takes_else:
  assumes "takes contents fw a" "\<And>s. takes contents fw (None, s) \<Longrightarrow> takes contents fw (rest s)"
    "\<And>job s. takes contents fw (Some job, s) \<Longrightarrow> takes contents fw (Some job, g s)"
  shows "takes contents fw (case a of (Some job, s) \<Rightarrow> (Some job, g s) | (None, s) \<Rightarrow> rest s)"
  using assms by (cases a) (auto split: option.split)

lemma takes_after: "takes contents fw (None, s) \<Longrightarrow> (three_queues s \<Longrightarrow> takes contents s x) \<Longrightarrow> takes contents fw x"
  by (auto simp: takes_def split: prod.splits)

lemma takes_budgets:
  "takes contents fw (r, s) \<Longrightarrow> takes contents fw (r, s\<lparr>normal_budget := a\<rparr>)"
  "takes contents fw (r, s) \<Longrightarrow> takes contents fw (r, s\<lparr>low_budget := b\<rparr>)"
  by (simp_all add: takes_def jobs_def queue_view_def)

lemma receive_exact:
  assumes "queue_exact api contents" "three_queues fw"
  shows "takes contents fw (forward_queue_receive api t fw)"
proof -
  have i: "takes contents fw (None, forward_queue_init api fw)"
    using assms by (simp add: takes_def jobs_init queue_exact_def)
  note x = take_from_exact [OF assms(1)]
  have x': "takes contents s (if b then take_from api j t s else (None, s))" if "three_queues s" "j < 3" for b j t s
    using x that by (simp add: takes_def)
  show ?thesis unfolding forward_queue_receive_def
    by (intro takes_else takes_budgets; (assumption | erule takes_after | rule takes_after [OF i]))
      (simp_all add: x x')
qed

lemma enqueue_exact:
  assumes "queue_faithful api contents" "three_queues fw"
  shows "three_queues (snd (forward_queue_enqueue api job p fw)) \<and>
    (jobs contents (snd (forward_queue_enqueue api job p fw)) = jobs contents fw \<or>
     jobs contents (snd (forward_queue_enqueue api job p fw)) = jobs contents fw + {#job#})"
proof -
  let ?s = "forward_queue_init api fw" and ?i = "queue_for_priority p"
  have i: "?i < 3" by (cases p) simp_all
  have s: "three_queues ?s" "jobs contents ?s = jobs contents fw" using assms jobs_init by simp_all
  show ?thesis
  proof (cases "forward_queues ?s ! ?i")
    case (Some q)
    define f where "f q' = ?s\<lparr>forward_queues := (forward_queues ?s)[?i := Some q']\<rparr>" for q'
    have v: "jobs contents (f q') + mset (contents q) = jobs contents ?s + mset (contents q')" for q'
      using jobs_one [OF i s(1), of contents "f q'" "contents q'"] Some i s(1) by (auto simp: f_def queue_view_def nth_list_update)
    have "xQueueSend api job q = (False, q) \<or> (\<exists>q'. xQueueSend api job q = (True, q') \<and> contents q' = contents q @ [job])"
      using assms(1) unfolding queue_faithful_def by (metis not_less)
    then obtain b q' where q': "xQueueSend api job q = (b, q')" "contents q' = contents q \<or> contents q' = contents q @ [job]" by auto
    have "snd (forward_queue_enqueue api job p fw) = f q'" using Some q'(1) by (simp add: forward_queue_enqueue_def Let_def f_def)
    moreover have "three_queues (f q')" using s(1) by (simp add: f_def)
    ultimately show ?thesis using v [of q'] q'(2) s(2) by auto
  qed (use s in \<open>simp add: forward_queue_enqueue_def Let_def\<close>)
qed


subsection \<open>What a reception queues\<close>

definition spawned :: "bytes \<Rightarrow> mesh_packet_t \<Rightarrow> forward_job_t \<Rightarrow> bool" where
  "spawned ident p job \<longleftrightarrow>
    (\<exists>rssi snr best. job = relay_job p rssi snr best ident) \<or>
    (\<not> is_ack p \<and> streq (mp_destination p) ident \<and> \<not> str_empty (mp_source p) \<and> (\<exists>ack_id best. job = ack_job ident ack_id p best))"

lemma queue_init_idem: "forward_queue_init api (forward_queue_init api fw) = forward_queue_init api fw"
  by (simp add: forward_queue_init_def comp_def split: option.split cong: map_cong)

lemma enqueue_init: "forward_queue_enqueue api job p (forward_queue_init api fw) = forward_queue_enqueue api job p fw"
  by (simp add: forward_queue_enqueue_def queue_init_idem)

lemma forwarder_same [simp]:
  "forwarder (store_received_packet sv r d p rssi snr nd) = forwarder nd"
  "forwarder (rx_ack sv p nd) = forwarder nd"
  by (simp_all add: store_received_packet_def rx_ack_def Let_def split: prod.split option.split)

lemma rx_sync_records_forwarder [simp]: "forwarder (rx_sync_records sv rd rssi snr i ps nd) = forwarder nd"
  by (induction ps arbitrary: i nd) (simp_all add: Let_def split: prod.split)

lemma rx_send_ack_forwarder:
  obtains ack_id best where "forwarder (rx_send_ack sv rd p nd) =
    snd (forward_queue_enqueue (sv_jobs sv) (ack_job (my_node_id nd) ack_id p best) TX_PRIORITY_HIGH (forwarder nd))"
proof -
  obtain ack_id sq where "mesh_sequence_next (sv_cfg sv) (sequence nd) = (ack_id, sq)" by fastforce
  then show thesis
    by (intro that [of ack_id]) (simp add: rx_send_ack_def mesh_control_send_ack_packet_def Let_def enqueue_init)
qed

lemma rx_message_forwarder:
  assumes "\<not> str_empty (mp_source p)"
  shows "forwarder (rx_message sv rd d p rssi snr nd) = forwarder nd \<or>
    (\<exists>job prio. spawned (my_node_id nd) p job \<and>
      forwarder (rx_message sv rd d p rssi snr nd) = snd (forward_queue_enqueue (sv_jobs sv) job prio (forwarder nd)))"
proof (cases "streq (mp_destination p) (my_node_id nd)")
  case True
  define x where "x = store_received_packet sv (rd_store rd 0) d p rssi snr nd"
  obtain ack_id best where a: "forwarder (rx_send_ack sv rd p x) =
      snd (forward_queue_enqueue (sv_jobs sv) (ack_job (my_node_id nd) ack_id p best) TX_PRIORITY_HIGH (forwarder nd))"
    using rx_send_ack_forwarder [of sv rd p x] by (auto simp: x_def)
  have "forwarder (rx_message sv rd d p rssi snr nd) = (if is_ack p then forwarder nd else forwarder (rx_send_ack sv rd p x))"
    using True by (simp add: rx_message_def rx_forward_def Let_def is_ack_def x_def)
  moreover have "\<not> is_ack p \<Longrightarrow> spawned (my_node_id nd) p (ack_job (my_node_id nd) ack_id p best)"
    using True assms by (auto simp: spawned_def)
  ultimately show ?thesis using a by auto
next
  case False
  have "spawned (my_node_id nd) p (relay_job p rssi snr best (my_node_id nd))" for best unfolding spawned_def by blast
  then show ?thesis using False by (auto simp: rx_message_def rx_forward_def Let_def)
qed

lemma handler_forwarder:
  assumes "lora_handle_rx_packet sv rd stack frame rssi snr nd = Some nd'"
  shows "forwarder nd' = forwarder nd \<or>
    (\<exists>d p job prio. rx_decode sv stack frame = Some (d, p) \<and> spawned (my_node_id nd) p job \<and>
      forwarder nd' = snd (forward_queue_enqueue (sv_jobs sv) job prio (forwarder nd)))"
proof (cases "rx_decode sv stack frame")
  case (Some dp)
  obtain d p where dp: "dp = (d, p)" by (cases dp)
  obtain ok tbl where t: "replay_protection_accept (mp_source p) (mp_id p) (rd_ticks rd) (replay_sources nd) = (ok, tbl)" by fastforce
  have rx: "rx_packet sv rd d p rssi snr nd = Some nd'" using assms Some dp by (simp add: handle_decode)
  show ?thesis
  proof (cases "\<not> streq (mp_source p) (my_node_id nd) \<and> ok")
    case True
    have s: "\<not> str_empty (mp_source p)" using t True by (auto simp: replay_protection_accept_def)
    have a: "rx_accepted sv rd d p rssi snr (nd\<lparr>replay_sources := tbl\<rparr>) = Some nd'" using True rx t by (simp add: rx_packet_def)
    have "forwarder nd' = forwarder nd \<or> (\<exists>x. nd' = rx_message sv rd d p rssi snr x \<and> forwarder x = forwarder nd \<and> my_node_id x = my_node_id nd)"
      using a by (auto simp: rx_accepted_def Let_def split: option.splits if_splits)
    then show ?thesis using rx_message_forwarder [OF s] Some dp by metis
  next
    case False
    then show ?thesis using rx t by (auto simp: rx_packet_def Let_def split: if_splits)
  qed
qed (use assms in \<open>simp add: handle_decode\<close>)

subsection \<open>The measure\<close>

text \<open>
  A job or a reception to come ranks by what can still come of it: a message before an
  acknowledgement, more hops before fewer, a reception before the job it queues.
\<close>

definition packet_rank :: "nat \<Rightarrow> mesh_packet_t \<Rightarrow> nat \<times> nat \<times> nat" where
  "packet_rank stage p = (if is_ack p then 0 else 1, nat (mp_hops p), stage)"

definition frame_rank :: "('n, 'c, 'q, 'r, 'k, 'o) services \<Rightarrow> bytes \<Rightarrow> nat \<times> nat \<times> nat" where
  "frame_rank sv frame = (case rx_decode sv (zeros PACKET_LEN) frame of None \<Rightarrow> (0, 0, 0) | Some (d, p) \<Rightarrow> packet_rank 1 p)"

definition mesh_weight :: "('n, 'c, 'q, 'r, 'k, 'o) services \<Rightarrow> ('q \<Rightarrow> forward_job_t list) \<Rightarrow> ('n, 'c, 'q, 'r) mesh \<Rightarrow> (nat \<times> nat \<times> nat) multiset" where
  "mesh_weight sv contents net = image_mset (\<lambda>(i, frame). frame_rank sv frame) (mesh_air net) +
    (\<Sum>nd\<leftarrow>mesh_nodes net. image_mset (\<lambda>job. packet_rank 0 (fj_packet job)) (jobs contents (forwarder nd)))"

definition node_sane :: "('q \<Rightarrow> forward_job_t list) \<Rightarrow> ('n, 'c, 'q, 'r) node \<Rightarrow> bool" where
  "node_sane contents nd \<longleftrightarrow> three_queues (forwarder nd) \<and> (\<forall>job\<in>#jobs contents (forwarder nd). packet_sane (fj_packet job))"

lemma parse_v2_keeps_destination:
  "pred_option (\<lambda>((f, t, pr, q), off'). mp_broadcast_destination q \<longrightarrow> streq (mp_destination q) (lit ''ALL'')) (parse_v2_head w off)"
  "pred_option (\<lambda>(q', off'). mp_broadcast_destination q' = mp_broadcast_destination q \<and> mp_destination q' = mp_destination q) (parse_v2_route f q w off)"
  "pred_option (\<lambda>(q', off'). mp_broadcast_destination q' = mp_broadcast_destination q \<and> mp_destination q' = mp_destination q) (parse_v2_location f q w off)"
  "pred_option (\<lambda>((n, q'), off'). mp_broadcast_destination q' = mp_broadcast_destination q \<and> mp_destination q' = mp_destination q) (parse_v2_payload q w off)"
proof -
  have "streq (copy_field (zeros 32) (lit ''ALL'')) (lit ''ALL'')" by code_simp
  then show "pred_option (\<lambda>((f, t, pr, q), off'). mp_broadcast_destination q \<longrightarrow> streq (mp_destination q) (lit ''ALL'')) (parse_v2_head w off)"
    unfolding parse_v2_head_def Let_def require_bind by (intro pred_option_intros) (simp_all add: mesh_packet_zero_def)
qed (unfold parse_v2_route_def parse_v2_location_def parse_v2_payload_def Let_def require_bind, (intro pred_option_intros; simp)+)

lemma parse_v1_broadcast: "pred_option (\<lambda>p. mp_broadcast_destination p = streq (mp_destination p) (lit ''ALL'')) (parse_mesh_packet w)"
proof -
  have u: "mp_broadcast_destination (update_thread_key p) = mp_broadcast_destination p" "mp_destination (update_thread_key p) = mp_destination p" for p
    by (simp_all add: update_thread_key_def)
  show ?thesis unfolding parse_mesh_packet_def Let_def
    by (intro pred_option_ifI pred_option_NoneI pred_option_SomeI) (simp add: u)
qed

lemma decoded_sane:
  assumes "rx_decode sv stack frame = Some (d, p)"
  shows "packet_sane p"
proof -
  obtain b n where "parse_mesh_packet_v2 (take n b) = Some p \<or> parse_mesh_packet (b[n := 0]) = Some p"
    using assms by (auto simp: rx_decode_def rx_parse_def split: option.splits prod.splits if_splits)
  then show ?thesis
  proof
    assume v2: "parse_mesh_packet_v2 (take n b) = Some p"
    then obtain f t pr q1 o1 q2 o2 q3 o3 m q4 o4 where st: "parse_v2_head (take n b) 2 = Some ((f, t, pr, q1), o1)"
      "parse_v2_route f q1 (take n b) o1 = Some (q2, o2)" "parse_v2_location f q2 (take n b) o2 = Some (q3, o3)"
      "parse_v2_payload q3 (take n b) o3 = Some ((m, q4), o4)" "p = parse_v2_finish t pr m q4"
      by (auto simp: parse_mesh_packet_v2_def parse_v2_at_def Option.bind_eq_Some_conv split: if_splits)
    have "mp_broadcast_destination q4 \<longrightarrow> streq (mp_destination q4) (lit ''ALL'')"
      using pred_optionD [OF parse_v2_keeps_destination(1) st(1)] pred_optionD [OF parse_v2_keeps_destination(2) st(2)]
        pred_optionD [OF parse_v2_keeps_destination(3) st(3)] pred_optionD [OF parse_v2_keeps_destination(4) st(4)] by simp
    moreover have "streq (copy_field y (lit ''ALL'')) (lit ''ALL'')" if "length y = 32" for y
    proof -
      have "copied 32 (lit ''ALL'') = cstr (lit ''ALL'')" by code_simp
      moreover have "cstr (copy_field y (lit ''ALL'')) = copied 32 (lit ''ALL'')" using that cstr_copy_field [of y "lit ''ALL''"] by fastforce
      ultimately show ?thesis by (simp add: streq_def)
    qed
    moreover have "length (mp_destination p) = length (mp_destination q4)"
      by (simp add: st(5) parse_v2_finish_def Let_def update_thread_key_def)
    moreover have "length (mp_destination p) = 32" using wf_packet_sizes(2) wf_parse_v2 [OF v2] by blast
    ultimately have "mp_broadcast_destination p \<longrightarrow> streq (mp_destination p) (lit ''ALL'')"
      by (auto simp: st(5) parse_v2_finish_def Let_def update_thread_key_def)
    then show ?thesis using wf_parse_v2 [OF v2] by (simp add: packet_sane_def)
  next
    assume v1: "parse_mesh_packet (b[n := 0]) = Some p"
    then have "wf_packet p" using pred_optionD [OF wf_parse_v1 v1] by simp
    moreover have "mp_broadcast_destination p = streq (mp_destination p) (lit ''ALL'')"
      by (rule pred_optionD [OF parse_v1_broadcast v1])
    ultimately show ?thesis by (simp add: packet_sane_def)
  qed
qed

text \<open>The acknowledgement of \<open>p\<close>, wherever it has got to.\<close>

definition acknowledges :: "mesh_packet_t \<Rightarrow> mesh_packet_t \<Rightarrow> bool" where
  "acknowledges q p \<longleftrightarrow> is_ack q \<and> cstr (mp_destination q) = copied 32 (mp_source p) \<and>
    cstr (mp_source q) = copied 32 (mp_destination p) \<and> payload_bytes q = le32 (mp_id p) @ pad 32 (copied 32 (mp_source p))"


lemma ack_job_packet:
  assumes "streq (mp_destination p) ident"
  shows "packet_sane (fj_packet (ack_job ident ack_id p best))" "acknowledges (fj_packet (ack_job ident ack_id p best)) p"
proof -
  let ?i = "mesh_control_build_ack p \<lparr>acknowledged_id = 0, acknowledged_source = zeros FIELD_LEN\<rparr>"
  let ?x = "le32 (mp_id p) @ pad 32 (copied 32 (mp_source p))" and ?h = "if mp_hops p > 0 then mp_hops p else 3"
  have c: "length (copied 32 (mp_source p)) < 32" by (simp add: length_copied)
  have i: "acknowledged_source ?i = pad 32 (copied 32 (mp_source p))" "acknowledged_id ?i = mp_id p"
    by (simp_all add: mesh_control_build_ack_def copy_field_zeros pad_def)
  have x: "fst (ack_payload ?i) = pad 140 ?x" "snd (ack_payload ?i) = length ?x"
    using ack_payload_pad [of ?i] c by (simp_all add: i) (simp add: ack_payload_def)
  note w = control_payload_bytes [of ?x ack_id ?h ident "mp_source p" "lit ''ACK''"]
  have f: "fj_packet (ack_job ident ack_id p best) =
      (control_packet ack_id ?h ident (mp_source p) (lit ''ACK''))\<lparr>mp_payload := pad 140 ?x, mp_payload_len := length ?x\<rparr>"
    by (simp only: ack_job_def Let_def x) simp
  show "packet_sane (fj_packet (ack_job ident ack_id p best))" unfolding f packet_sane_def using w(1) c by simp
  have "streq (copy_field (zeros 32) (lit ''ACK'')) (lit ''ACK'')" by code_simp
  moreover have "copied 32 ident = copied 32 (mp_destination p)" using assms copied_cstr [of 32] by (metis streq_def zero_less_numeral)
  ultimately show "acknowledges (fj_packet (ack_job ident ack_id p best)) p"
    unfolding f acknowledges_def is_ack_def using w(2) c by simp
qed

lemma relay_job_packet:
  "message_of (fj_packet (relay_job p rssi snr best ident)) = message_of p" "mp_hops (fj_packet (relay_job p rssi snr best ident)) = mp_hops p"
  "packet_sane p \<Longrightarrow> packet_sane (fj_packet (relay_job p rssi snr best ident))"
proof -
  show "message_of (fj_packet (relay_job p rssi snr best ident)) = message_of p"
    "mp_hops (fj_packet (relay_job p rssi snr best ident)) = mp_hops p"
    by (simp_all add: relay_job_def message_of_def payload_bytes_def Let_def split: option.split)
  assume "packet_sane p"
  then show "packet_sane (fj_packet (relay_job p rssi snr best ident))"
    by (simp add: relay_job_def Let_def packet_sane_def wf_packet_updates wf_packet_sizes field_copy_field split: option.split)
qed

lemma spawned_sane: "packet_sane p \<Longrightarrow> spawned ident p job \<Longrightarrow> packet_sane (fj_packet job)"
  using ack_job_packet relay_job_packet(3) by (auto simp: spawned_def)

lemma spawned_rank: "spawned ident p job \<Longrightarrow> packet_rank 0 (fj_packet job) < packet_rank 1 p"
  using is_ack_message [OF relay_job_packet(1)] relay_job_packet(2) ack_job_packet(2)
  by (auto simp: spawned_def packet_rank_def less_prod_def acknowledges_def)


subsection \<open>One step of the network\<close>

inductive_cases mesh_stepE [consumes 1, case_names hear lose relay discard]: "mesh_step sv net net'"

lemma decode_any_stack:
  assumes "rx_decode sv stack frame = Some (d, p)" "length stack = PACKET_LEN"
  obtains d' where "rx_decode sv (zeros PACKET_LEN) frame = Some (d', p)"
  by (rule rx_decode_stack [OF _ assms(1), of "zeros PACKET_LEN"]) (use assms(2) that in auto)

lemma relayed_frame_decodes:
  assumes "psa_ctr_inverse (sv_psa sv)" "packet_sane (fj_packet job)" "forward_worker_step stack job = Some (out, n, prio)"
    "bems_encrypt_frame (sv_psa sv) (sv_config sv) r0 r1 (take n out) buf = Some (frame, len)"
    "rx_decode sv (zeros PACKET_LEN) (take len frame) = Some (d, q)"
  shows "message_of q = message_of (fj_packet job) \<and> 0 \<le> mp_hops q \<and> mp_hops q < mp_hops (fj_packet job) \<and>
    cstr (mp_relay q) = copied FIELD_LEN (fj_local_node_id job)"
proof -
  note v = built_v2 [OF worker_builds(1,2) [OF assms(2,3)]]
  have l: "length (take n out) < length (zeros PACKET_LEN)" using v(2) by simp
  define plain where "plain = take n out"
  have "parse_mesh_packet_v2 plain = Some q"
    using encrypted_frame_decrypts(1) [OF assms(1,4) l] assms(5) v(1) l unfolding plain_def [symmetric]
    by (auto simp: rx_decode_def rx_parse_def take_blit0 split: option.splits)
  then have "parse_mesh_packet_v2 (take n out) = Some q" by (simp add: plain_def)
  then show ?thesis by (rule relay_read_back [OF assms(2,3)])
qed

text \<open>
  What a step does, as the measure and the messages see it.
\<close>

definition air_packets :: "('n, 'c, 'q, 'r, 'k, 'o) services \<Rightarrow> ('n, 'c, 'q, 'r) mesh \<Rightarrow> mesh_packet_t set" where
  "air_packets sv net = {p. \<exists>i frame d. (i, frame) \<in># mesh_air net \<and> rx_decode sv (zeros PACKET_LEN) frame = Some (d, p)}"

definition queued_packets :: "('q \<Rightarrow> forward_job_t list) \<Rightarrow> ('n, 'c, 'q, 'r) mesh \<Rightarrow> mesh_packet_t set" where
  "queued_packets contents net = {fj_packet job | nd job. nd \<in> set (mesh_nodes net) \<and> job \<in># jobs contents (forwarder nd)}"

definition mesh_sane :: "('q \<Rightarrow> forward_job_t list) \<Rightarrow> ('n, 'c, 'q, 'r) mesh \<Rightarrow> bool" where
  "mesh_sane contents net \<longleftrightarrow> (\<forall>nd\<in>set (mesh_nodes net). node_sane contents nd)"

lemma sum_list_update:
  fixes f :: "'a \<Rightarrow> 'b multiset"
  assumes "i < length xs"
  shows "(\<Sum>x\<leftarrow>xs[i := y]. f x) + f (xs ! i) = (\<Sum>x\<leftarrow>xs. f x) + f y"
  using assms by (induction xs arbitrary: i) (auto simp: ac_simps nth_Cons split: nat.splits)

abbreviation job_ranks :: "('q \<Rightarrow> forward_job_t list) \<Rightarrow> ('n, 'c, 'q, 'r) node \<Rightarrow> (nat \<times> nat \<times> nat) multiset" where
  "job_ranks contents nd \<equiv> image_mset (\<lambda>job. packet_rank 0 (fj_packet job)) (jobs contents (forwarder nd))"

lemma weight_update:
  assumes "i < length ns" "job_ranks contents nd + taken = job_ranks contents (ns ! i) + added"
  shows "mesh_weight sv contents \<lparr>mesh_nodes = ns[i := nd], mesh_air = air\<rparr> + taken =
    mesh_weight sv contents \<lparr>mesh_nodes = ns, mesh_air = air\<rparr> + added"
proof -
  have "(\<Sum>x\<leftarrow>ns[i := nd]. job_ranks contents x) + job_ranks contents (ns ! i) + taken =
      (\<Sum>x\<leftarrow>ns. job_ranks contents x) + (job_ranks contents nd + taken)"
    using sum_list_update [OF assms(1), of "job_ranks contents" nd] by (simp add: ac_simps)
  also have "\<dots> = (\<Sum>x\<leftarrow>ns. job_ranks contents x) + added + job_ranks contents (ns ! i)" using assms(2) by (simp add: ac_simps)
  finally have "(\<Sum>x\<leftarrow>ns[i := nd]. job_ranks contents x) + taken = (\<Sum>x\<leftarrow>ns. job_ranks contents x) + added" by (simp add: ac_simps)
  then show ?thesis by (simp add: mesh_weight_def ac_simps)
qed

lemma weight_air:
  "mesh_weight sv contents \<lparr>mesh_nodes = ns, mesh_air = air + extra\<rparr> =
   mesh_weight sv contents \<lparr>mesh_nodes = ns, mesh_air = air\<rparr> + image_mset (\<lambda>(i, frame). frame_rank sv frame) extra"
  by (simp add: mesh_weight_def ac_simps)

lemma smaller_added: "y \<noteq> {#} \<Longrightarrow> \<forall>a\<in>#x. \<exists>b\<in>#y. a < b \<Longrightarrow> (m :: 'a :: preorder multiset) + x < m + y"
  by (simp add: less_multiset_def one_step_implies_multp)

lemma hear_jobs:
  assumes "queue_faithful (sv_jobs sv) contents" "node_sane contents nd" "length stack = PACKET_LEN"
    "lora_handle_rx_packet sv rd stack frame rssi snr nd = Some nd'"
  shows "three_queues (forwarder nd') \<and> (jobs contents (forwarder nd') = jobs contents (forwarder nd) \<or>
    (\<exists>d p job. rx_decode sv (zeros PACKET_LEN) frame = Some (d, p) \<and> spawned (my_node_id nd) p job \<and>
      jobs contents (forwarder nd') = jobs contents (forwarder nd) + {#job#}))"
proof -
  have q: "three_queues (forwarder nd)" using assms(2) by (simp add: node_sane_def)
  from handler_forwarder [OF assms(4)] show ?thesis
  proof
    assume "\<exists>d p job prio. rx_decode sv stack frame = Some (d, p) \<and> spawned (my_node_id nd) p job \<and>
      forwarder nd' = snd (forward_queue_enqueue (sv_jobs sv) job prio (forwarder nd))"
    then obtain d p job prio where j: "rx_decode sv stack frame = Some (d, p)" "spawned (my_node_id nd) p job"
      "forwarder nd' = snd (forward_queue_enqueue (sv_jobs sv) job prio (forwarder nd))" by blast
    obtain d' where "rx_decode sv (zeros PACKET_LEN) frame = Some (d', p)" by (rule decode_any_stack [OF j(1) assms(3)])
    then show ?thesis using enqueue_exact [OF assms(1) q, of job prio] j(2,3) by auto
  qed (use q in simp)
qed

text \<open>Where a packet of the network comes from: an earlier copy, or the message it acknowledges.\<close>

definition descends :: "mesh_packet_t \<Rightarrow> mesh_packet_t \<Rightarrow> bool" where
  "descends q p \<longleftrightarrow> message_of q = message_of p \<and> mp_hops q \<le> mp_hops p \<or> \<not> is_ack p \<and> acknowledges q p"


lemma descends_refl [simp]: "descends p p"
  by (simp add: descends_def)


lemma spawned_descends: "spawned ident p job \<Longrightarrow> descends (fj_packet job) p"
  using ack_job_packet(2) relay_job_packet(1,2) by (auto simp: spawned_def descends_def)

definition all_packets :: "('n, 'c, 'q, 'r, 'k, 'o) services \<Rightarrow> ('q \<Rightarrow> forward_job_t list) \<Rightarrow> ('n, 'c, 'q, 'r) mesh \<Rightarrow> mesh_packet_t set" where
  "all_packets sv contents net = air_packets sv net \<union> queued_packets contents net"

definition progress :: "('n, 'c, 'q, 'r, 'k, 'o) services \<Rightarrow> ('q \<Rightarrow> forward_job_t list) \<Rightarrow> ('n, 'c, 'q, 'r) mesh \<Rightarrow> ('n, 'c, 'q, 'r) mesh \<Rightarrow> bool" where
  "progress sv contents net net' \<longleftrightarrow> mesh_sane contents net' \<and> mesh_weight sv contents net' < mesh_weight sv contents net \<and>
    (\<forall>q\<in>all_packets sv contents net'. \<exists>p\<in>all_packets sv contents net. descends q p)"

lemma node_at: "mesh_sane contents \<lparr>mesh_nodes = ns, mesh_air = air\<rparr> \<Longrightarrow> i < length ns \<Longrightarrow> node_sane contents (ns ! i)"
  by (simp add: mesh_sane_def)

text \<open>
  A step that changes one node and the air makes progress when the node and the air do.
\<close>

lemma progress_at:
  assumes "mesh_sane contents \<lparr>mesh_nodes = ns, mesh_air = air + lost\<rparr>" "i < length ns" "three_queues (forwarder nd)"
    "jobs contents (forwarder nd) + taken = jobs contents (forwarder (ns ! i)) + added"
    "\<forall>job\<in>#added. packet_sane (fj_packet job)"
    "image_mset (\<lambda>(i, frame). frame_rank sv frame) lost + image_mset (\<lambda>job. packet_rank 0 (fj_packet job)) taken \<noteq> {#}"
    "\<forall>a\<in>#image_mset (\<lambda>(i, frame). frame_rank sv frame) sent + image_mset (\<lambda>job. packet_rank 0 (fj_packet job)) added.
      \<exists>b\<in>#image_mset (\<lambda>(i, frame). frame_rank sv frame) lost + image_mset (\<lambda>job. packet_rank 0 (fj_packet job)) taken. a < b"
    "\<forall>q. (\<exists>j frame d. (j, frame) \<in># sent \<and> rx_decode sv (zeros PACKET_LEN) frame = Some (d, q)) \<or> q \<in> fj_packet ` set_mset added \<longrightarrow>
      (\<exists>p\<in>all_packets sv contents \<lparr>mesh_nodes = ns, mesh_air = air + lost\<rparr>. descends q p)"
  shows "progress sv contents \<lparr>mesh_nodes = ns, mesh_air = air + lost\<rparr> \<lparr>mesh_nodes = ns[i := nd], mesh_air = air + sent\<rparr>"
proof -
  let ?n = "\<lparr>mesh_nodes = ns, mesh_air = air + lost\<rparr>" and ?n' = "\<lparr>mesh_nodes = ns[i := nd], mesh_air = air + sent\<rparr>"
  let ?fr = "image_mset (\<lambda>(i, frame). frame_rank sv frame)" and ?jr = "image_mset (\<lambda>job. packet_rank 0 (fj_packet job))"
  have sane: "node_sane contents (ns ! i)" using node_at [OF assms(1,2)] .
  have sub: "job \<in># jobs contents (forwarder (ns ! i)) \<or> job \<in># added" if "job \<in># jobs contents (forwarder nd)" for job
    using that assms(4) by (metis union_iff)
  have "node_sane contents nd" using sub sane assms(3,5) by (auto simp: node_sane_def)
  then have s: "mesh_sane contents ?n'" using assms(1,2) by (auto simp: mesh_sane_def dest: set_update_subset_insert [THEN subsetD])
  have r: "job_ranks contents nd + ?jr taken = job_ranks contents (ns ! i) + ?jr added"
    using assms(4) by (metis image_mset_union)
  have "mesh_weight sv contents ?n' + (?fr lost + ?jr taken) = mesh_weight sv contents ?n + (?fr sent + ?jr added)"
    using weight_update [OF assms(2) r, of sv air] by (simp add: weight_air ac_simps)
  moreover have "mesh_weight sv contents ?n + (?fr sent + ?jr added) < mesh_weight sv contents ?n + (?fr lost + ?jr taken)"
    using assms(6,7) by (rule smaller_added)
  ultimately have "mesh_weight sv contents ?n' + (?fr lost + ?jr taken) < mesh_weight sv contents ?n + (?fr lost + ?jr taken)" by (simp only:)
  then have w: "mesh_weight sv contents ?n' < mesh_weight sv contents ?n" by (rule add_less_imp_less_right)
  have "\<exists>p\<in>all_packets sv contents ?n. descends q p" if q: "q \<in> all_packets sv contents ?n'" for q
  proof -
    have old: "q \<in> all_packets sv contents ?n \<Longrightarrow> ?thesis" using descends_refl by blast
    have in_air: "q \<in> all_packets sv contents ?n" if "(j, frame) \<in># air" "rx_decode sv (zeros PACKET_LEN) frame = Some (d, q)" for j frame d
      using that by (auto simp: all_packets_def air_packets_def)
    have in_queue: "q \<in> all_packets sv contents ?n" if "x \<in> set ns" "q = fj_packet job" "job \<in># jobs contents (forwarder x)" for x job
      using that by (auto simp: all_packets_def queued_packets_def)
    have at: "x = nd \<or> x \<in> set ns" if "x \<in> set (ns[i := nd])" for x using that set_update_subset_insert [of ns i nd] by auto
    consider (air) j frame d where "(j, frame) \<in># air + sent" "rx_decode sv (zeros PACKET_LEN) frame = Some (d, q)"
      | (queue) x job where "x = nd \<or> x \<in> set ns" "q = fj_packet job" "job \<in># jobs contents (forwarder x)"
      using q at by (fastforce simp: all_packets_def air_packets_def queued_packets_def)
    then consider "q \<in> all_packets sv contents ?n" | "\<exists>j frame d. (j, frame) \<in># sent \<and> rx_decode sv (zeros PACKET_LEN) frame = Some (d, q)"
      | "q \<in> fj_packet ` set_mset added"
    proof cases
      case air
      then show ?thesis using in_air that by (metis union_iff)
    next
      case queue
      then show ?thesis using in_queue sub [of job] that nth_mem [OF assms(2)] by blast
    qed
    then show ?thesis using old assms(8) by cases blast+
  qed
  with s w show ?thesis by (simp add: progress_def)
qed


lemma mesh_step_progress:
  assumes "mesh_step sv net net'" "mesh_sane contents net" "queue_exact (sv_jobs sv) contents" "psa_ctr_inverse (sv_psa sv)"
  shows "progress sv contents net net'"
  using assms(1)
proof (cases rule: mesh_stepE)
  case (hear i ns stack rd frame rssi snr nd air)
  have sane: "node_sane contents (ns ! i)" using node_at assms(2) hear by metis
  have "queue_faithful (sv_jobs sv) contents" using assms(3) by (simp add: queue_exact_def)
  note h = hear_jobs [OF this sane hear(4,5)]
  have s: "mesh_sane contents \<lparr>mesh_nodes = ns, mesh_air = air + {#(i, frame)#}\<rparr>" using assms(2) hear(1) by simp
  show ?thesis
  proof (cases "jobs contents (forwarder nd) = jobs contents (forwarder (ns ! i))")
    case True
    then show ?thesis using progress_at [OF s hear(3), of nd "{#}" "{#}" sv "{#}"] h hear(1,2) by simp
  next
    case False
    then obtain d p job where j: "rx_decode sv (zeros PACKET_LEN) frame = Some (d, p)" "spawned (my_node_id (ns ! i)) p job"
      "jobs contents (forwarder nd) = jobs contents (forwarder (ns ! i)) + {#job#}" using h by blast
    have "p \<in> all_packets sv contents \<lparr>mesh_nodes = ns, mesh_air = air + {#(i, frame)#}\<rparr>"
      using j(1) by (auto simp: all_packets_def air_packets_def)
    moreover have "packet_rank 0 (fj_packet job) < frame_rank sv frame" using spawned_rank [OF j(2)] j(1) by (simp add: frame_rank_def)
    ultimately show ?thesis
      using progress_at [OF s hear(3), of nd "{#}" "{#job#}" sv "{#}"] h hear(1,2) j(3) spawned_sane [OF decoded_sane [OF j(1)] j(2)]
        spawned_descends [OF j(2)] by auto
  qed
next
  case (lose ns air i frame)
  have "all_packets sv contents net' \<subseteq> all_packets sv contents net"
    using lose by (auto simp: all_packets_def air_packets_def queued_packets_def)
  then have "\<forall>q\<in>all_packets sv contents net'. \<exists>p\<in>all_packets sv contents net. descends q p" using descends_refl by blast
  then show ?thesis
    using assms(2) weight_air [of sv contents ns air "{#(i, frame)#}"] lose by (simp add: progress_def mesh_sane_def)
next
  case (relay i ns ticks stack out n prio nd r0 r1 buf frame len air listeners)
  obtain job where job: "forward_queue_receive (sv_jobs sv) ticks (forwarder (ns ! i)) = (Some job, forwarder nd)"
    "forward_worker_step stack job = Some (out, n, prio)"
    using relay(4) by (auto simp: forward_worker_round_def split: prod.splits option.splits)
  have sane: "node_sane contents (ns ! i)" using node_at assms(2) relay by metis
  then have t: "three_queues (forwarder nd)" "jobs contents (forwarder (ns ! i)) = jobs contents (forwarder nd) + {#job#}"
    using receive_exact [OF assms(3), of "forwarder (ns ! i)" ticks] job(1) by (simp_all add: node_sane_def takes_def)
  have p: "packet_sane (fj_packet job)" using sane t(2) by (simp add: node_sane_def)
  note d = relayed_frame_decodes [OF assms(4) p job(2) relay(5)]
  have r: "frame_rank sv (take len frame) < packet_rank 0 (fj_packet job)"
  proof (cases "rx_decode sv (zeros PACKET_LEN) (take len frame)")
    case None
    have "0 < mp_hops (fj_packet job)" using job(2) by (auto simp: forward_worker_step_def split: if_splits)
    then show ?thesis using None by (simp add: frame_rank_def packet_rank_def less_prod_def)
  next
    case (Some x)
    then show ?thesis using d [of "fst x" "snd x"] is_ack_message [of "snd x" "fj_packet job"]
      by (cases x) (auto simp: frame_rank_def packet_rank_def less_prod_def)
  qed
  have q: "fj_packet job \<in> all_packets sv contents \<lparr>mesh_nodes = ns, mesh_air = air + {#}\<rparr>"
  proof -
    have "job \<in># jobs contents (forwarder (ns ! i))" using t(2) by simp
    then show ?thesis using nth_mem [OF relay(3)] unfolding all_packets_def queued_packets_def by auto
  qed
  have s: "mesh_sane contents \<lparr>mesh_nodes = ns, mesh_air = air + {#}\<rparr>" using assms(2) relay(1) by simp
  let ?sent = "mset (map (\<lambda>j. (j, take len frame)) listeners)"
  have "descends x (fj_packet job)" if "(j, f) \<in># ?sent" "rx_decode sv (zeros PACKET_LEN) f = Some (e, x)" for j f e x
    using d [of e x] that by (auto simp: descends_def)
  then have e: "\<forall>x. (\<exists>j f e. (j, f) \<in># ?sent \<and> rx_decode sv (zeros PACKET_LEN) f = Some (e, x)) \<or> x \<in> fj_packet ` set_mset {#} \<longrightarrow>
      (\<exists>p\<in>all_packets sv contents \<lparr>mesh_nodes = ns, mesh_air = air + {#}\<rparr>. descends x p)" using q by (simp, blast)
  show ?thesis
    using progress_at [OF s relay(3) t(1) _ _ _ _ e, of "{#job#}"] t(2) r relay(1,2) by auto
next
  case (discard i ns ticks job fw air)
  have "node_sane contents (ns ! i)" using node_at assms(2) discard by metis
  then have t: "three_queues fw" "jobs contents (forwarder (ns ! i)) = jobs contents fw + {#job#}"
    using receive_exact [OF assms(3), of "forwarder (ns ! i)" ticks] discard(4) by (simp_all add: node_sane_def takes_def)
  have s: "mesh_sane contents \<lparr>mesh_nodes = ns, mesh_air = air + {#}\<rparr>" using assms(2) discard(1) by simp
  show ?thesis
    using progress_at [OF s discard(3), of "(ns ! i)\<lparr>forwarder := fw\<rparr>" "{#job#}" "{#}" sv "{#}"] t discard(1,2) by simp
qed


subsection \<open>Runs of the network\<close>

text \<open>
  Steps that lower a weight: no run goes on for ever, and from every state a run leads to a
  state where nothing is left to do.
\<close>

locale weighted_steps =
  fixes step :: "'s \<Rightarrow> 's \<Rightarrow> bool" and ok :: "'s \<Rightarrow> bool" and weight :: "'s \<Rightarrow> 'w :: wellorder"
  assumes step_ok: "ok s \<Longrightarrow> step s t \<Longrightarrow> ok t"
    and step_lowers: "ok s \<Longrightarrow> step s t \<Longrightarrow> weight t < weight s"
begin

lemma run_ok: "ok (f 0) \<Longrightarrow> \<forall>k<n. step (f k) (f (Suc k)) \<Longrightarrow> ok (f n)"
  by (induction n) (auto intro: step_ok)

lemma runs_end:
  assumes "ok (f 0)"
  shows "\<exists>k. \<not> step (f k) (f (Suc k))"
proof (rule ccontr)
  assume "\<not> ?thesis"
  then have "step (f k) (f (Suc k))" for k by blast
  moreover from this have "ok (f k)" for k using run_ok [of f k] assms by blast
  ultimately have "weight (f (Suc k)) < weight (f k)" for k using step_lowers by blast
  then show False using wf_no_infinite_down_chainE [OF wf, of "\<lambda>k. weight (f k)"] by auto
qed

lemma steps_ok: "step\<^sup>*\<^sup>* s t \<Longrightarrow> ok s \<Longrightarrow> ok t"
  by (induction rule: rtranclp_induct) (auto intro: step_ok)

lemma settles: "ok s \<Longrightarrow> \<exists>t. step\<^sup>*\<^sup>* s t \<and> (\<nexists>u. step t u)"
proof (induction "weight s" arbitrary: s rule: less_induct)
  case less
  show ?case
  proof (cases "\<exists>t. step s t")
    case True
    then obtain t where t: "step s t" by blast
    from less(1) [OF step_lowers [OF less(2) t] step_ok [OF less(2) t]] t show ?thesis
      by (meson converse_rtranclp_into_rtranclp)
  qed blast
qed

end

definition mesh_ok :: "('n, 'c, 'q, 'r, 'k, 'o) services \<Rightarrow> ('q \<Rightarrow> forward_job_t list) \<Rightarrow> ('n, 'c, 'q, 'r) mesh \<Rightarrow> bool" where
  "mesh_ok sv contents net \<longleftrightarrow> queue_exact (sv_jobs sv) contents \<and> psa_ctr_inverse (sv_psa sv) \<and> mesh_sane contents net"

interpretation relaying: weighted_steps "mesh_step sv" "mesh_ok sv contents" "mesh_weight sv contents" for sv contents
  by unfold_locales (use mesh_step_progress in \<open>auto simp: mesh_ok_def progress_def\<close>)



text \<open>
  C3. Relaying always comes to an end: whatever frames are on the air (forged ones included)
  and whatever the nodes have queued, receptions, relays and the acknowledgements they call
  for cannot go on for ever without a node sending something new of its own. Every hop uses
  up hop budget, and an acknowledgement is never acknowledged.
\<close>

theorem relaying_ends:
  assumes "queue_exact (sv_jobs sv) contents" "psa_ctr_inverse (sv_psa sv)" "mesh_sane contents (run 0)"
  shows "\<exists>k. \<not> mesh_step sv (run k) (run (Suc k))"
  by (rule relaying.runs_end [of sv contents]) (use assms in \<open>simp add: mesh_ok_def\<close>)


subsection \<open>A relay to try\<close>

text \<open>A queue in which nothing arrives while a task waits: arrivals are steps of their own.\<close>

definition plain_queue :: "('a, 'a list) queue_api" where
  "plain_queue = \<lparr>xQueueCreate = Some [], xQueueSend = (\<lambda>x q. if length q < FORWARD_QUEUE_DEPTH then (True, q @ [x]) else (False, q)),
     xQueueReceive = (\<lambda>t q. case q of [] \<Rightarrow> (None, []) | x # q' \<Rightarrow> (Some x, q'))\<rparr>"

lemma plain_queue_exact: "queue_exact plain_queue (\<lambda>q. q)"
  by (simp add: queue_exact_def queue_faithful_def plain_queue_def)

definition relay_services :: "(bytes \<rightharpoonup> bytes, u32 option, forward_job_t list, mesh_packet_t list, bytes, bytes) services" where
  "relay_services = \<lparr>sv_store = map_nvs, sv_cfg = cell_nvs, sv_jobs = plain_queue, sv_requests = plain_queue, sv_task_created = True,
     sv_psa = toy_psa, sv_config = toy_config\<rparr>"

text \<open>CHARLIE has a packet for BRAVO queued; \<open>air\<close> is what is on its way to whom.\<close>

definition relay_mesh :: "forward_job_t list \<Rightarrow> (nat \<times> bytes) multiset \<Rightarrow> (bytes \<rightharpoonup> bytes, u32 option, forward_job_t list, mesh_packet_t list) mesh" where
  "relay_mesh queued air = \<lparr>mesh_nodes = [\<lparr>my_node_id = pad 32 (lit ''CHARLIE''), duplicate_node_id_warning = False, replay_sources = replay_start,
     seen_filter = dedup_zero, routes = route_start, known_nodes = roster_start, scheduler = idle_sched,
     forwarder = \<lparr>forward_queues = [Some queued, Some [], Some []], normal_budget = 2, low_budget = 1\<rparr>, sequence = sample_seq,
     mesh_clock = time_start, sync_requests = \<lparr>sync_response_queue = None, sync_response_task = False\<rparr>\<rparr>], mesh_air = air\<rparr>"

lemma relay_mesh_ok:
  "queue_exact (sv_jobs relay_services) (\<lambda>q. q)" "psa_ctr_inverse (sv_psa relay_services)" "mesh_sane (\<lambda>q. q) (relay_mesh [sample_job] {#})"
proof -
  have "packet_sane (fj_packet sample_job)" by code_simp
  then show "mesh_sane (\<lambda>q. q) (relay_mesh [sample_job] {#})"
    by (simp add: mesh_sane_def relay_mesh_def node_sane_def jobs_def queue_view_def)
qed (simp_all add: relay_services_def plain_queue_exact toy_psa_inverse)

lemma relay_mesh_step:
  obtains frame d q where "mesh_step relay_services (relay_mesh [sample_job] {#}) (relay_mesh [] {#(1, frame), (2, frame)#})"
    "rx_decode relay_services (zeros PACKET_LEN) frame = Some (d, q)" "mp_hops q = 2" "\<not> is_ack q"
proof -
  obtain out n prio where w: "forward_worker_step (zeros 40) sample_job = Some (out, n, prio)" using relayed_frame_witness by blast
  have j: "relayable (fj_packet sample_job)" "mp_hops (fj_packet sample_job) = 3" "\<not> is_ack (fj_packet sample_job)" by code_simp+
  from relayed_frame [OF j(1) w] j(2,3) obtain q where q: "parse_mesh_packet_v2 (take n out) = Some q" "mp_hops q = 2" "\<not> is_ack q"
    by (auto simp: is_ack_code)
  have s: "packet_sane (fj_packet sample_job)" using j(1) by (simp add: packet_sane_def relayable_def)
  have l: "length (take n out) \<le> 227" using built_v2(2) [OF worker_builds(1,2) [OF s w]] by simp
  obtain frame len where f: "bems_encrypt_frame toy_psa toy_config 1 2 (take n out) (zeros 255) = Some (frame, len)"
    by (rule toy_encrypts_any [OF l])
  then have f': "bems_encrypt_frame (sv_psa relay_services) (sv_config relay_services) 1 2 (take n out) (zeros 255) = Some (frame, len)"
    by (simp add: relay_services_def)
  have r: "forward_worker_round relay_services 5 (zeros 40) (mesh_nodes (relay_mesh [sample_job] {#}) ! 0) =
      (Some (out, n, prio), mesh_nodes (relay_mesh [] {#}) ! 0)"
    using w by (simp add: forward_worker_round_def relay_mesh_def relay_services_def forward_queue_receive_def take_from_def
        forward_queue_init_def plain_queue_def)
  have "mesh_step relay_services (relay_mesh [sample_job] {#}) (relay_mesh [] {#(1, take len frame), (2, take len frame)#})"
    using step_relay [OF _ r f', of "{#}" "[1, 2]"] by (simp add: relay_mesh_def)
  moreover have "length (take n out) < length (zeros PACKET_LEN)" using l by simp
  ultimately show thesis using that rx_decode_encrypted [OF relay_mesh_ok(2) f' q(1)] q(2,3) by blast
qed

theorem relaying_ends_witness:
  "(\<exists>net'. mesh_step relay_services (relay_mesh [sample_job] {#}) net') \<and>
   (\<nexists>run. run 0 = relay_mesh [sample_job] {#} \<and> (\<forall>k. mesh_step relay_services (run k) (run (Suc k))))"
proof
  show "\<exists>net'. mesh_step relay_services (relay_mesh [sample_job] {#}) net'" using relay_mesh_step by blast
  show "\<nexists>run. run 0 = relay_mesh [sample_job] {#} \<and> (\<forall>k. mesh_step relay_services (run k) (run (Suc k)))"
    using relaying_ends [OF relay_mesh_ok(1,2)] relay_mesh_ok(3) by metis
qed


end
