(* ===== verification/Firmware.thy ===== *)
theory Firmware
  imports Mesh_Network
begin

text \<open>
  The firmware as it runs: the tasks \<open>app_runtime_start\<close> and the drivers create, each as one
  round of its loop on the state of the node, interleaved in any order and with restarts. The
  invariant of the node's memory is shown for all of them together.
\<close>

subsection \<open>The tasks\<close>

text \<open>\<open>time_sync_task\<close>: one round before its delay of 30 seconds; \<open>t1\<close> to \<open>t3\<close> are ticks.\<close>

definition time_sync_round ::
  "('n, 'c, 'q, 'r, 'k, 'o) services \<Rightarrow> u32 \<Rightarrow> u32 \<Rightarrow> u32 \<Rightarrow> ('n, 'c, 'q, 'r) node \<Rightarrow> (bytes \<times> nat) option \<times> ('n, 'c, 'q, 'r) node" where
  "time_sync_round sv t1 t2 t3 nd =
    (case mesh_control_broadcast_time_sync_if_synced (sv_cfg sv) (my_node_id nd) t1 t2 t3 (mesh_clock nd, sequence nd) of
       (frame, clock, sq) \<Rightarrow> (frame, nd\<lparr>mesh_clock := clock, sequence := sq\<rparr>))"

text \<open>\<open>sync_response_task\<close>: the frames it sends for the next request, if one is there.\<close>

definition sync_response_round ::
  "('n, 'c, 'q, 'r, 'k, 'o) services \<Rightarrow> nat \<Rightarrow> ('n, 'c, 'q, 'r) node \<Rightarrow> (bytes \<times> nat) list \<times> ('n, 'c, 'q, 'r) node" where
  "sync_response_round sv ticks nd =
    (case sync_response_queue (sync_requests nd) of
       None \<Rightarrow> ([], nd)
     | Some q \<Rightarrow>
        (case xQueueReceive (sv_requests sv) ticks q of (request, q) \<Rightarrow>
          (let nd = nd\<lparr>sync_requests := (sync_requests nd)\<lparr>sync_response_queue := Some q\<rparr>\<rparr> in
           case request of
             None \<Rightarrow> ([], nd)
           | Some request \<Rightarrow>
              (case mesh_control_send_sync_responses (sv_cfg sv) (my_node_id nd) (tx_store (scheduler nd)) request (sequence nd) of
                 (frames, sq) \<Rightarrow> (frames, nd\<lparr>sequence := sq\<rparr>)))))"

text \<open>
  The memory of a node when power comes on: everything but the flash is lost.
\<close>

definition power_on :: "('n, 'c, 'q, 'r) node \<Rightarrow> ('n, 'c, 'q, 'r) node" where
  "power_on nd =
    \<lparr>my_node_id = zeros FIELD_LEN, duplicate_node_id_warning = False, replay_sources = replay_start, seen_filter = dedup_zero,
     routes = route_start, known_nodes = roster_start,
     scheduler = \<lparr>tx_entries = replicate MAX_MESSAGES tx_entry_zero, next_generation = 0,
       tx_store = \<lparr>persisted_slots = replicate MAX_MESSAGES persisted_message_zero, reserved_slots = replicate MAX_MESSAGES False,
         active_count = 0, flash = flash (tx_store (scheduler nd))\<rparr>\<rparr>,
     forwarder = forward_start,
     sequence = \<lparr>sequence_counter = 0, sequence_loaded = False, cfg_flash = cfg_flash (sequence nd)\<rparr>,
     mesh_clock = time_start, sync_requests = \<lparr>sync_response_queue = None, sync_response_task = False\<rparr>\<rparr>"

subsection \<open>The scheduler's entries and records\<close>

definition pair_wf :: "tx_entry_t \<times> 'n store_state \<Rightarrow> bool" where
  "pair_wf es \<longleftrightarrow> (case es of (e, s) \<Rightarrow> wf_message (te_message e) \<and> int32 (te_remaining_hops e) \<and> store_inv s)"

lemma pair_wf_fields [simp]:
  "pair_wf (e\<lparr>te_state := a\<rparr>, s) = pair_wf (e, s)" "pair_wf (e\<lparr>te_error := b\<rparr>, s) = pair_wf (e, s)"
  "pair_wf (e\<lparr>te_active := c\<rparr>, s) = pair_wf (e, s)" "pair_wf (e\<lparr>te_next_action_tick := d\<rparr>, s) = pair_wf (e, s)"
  "pair_wf (e\<lparr>te_radio_request_id := g\<rparr>, s) = pair_wf (e, s)" "pair_wf (e\<lparr>te_attempts := h\<rparr>, s) = pair_wf (e, s)"
  by (simp_all add: pair_wf_def)

lemma pair_wf_set_status: "pair_wf es \<Longrightarrow> pair_wf (set_status api status es)"
proof (cases es)
  case (Pair e s)
  define m where "m = (te_message e)\<lparr>em_status := copy_field (em_status (te_message e)) status,
    em_hops := if te_remaining_hops e < 0 then 0 else te_remaining_hops e\<rparr>"
  assume "pair_wf es"
  then have w: "wf_message m" "int32 (te_remaining_hops e)" "store_inv s" using Pair by (auto simp: pair_wf_def m_def wf_message_def int32_def)
  have "store_inv (snd (message_store_update api slot m s))" for slot
    using message_store_update_inv [OF w(3,1)] by (cases "message_store_update api slot m s") auto
  then show ?thesis using w Pair by (simp add: set_status_def pair_wf_def m_def [symmetric] Let_def)
qed

lemma pair_wf_finalize: "pair_wf es \<Longrightarrow> pair_wf (finalize_failure api es)"
  by (cases es) (auto simp: finalize_failure_def Let_def split: prod.split dest!: arg_cong [of _ _ pair_wf] intro: pair_wf_set_status)


lemma sched_pair: "sched_wf st \<Longrightarrow> i < MAX_MESSAGES \<Longrightarrow> pair_wf (tx_entries st ! i, tx_store st)"
  by (auto simp: sched_wf_def tx_inv_def pair_wf_def)

lemma sched_wf_put:
  assumes "sched_wf st" "pair_wf (e, s)" "tx_inv st'" "tx_entries st' = (tx_entries st)[i := e]" "tx_store st' = s"
  shows "sched_wf st'"
  using assms by (auto simp: sched_wf_def pair_wf_def dest!: set_list_update_cases)

lemma sched_wf_at_entry:
  assumes "sched_wf st" "i < MAX_MESSAGES" "\<And>es. pair_wf es \<Longrightarrow> pair_wf (f es)" "tx_inv (at_entry i f st)"
  shows "sched_wf (at_entry i f st)"
proof -
  obtain e s where e: "f (tx_entries st ! i, tx_store st) = (e, s)" by fastforce
  have "pair_wf (e, s)" using assms(3) [OF sched_pair [OF assms(1,2)]] e by simp
  then show ?thesis by (rule sched_wf_put [OF assms(1) _ assms(4)]) (simp_all add: at_entry_def e)
qed

lemma tx_step_inv: "sched_wf st \<Longrightarrow> tx_step api r k st st' \<Longrightarrow> tx_inv st'"
  using tx_step_totals unfolding sched_wf_def by blast

lemmas pair_wf_intros = pair_wf_set_status pair_wf_finalize

lemma radio_result_wf:
  assumes "sched_wf st"
  shows "sched_wf (handle_radio_result api now res st)"
proof (cases "handle_radio_result api now res st = st")
  case False
  then obtain c i where i: "find_entry_by_generation (tx_entries st) (em_id (te_message (tx_entries st ! c)))
      (te_generation (tx_entries st ! c)) (rr_request_id res) = Some i"
    "handle_radio_result api now res st = at_entry i (radio_outcome api now (rr_result res)) st"
    by (auto simp: handle_radio_result_def split: option.splits if_splits)
  have "i < 16" using find_index_in [OF i(1) [unfolded find_entry_by_generation_def]] assms by (simp add: sched_wf_def)
  moreover have "pair_wf (radio_outcome api now code es)" if "pair_wf es" for code es
    using that by (cases es; cases code) (simp_all add: radio_outcome_def pair_wf_intros)
  moreover have "tx_inv (handle_radio_result api now res st)" by (rule tx_step_inv [OF assms tx_radio])
  ultimately show ?thesis using sched_wf_at_entry [OF assms] i(2) by simp
qed (use assms in simp)

lemma visit_wf:
  assumes "sched_wf st" "i < MAX_MESSAGES" "scheduler_visit api now i st = (b, st')"
  shows "sched_wf st'"
proof -
  have inv: "tx_inv st'" by (rule tx_step_inv [OF assms(1) tx_visit [OF assms(2,3)]])
  have "st' = st \<or> (\<exists>f. st' = at_entry i f st \<and> (\<forall>es. pair_wf es \<longrightarrow> pair_wf (f es)))"
    using assms(3) by (fastforce simp: scheduler_visit_def Let_def pair_wf_intros split: if_splits)
  then show ?thesis using assms(1,2) inv sched_wf_at_entry by metis
qed

lemma send_begin_wf:
  assumes "sched_wf st" "i < MAX_MESSAGES" "send_begin api now random best local stack i st = (req, st')"
  shows "sched_wf st'"
proof -
  have inv: "tx_inv st'" by (rule tx_step_inv [OF assms(1) tx_begin [OF assms(2,3)]])
  have p: "pair_wf (tx_entries st ! i, tx_store st)" by (rule sched_pair [OF assms(1,2)])
  let ?e = "tx_entries st ! i"
  show ?thesis
  proof (cases "st' = st")
    case changed: False
    show ?thesis
    proof (cases "te_attempts ?e \<ge> TX_RETRY_MAX_ATTEMPTS \<or> prepare_current_packet best local stack ?e = None")
      case True
      then obtain f where f: "st' = at_entry i f st" "f = (\<lambda>(e, s). finalize_failure api (e\<lparr>te_error := TX_ERROR_RADIO_TIMEOUT\<rparr>, s)) \<or>
          f = (\<lambda>(e, s). case set_status api (state_label TX_STATE_FAILED_QUEUE TX_ERROR_PACKET_BUILD)
                   (e\<lparr>te_state := TX_STATE_FAILED_QUEUE, te_error := TX_ERROR_PACKET_BUILD\<rparr>, s) of (e, s) \<Rightarrow>
              (e\<lparr>te_active := False, te_next_action_tick := now + pdMS_TO_TICKS TX_ACK_TIMEOUT_MS\<rparr>, s))"
        using assms(3) changed by (auto simp: send_begin_def Let_def split: if_splits)
      have "pair_wf (f es)" if "pair_wf es" for es
      proof (cases es)
        case (Pair e s)
        have "pair_wf (set_status api status (e\<lparr>te_state := a, te_error := b\<rparr>, s))" for status a b
          using that Pair by (intro pair_wf_set_status) simp
        then show ?thesis using f(2) that Pair pair_wf_finalize [of "(e\<lparr>te_error := TX_ERROR_RADIO_TIMEOUT\<rparr>, s)" api]
          by (auto split: prod.split) (metis pair_wf_fields(3,4))
      qed
      then show ?thesis using sched_wf_at_entry [OF assms(1,2)] inv f(1) by simp
    next
      case False
      then obtain e where "st' = st\<lparr>tx_entries := (tx_entries st)[i := e]\<rparr>" "pair_wf (e, tx_store st)"
        using assms(3) changed p by (auto simp: send_begin_def Let_def split: if_splits)
      then show ?thesis by (intro sched_wf_put [OF assms(1) _ inv]) simp_all
    qed
  qed (use assms(1) in simp)
qed

lemma send_finish_wf:
  assumes "sched_wf st"
  shows "sched_wf (send_finish api now mid gen rid res st)"
proof (cases "send_finish api now mid gen rid res st = st")
  case False
  let ?f = "\<lambda>(e, s). if res \<noteq> ESP_OK then
            (let e = e\<lparr>te_error := TX_ERROR_QUEUE_FULL\<rparr> in
             if te_attempts e \<ge> TX_RETRY_MAX_ATTEMPTS then finalize_failure api (e, s)
             else (e\<lparr>te_state := TX_STATE_RETRY_BACKOFF, te_next_action_tick := now + pdMS_TO_TICKS 2000\<rparr>, s))
          else (e\<lparr>te_state := TX_STATE_WAITING_RADIO, te_next_action_tick := now + pdMS_TO_TICKS 10000\<rparr>, s)"
  obtain i where i: "find_entry_by_generation (tx_entries st) mid gen rid = Some i"
    "send_finish api now mid gen rid res st = at_entry i ?f st"
    using False by (cases "find_entry_by_generation (tx_entries st) mid gen rid") (simp_all add: send_finish_def split: if_splits)
  have "i < 16" using find_index_in [OF i(1) [unfolded find_entry_by_generation_def]] assms by (simp add: sched_wf_def)
  moreover have "pair_wf (?f es)" if "pair_wf es" for es
    using that by (cases es) (simp add: Let_def pair_wf_finalize)
  moreover have "tx_inv (send_finish api now mid gen rid res st)" by (rule tx_step_inv [OF assms tx_finish])
  ultimately show ?thesis using sched_wf_at_entry [OF assms] i(2) by simp
qed (use assms in simp)

lemma submit_wf:
  assumes "sched_wf st" "wf_message m" "tx_scheduler_submit api now m slot st = (b, st')"
  shows "sched_wf st'"
  using assms(3)
proof (cases rule: submit_cases)
  case (taken i e)
  let ?g = "fresh_generation (next_generation st)"
  let ?e = "tx_entry_zero\<lparr>te_generation := ?g, te_message := m, te_nvs_slot := slot, te_state := TX_STATE_QUEUED,
      te_error := TX_ERROR_NONE, te_attempts := 0, te_remaining_hops := em_hops m, te_next_action_tick := now, te_active := True\<rparr>"
  have inv: "tx_inv st'" using submit_totals [OF _ assms(3)] assms(1) by (simp add: sched_wf_def)
  have "pair_wf (?e, tx_store st)" using assms(1,2) by (simp add: pair_wf_def sched_wf_def wf_message_def int32_def)
  then have p: "pair_wf (set_status api (lit ''QUEUED'') (?e, tx_store st))" by (rule pair_wf_set_status)
  obtain e' s' where e': "set_status api (lit ''QUEUED'') (?e, tx_store st) = (e', s')" by fastforce
  have "tx_entries st' = (tx_entries st)[i := e'] \<and> tx_store st' = s'"
    using assms(3) taken(1) e' by (auto simp: tx_scheduler_submit_def at_entry_def Let_def)
  then show ?thesis using p e' by (intro sched_wf_put [OF assms(1) _ inv, of e' s' i]) simp_all
qed (use assms(1) in simp)

lemma restore_loop_wf:
  "sched_wf st \<Longrightarrow> \<forall>(m, slot)\<in>set pending. wf_message m \<Longrightarrow> sched_wf (snd (restore_loop tick pending st))"
proof (induction tick pending st rule: restore_loop.induct)
  case (2 tick m slot pending st)
  show ?case
  proof (cases "next_slot (tx_entries st)")
    case (Some i)
    let ?g = "fresh_generation (next_generation st)"
    let ?e = "tx_entry_zero\<lparr>te_message := m, te_nvs_slot := int slot, te_generation := ?g, te_state := TX_STATE_QUEUED,
        te_remaining_hops := em_hops m, te_next_action_tick := tick, te_active := True\<rparr>"
    let ?st = "st\<lparr>tx_entries := (tx_entries st)[i := ?e], next_generation := ?g\<rparr>"
    have inv: "tx_inv ?st" using fresh_entry [OF _ Some, of ?st ?e] "2.prems"(1) by (simp add: sched_wf_def tx_entry_zero_def)
    have "pair_wf (?e, tx_store st)" using "2.prems" by (simp add: pair_wf_def sched_wf_def wf_message_def int32_def)
    then have "sched_wf ?st" by (rule sched_wf_put [OF "2.prems"(1) _ inv]) simp_all
    then have "sched_wf (snd (restore_loop tick pending ?st))" using "2.IH" [OF Some refl refl] "2.prems"(2) by simp
    then show ?thesis using Some by (simp add: Let_def case_prod_unfold)
  qed (use "2.prems" in \<open>simp del: find_index_None\<close>)
qed simp

lemma restore_wf:
  assumes "sched_wf st"
  shows "sched_wf (snd (tx_scheduler_restore_pending tick st))"
proof -
  have "\<forall>(m, k)\<in>set (pending_loop rs slot room). m \<in> pm_message ` set rs" for rs slot room
    by (induction rs slot room rule: pending_loop.induct) auto
  then have "\<forall>(m, k)\<in>set (message_store_copy_pending_tx MAX_MESSAGES (tx_store st)). wf_message m"
    using assms by (fastforce simp: message_store_copy_pending_tx_def sched_wf_def store_inv_def slot_ok_def)
  from restore_loop_wf [OF assms this] show ?thesis by (simp add: tx_scheduler_restore_pending_def)
qed

lemma outgoing_message_wf: "wf_location loc \<Longrightarrow> wf_message (outgoing_message i n epoch loc dst typ prio pay)"
  by (simp add: outgoing_message_def Let_def wf_message_def emergency_message_zero_def wf_location_def field_def)

lemma node_wf_sequence: "node_wf (nd\<lparr>sequence := sq, scheduler := st\<rparr>) = node_wf (nd\<lparr>scheduler := st\<rparr>)"
  by (simp add: node_wf_def)

lemma queue_message_wf:
  assumes "node_wf nd" "wf_location loc"
  shows "node_wf (queue_message sv t1 t2 loc dst typ prio pay nd)"
proof -
  obtain ident sq where q: "mesh_sequence_next (sv_cfg sv) (sequence nd) = (ident, sq)" by fastforce
  define m where "m = outgoing_message (my_node_id nd) ident (stamp t1 (mesh_clock nd)) loc dst typ prio pay"
  have m: "wf_message m" unfolding m_def by (rule outgoing_message_wf [OF assms(2)])
  obtain slot s1 where a: "message_store_allocate (sv_store sv) (tx_store (scheduler nd)) = (slot, s1)" by fastforce
  have st: "sched_wf (scheduler nd)" using assms(1) by (simp add: node_wf_def)
  have swf: "sched_wf ((scheduler nd)\<lparr>tx_store := s\<rparr>)" if "store_inv s" for s using st that by (simp add: sched_wf_def tx_inv_def)
  have i1: "store_inv s1" by (rule message_store_allocate_inv [OF _ a]) (use st in \<open>simp add: sched_wf_def\<close>)
  have "sched_wf (scheduler (queue_message sv t1 t2 loc dst typ prio pay nd))"
  proof (cases slot)
    case (Some i)
    obtain r s2 where w: "message_store_write (sv_store sv) (int i) m s1 = (r, s2)" by fastforce
    note i2 = message_store_write_inv [OF i1 m w]
    obtain b st3 where u: "tx_scheduler_submit (sv_store sv) t2 m (int i) ((scheduler nd)\<lparr>tx_store := s2\<rparr>) = (b, st3)" by fastforce
    note w3 = submit_wf [OF swf [OF i2] m u]
    let ?f = "m\<lparr>em_status := copy_field (em_status m) (lit ''FAILED'')\<rparr>"
    have f: "wf_message ?f" using m by (simp add: wf_message_def)
    have "store_inv (snd (message_store_update (sv_store sv) (int i) ?f (tx_store st3)))"
      using message_store_update_inv [OF _ f, of "tx_store st3"] w3 by (cases "message_store_update (sv_store sv) (int i) ?f (tx_store st3)") (auto simp: sched_wf_def)
    then have "sched_wf (st3\<lparr>tx_store := snd (message_store_update (sv_store sv) (int i) ?f (tx_store st3))\<rparr>)"
      using w3 by (simp add: sched_wf_def tx_inv_def)
    then show ?thesis using q a Some w u w3 swf [OF i2]
      by (cases b) (simp_all add: queue_message_def Let_def m_def [symmetric])
  qed (use q a swf [OF i1] in \<open>simp add: queue_message_def Let_def\<close>)
  moreover have "queue_message sv t1 t2 loc dst typ prio pay nd =
      nd\<lparr>sequence := snd (mesh_sequence_save (sv_cfg sv) sq), scheduler := scheduler (queue_message sv t1 t2 loc dst typ prio pay nd)\<rparr>"
    using q by (simp add: queue_message_def Let_def split: option.split prod.split bool.split)
  then have "node_wf (queue_message sv t1 t2 loc dst typ prio pay nd) \<longleftrightarrow>
      node_wf (nd\<lparr>scheduler := scheduler (queue_message sv t1 t2 loc dst typ prio pay nd)\<rparr>)"
    by (metis node_wf_sequence)
  ultimately show ?thesis using assms(1) by (auto simp: node_wf_def)
qed

lemma power_on_wf: "node_wf (app_runtime_start sv mac4 mac5 stored tick (power_on nd))"
proof -
  define st where "st = (scheduler (power_on nd))\<lparr>tx_store := message_store_load_messages_from_nvs (sv_store sv)
    (Some (fst (boot_identity mac4 mac5 stored))) (tx_store (scheduler (power_on nd)))\<rparr>"
  have e: "tx_entries st = replicate MAX_MESSAGES tx_entry_zero" by (simp add: st_def power_on_def)
  have "store_inv (tx_store st)" by (simp add: st_def load_inv)
  moreover have "wf_message (te_message tx_entry_zero)" "int32 (te_remaining_hops tx_entry_zero)"
    by (simp_all add: tx_entry_zero_def int32_def)
  ultimately have "sched_wf st" using total_boot [OF e] by (auto simp: sched_wf_def e)
  from restore_wf [OF this] show ?thesis
    by (simp add: app_runtime_start_def Let_def st_def [symmetric] node_wf_def)
      (simp add: power_on_def replay_protection_reset_def replay_start_def route_start_def roster_start_def forward_start_def budgets_ok_def forward_queue_init_def)
qed


subsection \<open>Requests to the portal\<close>

lemma field_zero: "field n b \<longleftrightarrow> length b = n \<and> 0 \<in> set b"
proof -
  have "length (cstr b) < length b \<longleftrightarrow> 0 \<in> set b"
    by (induction b) (auto simp: cstr_def)
  then show ?thesis by (auto simp: field_def)
qed

lemma form_value_field: "field n b \<Longrightarrow> field n (snd (form_value_loop s key b))"
proof (induction s key b rule: form_value_loop.induct)
  case (1 s key b)
  have d: "field n (url_decode v)" if "field n v" for v
  proof -
    have "length (cstr v) < length v" using that by (simp add: field_def)
    then have "0 \<in> set (url_decode v)" "length (url_decode v) = length v"
      using length_url_decode [of v] by (simp_all add: url_decode_spec)
    then show ?thesis using that by (simp add: field_zero)
  qed
  have u: "field n ((blit b 0 (take k w))[k := 0])" if "k \<le> n - 1" "0 < n" for k w
    using that 1(2) by (intro field_terminated) (linarith, simp add: field_def)
  have n: "0 < n" using 1(2) by (cases n) (auto simp: field_def)
  show ?case
    using 1 d [OF u [OF _ n]] by (subst form_value_loop.simps) (auto simp: Let_def field_length split: list.split)
qed

lemma setup_form_wf: "setup_form body = (raw, c) \<Longrightarrow> wf_node_config c"
proof -
  have z: "field n (zeros n)" if "0 < n" for n using that by (simp add: field_zero zeros_def)
  have "field n (form_field body key (zeros n))" if "0 < n" for key n
    using form_value_field [OF z [OF that]] by (simp add: form_field_def form_value_def)
  moreover have "field 32 (node_config_copy_node_id (zeros 32) x)" for x
  proof -
    have "0 \<in> set (node_config_copy_node_id (zeros 32) x)" unfolding node_config_copy_node_id_def by (subst copy_loop_spec) simp_all
    then show ?thesis by (simp add: field_zero) (simp add: node_config_copy_node_id_def)
  qed
  ultimately show "setup_form body = (raw, c) \<Longrightarrow> wf_node_config c"
    by (auto simp: setup_form_def Let_def wf_node_config_def wf_location_def node_config_zero_def location_zero_def)
qed


text \<open>What holds of the state behind the portal in every task: memory and credentials.\<close>

definition strong :: "'f config_state \<Rightarrow> bool" where
  "strong st \<longleftrightarrow> wf_config_state st \<and> (nc_configured (node_config st) \<longrightarrow> \<not> weak_credentials (node_config st))"

definition portal_wf :: "('n, 'c, 'q, 'r, 'f) portal \<Rightarrow> bool" where
  "portal_wf pt \<longleftrightarrow> node_wf (pt_node pt) \<and> strong (pt_config pt)"

lemma portal_wf_simps [simp]:
  "portal_wf (pt\<lparr>pt_auth := a\<rparr>) = portal_wf pt" "portal_wf (pt\<lparr>pt_last_send_tick := t\<rparr>) = portal_wf pt"
  "portal_wf (pt\<lparr>pt_frames := f\<rparr>) = portal_wf pt" "portal_wf (touched now request pt) = portal_wf pt"
  "portal_wf (pt\<lparr>pt_node := nd\<rparr>) \<longleftrightarrow> node_wf nd \<and> strong (pt_config pt)"
  "portal_wf (pt\<lparr>pt_config := c\<rparr>) \<longleftrightarrow> node_wf (pt_node pt) \<and> strong c"
  by (simp_all add: portal_wf_def touched_def)

lemma node_wf_simps [simp]:
  "node_wf (nd\<lparr>mesh_clock := c\<rparr>) = node_wf nd" "node_wf (nd\<lparr>sequence := sq\<rparr>) = node_wf nd"
  "node_wf (nd\<lparr>sync_requests := q\<rparr>) = node_wf nd" "node_wf (nd\<lparr>my_node_id := i\<rparr>) = node_wf nd"
  by (simp_all add: node_wf_def)

lemma roster_snapshot_sizes:
  "length (roster (roster_snapshot_loop n i now st)) = length (roster st) \<and> roster_count (roster_snapshot_loop n i now st) = roster_count st"
  by (induction n i now st rule: roster_snapshot_loop.induct) simp_all

lemma status_node_wf:
  assumes "node_wf nd"
  shows "node_wf (nd\<lparr>known_nodes := snd (roster_get_snapshot a t (known_nodes nd)), routes := snd (route_table_get_snapshot b u (routes nd))\<rparr>)"
  using assms by (auto simp: node_wf_def roster_get_snapshot_def route_table_get_snapshot_def Let_def min_def roster_snapshot_sizes)

lemma status_handler_wf: "portal_wf pt \<Longrightarrow> portal_wf (fst (snd (http_status_handler ctx now t request pt)))"
proof -
  have b: "portal_wf (fst (snd (http_status_body ctx t request p tr)))" if "portal_wf p" for p tr
    using that status_node_wf [of "pt_node p"] by (simp add: http_status_body_def Let_def case_prod_unfold) (simp add: portal_wf_def)
  show "portal_wf pt \<Longrightarrow> portal_wf (fst (snd (http_status_handler ctx now t request pt)))"
    by (simp add: http_status_handler_def require_session_cases b)
qed

lemma send_handler_wf: "portal_wf pt \<Longrightarrow> portal_wf (fst (snd (http_send_handler env now t request pt)))"
proof -
  have b: "portal_wf (fst (snd (http_send_body env t request p tr)))" if "portal_wf p" for p tr
  proof -
    have "wf_location (nc_location (node_config (pt_config p)))" "node_wf (pt_node p)" "strong (pt_config p)"
      using that by (simp_all add: portal_wf_def strong_def wf_config_state_def wf_node_config_def)
    note w = queue_message_wf [OF this(2,1)] this(3)
    obtain r body tr1 where b: "http_read_body_checked request (zeros 384) tr = (r, body, tr1)" by (metis prod_cases3)
    obtain sn hd d ty pr pl where f: "send_form body = (sn, hd, d, ty, pr, pl)" by (metis prod_cases6)
    show ?thesis using that w(2) by (cases "send_error hd d sn ty pr pl") (simp_all add: http_send_body_def Let_def b f w(1) case_prod_unfold)
  qed
  show "portal_wf pt \<Longrightarrow> portal_wf (fst (snd (http_send_handler env now t request pt)))"
    by (simp add: http_send_handler_def require_session_cases b)
qed

lemma save_strong:
  assumes "strong st" "wf_node_config c" "\<not> weak_credentials c" "node_config_save api (Some c) st = (r, st')"
  shows "strong st'"
  using assms(1-3) wf_node_config_save [OF _ assms(2), of st api] save_config_step [OF assms(4)] assms(4) by (auto simp: strong_def)


lemma setup_handler_wf:
  assumes "portal_wf pt"
  shows "portal_wf (fst (snd (http_setup_handler env now request pt)))"
proof -
  obtain auth p0 tr0 where g: "(if pt_configured pt then require_session now request pt else (ESP_OK, pt, [])) = (auth, p0, tr0)"
    by (metis prod_cases3)
  then have p0: "portal_wf p0" using assms by (auto simp: require_session_cases split: if_splits)
  obtain rb body tr1 where b: "http_read_body_checked request (zeros 384) tr0 = (rb, body, tr1)" by (metis prod_cases3)
  obtain raw c where f: "setup_form body = (raw, c)" by (metis prod.exhaust)
  obtain r st where v: "node_config_save (pe_config env) (Some (c\<lparr>nc_configured := True\<rparr>)) (pt_config p0) = (r, st)" by fastforce
  have c: "wf_node_config (c\<lparr>nc_configured := True\<rparr>)" using setup_form_wf [OF f] by (simp add: wf_node_config_def)
  have "strong st" if "setup_error body raw c = None"
    using save_strong [OF _ c _ v] setup_accepted_valid [OF f that] p0 by (simp add: portal_wf_def valid_setup_def)
  then show ?thesis using g b f v p0
    by (cases "setup_error body raw c") (simp_all add: http_setup_handler_def Let_def case_prod_unfold portal_wf_def)
qed

lemma erase_strong: "strong st \<Longrightarrow> strong (config_erased api st)"
  by (simp add: strong_def config_erased_def wf_config_state_def)

lemma erased_wf: "portal_wf pt \<Longrightarrow> portal_wf (configuration_erased env pt)"
proof -
  assume w: "portal_wf pt"
  have "node_wf (pt_node (with_namespace ns pt))" for ns
    using w by (auto simp: portal_wf_def with_namespace_def node_wf_def sched_wf_def tx_inv_def)
  then have "node_wf (pt_node (configuration_erased env pt))" by (simp add: configuration_erased_def)
  moreover have "strong (config_erased (pe_config env) (pt_config pt))" using w by (simp add: portal_wf_def erase_strong)
  ultimately show ?thesis by (simp add: portal_wf_def)
qed

lemma other_handlers_wf:
  assumes "portal_wf pt"
  shows "portal_wf (fst (snd (http_reset_handler env now request pt)))" "portal_wf (fst (snd (http_time_handler env now t request pt)))"
    "portal_wf (fst (snd (http_sync_handler env now request pt)))" "portal_wf (fst (snd (http_messages_handler now request pt)))"
    "portal_wf (fst (snd (http_portal_index_handler env now request pt)))" "portal_wf (fst (snd (http_portal_login_page_handler env now request pt)))"
    "portal_wf (fst (snd (http_setup_get_handler env now request pt)))"
proof -
  have n: "node_wf (pt_node (touched now request pt))" "strong (pt_config (touched now request pt))" "node_wf (pt_node pt)" "strong (pt_config pt)"
    using assms by (simp_all add: portal_wf_def touched_def)
  show "portal_wf (fst (snd (http_reset_handler env now request pt)))"
    using assms n by (simp add: http_reset_handler_def http_reset_body_def require_session_cases erased_wf)
  have t: "portal_wf (fst (snd (http_time_body env t request p tr)))" if "portal_wf p" for p tr
    using that by (simp add: http_time_body_def Let_def case_prod_unfold portal_wf_def)
  show "portal_wf (fst (snd (http_time_handler env now t request pt)))"
    using assms by (simp add: http_time_handler_def require_session_cases t)
  show "portal_wf (fst (snd (http_sync_handler env now request pt)))"
    using assms n by (simp add: http_sync_handler_def http_sync_body_def require_session_cases case_prod_unfold)
  show "portal_wf (fst (snd (http_messages_handler now request pt)))"
    using assms by (simp add: http_messages_handler_def http_messages_body_def require_session_cases Let_def case_prod_unfold)
qed (use assms in \<open>auto simp: http_portal_index_handler_def http_portal_login_page_handler_def http_setup_get_handler_def Let_def
      split: prod.splits\<close>)

lemma serve_wf:
  assumes "portal_wf pt" "http_serve um env rd request pt = (pt', tr)"
  shows "portal_wf pt'"
proof (cases "find_route um request")
  case (Some handler)
  have "portal_wf (fst (snd (run_handler env rd request handler pt)))"
    using assms(1) other_handlers_wf [OF assms(1)] setup_handler_wf send_handler_wf status_handler_wf
    by (cases handler) (simp_all add: on_auth_def case_prod_unfold)
  then show ?thesis using assms(2) Some by (cases "run_handler env rd request handler pt") (simp add: http_serve_def)
qed (use assms in \<open>simp add: http_serve_def\<close>)


subsection \<open>All tasks together\<close>

text \<open>The state behind the portal when power comes on.\<close>

definition power_cycle :: "('n, 'c, 'q, 'r, 'f) portal \<Rightarrow> ('n, 'c, 'q, 'r, 'f) portal" where
  "power_cycle pt =
    \<lparr>pt_auth = \<lparr>session_token = zeros SESSION_TOKEN_LEN, session_last_activity_tick = 0, last_login_attempt_tick = 0, failed_login_count = 0\<rparr>,
     pt_config = \<lparr>node_config = node_config_zero, identity = zeros FIELD_LEN, config_flash = config_flash (pt_config pt)\<rparr>,
     pt_node = power_on (pt_node pt), pt_last_send_tick = 0, pt_frames = []\<rparr>"

text \<open>
  A step is a frame handled by the radio task, a request served by the portal, the factory
  reset button erasing the configuration, a round of the
  forward worker, of the two synchronisation tasks or of \<open>boot_sync_task\<close>, or a critical section of
  the scheduler task: a result of the radio, the visit of an entry, and the two parts of
  \<open>send_current_packet\<close> around \<open>lora_tx_submit\<close>.
\<close>

inductive task_step ::
  "(bytes \<Rightarrow> bytes \<Rightarrow> bool) \<Rightarrow> ('n, 'c, 'q, 'r, 'k, 'o, 'f) portal_env \<Rightarrow> ('n, 'c, 'q, 'r, 'f) portal \<Rightarrow> ('n, 'c, 'q, 'r, 'f) portal \<Rightarrow> bool"
  for um env where
  task_receive: "lora_handle_rx_packet (pe_services env) rd stack frame rssi snr (pt_node pt) = Some nd \<Longrightarrow> int32 rssi \<Longrightarrow> int32 snr \<Longrightarrow>
    task_step um env pt (pt\<lparr>pt_node := nd\<rparr>)"
| task_serve: "http_serve um env hr request pt = (pt', tr) \<Longrightarrow> task_step um env pt pt'"
| task_forward: "forward_worker_round (pe_services env) ticks stack (pt_node pt) = (out, nd) \<Longrightarrow> task_step um env pt (pt\<lparr>pt_node := nd\<rparr>)"
| task_sync_response: "sync_response_round (pe_services env) ticks (pt_node pt) = (frames, nd) \<Longrightarrow> task_step um env pt (pt\<lparr>pt_node := nd\<rparr>)"
| task_time_sync: "time_sync_round (pe_services env) t1 t2 t3 (pt_node pt) = (frame', nd) \<Longrightarrow> task_step um env pt (pt\<lparr>pt_node := nd\<rparr>)"
| task_button: "task_step um env pt (configuration_erased env pt)"
| task_boot_sync: "boot_sync_round env ready pt = (frame', pt') \<Longrightarrow> task_step um env pt pt'"
| task_result: "st = handle_radio_result (sv_store (pe_services env)) now res (scheduler (pt_node pt)) \<Longrightarrow>
    task_step um env pt (pt\<lparr>pt_node := (pt_node pt)\<lparr>scheduler := st\<rparr>\<rparr>)"
| task_visit: "i < MAX_MESSAGES \<Longrightarrow> scheduler_visit (sv_store (pe_services env)) now i (scheduler (pt_node pt)) = (is_due, st) \<Longrightarrow>
    task_step um env pt (pt\<lparr>pt_node := (pt_node pt)\<lparr>scheduler := st\<rparr>\<rparr>)"
| task_send: "i < MAX_MESSAGES \<Longrightarrow> send_begin (sv_store (pe_services env)) now random best local stack i (scheduler (pt_node pt)) = (request', st) \<Longrightarrow>
    task_step um env pt (pt\<lparr>pt_node := (pt_node pt)\<lparr>scheduler := st\<rparr>\<rparr>)"
| task_sent: "st = send_finish (sv_store (pe_services env)) now mid gen rid err (scheduler (pt_node pt)) \<Longrightarrow>
    task_step um env pt (pt\<lparr>pt_node := (pt_node pt)\<lparr>scheduler := st\<rparr>\<rparr>)"

text \<open>
  The states of a node: it starts from whatever its flash holds, a restart being a start from
  the flash the run before left, and then the tasks run in any order.
\<close>

inductive firmware_run ::
  "(bytes \<Rightarrow> bytes \<Rightarrow> bool) \<Rightarrow> ('n, 'c, 'q, 'r, 'k, 'o, 'f) portal_env \<Rightarrow> ('h, 'rq, 'rr) radio_services \<Rightarrow> ('n, 'c, 'q, 'r, 'f) portal \<Rightarrow> bool"
  for um env rsv where
  run_boot: "sys_portal sys = power_cycle pt \<Longrightarrow> app_boot env rsv bt sys = Some sys' \<Longrightarrow> firmware_run um env rsv (sys_portal sys')"
| run_task: "firmware_run um env rsv pt \<Longrightarrow> task_step um env pt pt' \<Longrightarrow> firmware_run um env rsv pt'"

lemma boot_wf:
  assumes "nvs_strings_fit (pe_config env)" "sys_portal sys = power_cycle pt" "app_boot env rsv bt sys = Some sys'"
  shows "portal_wf (sys_portal sys')"
proof -
  obtain mac4 mac5 where mac: "bt_mac bt = (mac4, mac5)" by fastforce
  define c0 where "c0 = node_config_set_identity (fst (boot_identity mac4 mac5 [])) (pt_config (sys_portal sys))"
  define c where "c = node_config_load (pe_config env) (fst (bt_random bt)) (snd (bt_random bt)) c0"
  have "field 32 (zeros 32)" by (simp add: field_zero zeros_def)
  then have "wf_config_state c0" using assms(2) by (simp add: c0_def power_cycle_def wf_config_state_def)
  from load_wf_credentials [OF assms(1) this, of "fst (bt_random bt)" "snd (bt_random bt)"]
  have c: "wf_config_state c" "nc_configured (node_config c) \<longrightarrow> \<not> weak_credentials (node_config c)" by (auto simp: c_def)
  have "pt_config (sys_portal sys') = node_config_set_identity (fst (boot_identity mac4 mac5 (identity c))) c"
    "pt_node (sys_portal sys') = app_runtime_start (pe_services env) mac4 mac5 (identity c) (snd (bt_ticks bt)) (power_on (pt_node pt))"
    using assms(2,3) mac
    by (auto simp: app_boot_def Let_def case_prod_unfold power_cycle_def c_def c0_def split: option.splits prod.splits)
  then show ?thesis using c power_on_wf by (simp add: portal_wf_def strong_def wf_config_state_def field_length)
qed

lemma task_wf: "task_step um env pt pt' \<Longrightarrow> portal_wf pt \<Longrightarrow> portal_wf pt'"
proof (induction rule: task_step.induct)
  case (task_receive rd stack frame rssi snr pt nd)
  then show ?case using handler_keeps_node_wf by (auto simp: portal_wf_def)
next
  case (task_serve hr request pt pt' tr)
  then show ?case using serve_wf by blast
next
  case (task_forward ticks stack pt out nd)
  then show ?case
    using receive_budgets [of "forwarder (pt_node pt)" "sv_jobs (pe_services env)" ticks]
    by (auto simp: portal_wf_def forward_worker_round_def node_wf_def split: prod.splits option.splits)
next
  case (task_sync_response ticks pt frames nd)
  then show ?case by (auto simp: portal_wf_def sync_response_round_def Let_def split: prod.splits option.splits)
next
  case (task_time_sync t1 t2 t3 pt frame' nd)
  then show ?case by (auto simp: portal_wf_def time_sync_round_def split: prod.splits)
next
  case (task_button pt)
  then show ?case by (rule erased_wf)
next
  case (task_boot_sync ready pt frame' pt')
  then show ?case by (auto simp: portal_wf_def boot_sync_round_def Let_def split: prod.splits if_splits)
next
  case (task_result st now res pt)
  then show ?case by (simp add: portal_wf_def node_wf_def radio_result_wf)
next
  case (task_visit i now pt is_due st)
  then show ?case using visit_wf by (auto simp: portal_wf_def node_wf_def)
next
  case (task_send i now random best local stack pt request' st)
  then show ?case using send_begin_wf by (auto simp: portal_wf_def node_wf_def)
next
  case (task_sent st now mid gen rid err pt)
  then show ?case by (simp add: portal_wf_def node_wf_def send_finish_wf)
qed


text \<open>
  C5. The memory of a node stays well formed and its credentials strong, whatever its flash
  held when it was switched on, whatever the radio delivers, whatever is asked of the portal
  and in whatever order its tasks run: every table keeps its size with counts and indices
  inside it, every stored message and transmission entry is well formed and within its limits,
  the configuration's strings end inside their buffers, and a node that counts itself
  configured has neither a short nor a default password, PIN or network key.
\<close>

theorem firmware_invariant:
  assumes "nvs_strings_fit (pe_config env)" "firmware_run um env rsv pt"
  shows "node_wf (pt_node pt) \<and> wf_config_state (pt_config pt) \<and> (pt_configured pt \<longrightarrow> \<not> weak_credentials (node_config (pt_config pt)))"
proof -
  have "portal_wf pt"
    using assms(2)
  proof (induction rule: firmware_run.induct)
    case (run_boot sys pt bt sys')
    then show ?case using boot_wf [OF assms(1)] by blast
  next
    case (run_task pt pt')
    then show ?case using task_wf by blast
  qed
  then show ?thesis by (simp add: portal_wf_def strong_def pt_configured_def)
qed

text \<open>A node that boots with empty flash and serves one request.\<close>

definition cold_system where
  "cold_system = \<lparr>sys_portal = power_cycle ((sample_portal False)\<lparr>pt_config := blank_config\<rparr>), sys_radio = demo_radio 0 RADIO_STATE_UNINITIALIZED,
     sys_storage = STORAGE_STATE_UNINITIALIZED, sys_mounted = False, sys_led = \<lparr>rgb_led_ready = False, led_trace = []\<rparr>,
     sys_ap = Inl ESP_FAIL\<rparr>"

theorem firmware_invariant_witness:
  "\<exists>sys' pt' tr. app_boot sample_env (demo_services 0x04) demo_boot cold_system = Some sys' \<and>
    http_serve simple_match sample_env portal_reads (sample_request None []) (sys_portal sys') = (pt', tr) \<and> node_wf (pt_node pt')"
proof -
  have "bus_ok (demo_services 0x04)" "sx1278_answers (demo_services 0x04)" "platform_ok (bt_radio demo_boot)"
    by (simp_all add: bus_ok_def sx1278_answers_def demo_services_def demo_spi_def radio_regs at_def platform_ok_def demo_start_def demo_boot_def)
  from wp_init_ok [OF this, of "\<lambda>res s. res = Some ()" "sys_radio cold_system"]
  obtain radio where r: "run_state (lora_radio_init (demo_services 0x04) (bt_radio demo_boot)) (sys_radio cold_system) = (Some (), radio)"
    by (metis (mono_tags, lifting) prod.collapse wp_run)
  then obtain sys' where b: "app_boot sample_env (demo_services 0x04) demo_boot cold_system = Some sys'"
    by (auto simp: app_boot_def Let_def case_prod_unfold)
  obtain pt' tr where h: "http_serve simple_match sample_env portal_reads (sample_request None []) (sys_portal sys') = (pt', tr)" by fastforce
  have "sys_portal cold_system = power_cycle ((sample_portal False)\<lparr>pt_config := blank_config\<rparr>)" by (simp add: cold_system_def)
  then have "firmware_run simple_match sample_env (demo_services 0x04) pt'"
    using run_task [OF run_boot [OF _ b] task_serve [OF h]] by blast
  moreover have "nvs_strings_fit (pe_config sample_env)" by (simp add: sample_env_def key_nvs_laws(3))
  ultimately have "node_wf (pt_node pt')" using firmware_invariant by blast
  then show ?thesis using b h by blast
qed

end
