(* ===== verification/Tx_Pipeline.thy ===== *)
theory Tx_Pipeline
  imports Lora_Radio_Props Tx_Scheduler_Props
begin

text \<open>
  The transmission scheduler on top of the radio driver: the request the scheduler hands to
  \<open>lora_tx_submit\<close>, its transmission by the transmit task, and the result's way back
  to the entry it belongs to.
\<close>

text \<open>What the transmit task reports about a request it served.\<close>

lemma serve_result:
  assumes "run_state (lora_tx_serve rsv tc t0 t1 request) s = (result, s')"
  shows "rr_request_id result = rq_request_id request \<and> rr_message_id result = rq_message_id request \<and>
    (rr_result result = LORA_TX_RESULT_SUCCESS \<longrightarrow>
       (\<exists>f. wv_sent (wire (radio_trace s')) = wv_sent (wire (radio_trace s)) @ [f]))"
proof -
  let ?r = "lora_tx_result_zero\<lparr>rr_request_id := rq_request_id request, rr_message_id := rq_message_id request,
    rr_started_at_ms := t0 * portTICK_PERIOD_MS\<rparr>"
  obtain code r s0 where e: "run_state (lora_execute_tx rsv tc request ?r) s = ((code, r), s0)" by (metis surj_pair)
  have out: "result = r\<lparr>rr_result := code, rr_completed_at_ms := t1 * portTICK_PERIOD_MS\<rparr>" "radio_trace s' = radio_trace s0"
    using assms e by (auto simp: lora_tx_serve_def Let_def modifies_def split: option.splits)
  show ?thesis using e
  proof (cases rule: execute_tx_cases)
    case (sent frame n)
    then show ?thesis using out by (cases code) auto
  next
    case unsent
    then show ?thesis using out by auto
  qed
qed

lemma begin_request:
  assumes "send_begin api now random best local stack i st = (Some request, st1)"
  shows "st1 = st\<lparr>tx_entries := (tx_entries st)[i := (tx_entries st ! i)\<lparr>te_state := TX_STATE_SUBMITTING,
      te_radio_request_id := rq_request_id request, te_attempts := te_attempts (tx_entries st ! i) + 1\<rparr>]\<rparr>"
    "rq_message_id request = em_id (te_message (tx_entries st ! i))" "te_active (tx_entries st ! i)"
  using assms by (auto simp: send_begin_def Let_def split: if_splits option.splits prod.splits)

text \<open>An entry alone under its identifiers is the one found, whatever else is asked of it.\<close>

definition alone :: "tx_entry_t list \<Rightarrow> nat \<Rightarrow> u32 \<Rightarrow> u32 \<Rightarrow> bool" where
  "alone es i message_id request_id \<longleftrightarrow> i < length es \<and>
    (\<forall>j<length es. j \<noteq> i \<longrightarrow> te_active (es ! j) \<longrightarrow>
       em_id (te_message (es ! j)) \<noteq> message_id \<or> te_radio_request_id (es ! j) \<noteq> request_id)"

lemma alone_update [simp]: "alone (es[i := e]) i m r \<longleftrightarrow> alone es i m r"
  by (auto simp: alone_def nth_list_update)

lemma alone_found:
  assumes "alone es i m r" "te_active (es ! i)" "em_id (te_message (es ! i)) = m" "te_radio_request_id (es ! i) = r"
  shows "find_entry_by_generation es m (te_generation (es ! i)) r = Some i"
    and "te_state (es ! i) = s \<Longrightarrow> find_index (\<lambda>c. te_active c \<and> te_state c = s \<and> em_id (te_message c) = m \<and> te_radio_request_id c = r) es = Some i"
  using assms by (auto simp: alone_def find_entry_by_generation_def intro!: find_index_unique)

text \<open>
  C19. The result of a transmission reaches the message it belongs to: when the scheduler has
  handed a request to the radio, the transmit task has served it, and no other transmission
  in progress has the same identifiers, the result moves exactly that entry, to waiting for
  the acknowledgement when a frame went out and to a retry otherwise, with one attempt more.
\<close>

theorem result_reaches_entry:
  assumes "send_begin api now random best local stack i st = (Some request, st1)"
    "alone (tx_entries st) i (rq_message_id request) (rq_request_id request)"
    "st2 = send_finish api now2 (rq_message_id request) (te_generation (tx_entries st ! i)) (rq_request_id request) ESP_OK st1"
    "run_state (lora_tx_serve rsv tc t0 t1 request) radio = (result, radio')"
    "st3 = handle_radio_result api now3 result st2"
  shows "(\<forall>j. j \<noteq> i \<longrightarrow> tx_entries st3 ! j = tx_entries st ! j) \<and> te_active (tx_entries st3 ! i) \<and>
    te_attempts (tx_entries st3 ! i) = te_attempts (tx_entries st ! i) + 1 \<and>
    te_state (tx_entries st3 ! i) = (if rr_result result = LORA_TX_RESULT_SUCCESS then TX_STATE_WAITING_ACK else TX_STATE_RETRY_BACKOFF) \<and>
    (te_state (tx_entries st3 ! i) = TX_STATE_WAITING_ACK \<longrightarrow>
       (\<exists>f. wv_sent (wire (radio_trace radio')) = wv_sent (wire (radio_trace radio)) @ [f]))"
proof -
  note b = begin_request [OF assms(1)] and r = serve_result [OF assms(4)]
  have i: "i < length (tx_entries st)" using assms(2) by (simp add: alone_def)
  let ?e1 = "(tx_entries st ! i)\<lparr>te_state := TX_STATE_SUBMITTING, te_radio_request_id := rq_request_id request,
    te_attempts := te_attempts (tx_entries st ! i) + 1\<rparr>"
  let ?e2 = "?e1\<lparr>te_state := TX_STATE_WAITING_RADIO, te_next_action_tick := now2 + pdMS_TO_TICKS 10000\<rparr>"
  have "find_entry_by_generation (tx_entries st1) (rq_message_id request) (te_generation (tx_entries st ! i)) (rq_request_id request) = Some i"
    using alone_found(1) [of "tx_entries st1" i "rq_message_id request" "rq_request_id request"] assms(2) b i by simp
  then have st2: "tx_entries st2 = (tx_entries st)[i := ?e2]"
    using b(1) i by (simp add: assms(3) send_finish_def at_entry_def)
  have f: "alone (tx_entries st2) i (rq_message_id request) (rq_request_id request)" "te_active (tx_entries st2 ! i)"
    "em_id (te_message (tx_entries st2 ! i)) = rq_message_id request" "te_radio_request_id (tx_entries st2 ! i) = rq_request_id request"
    using assms(2) b i by (simp_all add: st2)
  have st3: "st3 = at_entry i (radio_outcome api now3 (rr_result result)) st2"
    using alone_found(1) [OF f] alone_found(2) [OF f refl] r f i by (simp add: assms(5) handle_radio_result_def st2)
  then have "(\<forall>j. j \<noteq> i \<longrightarrow> tx_entries st3 ! j = tx_entries st ! j) \<and> te_active (tx_entries st3 ! i) \<and>
    te_attempts (tx_entries st3 ! i) = te_attempts (tx_entries st ! i) + 1 \<and>
    te_state (tx_entries st3 ! i) = (if rr_result result = LORA_TX_RESULT_SUCCESS then TX_STATE_WAITING_ACK else TX_STATE_RETRY_BACKOFF)"
    using i b(3) by (cases "rr_result result") (simp_all add: at_entry_def st2 radio_outcome_def split_beta)
  then show ?thesis using r by (auto split: if_splits)
qed

definition queued_sched :: "(bytes \<rightharpoonup> bytes) tx_sched" where
  "queued_sched = (sample_sched TX_STATE_QUEUED (lit ''BRAVO'' @ zeros 27))
    \<lparr>tx_entries := (sample_entry TX_STATE_QUEUED (lit ''BRAVO'' @ zeros 27))\<lparr>te_attempts := 0\<rparr> # replicate 15 tx_entry_zero\<rparr>"

definition queued_entry :: tx_entry_t where
  "queued_entry = (sample_entry TX_STATE_QUEUED (lit ''BRAVO'' @ zeros 27))\<lparr>te_attempts := 0\<rparr>"

lemma queued_entry_simps:
  "tx_entries queued_sched ! 0 = queued_entry" "te_active queued_entry" "te_state queued_entry = TX_STATE_QUEUED" "te_attempts queued_entry = 0"
  by (simp_all add: queued_sched_def queued_entry_def sample_entry_def)

lemma queued_packet:
  obtains out len where "prepare_current_packet None (lit ''ALPHA'' @ zeros 27) (zeros 227) queued_entry = Some (out, len)"
proof -
  let ?p = "prepare_packet None (lit ''ALPHA'' @ zeros 27) queued_entry"
  have w: "wf_packet ?p"
    by (simp add: prepare_packet_def wf_packet_def mesh_packet_zero_def Let_def route_entry_zero_def)
  have m: "em_source (te_message queued_entry) = lit ''ALPHA'' @ zeros 27" "em_payload (te_message queued_entry) = zeros PAYLOAD_LEN"
    by (simp_all add: queued_entry_def sample_entry_def sample_message_def emergency_message_zero_def)
  have a: "copied 32 (lit ''ALPHA'' @ zeros 27) = lit ''ALPHA''" "length (lit ''ALPHA'') = 5" by code_simp+
  have c: "cstr (mp_source ?p) = lit ''ALPHA''" "cstr (mp_relay ?p) = lit ''ALPHA''"
    using a by (simp_all add: prepare_packet_def Let_def route_entry_zero_def mesh_packet_zero_def m)
  have e: "str_empty (zeros n)" "copied n (zeros k) = []" for n k
    by (simp add: str_empty_def) (metis copied_cstr copied_empty cstr_zeros)
  have z: "str_empty (mp_next_hop ?p)" "\<not> has_location ?p" "payload_bytes ?p = []"
    by (simp_all add: prepare_packet_def Let_def route_entry_zero_def mesh_packet_zero_def has_location_def payload_bytes_def location_zero_def m e)
  have "length (cstr (mp_destination ?p)) < 32" using w by (simp add: wf_packet_def field_cstr)
  then have "length (v2_wire ?p (v2_layout_of ?p)) \<le> 227"
    by (simp add: v2_wire_def enc_head_def enc_route_def enc_location_def enc_payload_def c z a le32_def)
  moreover have "\<not> str_empty (mp_source ?p)" "\<not> str_empty (mp_relay ?p)" using c by (simp_all add: str_empty_def lit_def)
  ultimately show thesis using that
    by (simp add: prepare_current_packet_def build_forward_packet_v2_eq [OF w] BEMS_MAX_PLAINTEXT_def)
qed

theorem result_reaches_entry_witness:
  "\<exists>request st1 result radio'.
     send_begin map_nvs 7 5 None (lit ''ALPHA'' @ zeros 27) (zeros 227) 0 queued_sched = (Some request, st1) \<and>
     run_state (lora_tx_serve (demo_services 0x04) demo_crypto 0 0 request) (demo_radio 0 RADIO_STATE_RX) = (result, radio') \<and>
     te_attempts (tx_entries (handle_radio_result map_nvs 9 result (send_finish map_nvs 8 (rq_message_id request)
       (te_generation (tx_entries queued_sched ! 0)) (rq_request_id request) ESP_OK st1)) ! 0) = 1"
proof -
  obtain out len where p: "prepare_current_packet None (lit ''ALPHA'' @ zeros 27) (zeros 227) queued_entry = Some (out, len)"
    by (rule queued_packet)
  obtain request st1 where b: "send_begin map_nvs 7 5 None (lit ''ALPHA'' @ zeros 27) (zeros 227) 0 queued_sched = (Some request, st1)"
    by (simp add: send_begin_def Let_def queued_entry_simps p TX_RETRY_MAX_ATTEMPTS_def)
  have a: "alone (tx_entries queued_sched) 0 (rq_message_id request) (rq_request_id request)"
    by (simp add: alone_def queued_sched_def nth_Cons')
  obtain result radio' where r: "run_state (lora_tx_serve (demo_services 0x04) demo_crypto 0 0 request) (demo_radio 0 RADIO_STATE_RX) = (result, radio')"
    by (metis surj_pair)
  show ?thesis
    using result_reaches_entry [OF b a refl r refl, of 9 8] b r queued_entry_simps by auto
qed

end
