(* ===== verification/Dns_Server.thy ===== *)
theory Dns_Server
  imports BMesh_Prelude
begin

text \<open>
  \<open>src/network/dns_server.c\<close>: the resolver of the captive portal, which answers every A
  query with the address of the access point. Sockets are left out; one round of
  \<open>dns_task\<close> maps the buffer and the received length to the datagram sent, if any. A
  32-bit address is the four bytes \<open>memcpy\<close> takes.
\<close>

abbreviation DNS_HEADER_LEN :: nat where "DNS_HEADER_LEN \<equiv> 12"

definition DNS_TYPE_A :: u16 where "DNS_TYPE_A = 1"
definition DNS_TYPE_AAAA :: u16 where "DNS_TYPE_AAAA = 28"
definition DNS_CLASS_IN :: u16 where "DNS_CLASS_IN = 1"

definition read_u16_be :: "bytes \<Rightarrow> nat \<Rightarrow> u16" where
  "read_u16_be p i = push_bit 8 (ucast (p ! i)) OR ucast (p ! (i + 1))"

definition write_u16_be :: "bytes \<Rightarrow> nat \<Rightarrow> u16 \<Rightarrow> bytes" where
  "write_u16_be p i v = p[i := ucast (drop_bit 8 v), i + 1 := ucast v]"

text \<open>\<open>p\<close> holds the \<open>length\<close> bytes of the datagram; the result is the offset after the name.\<close>

function skip_name_loop :: "bytes \<Rightarrow> nat \<Rightarrow> nat \<Rightarrow> nat option" where
  "skip_name_loop p pos jumps =
    (if pos < length p then
       (let label = p ! pos in
        if label = 0 then Some (pos + 1)
        else if label AND 0xC0 = 0xC0 then
          (if pos + 1 \<ge> length p then None else if jumps > 4 then None else Some (pos + 2))
        else if label AND 0xC0 \<noteq> 0 \<or> label > 63 then None
        else if pos + 1 + unat label > length p then None
        else skip_name_loop p (pos + 1 + unat label) jumps)
     else None)"
  by pat_completeness auto
termination
  by (relation "measure (\<lambda>(p, pos, _). length p - pos)") auto

declare skip_name_loop.simps [simp del]

definition skip_dns_name :: "bytes \<Rightarrow> nat \<Rightarrow> nat option" where
  "skip_dns_name p offset = skip_name_loop p offset 0"

record dns_request_info_t =
  dr_valid :: bool
  dr_question_end :: nat
  dr_qdcount :: u16
  dr_qtype :: u16
  dr_qclass :: u16

text \<open>The result and what \<open>info\<close> holds on success.\<close>

definition dns_server_parse_request :: "bytes option \<Rightarrow> dns_request_info_t option" where
  "dns_server_parse_request packet =
    (case packet of
       None \<Rightarrow> None
     | Some p \<Rightarrow>
        if length p < DNS_HEADER_LEN then None
        else (let qdcount = read_u16_be p 4 in
          if qdcount \<noteq> 1 then None
          else (case skip_dns_name p DNS_HEADER_LEN of
            None \<Rightarrow> None
          | Some offset \<Rightarrow>
             if offset + 4 > length p then None
             else Some \<lparr>dr_valid = True, dr_question_end = offset + 4, dr_qdcount = qdcount,
               dr_qtype = read_u16_be p offset, dr_qclass = read_u16_be p (offset + 2)\<rparr>)))"

definition dns_server_build_response :: "bytes \<Rightarrow> dns_request_info_t \<Rightarrow> bytes \<Rightarrow> (bytes \<times> nat) option" where
  "dns_server_build_response buffer request ap_ip =
    (if \<not> dr_valid request \<or> dr_question_end request > length buffer then None
     else if dr_qclass request \<noteq> DNS_CLASS_IN then None
     else if dr_qtype request \<noteq> DNS_TYPE_A \<and> dr_qtype request \<noteq> DNS_TYPE_AAAA then None
     else
       (let buffer = buffer[2 := 0x81, 3 := 0x80, 6 := 0, 7 := 1, 8 := 0, 9 := 0, 10 := 0, 11 := 0];
            answer = dr_question_end request in
        if dr_qtype request = DNS_TYPE_A \<and> answer + 16 > length buffer then None
        else
          (let (buffer, answer) =
             (if dr_qtype request = DNS_TYPE_A
              then (blit (blit (buffer[8 := 0, 9 := 1]) answer [0xC0, 0x0C, 0x00, 0x01, 0x00, 0x01, 0x00, 0x00, 0x00, 0x3C, 0x00, 0x04])
                      (answer + 12) ap_ip, answer + 16)
              else (buffer, answer));
             buffer = write_u16_be buffer 4 1;
             buffer = write_u16_be buffer 6 (if dr_qtype request = DNS_TYPE_A then 1 else 0)
           in Some (buffer, answer))))"

text \<open>
  A round of the task: \<open>recvfrom\<close> leaves the datagram at the start of the buffer, behind it
  stand older bytes. The result is the datagram of \<open>sendto\<close>.
\<close>

definition dns_round :: "bytes \<Rightarrow> bytes \<Rightarrow> bytes \<Rightarrow> bytes option" where
  "dns_round ap_ip old datagram =
    (let buffer = blit old 0 datagram in
     if datagram = [] then None
     else (case dns_server_parse_request (Some (take (length datagram) buffer)) of
       None \<Rightarrow> None
     | Some request \<Rightarrow>
        map_option (\<lambda>(buffer, response_length). take response_length buffer) (dns_server_build_response buffer request ap_ip)))"

subsection \<open>Names\<close>

lemma skip_name_bounds: "skip_name_loop p pos jumps = Some off \<Longrightarrow> pos < off \<and> off \<le> length p"
proof (induction p pos jumps rule: skip_name_loop.induct)
  case (1 p pos jumps)
  have u: "skip_name_loop p pos jumps = Some off" by fact
  show ?case
  proof (cases "pos < length p \<and> p ! pos \<noteq> 0 \<and> p ! pos AND 0xC0 = 0 \<and> \<not> p ! pos > 63 \<and> \<not> pos + 1 + unat (p ! pos) > length p")
    case True
    then have "skip_name_loop p (pos + 1 + unat (p ! pos)) jumps = Some off"
      using u by (subst (asm) skip_name_loop.simps) (simp add: Let_def)
    with "1.IH" True show ?thesis by force
  next
    case False
    with u show ?thesis by (subst (asm) skip_name_loop.simps) (auto simp: Let_def split: if_splits)
  qed
qed

text \<open>The wire form of a name: length-prefixed labels and a zero.\<close>

definition dns_label :: "bytes \<Rightarrow> bool" where
  "dns_label l \<longleftrightarrow> 1 \<le> length l \<and> length l \<le> 63"

definition dns_name :: "bytes list \<Rightarrow> bytes" where
  "dns_name labels = concat (map (\<lambda>l. of_nat (length l) # l) labels) @ [0]"

lemma label_byte: "1 \<le> n \<Longrightarrow> n \<le> 63 \<Longrightarrow> (of_nat n :: u8) \<noteq> 0 \<and> of_nat n AND 0xC0 = (0 :: u8) \<and> \<not> of_nat n > (63 :: u8) \<and> unat (of_nat n :: u8) = n"
proof -
  assume n: "1 \<le> n" "n \<le> 63"
  have "list_all (\<lambda>n. (of_nat n :: u8) AND 0xC0 = 0) [0..<64]" by code_simp
  then have "(of_nat n :: u8) AND 0xC0 = 0" using n by (simp add: list_all_iff)
  moreover have u: "unat (of_nat n :: u8) = n" using n by (simp add: unat_of_nat)
  moreover have "(of_nat n :: u8) \<noteq> 0" using u n(1) by (metis not_one_le_zero unsigned_0)
  ultimately show ?thesis using n by (auto simp: word_less_nat_alt)
qed

lemma skip_name_labels:
  "list_all dns_label labels \<Longrightarrow> skip_name_loop (pre @ dns_name labels @ post) (length pre) jumps = Some (length pre + length (dns_name labels))"
proof (induction labels arbitrary: pre)
  case Nil
  then show ?case by (subst skip_name_loop.simps) (simp add: dns_name_def nth_append)
next
  case (Cons l labels)
  let ?n = "of_nat (length l) :: u8"
  let ?p = "pre @ dns_name (l # labels) @ post"
  have l: "?n \<noteq> 0 \<and> ?n AND 0xC0 = 0 \<and> \<not> ?n > 63 \<and> unat ?n = length l"
    using Cons.prems by (intro label_byte) (simp_all add: dns_label_def)
  have p: "?p = (pre @ ?n # l) @ dns_name labels @ post" by (simp add: dns_name_def)
  have "?p ! length pre = ?n" "length pre + 1 + length l \<le> length ?p" by (simp_all add: p)
  with l have "skip_name_loop ?p (length pre) jumps = skip_name_loop ?p (length pre + 1 + length l) jumps"
    using p by (subst skip_name_loop.simps) (simp add: Let_def dns_name_def)
  also have "\<dots> = Some (length (pre @ ?n # l) + length (dns_name labels))"
    using Cons.IH [of "pre @ ?n # l"] Cons.prems unfolding p by simp
  finally show ?case by (simp add: dns_name_def)
qed

subsection \<open>Replies\<close>

text \<open>
  A query: identifier, flags, one question and three more counts, the name, type and class;
  \<open>rest\<close> is what follows the question (an EDNS record, say).
\<close>

definition dns_query :: "u8 \<times> u8 \<Rightarrow> u8 \<times> u8 \<Rightarrow> bytes \<Rightarrow> bytes list \<Rightarrow> u8 \<Rightarrow> bytes \<Rightarrow> bytes" where
  "dns_query ident flags counts labels qtype rest =
    [fst ident, snd ident, fst flags, snd flags, 0, 1] @ counts @ dns_name labels @ [0, qtype, 0, 1] @ rest"

definition dns_reply_head :: "u8 \<times> u8 \<Rightarrow> u8 \<Rightarrow> u8 \<Rightarrow> bytes list \<Rightarrow> u8 \<Rightarrow> bytes" where
  "dns_reply_head ident answers authorities labels qtype =
    [fst ident, snd ident, 0x81, 0x80, 0, 1, 0, answers, 0, authorities, 0, 0] @ dns_name labels @ [0, qtype, 0, 1]"

lemma read_u16_at: "read_u16_be (a @ [0, v, x, y] @ b) (length a) = ucast v" "read_u16_be (a @ [x, y, 0, v] @ b) (length a + 2) = ucast v"
  by (simp_all add: read_u16_be_def nth_append)

lemma parse_query:
  assumes "list_all dns_label labels" "length counts = 6"
  shows "dns_server_parse_request (Some (dns_query ident flags counts labels qtype rest)) =
    Some \<lparr>dr_valid = True, dr_question_end = 12 + length (dns_name labels) + 4, dr_qdcount = 1, dr_qtype = ucast qtype, dr_qclass = 1\<rparr>"
proof -
  let ?h = "[fst ident, snd ident, fst flags, snd flags, 0, 1] @ counts"
  let ?q = "dns_query ident flags counts labels qtype rest"
  have h: "length ?h = 12" using assms(2) by simp
  have q: "?q = ?h @ dns_name labels @ ([0, qtype, 0, 1] @ rest)" "?q = (?h @ dns_name labels) @ [0, qtype, 0, 1] @ rest"
    by (simp_all add: dns_query_def)
  have "skip_dns_name ?q 12 = Some (12 + length (dns_name labels))"
    using skip_name_labels [OF assms(1), of ?h "[0, qtype, 0, 1] @ rest"] by (simp add: skip_dns_name_def q(1) h [simplified])
  moreover have "read_u16_be ?q 4 = 1" by (simp add: read_u16_be_def dns_query_def)
  moreover have "read_u16_be ?q (12 + length (dns_name labels)) = ucast qtype" "read_u16_be ?q (12 + length (dns_name labels) + 2) = 1"
    using read_u16_at(1) [of "?h @ dns_name labels" qtype 0 1 rest] read_u16_at(2) [of "?h @ dns_name labels" 0 qtype 1 rest] h
    unfolding q(2) by simp_all
  moreover have "length ?q = 12 + length (dns_name labels) + 4 + length rest" using assms(2) by (simp add: dns_query_def)
  ultimately show ?thesis by (simp add: dns_server_parse_request_def Let_def)
qed

lemma blit_after: "length a = k \<Longrightarrow> blit (a @ r) k d = a @ d @ drop (length d) r"
  by (simp add: blit_def)

lemma six_counts: "length counts = 6 \<Longrightarrow> \<exists>c0 c1 c2 c3 c4 c5. counts = [c0, c1, c2, c3, c4, c5]"
  by (auto simp: numeral_eq_Suc length_Suc_conv)

lemma reply_header:
  assumes "length counts = 6"
  shows "(([i0, i1, f0, f1, 0, 1] @ counts) @ r)[2 := 0x81, 3 := 0x80, 6 := 0, 7 := 1, 8 := 0, 9 := 0, 10 := 0, 11 := 0] =
    [i0, i1, 0x81, 0x80, 0, 1, 0, 1, 0, 0, 0, 0] @ r"
  using six_counts [OF assms] by (auto simp: numeral_eq_Suc)

lemma reply_counts:
  "write_u16_be (write_u16_be (i0 # i1 # 0x81 # 0x80 # 0 # 1 # 0 # 1 # r) 4 1) 6 v =
    i0 # i1 # 0x81 # 0x80 # 0 # 1 # ucast (drop_bit 8 v) # ucast v # r"
  by (simp add: write_u16_be_def numeral_eq_Suc)

text \<open>
  C28. A query for the address of any name, with whatever flags, counts and further records,
  is answered by the address of the access point: the reply repeats the identifier and the
  question and carries one A record that points back to the name. The header counts that
  record twice, once as an answer and once as an authority record which the reply does not
  have.
\<close>

theorem dns_answers_address_query:
  assumes "list_all dns_label labels" "length counts = 6" "length old = 512" "length ap_ip = 4"
    and "length (dns_query ident flags counts labels 1 rest) \<le> 512" "length (dns_name labels) + 32 \<le> 512"
  shows "dns_round ap_ip old (dns_query ident flags counts labels 1 rest) =
    Some (dns_reply_head ident 1 1 labels 1 @ [0xC0, 0x0C, 0, 1, 0, 1, 0, 0, 0, 0x3C, 0, 4] @ ap_ip)"
proof -
  let ?q = "dns_query ident flags counts labels 1 rest" and ?N = "dns_name labels @ [0, 1, 0, 1]"
  let ?A = "[0xC0, 0x0C, 0, 1, 0, 1, 0, 0, 0, 0x3C, 0, 4] :: bytes"
  obtain i0 i1 f0 f1 where id: "ident = (i0, i1)" "flags = (f0, f1)" by (cases ident, cases flags) auto
  define R where "R = rest @ drop (length ?q) old"
  have b: "blit old 0 ?q = ([i0, i1, f0, f1, 0, 1] @ counts) @ ?N @ R"
    by (simp add: blit_def dns_query_def R_def id)
  have len: "length (blit old 0 ?q) = 512" using assms(3,5) by simp
  have R: "16 \<le> length R" using len assms(2,6) unfolding b by simp
  let ?H = "\<lambda>x. [i0, i1, 0x81, 0x80, 0, 1, 0, 1, 0, x, 0, 0] :: bytes"
  have a: "12 + length (dns_name labels) + 4 = length (?H 0 @ ?N)" by simp
  have w: "blit (blit ((?H 0 @ ?N @ R)[8 := 0, 9 := 1]) (16 + length (dns_name labels)) ?A) (28 + length (dns_name labels)) ap_ip =
      ?H 1 @ ?N @ ?A @ ap_ip @ drop 16 R"
  proof -
    have "(?H 0 @ ?N @ R)[8 := 0, 9 := 1] = (?H 1 @ ?N) @ R" by (simp add: numeral_eq_Suc)
    moreover have "blit ((?H 1 @ ?N) @ R) (16 + length (dns_name labels)) ?A = (?H 1 @ ?N) @ ?A @ drop 12 R"
      by (subst blit_after) (simp_all add: numeral_eq_Suc)
    moreover have "blit ((?H 1 @ ?N @ ?A) @ drop 12 R) (28 + length (dns_name labels)) ap_ip = (?H 1 @ ?N @ ?A) @ ap_ip @ drop 16 R"
      using assms(4) by (subst blit_after) simp_all
    ultimately show ?thesis by (simp only: append_assoc)
  qed
  have "dns_server_build_response (blit old 0 ?q) \<lparr>dr_valid = True, dr_question_end = 12 + length (dns_name labels) + 4,
      dr_qdcount = 1, dr_qtype = ucast (1 :: u8), dr_qclass = 1\<rparr> ap_ip =
    Some (?H 1 @ ?N @ ?A @ ap_ip @ drop 16 R, 32 + length (dns_name labels))"
  proof -
    have u: "(blit old 0 ?q)[2 := 0x81, 3 := 0x80, 6 := 0, 7 := 1, 8 := 0, 9 := 0, 10 := 0, 11 := 0] = ?H 0 @ ?N @ R"
      unfolding b by (rule reply_header [OF assms(2)])
    have c: "write_u16_be (write_u16_be (?H 1 @ ?N @ ?A @ ap_ip @ drop 16 R) 4 1) 6 1 = ?H 1 @ ?N @ ?A @ ap_ip @ drop 16 R"
      by (simp add: reply_counts)
    show ?thesis using assms(6) R
      by (simp add: dns_server_build_response_def u [simplified] len DNS_CLASS_IN_def DNS_TYPE_A_def Let_def w [simplified] c [simplified])
  qed
  moreover have "take (length ?q) (blit old 0 ?q) = ?q" "?q \<noteq> []" by (simp_all add: blit_def) (simp add: dns_query_def)
  ultimately have "dns_round ap_ip old ?q = Some (take (32 + length (dns_name labels)) (?H 1 @ ?N @ ?A @ ap_ip @ drop 16 R))"
    using parse_query [OF assms(1,2), of ident flags 1 rest] by (simp add: dns_round_def Let_def)
  also have "take (32 + length (dns_name labels)) (?H 1 @ ?N @ ?A @ ap_ip @ drop 16 R) = ?H 1 @ ?N @ ?A @ ap_ip"
    using take_append [of "length (?H 1 @ ?N @ ?A @ ap_ip)" "?H 1 @ ?N @ ?A @ ap_ip" "drop 16 R"] assms(4) by (simp add: numeral_eq_Suc)
  finally show ?thesis by (simp add: dns_reply_head_def id)
qed

text \<open>
  A query for an IPv6 address is answered without an answer record, so that the client
  falls back to IPv4.
\<close>

theorem dns_no_ipv6_answer:
  assumes "list_all dns_label labels" "length counts = 6" "length old = 512" "length (dns_query ident flags counts labels 28 rest) \<le> 512"
  shows "dns_round ap_ip old (dns_query ident flags counts labels 28 rest) = Some (dns_reply_head ident 0 0 labels 28)"
proof -
  let ?q = "dns_query ident flags counts labels 28 rest" and ?N = "dns_name labels @ [0, 28, 0, 1]"
  obtain i0 i1 f0 f1 where id: "ident = (i0, i1)" "flags = (f0, f1)" by (cases ident, cases flags) auto
  define R where "R = rest @ drop (length ?q) old"
  have b: "blit old 0 ?q = ([i0, i1, f0, f1, 0, 1] @ counts) @ ?N @ R"
    by (simp add: blit_def dns_query_def R_def id)
  have len: "length (blit old 0 ?q) = 512" using assms(3,4) by simp
  let ?H = "[i0, i1, 0x81, 0x80, 0, 1, 0, 1, 0, 0, 0, 0] :: bytes"
  have u: "(blit old 0 ?q)[2 := 0x81, 3 := 0x80, 6 := 0, 7 := 1, 8 := 0, 9 := 0, 10 := 0, 11 := 0] = ?H @ ?N @ R"
    unfolding b by (rule reply_header [OF assms(2)])
  have "12 + length (dns_name labels) + 4 \<le> 512" using assms(2,4) by (simp add: dns_query_def)
  then have "dns_server_build_response (blit old 0 ?q) \<lparr>dr_valid = True, dr_question_end = 12 + length (dns_name labels) + 4,
      dr_qdcount = 1, dr_qtype = ucast (28 :: u8), dr_qclass = 1\<rparr> ap_ip =
    Some ([i0, i1, 0x81, 0x80, 0, 1, 0, 0, 0, 0, 0, 0] @ ?N @ R, 16 + length (dns_name labels))"
    by (simp add: dns_server_build_response_def u [simplified] len DNS_CLASS_IN_def DNS_TYPE_A_def DNS_TYPE_AAAA_def Let_def reply_counts)
  moreover have "take (length ?q) (blit old 0 ?q) = ?q" "?q \<noteq> []" by (simp_all add: blit_def) (simp add: dns_query_def)
  moreover have "take (16 + length (dns_name labels)) ([i0, i1, 0x81, 0x80, 0, 1, 0, 0, 0, 0, 0, 0] @ ?N @ R) =
      [i0, i1, 0x81, 0x80, 0, 1, 0, 0, 0, 0, 0, 0] @ ?N" by (simp add: numeral_eq_Suc)
  ultimately show ?thesis
    using parse_query [OF assms(1,2), of ident flags 28 rest]
    by (simp add: dns_round_def Let_def dns_reply_head_def id)
qed

text \<open>
  Whatever is received, the resolver reads and writes inside its buffer: the question it
  finds ends within the datagram, and a reply is at most 16 bytes longer than the question
  and at most 512 bytes.
\<close>

theorem dns_round_within_buffer:
  assumes "length old = 512" "length datagram \<le> 512" "length ap_ip = 4" "dns_round ap_ip old datagram = Some reply"
  shows "\<exists>info. dns_server_parse_request (Some datagram) = Some info \<and> 17 \<le> dr_question_end info \<and>
    dr_question_end info \<le> length datagram \<and> length reply \<le> dr_question_end info + 16 \<and> length reply \<le> 512"
proof -
  have t: "take (length datagram) (blit old 0 datagram) = datagram" by (simp add: blit_def)
  obtain info buf n where i: "dns_server_parse_request (Some datagram) = Some info"
    "dns_server_build_response (blit old 0 datagram) info ap_ip = Some (buf, n)" "reply = take n buf"
    using assms(4) t by (auto simp: dns_round_def Let_def split: if_splits option.splits)
  have "length (blit old 0 datagram) = 512" using assms(1,2) by simp
  then have n: "n \<le> dr_question_end info + 16" "n \<le> 512"
    using i(2) by (auto simp: dns_server_build_response_def Let_def split: if_splits)
  have "17 \<le> dr_question_end info \<and> dr_question_end info \<le> length datagram"
    using i(1) by (auto simp: dns_server_parse_request_def skip_dns_name_def Let_def dest!: skip_name_bounds split: if_splits option.splits)
  with i n show ?thesis by auto
qed

theorem dns_answers_address_query_witness:
  "dns_round [192, 168, 4, 1] (zeros 512) (dns_query (7, 9) (1, 0) [0, 0, 0, 0, 0, 0] [lit ''portal'', lit ''lan''] 1 []) =
    Some (dns_reply_head (7, 9) 1 1 [lit ''portal'', lit ''lan''] 1 @ [0xC0, 0x0C, 0, 1, 0, 1, 0, 0, 0, 0x3C, 0, 4, 192, 168, 4, 1])"
  using dns_answers_address_query [of "[lit ''portal'', lit ''lan'']" "[0, 0, 0, 0, 0, 0]" "zeros 512" "[192, 168, 4, 1]" "(7, 9)" "(1, 0)" "[]"]
  by (simp add: dns_label_def dns_query_def dns_name_def)

theorem dns_no_ipv6_answer_witness:
  "dns_round [192, 168, 4, 1] (zeros 512) (dns_query (7, 9) (1, 0) [0, 0, 0, 0, 0, 0] [lit ''portal''] 28 []) =
    Some (dns_reply_head (7, 9) 0 0 [lit ''portal''] 28)"
  using dns_no_ipv6_answer [of "[lit ''portal'']" "[0, 0, 0, 0, 0, 0]" "zeros 512" "(7, 9)" "(1, 0)" "[]"]
  by (simp add: dns_label_def dns_query_def dns_name_def)

theorem dns_round_within_buffer_witness:
  "\<exists>reply. dns_round [192, 168, 4, 1] (zeros 512) ([7, 9, 1, 0, 0, 1, 0, 0, 0, 0, 0, 0] @ [1, 97, 0, 0, 1, 0, 1]) = Some reply \<and> length reply \<le> 512"
proof -
  have "dns_round [192, 168, 4, 1] (zeros 512) ([7, 9, 1, 0, 0, 1, 0, 0, 0, 0, 0, 0] @ [1, 97, 0, 0, 1, 0, 1]) \<noteq> None" by code_simp
  then obtain reply where r: "dns_round [192, 168, 4, 1] (zeros 512) ([7, 9, 1, 0, 0, 1, 0, 0, 0, 0, 0, 0] @ [1, 97, 0, 0, 1, 0, 1]) = Some reply"
    by auto
  have "length reply \<le> 512" using dns_round_within_buffer [OF _ _ _ r] by auto
  with r show ?thesis by blast
qed

end
